(* ===== verification/TM_Prelude.thy ===== *)
theory TM_Prelude
  imports Main "HOL-Library.Finite_Map" "HOL-Library.List_Lexorder" "HOL-Library.Code_Target_Nat"
begin

text \<open>
  Shared vocabulary of the development.

  \<^item> Rust strings are lists of Unicode scalar values (type \<open>str\<close>). The byte order of UTF-8
    agrees with the order of the scalar values, so the lexicographic order of \<open>List_Lexorder\<close>
    is Rust's \<open>Ord for str\<close>; \<open>str_len\<close> is the UTF-8 byte length \<open>str::len\<close>.
  \<^item> Unsigned machine integers are natural numbers. Saturating, checked and rounding operations
    carry their width explicitly; a plain \<open>+\<close> of the source is \<open>+\<close> here, and the theories that
    use it prove the bound that makes the machine operation exact.
  \<^item> \<open>BTreeMap\<close> is a finite map; \<open>bt_keys\<close> and \<open>bt_values\<close> are its ordered iteration.
  \<^item> \<open>fmsum f m\<close> adds the weight \<open>f\<close> of every record of a finite map. Every incrementally
    maintained total of the engine is compared with such a sum.
\<close>

section \<open>Collections of rewrite rules\<close>

named_theorems width_simps \<open>machine integer operations\<close>
named_theorems fmsum_simps \<open>weights of a finite map after an update\<close>
named_theorems model_defs \<open>definitions unfolded to evaluate a closed term\<close>

section \<open>Strings\<close>

type_synonym str = "nat list"

definition lit :: "string \<Rightarrow> str" where
  "lit s = map of_char s"

definition utf8_len :: "nat \<Rightarrow> nat" where
  "utf8_len c = (if c < 128 then 1 else if c < 2048 then 2 else if c < 65536 then 3 else 4)"

definition str_len :: "str \<Rightarrow> nat" where
  "str_len s = sum_list (map utf8_len s)"

text \<open>Unicode \<open>White_Space\<close>, the class \<open>str::trim\<close> removes.\<close>

definition is_whitespace :: "nat \<Rightarrow> bool" where
  "is_whitespace c \<longleftrightarrow> (9 \<le> c \<and> c \<le> 13) \<or> c = 32 \<or> c = 133 \<or> c = 160 \<or> c = 5760
     \<or> (8192 \<le> c \<and> c \<le> 8202) \<or> c = 8232 \<or> c = 8233 \<or> c = 8239 \<or> c = 8287 \<or> c = 12288"

definition trim :: "str \<Rightarrow> str" where
  "trim s = rev (dropWhile is_whitespace (rev (dropWhile is_whitespace s)))"

lemma trim_Nil [simp]: "trim [] = []"
  by (simp add: trim_def)

lemma trim_eq_Nil_iff: "trim s = [] \<longleftrightarrow> list_all is_whitespace s"
proof
  assume "trim s = []"
  then have *: "\<forall>c \<in> set (dropWhile is_whitespace s). is_whitespace c"
    by (simp add: trim_def)
  show "list_all is_whitespace s"
  proof (cases "dropWhile is_whitespace s")
    case Nil
    then show ?thesis by (auto simp: list_all_iff)
  next
    case (Cons a xs)
    then have "\<not> is_whitespace a" using hd_dropWhile [of is_whitespace s] by simp
    with * Cons show ?thesis by simp
  qed
next
  assume "list_all is_whitespace s"
  then have "dropWhile is_whitespace s = []" by (simp add: list_all_iff)
  then have "trim s = rev (dropWhile is_whitespace (rev []))" by (simp only: trim_def)
  then show "trim s = []" by simp
qed

lemma dropWhile_id_iff: "dropWhile P xs = xs \<longleftrightarrow> xs = [] \<or> \<not> P (hd xs)"
proof (cases xs)
  case (Cons a ys)
  then show ?thesis
    using length_dropWhile_le [of P ys] by (auto dest: arg_cong [where f = length])
qed simp

lemma trim_id_iff: "trim s = s \<longleftrightarrow> s = [] \<or> (\<not> is_whitespace (hd s) \<and> \<not> is_whitespace (last s))"
proof (cases "s = []")
  case False
  let ?d = "dropWhile is_whitespace s"
  have len: "length (trim s) \<le> length ?d" "length ?d \<le> length s"
    using length_dropWhile_le [of is_whitespace "rev ?d"] by (simp_all add: trim_def length_dropWhile_le)
  have "trim s = s \<longleftrightarrow> ?d = s \<and> dropWhile is_whitespace (rev s) = rev s"
  proof
    assume eq: "trim s = s"
    then have "length ?d = length s" using len by simp
    then have d: "?d = s"
      by (metis append_eq_conv_conj drop_0 length_append self_append_conv2 takeWhile_dropWhile_id
          add_cancel_left_left length_0_conv)
    with eq show "?d = s \<and> dropWhile is_whitespace (rev s) = rev s"
      by (simp add: trim_def rev_swap)
  qed (simp add: trim_def)
  with False show ?thesis by (auto simp: dropWhile_id_iff hd_rev)
qed simp

section \<open>Results\<close>

text \<open>\<open>Result<T, E>\<close> is a sum with the error on the left; \<open>and_then\<close> is the operator \<open>?\<close>.\<close>

type_synonym ('e, 'a) result = "'e + 'a"

definition and_then :: "('e, 'a) result \<Rightarrow> ('a \<Rightarrow> ('e, 'b) result) \<Rightarrow> ('e, 'b) result" where
  "and_then r k = (case r of Inl e \<Rightarrow> Inl e | Inr a \<Rightarrow> k a)"

definition ensure :: "bool \<Rightarrow> 'e \<Rightarrow> ('e, unit) result" where
  "ensure ok e = (if ok then Inr () else Inl e)"

definition map_err :: "('e \<Rightarrow> 'f) \<Rightarrow> ('e, 'a) result \<Rightarrow> ('f, 'a) result" where
  "map_err f r = (case r of Inl e \<Rightarrow> Inl (f e) | Inr a \<Rightarrow> Inr a)"

definition ok_or :: "'a option \<Rightarrow> 'e \<Rightarrow> ('e, 'a) result" where
  "ok_or x e = (case x of None \<Rightarrow> Inl e | Some a \<Rightarrow> Inr a)"

lemma and_then_simps [simp]:
  "and_then (Inl e) k = Inl e"
  "and_then (Inr a) k = k a"
  by (simp_all add: and_then_def)

lemma and_then_Inr_iff: "and_then r k = Inr b \<longleftrightarrow> (\<exists>a. r = Inr a \<and> k a = Inr b)"
  by (cases r) simp_all

lemma and_then_Inl_iff:
  "and_then r k = Inl e \<longleftrightarrow> r = Inl e \<or> (\<exists>a. r = Inr a \<and> k a = Inl e)"
  by (cases r) simp_all

lemma ensure_Inr_iff [simp]: "ensure ok e = Inr u \<longleftrightarrow> ok"
  by (simp add: ensure_def)

lemma ensure_Inl_iff [simp]: "ensure ok e = Inl e' \<longleftrightarrow> \<not> ok \<and> e' = e"
  by (auto simp: ensure_def)

lemma map_err_Inr_iff [simp]: "map_err f r = Inr a \<longleftrightarrow> r = Inr a"
  by (cases r) (simp_all add: map_err_def)

lemma ok_or_Inr_iff [simp]: "ok_or x e = Inr a \<longleftrightarrow> x = Some a"
  by (cases x) (simp_all add: ok_or_def)

lemmas result_simps = and_then_Inr_iff and_then_Inl_iff

section \<open>Machine integers\<close>

definition u32_max :: nat where "u32_max = 2 ^ 32 - 1"
definition u64_max :: nat where "u64_max = 2 ^ 64 - 1"
definition u128_max :: nat where "u128_max = 2 ^ 128 - 1"

definition saturating_add :: "nat \<Rightarrow> nat \<Rightarrow> nat \<Rightarrow> nat" where
  "saturating_add mx a b = (if a + b \<le> mx then a + b else mx)"

definition saturating_mul :: "nat \<Rightarrow> nat \<Rightarrow> nat \<Rightarrow> nat" where
  "saturating_mul mx a b = (if a * b \<le> mx then a * b else mx)"

definition saturating_sub :: "nat \<Rightarrow> nat \<Rightarrow> nat" where
  "saturating_sub a b = (if b \<le> a then a - b else 0)"

definition checked_add :: "nat \<Rightarrow> nat \<Rightarrow> nat \<Rightarrow> nat option" where
  "checked_add mx a b = (if a + b \<le> mx then Some (a + b) else None)"

definition checked_sub :: "nat \<Rightarrow> nat \<Rightarrow> nat option" where
  "checked_sub a b = (if b \<le> a then Some (a - b) else None)"

definition div_ceil :: "nat \<Rightarrow> nat \<Rightarrow> nat" where
  "div_ceil a b = a div b + (if 0 < a mod b then 1 else 0)"

lemma saturating_sub_eq [simp]: "saturating_sub a b = a - b"
  by (simp add: saturating_sub_def)

lemma saturating_add_exact [width_simps]: "a + b \<le> mx \<Longrightarrow> saturating_add mx a b = a + b"
  by (simp add: saturating_add_def)

lemma saturating_add_le: "saturating_add mx a b \<le> mx"
  by (simp add: saturating_add_def)

lemma saturating_add_ge: "a \<le> mx \<Longrightarrow> a \<le> saturating_add mx a b"
  by (simp add: saturating_add_def)

lemma saturating_mul_exact [width_simps]: "a * b \<le> mx \<Longrightarrow> saturating_mul mx a b = a * b"
  by (simp add: saturating_mul_def)

lemma checked_add_Some_iff [simp]: "checked_add mx a b = Some c \<longleftrightarrow> a + b \<le> mx \<and> c = a + b"
  by (auto simp: checked_add_def)

lemma checked_add_None_iff [simp]: "checked_add mx a b = None \<longleftrightarrow> mx < a + b"
  by (auto simp: checked_add_def)

lemma div_ceil_0 [simp]: "div_ceil 0 b = 0"
  by (simp add: div_ceil_def)

text \<open>\<open>div_ceil\<close> is the least multiple count that covers its argument.\<close>

lemma div_ceil_le_iff: "0 < b \<Longrightarrow> div_ceil a b \<le> n \<longleftrightarrow> a \<le> n * b"
proof -
  assume b: "0 < b"
  have eq: "a = a div b * b + a mod b" by (simp add: mult.commute)
  show ?thesis
  proof (cases "a mod b = 0")
    case True
    then have "a = a div b * b" using eq by simp
    then show ?thesis using b True unfolding div_ceil_def
      by (metis add.right_neutral less_numeral_extra(3) mult_le_cancel2)
  next
    case False
    then have "div_ceil a b = Suc (a div b)" by (simp add: div_ceil_def)
    moreover have "Suc (a div b) \<le> n \<longleftrightarrow> a \<le> n * b"
    proof
      assume "Suc (a div b) \<le> n"
      then have "Suc (a div b) * b \<le> n * b" by (rule mult_le_mono1)
      moreover have "a < Suc (a div b) * b"
        using b by (metis dividend_less_div_times mult.commute mult_Suc)
      ultimately show "a \<le> n * b" by linarith
    next
      assume le: "a \<le> n * b"
      show "Suc (a div b) \<le> n"
      proof (rule ccontr)
        assume "\<not> Suc (a div b) \<le> n"
        then have "n * b \<le> a div b * b" by simp
        with le eq False show False by linarith
      qed
    qed
    ultimately show ?thesis by simp
  qed
qed

lemma div_ceil_covers: "0 < b \<Longrightarrow> a \<le> div_ceil a b * b"
  using div_ceil_le_iff [of b a "div_ceil a b"] by simp

lemma div_ceil_least: "0 < b \<Longrightarrow> n < div_ceil a b \<Longrightarrow> n * b < a"
  using div_ceil_le_iff [of b a n] by simp

lemma div_ceil_pos: "0 < a \<Longrightarrow> 0 < b \<Longrightarrow> 0 < div_ceil a b"
  using div_ceil_le_iff [of b a 0] by simp

section \<open>Ordered finite maps and their weights\<close>

definition bt_keys :: "('k::linorder, 'v) fmap \<Rightarrow> 'k list" where
  "bt_keys m = sorted_list_of_fset (fmdom m)"

definition bt_entries :: "('k::linorder, 'v) fmap \<Rightarrow> ('k \<times> 'v) list" where
  "bt_entries m = map (\<lambda>k. (k, the (fmlookup m k))) (bt_keys m)"

definition bt_values :: "('k::linorder, 'v) fmap \<Rightarrow> 'v list" where
  "bt_values m = map snd (bt_entries m)"

definition bt_len :: "('k::linorder, 'v) fmap \<Rightarrow> nat" where
  "bt_len m = length (bt_keys m)"

definition fmget :: "('k, 'v) fmap \<Rightarrow> 'v \<Rightarrow> 'k \<Rightarrow> 'v" where
  "fmget m d k = (case fmlookup m k of None \<Rightarrow> d | Some v \<Rightarrow> v)"

lemma fmget_upd [simp]: "fmget (fmupd k v m) d k' = (if k' = k then v else fmget m d k')"
  by (simp add: fmget_def)

lemma fmget_drop [simp]: "fmget (fmdrop k m) d k' = (if k' = k then d else fmget m d k')"
  by (simp add: fmget_def)

lemma fmget_empty [simp]: "fmget fmempty d k = d"
  by (simp add: fmget_def)

lemma fmget_Some: "fmlookup m k = Some v \<Longrightarrow> fmget m d k = v"
  by (simp add: fmget_def)

lemma set_bt_keys [simp]: "set (bt_keys m) = fset (fmdom m)"
  by (simp add: bt_keys_def sorted_list_of_fset.rep_eq)

lemma distinct_bt_keys [simp]: "distinct (bt_keys m)"
  by (simp add: bt_keys_def sorted_list_of_fset.rep_eq)

lemma sorted_bt_keys [simp]: "sorted (bt_keys m)"
  by (simp add: bt_keys_def sorted_list_of_fset.rep_eq)

lemma bt_len_eq: "bt_len m = card (fset (fmdom m))"
  unfolding bt_len_def by (metis distinct_bt_keys distinct_card set_bt_keys)

lemma set_bt_entries: "(k, v) \<in> set (bt_entries m) \<longleftrightarrow> fmlookup m k = Some v"
  by (auto simp: bt_entries_def image_iff fmlookup_dom_iff)

lemma map_fst_bt_entries [simp]: "map fst (bt_entries m) = bt_keys m"
  by (simp add: bt_entries_def comp_def)

lemma set_bt_values: "v \<in> set (bt_values m) \<longleftrightarrow> (\<exists>k. fmlookup m k = Some v)"
  using set_bt_entries [of _ v m] by (force simp: bt_values_def)

definition fmsum :: "('v \<Rightarrow> nat) \<Rightarrow> ('k, 'v) fmap \<Rightarrow> nat" where
  "fmsum f m = (\<Sum>k \<in> fset (fmdom m). f (the (fmlookup m k)))"

lemma fmsum_bt: "fmsum f m = sum_list (map f (bt_values m))"
proof -
  have "sum_list (map f (bt_values m)) = (\<Sum>k \<leftarrow> bt_keys m. f (the (fmlookup m k)))"
    by (simp add: bt_values_def bt_entries_def comp_def)
  also have "\<dots> = (\<Sum>k \<in> set (bt_keys m). f (the (fmlookup m k)))"
    by (rule sum_list_distinct_conv_sum_set) simp
  finally show ?thesis by (simp add: fmsum_def)
qed

lemma fmsum_empty [simp]: "fmsum f fmempty = 0"
  by (simp add: fmsum_def)

lemma fmsum_split:
  assumes "fmlookup m k = Some v"
  shows "fmsum f m = f v + (\<Sum>j \<in> fset (fmdom m) - {k}. f (the (fmlookup m j)))"
proof -
  have "k \<in> fset (fmdom m)" using assms by (meson fmdomI)
  then have "fmsum f m = f (the (fmlookup m k)) + (\<Sum>j \<in> fset (fmdom m) - {k}. f (the (fmlookup m j)))"
    unfolding fmsum_def by (intro sum.remove) simp_all
  with assms show ?thesis by simp
qed

lemma fmsum_drop_rest: "fmsum f (fmdrop k m) = (\<Sum>j \<in> fset (fmdom m) - {k}. f (the (fmlookup m j)))"
  unfolding fmsum_def by (intro sum.cong) auto

lemma fmsum_drop: "fmlookup m k = Some v \<Longrightarrow> fmsum f (fmdrop k m) + f v = fmsum f m"
  by (simp add: fmsum_drop_rest fmsum_split)

lemma fmsum_drop_minus [fmsum_simps]:
  "fmlookup m k = Some v \<Longrightarrow> fmsum f (fmdrop k m) = fmsum f m - f v"
  using fmsum_drop [of m k v f] by simp

lemma fmsum_ge: "fmlookup m k = Some v \<Longrightarrow> f v \<le> fmsum f m"
  using fmsum_drop [of m k v f] by simp

lemma fmsum_upd_rest: "fmsum f (fmupd k v m) = f v + fmsum f (fmdrop k m)"
proof -
  have "fmsum f (fmupd k v m) = f v + (\<Sum>j \<in> fset (fmdom (fmupd k v m)) - {k}. f (the (fmlookup (fmupd k v m) j)))"
    by (rule fmsum_split) simp
  moreover have "(\<Sum>j \<in> fset (fmdom (fmupd k v m)) - {k}. f (the (fmlookup (fmupd k v m) j)))
      = (\<Sum>j \<in> fset (fmdom m) - {k}. f (the (fmlookup m j)))"
    by (intro sum.cong) auto
  ultimately show ?thesis by (simp add: fmsum_drop_rest)
qed

lemma fmdrop_absent: "fmlookup m k = None \<Longrightarrow> fmdrop k m = m"
  by (intro fmap_ext) simp

lemma fmsum_upd_new [fmsum_simps]: "fmlookup m k = None \<Longrightarrow> fmsum f (fmupd k v m) = fmsum f m + f v"
  by (simp add: fmsum_upd_rest fmdrop_absent)

lemma fmsum_upd_old:
  "fmlookup m k = Some u \<Longrightarrow> fmsum f (fmupd k v m) + f u = fmsum f m + f v"
  using fmsum_drop [of m k u f] by (simp add: fmsum_upd_rest)

lemma fmsum_upd_old_eq [fmsum_simps]:
  "fmlookup m k = Some u \<Longrightarrow> fmsum f (fmupd k v m) = fmsum f m + f v - f u"
  using fmsum_upd_old [of m k u f v] by simp

lemma fmsum_upd_same:
  "fmlookup m k = Some u \<Longrightarrow> f v = f u \<Longrightarrow> fmsum f (fmupd k v m) = fmsum f m"
  using fmsum_upd_old [of m k u f v] by simp

lemma fmsum_mono: "(\<And>k v. fmlookup m k = Some v \<Longrightarrow> f v \<le> g v) \<Longrightarrow> fmsum f m \<le> fmsum g m"
  unfolding fmsum_def by (intro sum_mono) (auto simp: fmlookup_dom_iff)

lemma fmsum_cong: "(\<And>k v. fmlookup m k = Some v \<Longrightarrow> f v = g v) \<Longrightarrow> fmsum f m = fmsum g m"
  unfolding fmsum_def by (intro sum.cong) (auto simp: fmlookup_dom_iff)

lemma fmsum_zero: "(\<And>k v. fmlookup m k = Some v \<Longrightarrow> f v = 0) \<Longrightarrow> fmsum f m = 0"
  unfolding fmsum_def by (intro sum.neutral) (auto simp: fmlookup_dom_iff)

lemma fmsum_zero_iff: "fmsum f m = 0 \<longleftrightarrow> (\<forall>k v. fmlookup m k = Some v \<longrightarrow> f v = 0)"
proof
  assume "fmsum f m = 0"
  then show "\<forall>k v. fmlookup m k = Some v \<longrightarrow> f v = 0" using fmsum_ge [of m _ _ f] by force
qed (simp add: fmsum_zero)

lemma fmsum_add: "fmsum (\<lambda>v. f v + g v) m = fmsum f m + fmsum g m"
  by (simp add: fmsum_def sum.distrib)

lemma fmsum_const: "fmsum (\<lambda>_. c) m = card (fset (fmdom m)) * c"
  by (simp add: fmsum_def)

text \<open>A total over the records splits into the totals of the classes that own them.\<close>

lemma fmsum_partition:
  assumes "finite C" and "\<And>k v. fmlookup m k = Some v \<Longrightarrow> key v \<in> C"
  shows "(\<Sum>c \<in> C. fmsum (\<lambda>v. if key v = c then f v else 0) m) = fmsum f m"
proof -
  have "(\<Sum>c \<in> C. fmsum (\<lambda>v. if key v = c then f v else 0) m)
      = (\<Sum>k \<in> fset (fmdom m). \<Sum>c \<in> C. if key (the (fmlookup m k)) = c then f (the (fmlookup m k)) else 0)"
    unfolding fmsum_def by (rule sum.swap)
  also have "\<dots> = (\<Sum>k \<in> fset (fmdom m). f (the (fmlookup m k)))"
    using assms by (intro sum.cong) (auto simp: fmlookup_dom_iff)
  finally show ?thesis by (simp add: fmsum_def)
qed

section \<open>Lists\<close>

definition remove_nth :: "nat \<Rightarrow> 'a list \<Rightarrow> 'a list" where
  "remove_nth i xs = take i xs @ drop (Suc i) xs"

lemma remove_nth_0 [simp]: "remove_nth 0 (x # xs) = xs"
  by (simp add: remove_nth_def)

lemma length_remove_nth [simp]: "i < length xs \<Longrightarrow> length (remove_nth i xs) = length xs - 1"
  by (simp add: remove_nth_def)

lemma set_remove_nth_subset: "set (remove_nth i xs) \<subseteq> set xs"
  by (auto simp: remove_nth_def dest: in_set_takeD in_set_dropD)

lemma set_remove_nth: "i < length xs \<Longrightarrow> set xs = insert (xs ! i) (set (remove_nth i xs))"
  by (metis (no_types) Un_insert_right id_take_nth_drop list.simps(15) remove_nth_def set_append)

lemma map_remove_nth: "map f (remove_nth i xs) = remove_nth i (map f xs)"
  by (simp add: remove_nth_def take_map drop_map)

lemma distinct_remove_nth: "distinct xs \<Longrightarrow> distinct (remove_nth i xs)"
  by (auto simp: remove_nth_def distinct_append dest: in_set_takeD in_set_dropD
        set_take_disj_set_drop_if_distinct [of xs i "Suc i"])

lemma distinct_remove_nth_notin: "distinct xs \<Longrightarrow> i < length xs \<Longrightarrow> xs ! i \<notin> set (remove_nth i xs)"
proof -
  assume "distinct xs" "i < length xs"
  then have "distinct (take i xs @ xs ! i # drop (Suc i) xs)" by (simp flip: id_take_nth_drop)
  then show ?thesis by (auto simp: remove_nth_def)
qed

lemma sum_list_remove_nth:
  fixes f :: "'a \<Rightarrow> nat"
  assumes "i < length xs"
  shows "sum_list (map f (remove_nth i xs)) + f (xs ! i) = sum_list (map f xs)"
proof -
  have "sum_list (map f xs) = sum_list (map f (take i xs @ xs ! i # drop (Suc i) xs))"
    using assms by (simp flip: id_take_nth_drop)
  then show ?thesis by (simp add: remove_nth_def)
qed

lemma sorted_wrt_remove_nth: "sorted_wrt P xs \<Longrightarrow> sorted_wrt P (remove_nth i xs)"
proof (cases "i < length xs")
  case True
  assume "sorted_wrt P xs"
  then have "sorted_wrt P (take i xs @ xs ! i # drop (Suc i) xs)"
    using True by (simp flip: id_take_nth_drop)
  then show ?thesis by (auto simp: remove_nth_def sorted_wrt_append)
qed (simp add: remove_nth_def)

text \<open>\<open>Iterator::position\<close> and \<open>enumerate().find\<close>: the first index that satisfies a predicate.\<close>

fun find_index :: "('a \<Rightarrow> bool) \<Rightarrow> 'a list \<Rightarrow> nat option" where
  "find_index P [] = None"
| "find_index P (x # xs) = (if P x then Some 0 else map_option Suc (find_index P xs))"

lemma find_index_Some:
  "find_index P xs = Some i \<longleftrightarrow> i < length xs \<and> P (xs ! i) \<and> (\<forall>j < i. \<not> P (xs ! j))"
proof (induction xs arbitrary: i)
  case (Cons x xs)
  then show ?case by (cases i) (auto simp: less_Suc_eq_0_disj)
qed simp

lemma find_index_None: "find_index P xs = None \<longleftrightarrow> (\<forall>x \<in> set xs. \<not> P x)"
  by (induction xs) auto

end
