(* ===== verification/TM_Resource.thy ===== *)
theory TM_Resource
  imports TM_Prelude
begin

text \<open>
  \<^verbatim>\<open>taskmesh-contract/src/resource.rs\<close>: unit costs, the byte to unit scale and the global budget.
\<close>

datatype ResourceConversionError =
    UnscaledMemoryUnits
  | MemoryUnitsOverflow nat nat

record PermitCost =
  pc_cpu_units :: nat
  pc_memory_units :: nat

record MemoryUnitScale =
  bytes_per_unit :: nat

definition MemoryUnitScale_default :: MemoryUnitScale where
  "MemoryUnitScale_default = \<lparr>bytes_per_unit = 1\<rparr>"

definition units_for :: "MemoryUnitScale \<Rightarrow> nat \<Rightarrow> (ResourceConversionError, nat) result" where
  "units_for self bytes =
     (if bytes_per_unit self = 0 then Inl UnscaledMemoryUnits
      else let units = div_ceil bytes (bytes_per_unit self)
           in if units \<le> u32_max then Inr units
              else Inl (MemoryUnitsOverflow bytes (bytes_per_unit self)))"

record ResourceBudget =
  max_cpu_units :: nat
  max_memory_units :: nat
  per_request_max_cpu_units :: nat
  per_request_max_memory_units :: nat
  memory_unit_scale :: MemoryUnitScale

definition ResourceBudget_new :: ResourceBudget where
  "ResourceBudget_new = \<lparr>max_cpu_units = 0, max_memory_units = 0, per_request_max_cpu_units = 0,
     per_request_max_memory_units = 0, memory_unit_scale = MemoryUnitScale_default\<rparr>"

definition ResourceBudget_cpu_units :: "nat \<Rightarrow> ResourceBudget \<Rightarrow> ResourceBudget" where
  "ResourceBudget_cpu_units v b = b\<lparr>max_cpu_units := v\<rparr>"

definition ResourceBudget_memory_units :: "nat \<Rightarrow> ResourceBudget \<Rightarrow> ResourceBudget" where
  "ResourceBudget_memory_units v b = b\<lparr>max_memory_units := v\<rparr>"

definition ResourceBudget_per_request_cpu_units :: "nat \<Rightarrow> ResourceBudget \<Rightarrow> ResourceBudget" where
  "ResourceBudget_per_request_cpu_units v b = b\<lparr>per_request_max_cpu_units := v\<rparr>"

definition ResourceBudget_per_request_memory_units :: "nat \<Rightarrow> ResourceBudget \<Rightarrow> ResourceBudget" where
  "ResourceBudget_per_request_memory_units v b = b\<lparr>per_request_max_memory_units := v\<rparr>"

definition ResourceBudget_memory_unit_scale :: "nat \<Rightarrow> ResourceBudget \<Rightarrow> ResourceBudget" where
  "ResourceBudget_memory_unit_scale v b = b\<lparr>memory_unit_scale := \<lparr>bytes_per_unit = v\<rparr>\<rparr>"

lemma units_for_Inr:
  "units_for sc b = Inr u \<longleftrightarrow> 0 < bytes_per_unit sc \<and> u = div_ceil b (bytes_per_unit sc) \<and> u \<le> u32_max"
  by (auto simp: units_for_def Let_def)

text \<open>
  A byte reading converts to the least number of units that covers it: the converted charge
  never understates the reading and never exceeds it by a whole unit. It is an error exactly when
  the scale is zero or that least number does not fit \<open>u32\<close>.
\<close>

theorem units_for_least_cover:
  "units_for sc b = Inr u \<longleftrightarrow>
     0 < bytes_per_unit sc \<and> u \<le> u32_max \<and> b \<le> u * bytes_per_unit sc
     \<and> (\<forall>n. b \<le> n * bytes_per_unit sc \<longrightarrow> u \<le> n)"
proof (cases "0 < bytes_per_unit sc")
  case True
  have "u = div_ceil b (bytes_per_unit sc) \<longleftrightarrow>
      b \<le> u * bytes_per_unit sc \<and> (\<forall>n. b \<le> n * bytes_per_unit sc \<longrightarrow> u \<le> n)"
    using div_ceil_le_iff [OF True] div_ceil_covers [OF True] by (metis order_antisym order_refl)
  with True show ?thesis by (auto simp: units_for_Inr)
qed (simp add: units_for_Inr)

theorem units_for_least_cover_witness:
  "units_for \<lparr>bytes_per_unit = 1024\<rparr> 1025 = Inr 2 \<and> (1025::nat) \<le> 2 * 1024 \<and> \<not> (1025::nat) \<le> 1 * 1024"
proof -
  have eq: "units_for \<lparr>bytes_per_unit = 1024\<rparr> 1025 = Inr 2"
    by (simp add: units_for_def div_ceil_def u32_max_def)
  then have "(1025::nat) \<le> 2 * bytes_per_unit \<lparr>bytes_per_unit = 1024\<rparr>"
    unfolding units_for_least_cover by blast
  with eq show ?thesis by simp
qed

end
