(* ===== verification/TM_Policy.thy ===== *)
theory TM_Policy
  imports TM_Resource
begin

text \<open>
  \<^verbatim>\<open>taskmesh-contract/src/policy.rs\<close>: the governance policy of one task class. A class name is
  the string inside \<open>TaskClass\<close>; its derived order is the order of that string.
\<close>

type_synonym TaskClass = str
type_synonym TaskStage = str

datatype FairnessPolicy =
    Fifo
  | WeightedFairQueue (wfq_weight: nat) (wfq_burst: nat)
  | DeficitRoundRobin (drr_quantum_of: nat)
  | DeadlineAware (slack_ms: nat)
  | BestEffortScavenger

datatype MemoryPermitMode = Estimated | Measured | Hybrid

datatype MemoryReleasePolicy = OnTaskCompletion | OnStageBoundary | LeakDetecting

datatype MemoryOvercommitPolicy = MemReject | MemQueue | DegradeToLight TaskClass

record CheckpointPolicy =
  every_n_work_items :: "nat option"
  before_fan_out :: bool
  before_large_allocation :: bool
  before_stage_boundary :: bool
  before_reduce :: bool

definition CheckpointPolicy_default :: CheckpointPolicy where
  "CheckpointPolicy_default = \<lparr>every_n_work_items = None, before_fan_out = True,
     before_large_allocation = True, before_stage_boundary = True, before_reduce = True\<rparr>"

datatype DuplicateMergePolicy = KeepFirstStable | KeepLastStable | StableFold
datatype TieBreakPolicy = StableInputOrder | Lexicographic | DeterministicHash
datatype ErrorAggregationPolicy = FirstStable | AllStable
datatype PartialResultOrdering = StableSortKey | StableStageOrder

record DeterministicReducePolicy =
  stable_sort_key :: str
  duplicate_merge :: DuplicateMergePolicy
  tie_break :: TieBreakPolicy
  error_aggregation :: ErrorAggregationPolicy
  partial_result_ordering :: PartialResultOrdering

definition DeterministicReducePolicy_keyed :: "str \<Rightarrow> DeterministicReducePolicy" where
  "DeterministicReducePolicy_keyed key = \<lparr>stable_sort_key = key, duplicate_merge = KeepFirstStable,
     tie_break = StableInputOrder, error_aggregation = FirstStable,
     partial_result_ordering = StableSortKey\<rparr>"

datatype OverflowPolicy = OverflowReject | QueueWithinDepth | DropBestEffort

definition is_queueable :: "OverflowPolicy \<Rightarrow> bool" where
  "is_queueable p \<longleftrightarrow> p = QueueWithinDepth"

datatype RetryAfterPolicy = RetryNone | FixedMs nat | Adaptive

datatype CancellationPolicy = PreSubmitOnly | Cooperative | CooperativeWithDeadline

record ClassPolicy =
  max_inflight :: nat
  max_queue_depth :: nat
  permit_cost :: PermitCost
  fairness :: FairnessPolicy
  memory_permit_mode :: MemoryPermitMode
  memory_release_policy :: MemoryReleasePolicy
  memory_overcommit_policy :: MemoryOvercommitPolicy
  overflow_policy :: OverflowPolicy
  retry_after_policy :: RetryAfterPolicy
  cancellation_policy :: CancellationPolicy
  checkpoint_policy :: CheckpointPolicy
  best_effort :: bool

definition ClassPolicy_default :: ClassPolicy where
  "ClassPolicy_default = \<lparr>max_inflight = u32_max, max_queue_depth = 0,
     permit_cost = \<lparr>pc_cpu_units = 0, pc_memory_units = 0\<rparr>, fairness = Fifo,
     memory_permit_mode = Estimated, memory_release_policy = OnTaskCompletion,
     memory_overcommit_policy = MemReject, overflow_policy = OverflowReject,
     retry_after_policy = RetryNone, cancellation_policy = PreSubmitOnly,
     checkpoint_policy = CheckpointPolicy_default, best_effort = False\<rparr>"

text \<open>The two builder methods that write inside \<open>permit_cost\<close>; every other builder method is
  the record update of the field it names.\<close>

definition ClassPolicy_cpu_units :: "nat \<Rightarrow> ClassPolicy \<Rightarrow> ClassPolicy" where
  "ClassPolicy_cpu_units v p = p\<lparr>permit_cost := (permit_cost p)\<lparr>pc_cpu_units := v\<rparr>\<rparr>"

definition ClassPolicy_memory_units :: "nat \<Rightarrow> ClassPolicy \<Rightarrow> ClassPolicy" where
  "ClassPolicy_memory_units v p = p\<lparr>permit_cost := (permit_cost p)\<lparr>pc_memory_units := v\<rparr>\<rparr>"

definition is_disabled :: "ClassPolicy \<Rightarrow> bool" where
  "is_disabled p \<longleftrightarrow> max_inflight p = 0"

text \<open>The width of the fields of a policy: what the Rust types guarantee of every value.\<close>

fun fairness_width :: "FairnessPolicy \<Rightarrow> bool" where
  "fairness_width (WeightedFairQueue w b) \<longleftrightarrow> w \<le> u32_max \<and> b \<le> u32_max"
| "fairness_width (DeficitRoundRobin q) \<longleftrightarrow> q \<le> u32_max"
| "fairness_width (DeadlineAware s) \<longleftrightarrow> s \<le> u64_max"
| "fairness_width _ \<longleftrightarrow> True"

definition policy_width :: "ClassPolicy \<Rightarrow> bool" where
  "policy_width p \<longleftrightarrow> max_inflight p \<le> u32_max \<and> max_queue_depth p \<le> u32_max
     \<and> pc_cpu_units (permit_cost p) \<le> u32_max \<and> pc_memory_units (permit_cost p) \<le> u32_max
     \<and> fairness_width (fairness p)"

lemma policy_width_default: "policy_width ClassPolicy_default"
  by (simp add: policy_width_def ClassPolicy_default_def)

end
