(* ===== verification/TM_Topology.thy ===== *)
theory TM_Topology
  imports TM_Prelude
begin

text \<open>
  \<^verbatim>\<open>taskmesh-contract/src/topology.rs\<close>: substrates, the worker topology, its validation and the
  resolution of worker counts. \<open>usize\<close> is 64 bits wide.
\<close>

section \<open>Data\<close>

definition MAX_CAPABILITY_SLOTS :: nat where
  "MAX_CAPABILITY_SLOTS = u32_max"

definition usize_max :: nat where
  "usize_max = u64_max"

datatype TopologyError =
    InvertedCpuWorkerBounds nat nat
  | SlotCountTooLarge str nat nat
  | ZeroFixedCpuWorkers
  | ExecutorDeclaresFewerWorkers nat nat
  | ExecutorSubmissionMayBlock
  | ExecutorPhysicalDomainUnknown
  | ExecutorWorkerCountUnknown
  | UnknownExecutorPhysicalDomain str
  | ZeroFixedPhysicalDomain str
  | ExecutorWorkerCountMismatch nat nat str

datatype SubstrateKind = AuthorityOnly | CompetingExecution | MaintenanceOnly | RetireOrMigrate

datatype SubstrateHint =
    AsyncIo | BlockingPool | SharedCpuExecutor | LargeStackCapability | LocalRuntime | BackgroundOnly

fun capability_pool :: "SubstrateHint \<Rightarrow> str option" where
  "capability_pool AsyncIo = None"
| "capability_pool BlockingPool = Some (lit ''blocking'')"
| "capability_pool SharedCpuExecutor = Some (lit ''cpu'')"
| "capability_pool LargeStackCapability = Some (lit ''large_stack'')"
| "capability_pool LocalRuntime = Some (lit ''local_runtime'')"
| "capability_pool BackgroundOnly = Some (lit ''maintenance'')"

record SubstrateRecord =
  sub_name :: str
  sub_kind :: SubstrateKind
  sub_capability_pool :: "str option"

definition SubstrateRecord_new :: "str \<Rightarrow> SubstrateKind \<Rightarrow> str option \<Rightarrow> SubstrateRecord" where
  "SubstrateRecord_new n k pool = \<lparr>sub_name = n, sub_kind = k, sub_capability_pool = pool\<rparr>"

datatype CpuMode = CpuAuto | CpuFixed nat

datatype PhysicalDomainMode = DomainAuto | DomainFixed nat

definition PHYSICAL_SHARED_BLOCKING :: str where
  "PHYSICAL_SHARED_BLOCKING = lit ''physical.shared_blocking''"

definition PHYSICAL_CPU :: str where
  "PHYSICAL_CPU = lit ''physical.cpu''"

definition PHYSICAL_DEDICATED :: str where
  "PHYSICAL_DEDICATED = lit ''physical.dedicated''"

record PhysicalDomainTopology =
  shared_blocking :: PhysicalDomainMode
  dedicated :: PhysicalDomainMode

record CpuPoolConfig =
  cpu_mode :: CpuMode
  reserve_cores :: nat
  min_workers :: nat
  max_workers :: nat

definition CpuPoolConfig_default :: CpuPoolConfig where
  "CpuPoolConfig_default = \<lparr>cpu_mode = CpuAuto, reserve_cores = 0, min_workers = 1,
     max_workers = usize_max\<rparr>"

record TopologyConfig =
  topo_cpu :: CpuPoolConfig
  blocking_threads :: nat
  large_stack_slots :: nat
  maintenance_workers :: nat
  local_runtime_slots :: nat
  physical_domains :: PhysicalDomainTopology

definition TopologyConfig_new :: TopologyConfig where
  "TopologyConfig_new = \<lparr>topo_cpu = CpuPoolConfig_default, blocking_threads = 0,
     large_stack_slots = 0, maintenance_workers = 0, local_runtime_slots = 0,
     physical_domains = \<lparr>shared_blocking = DomainAuto, dedicated = DomainAuto\<rparr>\<rparr>"

section \<open>Validation and resolution\<close>

definition declared_slots :: "TopologyConfig \<Rightarrow> (str \<times> nat) list" where
  "declared_slots t =
     [(lit ''blocking'', blocking_threads t),
      (lit ''large_stack'', large_stack_slots t),
      (lit ''maintenance'', maintenance_workers t),
      (lit ''local_runtime'', local_runtime_slots t)]"

text \<open>The two loops of \<open>TopologyConfig::validate\<close>.\<close>

fun validate_domains :: "(str \<times> PhysicalDomainMode) list \<Rightarrow> (TopologyError, unit) result" where
  "validate_domains [] = Inr ()"
| "validate_domains ((domain, mode) # rest) =
     (case mode of
        DomainFixed workers \<Rightarrow>
          if workers = 0 then Inl (ZeroFixedPhysicalDomain domain)
          else if MAX_CAPABILITY_SLOTS < workers
            then Inl (SlotCountTooLarge domain workers MAX_CAPABILITY_SLOTS)
          else validate_domains rest
      | DomainAuto \<Rightarrow> validate_domains rest)"

fun validate_slots :: "(str \<times> nat) list \<Rightarrow> (TopologyError, unit) result" where
  "validate_slots [] = Inr ()"
| "validate_slots ((pool, slots) # rest) =
     (if MAX_CAPABILITY_SLOTS < slots then Inl (SlotCountTooLarge pool slots MAX_CAPABILITY_SLOTS)
      else validate_slots rest)"

definition topology_validate :: "TopologyConfig \<Rightarrow> (TopologyError, unit) result" where
  "topology_validate t =
     (let mn = max (min_workers (topo_cpu t)) 1; mx = max (max_workers (topo_cpu t)) 1
      in if mx < mn
           then Inl (InvertedCpuWorkerBounds (min_workers (topo_cpu t)) (max_workers (topo_cpu t)))
         else if cpu_mode (topo_cpu t) = CpuFixed 0 then Inl ZeroFixedCpuWorkers
         else and_then
           (validate_domains [(PHYSICAL_SHARED_BLOCKING, shared_blocking (physical_domains t)),
                              (PHYSICAL_DEDICATED, dedicated (physical_domains t))])
           (\<lambda>_. validate_slots (declared_slots t)))"

definition resolve_cpu_workers_unchecked :: "TopologyConfig \<Rightarrow> nat \<Rightarrow> nat" where
  "resolve_cpu_workers_unchecked t available =
     (let base = (case cpu_mode (topo_cpu t) of
                    CpuFixed n \<Rightarrow> n
                  | CpuAuto \<Rightarrow> saturating_sub available (reserve_cores (topo_cpu t)));
          lo = max (min_workers (topo_cpu t)) 1;
          hi = max (max_workers (topo_cpu t)) 1
      in min (max base lo) (max hi lo))"

definition try_resolved_cpu_workers :: "TopologyConfig \<Rightarrow> nat \<Rightarrow> (TopologyError, nat) result" where
  "try_resolved_cpu_workers t available =
     and_then (topology_validate t) (\<lambda>_.
       let workers = resolve_cpu_workers_unchecked t available
       in if MAX_CAPABILITY_SLOTS < workers
          then Inl (SlotCountTooLarge (lit ''cpu'') workers MAX_CAPABILITY_SLOTS)
          else Inr workers)"

definition try_resolved_physical_domain ::
  "TopologyConfig \<Rightarrow> str \<Rightarrow> nat \<Rightarrow> (TopologyError, nat) result" where
  "try_resolved_physical_domain t domain available =
     and_then (topology_validate t) (\<lambda>_.
       if domain = PHYSICAL_CPU then try_resolved_cpu_workers t available
       else
         and_then
           (if domain = PHYSICAL_SHARED_BLOCKING then Inr (shared_blocking (physical_domains t))
            else if domain = PHYSICAL_DEDICATED then Inr (dedicated (physical_domains t))
            else Inl (UnknownExecutorPhysicalDomain domain))
           (\<lambda>mode.
             let workers = (case mode of DomainAuto \<Rightarrow> max available 1 | DomainFixed w \<Rightarrow> w)
             in if MAX_CAPABILITY_SLOTS < workers
                then Inl (SlotCountTooLarge domain workers MAX_CAPABILITY_SLOTS)
                else Inr workers))"

section \<open>Properties\<close>

definition domain_ok :: "PhysicalDomainMode \<Rightarrow> bool" where
  "domain_ok m \<longleftrightarrow> (case m of DomainAuto \<Rightarrow> True | DomainFixed w \<Rightarrow> 0 < w \<and> w \<le> MAX_CAPABILITY_SLOTS)"

definition topology_ok :: "TopologyConfig \<Rightarrow> bool" where
  "topology_ok t \<longleftrightarrow>
     max (min_workers (topo_cpu t)) 1 \<le> max (max_workers (topo_cpu t)) 1
     \<and> cpu_mode (topo_cpu t) \<noteq> CpuFixed 0
     \<and> domain_ok (shared_blocking (physical_domains t)) \<and> domain_ok (dedicated (physical_domains t))
     \<and> blocking_threads t \<le> MAX_CAPABILITY_SLOTS \<and> large_stack_slots t \<le> MAX_CAPABILITY_SLOTS
     \<and> maintenance_workers t \<le> MAX_CAPABILITY_SLOTS \<and> local_runtime_slots t \<le> MAX_CAPABILITY_SLOTS"

lemma validate_domains_ok_iff:
  "validate_domains ds = Inr u \<longleftrightarrow> (\<forall>(d, m) \<in> set ds. domain_ok m)"
  by (induction ds rule: validate_domains.induct)
     (auto simp: domain_ok_def not_less split: PhysicalDomainMode.splits)

lemma validate_slots_ok_iff:
  "validate_slots ds = Inr u \<longleftrightarrow> (\<forall>(p, n) \<in> set ds. n \<le> MAX_CAPABILITY_SLOTS)"
  by (induction ds rule: validate_slots.induct) auto

lemma topology_validate_ok_iff: "topology_validate t = Inr u \<longleftrightarrow> topology_ok t"
  by (auto simp: topology_validate_def topology_ok_def Let_def and_then_Inr_iff
        validate_domains_ok_iff validate_slots_ok_iff declared_slots_def not_less
        simp del: validate_domains.simps validate_slots.simps)

lemma resolve_cpu_workers_bounds:
  "max (min_workers (topo_cpu t)) 1 \<le> resolve_cpu_workers_unchecked t a"
  "resolve_cpu_workers_unchecked t a \<le> max (max (max_workers (topo_cpu t)) 1) (max (min_workers (topo_cpu t)) 1)"
  by (simp_all add: resolve_cpu_workers_unchecked_def Let_def)

text \<open>
  The resolved CPU pool of a topology is a usable worker count. Resolution succeeds exactly when
  the topology is structurally valid and the clamped count fits the governed slot domain; the result
  is the clamp of the base count (fixed, or detected minus reserved cores) to the declared window,
  and so it lies between \<open>max(min_workers, 1)\<close> and \<open>max(max_workers, 1)\<close>.
\<close>

theorem try_resolved_cpu_workers_spec:
  "try_resolved_cpu_workers t a = Inr w \<longleftrightarrow>
     topology_ok t \<and> w = resolve_cpu_workers_unchecked t a \<and> w \<le> MAX_CAPABILITY_SLOTS
     \<and> max (min_workers (topo_cpu t)) 1 \<le> w \<and> w \<le> max (max_workers (topo_cpu t)) 1"
  using resolve_cpu_workers_bounds [of t a]
  by (auto simp: try_resolved_cpu_workers_def and_then_Inr_iff topology_validate_ok_iff Let_def
        topology_ok_def not_less)

text \<open>
  Every physical worker domain a topology resolves to is finite and has at least one worker, for
  each of the three domains the host owns; any other domain name is a typed error.
\<close>

theorem try_resolved_physical_domain_finite_nonzero:
  assumes "try_resolved_physical_domain t domain a = Inr w"
  shows "1 \<le> w \<and> w \<le> MAX_CAPABILITY_SLOTS
    \<and> domain \<in> {PHYSICAL_CPU, PHYSICAL_SHARED_BLOCKING, PHYSICAL_DEDICATED}"
proof (cases "domain = PHYSICAL_CPU")
  case True
  then have "try_resolved_cpu_workers t a = Inr w"
    using assms by (auto simp: try_resolved_physical_domain_def and_then_Inr_iff)
  then show ?thesis using True by (auto simp: try_resolved_cpu_workers_spec)
next
  case False
  with assms show ?thesis
    by (auto simp: try_resolved_physical_domain_def and_then_Inr_iff topology_validate_ok_iff
        topology_ok_def domain_ok_def Let_def not_less split: if_splits PhysicalDomainMode.splits)
qed

theorem try_resolved_physical_domain_finite_nonzero_witness:
  "try_resolved_physical_domain TopologyConfig_new PHYSICAL_DEDICATED 0 = Inr 1 \<and> (1::nat) \<le> 1"
proof -
  have "try_resolved_physical_domain TopologyConfig_new PHYSICAL_DEDICATED 0 = Inr 1"
    by code_simp
  from this try_resolved_physical_domain_finite_nonzero [OF this] show ?thesis by simp
qed

end
