(* ===== verification/TM_Task.thy ===== *)
theory TM_Task
  imports TM_Policy TM_Topology
begin

text \<open>
  \<^verbatim>\<open>taskmesh-contract/src/task.rs\<close> and \<^verbatim>\<open>validation.rs\<close>: the task specification, its
  builders, and the validator that turns a raw specification into an admission-ready plan.
\<close>

section \<open>Data\<close>

datatype ClassificationRationale = ExplicitMapping | DerivedFromRequestKind | DerivedFromStageMap

datatype TaskScope =
    Root
  | Child (parent_operation_id: str) (parent_stage: TaskStage) (parent_awaits: bool)

fun is_child :: "TaskScope \<Rightarrow> bool" where
  "is_child Root = False"
| "is_child (Child p st aw) = True"

fun is_awaited_child :: "TaskScope \<Rightarrow> bool" where
  "is_awaited_child Root = False"
| "is_awaited_child (Child p st aw) = aw"

record StageDescriptor =
  sd_class :: TaskClass
  sd_stage :: TaskStage
  substrate_hint :: SubstrateHint
  fan_out :: bool
  reduce_policy :: "DeterministicReducePolicy option"

record TaskSpec =
  spec_class :: TaskClass
  spec_operation :: str
  spec_root_operation_id :: str
  spec_source :: str
  spec_reason :: ClassificationRationale
  spec_scope :: TaskScope
  spec_stack_size_bytes :: "nat option"
  spec_stages :: "StageDescriptor list"

section \<open>Builders\<close>

fun bootstrap_stage :: "SubstrateHint \<Rightarrow> TaskStage" where
  "bootstrap_stage AsyncIo = lit ''io''"
| "bootstrap_stage BlockingPool = lit ''blocking''"
| "bootstrap_stage SharedCpuExecutor = lit ''cpu''"
| "bootstrap_stage LargeStackCapability = lit ''large_stack''"
| "bootstrap_stage LocalRuntime = lit ''local_runtime''"
| "bootstrap_stage BackgroundOnly = lit ''background''"

definition TaskSpec_base :: "TaskClass \<Rightarrow> SubstrateHint \<Rightarrow> TaskSpec" where
  "TaskSpec_base cl hint =
     \<lparr>spec_class = cl, spec_operation = [], spec_root_operation_id = [],
      spec_source = lit ''internal'', spec_reason = ExplicitMapping, spec_scope = Root,
      spec_stack_size_bytes = None,
      spec_stages = [\<lparr>sd_class = cl, sd_stage = bootstrap_stage hint, substrate_hint = hint,
                      fan_out = False, reduce_policy = None\<rparr>]\<rparr>"

definition TaskSpec_operation :: "str \<Rightarrow> TaskSpec \<Rightarrow> TaskSpec" where
  "TaskSpec_operation name s =
     (if spec_scope s = Root then s\<lparr>spec_root_operation_id := name, spec_operation := name\<rparr>
      else s\<lparr>spec_operation := name\<rparr>)"

definition child_of :: "str \<Rightarrow> str \<Rightarrow> TaskStage \<Rightarrow> TaskSpec \<Rightarrow> TaskSpec" where
  "child_of root parent st s =
     s\<lparr>spec_root_operation_id := root, spec_scope := Child parent st False\<rparr>"

definition awaited_child_of :: "str \<Rightarrow> str \<Rightarrow> TaskStage \<Rightarrow> TaskSpec \<Rightarrow> TaskSpec" where
  "awaited_child_of root parent st s =
     s\<lparr>spec_root_operation_id := root, spec_scope := Child parent st True\<rparr>"

definition TaskSpec_stage :: "TaskStage \<Rightarrow> SubstrateHint \<Rightarrow> TaskSpec \<Rightarrow> TaskSpec" where
  "TaskSpec_stage st hint s =
     s\<lparr>spec_stages := spec_stages s @ [\<lparr>sd_class = spec_class s, sd_stage = st,
        substrate_hint = hint, fan_out = False, reduce_policy = None\<rparr>]\<rparr>"

definition TaskSpec_stack_size_bytes :: "nat \<Rightarrow> TaskSpec \<Rightarrow> TaskSpec" where
  "TaskSpec_stack_size_bytes n s = s\<lparr>spec_stack_size_bytes := Some n\<rparr>"

definition reduce_stage ::
  "TaskStage \<Rightarrow> SubstrateHint \<Rightarrow> DeterministicReducePolicy \<Rightarrow> TaskSpec \<Rightarrow> TaskSpec" where
  "reduce_stage st hint p s =
     s\<lparr>spec_stages := spec_stages s @ [\<lparr>sd_class = spec_class s, sd_stage = st,
        substrate_hint = hint, fan_out = True, reduce_policy = Some p\<rparr>]\<rparr>"

definition fan_out_stage :: "TaskStage \<Rightarrow> SubstrateHint \<Rightarrow> TaskSpec \<Rightarrow> TaskSpec" where
  "fan_out_stage st hint s =
     s\<lparr>spec_stages := spec_stages s @ [\<lparr>sd_class = spec_class s, sd_stage = st,
        substrate_hint = hint, fan_out = True, reduce_policy = None\<rparr>]\<rparr>"

definition primary_substrate_hint :: "TaskSpec \<Rightarrow> SubstrateHint" where
  "primary_substrate_hint s =
     (case spec_stages s of [] \<Rightarrow> AsyncIo | d # _ \<Rightarrow> substrate_hint d)"

section \<open>Validation\<close>

definition MAX_TASK_IDENTIFIER_LEN :: nat where
  "MAX_TASK_IDENTIFIER_LEN = 128"

datatype TaskIdentifierField =
    PlanSourceField | ClassField | OperationField | RootOperationIdField | ParentOperationIdField
  | ParentStageField | StageField nat | ReduceKeyField nat

datatype IdentifierViolation =
    IdEmpty | SurroundingWhitespace | TooLong nat nat | InvalidCharacter nat nat

datatype TaskPlanError =
    InvalidIdentifier TaskIdentifierField IdentifierViolation
  | NoStages
  | RootIdentityMismatch
  | ChildOperationMatchesRoot
  | ParentOperationMatchesChild
  | DuplicateStage TaskStage
  | ConflictingStage TaskStage
  | StageClassMismatch TaskStage
  | MissingReducePolicy TaskStage
  | UnexpectedReducePolicy TaskStage

text \<open>ASCII alphanumerics and \<open>- _ . : /\<close>, by scalar value.\<close>

definition is_identifier_character :: "nat \<Rightarrow> bool" where
  "is_identifier_character c \<longleftrightarrow>
     (48 \<le> c \<and> c \<le> 57) \<or> (65 \<le> c \<and> c \<le> 90) \<or> (97 \<le> c \<and> c \<le> 122)
     \<or> c \<in> {45, 95, 46, 58, 47}"

text \<open>\<open>char_indices().find_map(..)\<close>: the first non-identifier character with its byte offset.\<close>

fun find_invalid :: "nat \<Rightarrow> str \<Rightarrow> IdentifierViolation option" where
  "find_invalid off [] = None"
| "find_invalid off (c # cs) =
     (if \<not> is_identifier_character c then Some (InvalidCharacter off c)
      else find_invalid (off + utf8_len c) cs)"

definition validate_identifier :: "TaskIdentifierField \<Rightarrow> str \<Rightarrow> (TaskPlanError, unit) result" where
  "validate_identifier field value =
     (let violation =
        (if value = [] then Some IdEmpty
         else if trim value \<noteq> value then Some SurroundingWhitespace
         else if MAX_TASK_IDENTIFIER_LEN < str_len value
           then Some (TooLong (str_len value) MAX_TASK_IDENTIFIER_LEN)
         else find_invalid 0 value)
      in case violation of Some v \<Rightarrow> Inl (InvalidIdentifier field v) | None \<Rightarrow> Inr ())"

definition PlanSource_new :: "str \<Rightarrow> (TaskPlanError, str) result" where
  "PlanSource_new value = and_then (validate_identifier PlanSourceField value) (\<lambda>_. Inr value)"

definition validate_scope :: "TaskSpec \<Rightarrow> (TaskPlanError, unit) result" where
  "validate_scope spec =
     (case spec_scope spec of
        Root \<Rightarrow> ensure (spec_operation spec = spec_root_operation_id spec) RootIdentityMismatch
      | Child parent st aw \<Rightarrow>
          and_then (validate_identifier ParentOperationIdField parent) (\<lambda>_.
          and_then (validate_identifier ParentStageField st) (\<lambda>_.
          and_then (ensure (spec_operation spec \<noteq> spec_root_operation_id spec)
                      ChildOperationMatchesRoot) (\<lambda>_.
          ensure (spec_operation spec \<noteq> parent) ParentOperationMatchesChild))))"

definition validate_reduce_policy :: "nat \<Rightarrow> StageDescriptor \<Rightarrow> (TaskPlanError, unit) result" where
  "validate_reduce_policy index d =
     (case (fan_out d, reduce_policy d) of
        (True, None) \<Rightarrow> Inl (MissingReducePolicy (sd_stage d))
      | (False, Some _) \<Rightarrow> Inl (UnexpectedReducePolicy (sd_stage d))
      | (True, Some p) \<Rightarrow> validate_identifier (ReduceKeyField index) (stable_sort_key p)
      | (False, None) \<Rightarrow> Inr ())"

fun validate_stages ::
  "TaskClass \<Rightarrow> nat \<Rightarrow> (TaskStage, StageDescriptor) fmap \<Rightarrow> StageDescriptor list
     \<Rightarrow> (TaskPlanError, unit) result" where
  "validate_stages cl index stages [] = Inr ()"
| "validate_stages cl index stages (d # ds) =
     and_then (validate_identifier (StageField index) (sd_stage d)) (\<lambda>_.
       case fmlookup stages (sd_stage d) of
         Some previous \<Rightarrow>
           if previous = d then Inl (DuplicateStage (sd_stage d))
           else Inl (ConflictingStage (sd_stage d))
       | None \<Rightarrow>
           and_then (ensure (sd_class d = cl) (StageClassMismatch (sd_stage d))) (\<lambda>_.
           and_then (validate_reduce_policy index d) (\<lambda>_.
           validate_stages cl (Suc index) (fmupd (sd_stage d) d stages) ds)))"

definition validate_task_spec :: "TaskSpec \<Rightarrow> (TaskPlanError, unit) result" where
  "validate_task_spec spec =
     and_then (validate_identifier ClassField (spec_class spec)) (\<lambda>_.
     and_then (validate_identifier OperationField (spec_operation spec)) (\<lambda>_.
     and_then (validate_identifier RootOperationIdField (spec_root_operation_id spec)) (\<lambda>_.
     and_then (validate_scope spec) (\<lambda>_.
     and_then (ensure (spec_stages spec \<noteq> []) NoStages) (\<lambda>_.
     validate_stages (spec_class spec) 0 fmempty (spec_stages spec))))))"

text \<open>\<open>ValidatedTaskPlan\<close> is a specification that passed the validator.\<close>

definition ValidatedTaskPlan_try_from :: "TaskSpec \<Rightarrow> (TaskPlanError, TaskSpec) result" where
  "ValidatedTaskPlan_try_from spec = and_then (validate_task_spec spec) (\<lambda>_. Inr spec)"

section \<open>What a valid plan is\<close>

definition canonical :: "str \<Rightarrow> bool" where
  "canonical s \<longleftrightarrow> s \<noteq> [] \<and> length s \<le> MAX_TASK_IDENTIFIER_LEN \<and> list_all is_identifier_character s"

definition scope_ok :: "TaskSpec \<Rightarrow> bool" where
  "scope_ok spec \<longleftrightarrow>
     (case spec_scope spec of
        Root \<Rightarrow> spec_operation spec = spec_root_operation_id spec
      | Child parent st aw \<Rightarrow> canonical parent \<and> canonical st
          \<and> spec_operation spec \<noteq> spec_root_operation_id spec \<and> spec_operation spec \<noteq> parent)"

definition stage_ok :: "TaskClass \<Rightarrow> StageDescriptor \<Rightarrow> bool" where
  "stage_ok cl d \<longleftrightarrow> canonical (sd_stage d) \<and> sd_class d = cl
     \<and> (case reduce_policy d of None \<Rightarrow> \<not> fan_out d
        | Some p \<Rightarrow> fan_out d \<and> canonical (stable_sort_key p))"

definition plan_ok :: "TaskSpec \<Rightarrow> bool" where
  "plan_ok spec \<longleftrightarrow> canonical (spec_class spec) \<and> canonical (spec_operation spec)
     \<and> canonical (spec_root_operation_id spec) \<and> scope_ok spec \<and> spec_stages spec \<noteq> []
     \<and> distinct (map sd_stage (spec_stages spec))
     \<and> list_all (stage_ok (spec_class spec)) (spec_stages spec)"

lemma identifier_character_ascii: "is_identifier_character c \<Longrightarrow> utf8_len c = 1 \<and> \<not> is_whitespace c"
  by (auto simp: is_identifier_character_def utf8_len_def is_whitespace_def)

lemma str_len_identifier: "list_all is_identifier_character s \<Longrightarrow> str_len s = length s"
  by (induction s) (simp_all add: str_len_def identifier_character_ascii)

lemma find_invalid_None_iff: "find_invalid off s = None \<longleftrightarrow> list_all is_identifier_character s"
  by (induction off s rule: find_invalid.induct) simp_all

lemma trim_identifier: "list_all is_identifier_character s \<Longrightarrow> trim s = s"
  by (cases "s = []") (auto simp: trim_id_iff list_all_iff identifier_character_ascii)

lemma validate_identifier_ok_iff: "validate_identifier f s = Inr u \<longleftrightarrow> canonical s"
  by (auto simp: validate_identifier_def canonical_def Let_def find_invalid_None_iff trim_identifier
      find_invalid_None_iff [THEN iffD2] str_len_identifier not_less split: option.splits)

lemma validate_scope_ok_iff: "validate_scope spec = Inr u \<longleftrightarrow> scope_ok spec"
  by (simp add: validate_scope_def scope_ok_def result_simps validate_identifier_ok_iff
      split: TaskScope.splits)

lemma validate_reduce_policy_ok_iff:
  "validate_reduce_policy i d = Inr u \<longleftrightarrow>
     (case reduce_policy d of None \<Rightarrow> \<not> fan_out d | Some p \<Rightarrow> fan_out d \<and> canonical (stable_sort_key p))"
  by (auto simp: validate_reduce_policy_def validate_identifier_ok_iff split: option.splits bool.splits)

lemma validate_stages_ok_iff:
  "validate_stages cl i seen ds = Inr u \<longleftrightarrow>
     list_all (stage_ok cl) ds \<and> distinct (map sd_stage ds)
     \<and> (\<forall>d \<in> set ds. fmlookup seen (sd_stage d) = None)"
  by (induction cl i seen ds rule: validate_stages.induct)
     (auto simp: result_simps validate_identifier_ok_iff validate_reduce_policy_ok_iff stage_ok_def
        split: option.splits if_splits)

lemma plan_ok_validates: "validate_task_spec spec = Inr () \<longleftrightarrow> plan_ok spec"
  by (auto simp: validate_task_spec_def plan_ok_def result_simps validate_identifier_ok_iff
      validate_scope_ok_iff validate_stages_ok_iff)

text \<open>
  C40: The task-plan validator accepts a specification exactly when it is a well-formed plan: canonical
  identifiers of at most 128 bytes, a root whose operation is its root id or a child distinct from its
  root and its parent, at least one stage, pairwise distinct stages that all carry the task class, and
  a reduce policy on exactly the fan-out stages.
\<close>

theorem validate_task_spec_iff: "validate_task_spec spec = Inr () \<longleftrightarrow> plan_ok spec"
  by (rule plan_ok_validates)

lemma find_invalid_Some_iff:
  "find_invalid off s = Some v \<longleftrightarrow>
     (\<exists>pre c post. s = pre @ c # post \<and> list_all is_identifier_character pre
        \<and> \<not> is_identifier_character c \<and> v = InvalidCharacter (off + length pre) c)"
proof (induction off s rule: find_invalid.induct)
  case (2 off c cs)
  show ?case
  proof (cases "is_identifier_character c")
    case True
    have len: "utf8_len c = 1" using identifier_character_ascii [OF True] by simp
    have "find_invalid off (c # cs) = Some v \<longleftrightarrow>
       (\<exists>pre d post. cs = pre @ d # post \<and> list_all is_identifier_character pre
         \<and> \<not> is_identifier_character d \<and> v = InvalidCharacter (off + length (c # pre)) d)"
      using True 2 len by simp
    also have "\<dots> \<longleftrightarrow> (\<exists>pre d post. c # cs = pre @ d # post \<and> list_all is_identifier_character pre
         \<and> \<not> is_identifier_character d \<and> v = InvalidCharacter (off + length pre) d)"
      (is "?L \<longleftrightarrow> ?R")
    proof
      assume ?L
      then obtain pre d post where "cs = pre @ d # post" "list_all is_identifier_character pre"
        "\<not> is_identifier_character d" "v = InvalidCharacter (off + length (c # pre)) d" by blast
      with True show ?R by (intro exI [of _ "c # pre"] exI [of _ d] exI [of _ post]) simp
    next
      assume ?R
      with True show ?L by (auto simp: Cons_eq_append_conv) blast+
    qed
    finally show ?thesis .
  next
    case False
    then show ?thesis by (auto simp: Cons_eq_append_conv)
  qed
qed simp

text \<open>
  The character violation a rejected identifier reports is the first one: everything before the
  reported byte offset is canonical and the character at it is not.
\<close>

theorem validate_identifier_first_invalid:
  assumes "validate_identifier f s = Inl (InvalidIdentifier g (InvalidCharacter off c))"
  shows "g = f \<and> off < length s \<and> s ! off = c \<and> \<not> is_identifier_character c
    \<and> list_all is_identifier_character (take off s)"
proof -
  from assms have "g = f" and "find_invalid 0 s = Some (InvalidCharacter off c)"
    by (auto simp: validate_identifier_def Let_def split: option.splits if_splits)
  then show ?thesis by (auto simp: find_invalid_Some_iff)
qed

theorem validate_identifier_first_invalid_witness:
  "validate_identifier ClassField (lit ''a b'') =
      Inl (InvalidIdentifier ClassField (InvalidCharacter 1 32)) \<and> lit ''a b'' ! 1 = 32"
proof -
  have eq: "validate_identifier ClassField (lit ''a b'') =
      Inl (InvalidIdentifier ClassField (InvalidCharacter 1 32))"
    by code_simp
  from validate_identifier_first_invalid [OF eq] have "lit ''a b'' ! 1 = 32" by blast
  with eq show ?thesis by simp
qed

end
