(* ===== verification/TM_Snapshot.thy ===== *)
theory TM_Snapshot
  imports TM_Policy TM_Topology
begin

text \<open>
  \<^verbatim>\<open>taskmesh-contract/src/snapshot.rs\<close>: execution phases and the observable snapshot with its
  conservation check. The formatted violation texts are constructors of \<open>ConservationViolation\<close>.
\<close>

definition SNAPSHOT_SCHEMA_VERSION :: nat where
  "SNAPSHOT_SCHEMA_VERSION = 2"

datatype ExecutionPhase = DispatchReserved | Accepted | Running | CleanupPending

fun rank :: "ExecutionPhase \<Rightarrow> nat" where
  "rank DispatchReserved = 0"
| "rank Accepted = 1"
| "rank Running = 2"
| "rank CleanupPending = 3"

definition has_started :: "ExecutionPhase \<Rightarrow> bool" where
  "has_started p \<longleftrightarrow> p \<in> {Running, CleanupPending}"

record ClassSnapshot =
  snap_inflight :: nat
  snap_queued :: nat
  snap_cpu_units_held :: nat
  snap_memory_units_held :: nat
  snap_dispatch_reserved :: nat
  snap_accepted :: nat
  snap_running :: nat
  snap_cleanup_pending :: nat
  snap_admitted_total :: nat
  snap_started_total :: nat
  snap_terminated_total :: nat

definition ClassSnapshot_default :: ClassSnapshot where
  "ClassSnapshot_default = \<lparr>snap_inflight = 0, snap_queued = 0, snap_cpu_units_held = 0,
     snap_memory_units_held = 0, snap_dispatch_reserved = 0, snap_accepted = 0, snap_running = 0,
     snap_cleanup_pending = 0, snap_admitted_total = 0, snap_started_total = 0,
     snap_terminated_total = 0\<rparr>"

datatype ConservationViolation =
    InflightPhaseSum nat nat
  | AdmissionsExceedU128 nat nat
  | AdmittedMismatch nat nat nat
  | StartedAboveAdmitted nat nat
  | StartedBelowLive nat nat
  | ClassViolation TaskClass ConservationViolation
  | CapabilityOverLimit str nat nat

definition class_conservation_violation :: "ClassSnapshot \<Rightarrow> ConservationViolation option" where
  "class_conservation_violation c =
     (let phases = snap_dispatch_reserved c + snap_accepted c + snap_running c + snap_cleanup_pending c
      in if phases \<noteq> snap_inflight c then Some (InflightPhaseSum (snap_inflight c) phases)
         else case checked_add u128_max (snap_inflight c) (snap_terminated_total c) of
           None \<Rightarrow> Some (AdmissionsExceedU128 (snap_inflight c) (snap_terminated_total c))
         | Some accounted \<Rightarrow>
             if snap_admitted_total c \<noteq> accounted
               then Some (AdmittedMismatch (snap_admitted_total c) (snap_inflight c)
                            (snap_terminated_total c))
             else if snap_admitted_total c < snap_started_total c
               then Some (StartedAboveAdmitted (snap_started_total c) (snap_admitted_total c))
             else let started_live = snap_running c + snap_cleanup_pending c
               in if snap_started_total c < started_live
                    then Some (StartedBelowLive (snap_started_total c) started_live)
                  else None)"

record CapabilityUsage =
  usage_in_use :: nat
  usage_limit :: nat

record Snapshot =
  schema_version :: nat
  snap_classes :: "(TaskClass, ClassSnapshot) fmap"
  snap_substrates :: "SubstrateRecord list"
  snap_capabilities :: "(str, CapabilityUsage) fmap"

text \<open>The two loops of \<open>Snapshot::conservation_violation\<close>, in key order.\<close>

fun first_class_violation :: "(TaskClass \<times> ClassSnapshot) list \<Rightarrow> ConservationViolation option" where
  "first_class_violation [] = None"
| "first_class_violation ((cl, c) # rest) =
     (case class_conservation_violation c of
        Some v \<Rightarrow> Some (ClassViolation cl v)
      | None \<Rightarrow> first_class_violation rest)"

fun first_pool_violation :: "(str \<times> CapabilityUsage) list \<Rightarrow> ConservationViolation option" where
  "first_pool_violation [] = None"
| "first_pool_violation ((pool, u) # rest) =
     (if usage_limit u \<noteq> 0 \<and> usage_limit u < usage_in_use u
      then Some (CapabilityOverLimit pool (usage_in_use u) (usage_limit u))
      else first_pool_violation rest)"

definition conservation_violation :: "Snapshot \<Rightarrow> ConservationViolation option" where
  "conservation_violation s =
     (case first_class_violation (bt_entries (snap_classes s)) of
        Some v \<Rightarrow> Some v
      | None \<Rightarrow> first_pool_violation (bt_entries (snap_capabilities s)))"

section \<open>What the check decides\<close>

definition class_conserves :: "ClassSnapshot \<Rightarrow> bool" where
  "class_conserves c \<longleftrightarrow>
     snap_inflight c = snap_dispatch_reserved c + snap_accepted c + snap_running c + snap_cleanup_pending c
     \<and> snap_admitted_total c = snap_inflight c + snap_terminated_total c
     \<and> snap_admitted_total c \<le> u128_max
     \<and> snap_started_total c \<le> snap_admitted_total c
     \<and> snap_running c + snap_cleanup_pending c \<le> snap_started_total c"

lemma class_conservation_violation_None_iff:
  "class_conservation_violation c = None \<longleftrightarrow> class_conserves c"
  by (auto simp: class_conservation_violation_def class_conserves_def Let_def split: option.splits)

lemma first_class_violation_None_iff:
  "first_class_violation es = None \<longleftrightarrow> (\<forall>(cl, c) \<in> set es. class_conserves c)"
  by (induction es rule: first_class_violation.induct)
     (auto simp: class_conservation_violation_None_iff [symmetric] split: option.splits)

lemma first_pool_violation_None_iff:
  "first_pool_violation es = None \<longleftrightarrow>
     (\<forall>(p, u) \<in> set es. usage_limit u \<noteq> 0 \<longrightarrow> usage_in_use u \<le> usage_limit u)"
  by (induction es rule: first_pool_violation.induct) auto

lemma conservation_violation_None_iff:
  "conservation_violation s = None \<longleftrightarrow>
     (\<forall>cl c. fmlookup (snap_classes s) cl = Some c \<longrightarrow> class_conserves c)
     \<and> (\<forall>p u. fmlookup (snap_capabilities s) p = Some u \<longrightarrow> usage_limit u \<noteq> 0 \<longrightarrow>
           usage_in_use u \<le> usage_limit u)"
proof -
  have "conservation_violation s = None \<longleftrightarrow>
      first_class_violation (bt_entries (snap_classes s)) = None
      \<and> first_pool_violation (bt_entries (snap_capabilities s)) = None"
    by (simp add: conservation_violation_def split: option.splits)
  then show ?thesis
    by (auto simp: first_class_violation_None_iff first_pool_violation_None_iff set_bt_entries
        split_paired_Ball_Sigma Ball_def)
qed

end
