(* ===== verification/TM_Verdict.thy ===== *)
theory TM_Verdict
  imports TM_Task TM_Snapshot
begin

text \<open>
  \<^verbatim>\<open>taskmesh-contract/src/verdict.rs\<close>: admission verdicts and the split between a governor failure
  and a task failure. The free text of \<open>GovernorError::PolicyViolation\<close> is the datatype
  \<open>PolicyMessage\<close>: one constructor for each message the engine and the host format, with the values it prints.
  A host message prints the engine's \<open>CapabilityResolutionError\<close> (\<^verbatim>\<open>shared/mod.rs\<close>) and the Rayon adapter's
  \<open>RayonBuildError\<close> (\<^verbatim>\<open>taskmesh-rayon\<close>), which therefore stand here.
\<close>

datatype CapabilityResolutionError =
    EmptyName
  | UnknownName str
  | ForeignId
  | TooManyRequirements nat

datatype RayonBuildError =
    ZeroWorkers
  | RayonInvalidTopology TopologyError
  | RayonPool str

datatype HeldCapacity =
    ClassInflight TaskClass
  | CapabilityPool str
  | CpuBudget
  | MemoryBudget

datatype AdmissionVerdict =
    Admitted
  | QueueFull "nat option"
  | CpuSaturated "nat option"
  | MemorySaturated "nat option"
  | ClassDisabled
  | UnknownClass TaskClass
  | RuntimeUnavailable
  | ClassificationFailed
  | PermitAcquireTimedOut "nat option"
  | CancelledBeforeSubmit
  | DeadlineExpiredBeforeSubmit
  | RecursiveAdmission
  | MalformedTask
  | SubstrateMismatch
  | SubstratePoolTimedOut "nat option"
  | SubstrateSaturated "nat option"
  | NestedWaitCycle HeldCapacity
  | IdentityExhausted

fun retry_after_ms :: "AdmissionVerdict \<Rightarrow> nat option" where
  "retry_after_ms (QueueFull r) = r"
| "retry_after_ms (CpuSaturated r) = r"
| "retry_after_ms (MemorySaturated r) = r"
| "retry_after_ms (PermitAcquireTimedOut r) = r"
| "retry_after_ms (SubstratePoolTimedOut r) = r"
| "retry_after_ms (SubstrateSaturated r) = r"
| "retry_after_ms _ = None"

definition is_admitted :: "AdmissionVerdict \<Rightarrow> bool" where
  "is_admitted v \<longleftrightarrow> v = Admitted"

datatype TerminalReason =
    Reclaimed
  | Released
  | Abandoned
  | ClaimDeliveryFailed
  | IrreversibleWaitCycle HeldCapacity
  | AccountingFaultReason

datatype PolicyMessage =
    ReduceKeyEmpty
  | ParallelStageNeedsReduce TaskStage
  | SubstrateNameEmpty
  | SubstrateNeedsPool str
  | DuplicateSubstrate str
  | CapabilityNameEmpty
  | LimitForUnregisteredPool str
  | RegistryKeyMismatch str str
  | MissingBuiltin str
  | NonCanonicalBuiltin str
  | CapabilityWithoutSubstrate str
  | SubstrateWithoutCapability str str
  | InvalidPolicyClass TaskClass TaskPlanError
  | ExceedsPerRequestCpu TaskClass
  | ExceedsPerRequestMemory TaskClass
  | ExceedsGlobalCpu TaskClass
  | ExceedsGlobalMemory TaskClass
  | MeasuredNeedsScale TaskClass
  | QueueableWithoutDepth TaskClass
  | ScavengerNotBestEffort TaskClass
  | ZeroWeight TaskClass
  | ZeroQuantum TaskClass
  | OvercommitQueueWithoutDepth TaskClass
  | DegradesToItself TaskClass
  | DegradesToUnknown TaskClass TaskClass
  | DegradesToDisabled TaskClass TaskClass
  | DegradeChains TaskClass TaskClass
  | MixedDiscipline TaskClass
  | StackSizeZero
  | StackSizeAboveMaximum nat
  | StackSizeNotUsize
  | StackSizeMissing
  | StackSizeUnsupportedDispatch
  | StackSizeOnPooledBlocking
  | DispatchResolutionFailed CapabilityResolutionError
  | DispatchRequirementFailed CapabilityResolutionError
  | DispatchRequirementsRejected CapabilityResolutionError
  | AcquireTimeoutOutOfRange
  | RunDeadlineOutOfRange
  | AbsoluteDeadlineNeedsCooperation
  | ResponseBoundaryWithDeadline
  | LeasedOutsideRuntime nat nat
  | PhaseNotLater ExecutionPhase nat nat ExecutionPhase
  | DuplicateClassPolicy TaskClass
  | DuplicateCapabilityLimit str
  | BuiltinLimitOverridden str
  | SharedCpuPoolFailed RayonBuildError

datatype GovernorError =
    RejectedError AdmissionVerdict
  | TicketClaimTerminated nat TerminalReason
  | InvalidTicketClaim nat
  | LocalRuntimeUnavailable
  | PolicyViolation PolicyMessage
  | InvalidTopology TopologyError
  | IdentityAuthorityExhausted
  | CancelledError
  | DeadlineExceeded
  | DeadlineUnsupported TaskClass CancellationPolicy
  | LeaseReclaimed nat
  | WorkerUnavailable str str
  | WorkerPanicked str
  | JobAbandoned str

fun as_verdict :: "GovernorError \<Rightarrow> AdmissionVerdict option" where
  "as_verdict (RejectedError v) = Some v"
| "as_verdict _ = None"

fun governor_retry_after_ms :: "GovernorError \<Rightarrow> nat option" where
  "governor_retry_after_ms (RejectedError v) = retry_after_ms v"
| "governor_retry_after_ms _ = None"

datatype 'e RunError = GovernorRunError GovernorError | TaskRunError 'e

fun run_governor :: "'e RunError \<Rightarrow> GovernorError option" where
  "run_governor (GovernorRunError e) = Some e"
| "run_governor (TaskRunError _) = None"

fun run_task :: "'e RunError \<Rightarrow> 'e option" where
  "run_task (TaskRunError e) = Some e"
| "run_task (GovernorRunError _) = None"

definition run_as_verdict :: "'e RunError \<Rightarrow> AdmissionVerdict option" where
  "run_as_verdict r = Option.bind (run_governor r) as_verdict"

definition run_retry_after_ms :: "'e RunError \<Rightarrow> nat option" where
  "run_retry_after_ms r = Option.bind (run_governor r) governor_retry_after_ms"

end
