(* ===== verification/TM_Shared.thy ===== *)
theory TM_Shared
  imports TM_Verdict TM_Snapshot
begin

text \<open>
  \<^verbatim>\<open>taskmesh-engine/src/shared/mod.rs\<close> and \<^verbatim>\<open>features/inventory/mod.rs\<close>: handle identities, the
  capability registry, bounded requirement sets, the policy set and the substrate inventory.

  An \<open>Arc\<close> that only serves as an identity (\<open>CapabilityAuthority\<close>) is the number of its allocation;
  \<open>Arc::ptr_eq\<close> is equality of those numbers.
\<close>

section \<open>Handle identities\<close>

datatype PermitId = PermitId (permit_authority: nat) (permit_sequence: nat)
datatype Ticket = Ticket (ticket_authority: nat) (ticket_sequence: nat)
datatype CapabilityId = CapabilityId (capability_id_name: str) (capability_id_authority: nat)

text \<open>The derived lexicographic orders.\<close>

instantiation PermitId :: linorder
begin

definition less_eq_PermitId :: "PermitId \<Rightarrow> PermitId \<Rightarrow> bool" where
  "less_eq_PermitId p q \<longleftrightarrow> permit_authority p < permit_authority q
     \<or> permit_authority p = permit_authority q \<and> permit_sequence p \<le> permit_sequence q"

definition less_PermitId :: "PermitId \<Rightarrow> PermitId \<Rightarrow> bool" where
  "less_PermitId p q \<longleftrightarrow> permit_authority p < permit_authority q
     \<or> permit_authority p = permit_authority q \<and> permit_sequence p < permit_sequence q"

instance
  by standard (auto simp: less_eq_PermitId_def less_PermitId_def intro: PermitId.expand)

end

instantiation Ticket :: linorder
begin

definition less_eq_Ticket :: "Ticket \<Rightarrow> Ticket \<Rightarrow> bool" where
  "less_eq_Ticket p q \<longleftrightarrow> ticket_authority p < ticket_authority q
     \<or> ticket_authority p = ticket_authority q \<and> ticket_sequence p \<le> ticket_sequence q"

definition less_Ticket :: "Ticket \<Rightarrow> Ticket \<Rightarrow> bool" where
  "less_Ticket p q \<longleftrightarrow> ticket_authority p < ticket_authority q
     \<or> ticket_authority p = ticket_authority q \<and> ticket_sequence p < ticket_sequence q"

instance
  by standard (auto simp: less_eq_Ticket_def less_Ticket_def intro: Ticket.expand)

end

definition capability_id_le :: "CapabilityId \<Rightarrow> CapabilityId \<Rightarrow> bool" where
  "capability_id_le p q \<longleftrightarrow> capability_id_name p < capability_id_name q
     \<or> capability_id_name p = capability_id_name q \<and> capability_id_authority p \<le> capability_id_authority q"

instantiation CapabilityId :: linorder
begin

definition less_eq_CapabilityId :: "CapabilityId \<Rightarrow> CapabilityId \<Rightarrow> bool" where
  "less_eq_CapabilityId p q \<longleftrightarrow> capability_id_le p q"

definition less_CapabilityId :: "CapabilityId \<Rightarrow> CapabilityId \<Rightarrow> bool" where
  "less_CapabilityId p q \<longleftrightarrow> capability_id_name p < capability_id_name q
     \<or> capability_id_name p = capability_id_name q \<and> capability_id_authority p < capability_id_authority q"

instance
  by standard (auto simp: less_eq_CapabilityId_def capability_id_le_def less_CapabilityId_def intro: CapabilityId.expand)

end

section \<open>Capabilities\<close>

datatype ResolvedCapability = Ungated | Registered CapabilityId

text \<open>\<open>Bounded\<close> carries a \<open>NonZeroU32\<close>.\<close>

datatype CapabilityCapacity = Bounded nat | ExplicitUnbounded

fun capacity_limit :: "CapabilityCapacity \<Rightarrow> nat" where
  "capacity_limit (Bounded n) = n"
| "capacity_limit ExplicitUnbounded = 0"

record CapabilityRecord =
  cap_id :: CapabilityId
  cap_capacity :: CapabilityCapacity

definition cap_name :: "CapabilityRecord \<Rightarrow> str" where
  "cap_name r = capability_id_name (cap_id r)"

definition MAX_CAPABILITY_REQUIREMENTS :: nat where
  "MAX_CAPABILITY_REQUIREMENTS = 32"

text \<open>\<open>CapabilityRequirementSet\<close> is a sorted vector. \<open>binary_search\<close> on it finds the element or the
  index that keeps the order, so its two arms are membership and ordered insertion.\<close>

type_synonym CapabilityRequirementSet = "CapabilityId list"

fun from_resolved_loop ::
  "CapabilityId list \<Rightarrow> ResolvedCapability list
     \<Rightarrow> (CapabilityResolutionError, CapabilityRequirementSet) result" where
  "from_resolved_loop ids [] = Inr ids"
| "from_resolved_loop ids (Ungated # rest) = from_resolved_loop ids rest"
| "from_resolved_loop ids (Registered c # rest) =
     (let ids' = (if c \<in> set ids then ids else insort c ids)
      in if MAX_CAPABILITY_REQUIREMENTS < length ids'
         then Inl (TooManyRequirements MAX_CAPABILITY_REQUIREMENTS)
         else from_resolved_loop ids' rest)"

definition from_resolved ::
  "ResolvedCapability list \<Rightarrow> (CapabilityResolutionError, CapabilityRequirementSet) result" where
  "from_resolved cs = from_resolved_loop [] cs"

definition caps_intersects :: "CapabilityRequirementSet \<Rightarrow> CapabilityRequirementSet \<Rightarrow> bool" where
  "caps_intersects self other \<longleftrightarrow>
     (if self = [] \<and> other = [] then True else \<exists>c \<in> set self. c \<in> set other)"

lemma from_resolved_loop_spec:
  assumes "from_resolved_loop ids cs = Inr out" "sorted ids" "distinct ids"
    "length ids \<le> MAX_CAPABILITY_REQUIREMENTS"
  shows "sorted out \<and> distinct out \<and> length out \<le> MAX_CAPABILITY_REQUIREMENTS
    \<and> set out = set ids \<union> {c. Registered c \<in> set cs}"
  using assms
proof (induction ids cs rule: from_resolved_loop.induct)
  case (3 ids c rest)
  let ?ids = "if c \<in> set ids then ids else insort c ids"
  from "3.prems" have ok: "length ?ids \<le> MAX_CAPABILITY_REQUIREMENTS"
    and run: "from_resolved_loop ?ids rest = Inr out"
    by (auto simp: Let_def not_less split: if_splits)
  have "sorted ?ids" "distinct ?ids" "set ?ids = insert c (set ids)"
    using "3.prems" by (auto simp: sorted_insort distinct_insort set_insort_key)
  with "3.IH" [OF refl _ run] ok show ?case by (auto simp: not_less)
qed auto

lemma from_resolved_loop_ok:
  assumes "finite {c. Registered c \<in> set cs}"
    "card (set ids \<union> {c. Registered c \<in> set cs}) \<le> MAX_CAPABILITY_REQUIREMENTS" "distinct ids"
  shows "\<exists>out. from_resolved_loop ids cs = Inr out"
  using assms
proof (induction ids cs rule: from_resolved_loop.induct)
  case (3 ids c rest)
  let ?ids = "if c \<in> set ids then ids else insort c ids"
  have d: "distinct ?ids" and s: "set ?ids = insert c (set ids)"
    using "3.prems" by (auto simp: distinct_insort set_insort_key)
  have sub: "set ?ids \<union> {d. Registered d \<in> set rest}
      = set ids \<union> {d. Registered d \<in> set (Registered c # rest)}" using s by auto
  have fin: "finite {d. Registered d \<in> set rest}"
    by (rule finite_subset [OF _ "3.prems"(1)]) auto
  have "length ?ids = card (set ?ids)" using distinct_card [OF d] by (rule sym)
  also have "\<dots> \<le> card (set ?ids \<union> {d. Registered d \<in> set rest})"
    by (rule card_mono) (use fin in auto)
  also have "\<dots> \<le> MAX_CAPABILITY_REQUIREMENTS" using "3.prems"(2) by (simp only: sub)
  finally have len: "length ?ids \<le> MAX_CAPABILITY_REQUIREMENTS" .
  have "\<exists>out. from_resolved_loop ?ids rest = Inr out"
    by (rule "3.IH" [OF refl]) (use len fin d "3.prems"(2) sub in \<open>auto simp: not_less\<close>)
  then show ?case using len by (auto simp: Let_def not_less)
qed auto

text \<open>
  A requirement set built from resolved capabilities is the canonical bounded set of the
  registered ones: sorted, without duplicates, at most 32 elements, and it is refused only when more
  than 32 distinct capabilities are required.
\<close>

theorem from_resolved_canonical:
  "from_resolved cs = Inr out \<longleftrightarrow>
     sorted out \<and> distinct out \<and> set out = {c. Registered c \<in> set cs}
     \<and> length out \<le> MAX_CAPABILITY_REQUIREMENTS"
proof
  assume "from_resolved cs = Inr out"
  then show "sorted out \<and> distinct out \<and> set out = {c. Registered c \<in> set cs}
     \<and> length out \<le> MAX_CAPABILITY_REQUIREMENTS"
    using from_resolved_loop_spec [of "[]" cs out] by (simp add: from_resolved_def)
next
  assume out: "sorted out \<and> distinct out \<and> set out = {c. Registered c \<in> set cs}
     \<and> length out \<le> MAX_CAPABILITY_REQUIREMENTS"
  have fin: "finite {c. Registered c \<in> set cs}" using out by (metis List.finite_set)
  have "card {c. Registered c \<in> set cs} \<le> MAX_CAPABILITY_REQUIREMENTS"
    using out by (metis distinct_card)
  then obtain o2 where o2: "from_resolved_loop [] cs = Inr o2"
    using from_resolved_loop_ok [OF fin, of "[]"] by auto
  have "sorted o2 \<and> distinct o2 \<and> set o2 = {c. Registered c \<in> set cs}"
    using from_resolved_loop_spec [OF o2] by simp
  with out have "o2 = out" by (intro sorted_distinct_set_unique) auto
  with o2 show "from_resolved cs = Inr out" by (simp add: from_resolved_def)
qed

section \<open>Substrate inventory\<close>

definition BUILTIN_SUBSTRATES :: "str list" where
  "BUILTIN_SUBSTRATES = [lit ''cpu'', lit ''blocking'', lit ''large_stack'', lit ''maintenance'',
     lit ''local_runtime'']"

definition validate_record :: "SubstrateRecord \<Rightarrow> (GovernorError, unit) result" where
  "validate_record r =
     (if trim (sub_name r) = [] then Inl (PolicyViolation SubstrateNameEmpty)
      else if sub_kind r \<noteq> AuthorityOnly
        \<and> \<not> (case sub_capability_pool r of None \<Rightarrow> False | Some p \<Rightarrow> trim p \<noteq> [])
        then Inl (PolicyViolation (SubstrateNeedsPool (sub_name r)))
      else Inr ())"

definition builtin_records :: "SubstrateRecord list" where
  "builtin_records =
     [SubstrateRecord_new (lit ''cpu'') CompetingExecution (Some (lit ''cpu'')),
      SubstrateRecord_new (lit ''blocking'') CompetingExecution (Some (lit ''blocking'')),
      SubstrateRecord_new (lit ''large_stack'') CompetingExecution (Some (lit ''large_stack'')),
      SubstrateRecord_new (lit ''maintenance'') MaintenanceOnly (Some (lit ''maintenance'')),
      SubstrateRecord_new (lit ''local_runtime'') CompetingExecution (Some (lit ''local_runtime''))]"

definition provides_capability :: "SubstrateRecord \<Rightarrow> str \<Rightarrow> bool" where
  "provides_capability r capability \<longleftrightarrow>
     (case sub_kind r of AuthorityOnly \<Rightarrow> False | _ \<Rightarrow> sub_capability_pool r = Some capability)"

type_synonym Registry = "(str, SubstrateRecord) fmap"

definition register :: "Registry \<Rightarrow> SubstrateRecord \<Rightarrow> (GovernorError, Registry) result" where
  "register reg r =
     and_then (validate_record r) (\<lambda>_.
       if fmlookup reg (sub_name r) \<noteq> None then Inl (PolicyViolation (DuplicateSubstrate (sub_name r)))
       else Inr (fmupd (sub_name r) r reg))"

fun register_all :: "Registry \<Rightarrow> SubstrateRecord list \<Rightarrow> (GovernorError, Registry) result" where
  "register_all reg [] = Inr reg"
| "register_all reg (r # rs) = and_then (register reg r) (\<lambda>reg'. register_all reg' rs)"

definition inventory_snapshot :: "Registry \<Rightarrow> SubstrateRecord list" where
  "inventory_snapshot reg = bt_values reg"

section \<open>The policy set\<close>

record PolicySet =
  ps_resources :: ResourceBudget
  ps_classes :: "(TaskClass, ClassPolicy) fmap"
  ps_substrates :: Registry
  ps_capabilities :: "(CapabilityId, CapabilityRecord) fmap"
  ps_capability_authority :: nat

definition builtin_capability_records :: "Registry \<Rightarrow> nat \<Rightarrow> (CapabilityId, CapabilityRecord) fmap" where
  "builtin_capability_records reg authority =
     fold (\<lambda>r caps.
        case sub_capability_pool r of
          None \<Rightarrow> caps
        | Some pool \<Rightarrow>
            let i = CapabilityId pool authority
            in case fmlookup caps i of
                 Some _ \<Rightarrow> caps
               | None \<Rightarrow> fmupd i \<lparr>cap_id = i, cap_capacity = ExplicitUnbounded\<rparr> caps)
       (bt_values reg) fmempty"

text \<open>The registry \<open>PolicySet::new\<close> seeds. Its \<open>expect\<close> cannot fire (\<open>builtin_registry_registers\<close>).\<close>

definition builtin_registry :: Registry where
  "builtin_registry = (case register_all fmempty builtin_records of Inr r \<Rightarrow> r | Inl _ \<Rightarrow> fmempty)"

definition PolicySet_new ::
  "nat \<Rightarrow> ResourceBudget \<Rightarrow> (TaskClass, ClassPolicy) fmap \<Rightarrow> PolicySet" where
  "PolicySet_new authority resources classes =
     \<lparr>ps_resources = resources, ps_classes = classes, ps_substrates = builtin_registry,
      ps_capabilities = builtin_capability_records builtin_registry authority,
      ps_capability_authority = authority\<rparr>"

definition with_substrates :: "PolicySet \<Rightarrow> SubstrateRecord list \<Rightarrow> (GovernorError, PolicySet) result" where
  "with_substrates ps rs =
     and_then (register_all (ps_substrates ps) rs) (\<lambda>reg. Inr (ps\<lparr>ps_substrates := reg\<rparr>))"

definition capability_key :: "PolicySet \<Rightarrow> str \<Rightarrow> CapabilityId option" where
  "capability_key ps pool = List.find (\<lambda>i. capability_id_name i = pool) (bt_keys (ps_capabilities ps))"

definition capacity_of_limit :: "nat \<Rightarrow> CapabilityCapacity" where
  "capacity_of_limit limit = (if limit = 0 then ExplicitUnbounded else Bounded limit)"

fun with_capability_limits_loop :: "PolicySet \<Rightarrow> (str \<times> nat) list \<Rightarrow> (GovernorError, PolicySet) result" where
  "with_capability_limits_loop ps [] = Inr ps"
| "with_capability_limits_loop ps ((pool, limit) # rest) =
     (if trim pool = [] then Inl (PolicyViolation CapabilityNameEmpty)
      else if \<not> (\<exists>r \<in> set (bt_values (ps_substrates ps)).
                   sub_kind r \<noteq> AuthorityOnly \<and> sub_capability_pool r = Some pool)
        then Inl (PolicyViolation (LimitForUnregisteredPool pool))
      else
        let i = (case capability_key ps pool of
                   Some i \<Rightarrow> i
                 | None \<Rightarrow> CapabilityId pool (ps_capability_authority ps))
        in with_capability_limits_loop
             (ps\<lparr>ps_capabilities :=
                fmupd i \<lparr>cap_id = i, cap_capacity = capacity_of_limit limit\<rparr> (ps_capabilities ps)\<rparr>) rest)"

definition with_capability_limits :: "PolicySet \<Rightarrow> (str, nat) fmap \<Rightarrow> (GovernorError, PolicySet) result" where
  "with_capability_limits ps limits = with_capability_limits_loop ps (bt_entries limits)"

definition resolve_capability :: "PolicySet \<Rightarrow> str \<Rightarrow> (CapabilityResolutionError, ResolvedCapability) result" where
  "resolve_capability ps pool =
     (if trim pool = [] then Inl EmptyName
      else case capability_key ps pool of
        Some i \<Rightarrow> Inr (Registered i)
      | None \<Rightarrow> Inl (UnknownName pool))"

fun validate_resolved_capability ::
  "PolicySet \<Rightarrow> ResolvedCapability \<Rightarrow> (CapabilityResolutionError, unit) result" where
  "validate_resolved_capability ps Ungated = Inr ()"
| "validate_resolved_capability ps (Registered i) =
     (if fmlookup (ps_capabilities ps) i \<noteq> None then Inr () else Inl ForeignId)"

definition validate_requirements ::
  "PolicySet \<Rightarrow> CapabilityRequirementSet \<Rightarrow> (CapabilityResolutionError, unit) result" where
  "validate_requirements ps reqs =
     (if list_all (\<lambda>i. fmlookup (ps_capabilities ps) i \<noteq> None) reqs then Inr () else Inl ForeignId)"

definition capability_record :: "PolicySet \<Rightarrow> CapabilityId \<Rightarrow> CapabilityRecord option" where
  "capability_record ps i = fmlookup (ps_capabilities ps) i"

definition policy_class :: "PolicySet \<Rightarrow> TaskClass \<Rightarrow> ClassPolicy option" where
  "policy_class ps cl = fmlookup (ps_classes ps) cl"

definition capability_capacity :: "PolicySet \<Rightarrow> str \<Rightarrow> CapabilityCapacity option" where
  "capability_capacity ps pool =
     map_option cap_capacity (List.find (\<lambda>r. cap_name r = pool) (bt_values (ps_capabilities ps)))"

lemma builtin_registry_registers: "register_all fmempty builtin_records = Inr builtin_registry"
proof -
  have "\<exists>r. register_all fmempty builtin_records = Inr r"
    by (simp add: builtin_records_def SubstrateRecord_new_def register_def validate_record_def
        lit_def trim_def is_whitespace_def)
  then show ?thesis by (auto simp: builtin_registry_def)
qed

lemma capability_key_Some:
  assumes "capability_key ps pool = Some i"
  shows "capability_id_name i = pool \<and> fmlookup (ps_capabilities ps) i \<noteq> None"
proof -
  from assms have "capability_id_name i = pool" and "i \<in> set (bt_keys (ps_capabilities ps))"
    unfolding capability_key_def by (auto simp: find_Some_iff simp del: set_bt_keys intro: nth_mem)
  then show ?thesis by (simp add: fmlookup_dom_iff)
qed

text \<open>
  Resolving a pool name never invents a capability: a resolved capability carries that name, is
  registered by the very policy that resolved it, and passes that policy's own admission check.
\<close>

theorem resolve_capability_sound:
  assumes "resolve_capability ps pool = Inr c"
  shows "\<exists>i. c = Registered i \<and> capability_id_name i = pool \<and> capability_record ps i \<noteq> None
    \<and> validate_resolved_capability ps c = Inr ()"
  using assms
  by (auto simp: resolve_capability_def capability_record_def split: if_splits option.splits
      dest: capability_key_Some)

theorem resolve_capability_sound_witness:
  "\<exists>i. resolve_capability (PolicySet_new 9 ResourceBudget_new fmempty) (lit ''cpu'') = Inr (Registered i)
     \<and> capability_id_name i = lit ''cpu''"
proof -
  have eq: "resolve_capability (PolicySet_new 9 ResourceBudget_new fmempty) (lit ''cpu'')
      = Inr (Registered (CapabilityId (lit ''cpu'') 9))"
    by code_simp
  from resolve_capability_sound [OF eq] eq show ?thesis by blast
qed

section \<open>Value types of the engine boundary\<close>

type_synonym Seq = nat

record ResolvedCost =
  rc_cpu_units :: nat
  rc_memory_units :: nat

record Provenance =
  prov_source :: str
  prov_reason :: ClassificationRationale

definition Provenance_of :: "TaskSpec \<Rightarrow> Provenance" where
  "Provenance_of spec = \<lparr>prov_source = spec_source spec, prov_reason = spec_reason spec\<rparr>"

record RootAttribution =
  ra_child_inflight :: nat
  ra_cpu_units :: nat
  ra_memory_units :: nat
  ra_active_stages :: nat

record LeakSweepReport =
  reclaimed_permits :: nat
  suspected_leaks :: nat
  retained_active :: nat

datatype StageReleaseOutcome =
    StageReleased (stage_freed_units: nat)
  | PolicyForbids MemoryReleasePolicy
  | StageUnknownPermit
  | StaleSequence nat

fun freed_units :: "StageReleaseOutcome \<Rightarrow> nat" where
  "freed_units (StageReleased n) = n"
| "freed_units _ = 0"

datatype AdmissionDecision =
    DecAdmitted PermitId
  | DecQueued Ticket
  | DecRejected AdmissionVerdict

end
