(* ===== verification/TM_State.thy ===== *)
theory TM_State
  imports TM_Shared
begin

text \<open>
  \<^verbatim>\<open>taskmesh-engine/src/engine/state.rs\<close>: the data behind the governor's mutex and the per-class
  queue with its arrival indexes. A host waker (\<open>Arc<dyn PermitWaker>\<close>) is an opaque number. The
  engine's own copy of \<open>TerminalReason\<close> has the constructors of the contract's and converts to it
  constructor by constructor, so both are one datatype here.
\<close>

section \<open>Data\<close>

type_synonym waker = nat

definition MAX_TERMINAL_TICKETS :: nat where
  "MAX_TERMINAL_TICKETS = 4096"

datatype CapacityBlock =
    BlockOk
  | BlockInflight
  | BlockCapability
  | BlockCpu
  | BlockMemory
  | BlockQueuedBehind
  | BlockAccountingFault

record PendingRequest =
  pr_permit_id :: PermitId
  pr_ticket :: Ticket
  pr_seq_no :: Seq
  pr_queue_order :: nat
  pr_class :: TaskClass
  pr_request_key :: str
  pr_operation :: str
  pr_root_operation_id :: str
  pr_scope :: TaskScope
  pr_parent_permit_id :: "PermitId option"
  pr_target_stage :: TaskStage
  pr_provenance :: Provenance
  pr_cost :: ResolvedCost
  pr_capabilities :: CapabilityRequirementSet
  pr_enqueued_at_ms :: nat
  pr_deadline_ms :: nat
  pr_finish_tag :: nat
  pr_wfq_arrival_tag :: nat
  pr_blocked_on :: CapacityBlock
  pr_waker :: "waker option"

record ClassState =
  cs_inflight :: nat
  cs_queue :: "PendingRequest list"
  cs_queued_by_capability :: "(CapabilityId, nat set) fmap"
  cs_queued_ungated :: "nat set"
  cs_queued_awaited_children :: "Seq set"
  cs_last_finish_tag :: nat
  cs_last_served_finish_tag :: nat
  cs_deficit :: nat
  cs_cpu_units_held :: nat
  cs_memory_units_held :: nat
  cs_dispatch_reserved :: nat
  cs_accepted :: nat
  cs_running :: nat
  cs_cleanup_pending :: nat
  cs_admitted_total :: nat
  cs_started_total :: nat
  cs_terminated_total :: nat

definition ClassState_default :: ClassState where
  "ClassState_default = \<lparr>cs_inflight = 0, cs_queue = [], cs_queued_by_capability = fmempty,
     cs_queued_ungated = {}, cs_queued_awaited_children = {}, cs_last_finish_tag = 0,
     cs_last_served_finish_tag = 0, cs_deficit = 0, cs_cpu_units_held = 0, cs_memory_units_held = 0,
     cs_dispatch_reserved = 0, cs_accepted = 0, cs_running = 0, cs_cleanup_pending = 0,
     cs_admitted_total = 0, cs_started_total = 0, cs_terminated_total = 0\<rparr>"

record PermitLedger =
  pl_cpu_units :: nat
  pl_original_estimate_units :: nat
  pl_remaining_reservation_units :: nat
  pl_measured_bytes :: nat
  pl_measurement_sequence :: nat
  pl_stage_sequence :: nat
  pl_effective_units :: nat
  pl_leased_at_ms :: nat
  pl_last_touched_ms :: nat

record PermitRecord =
  rec_permit_id :: PermitId
  rec_class :: TaskClass
  rec_operation :: str
  rec_root_operation_id :: str
  rec_scope :: TaskScope
  rec_parent_permit_id :: "PermitId option"
  rec_target_stage :: TaskStage
  rec_provenance :: Provenance
  rec_capabilities :: CapabilityRequirementSet
  rec_phase :: ExecutionPhase
  rec_lease_nonce :: "nat option"
  rec_pending_ticket :: "Ticket option"
  rec_claim_waker :: "waker option"
  rec_ledger :: PermitLedger

record RootExecutionState =
  root_child_inflight :: nat
  root_cpu_units :: nat
  root_memory_units :: nat
  root_active_stages :: "TaskStage set"

definition RootExecutionState_default :: RootExecutionState where
  "RootExecutionState_default = \<lparr>root_child_inflight = 0, root_cpu_units = 0, root_memory_units = 0,
     root_active_stages = {}\<rparr>"

datatype TicketState =
    TQueued TaskClass
  | TGranted PermitId
  | TClaiming PermitId
  | TTerminal TerminalReason
  | TFaulted

datatype ClaimOutcome = ClaimReady PermitId | ClaimPending | ClaimTerminal TerminalReason | ClaimInvalid

datatype AbandonOutcome =
    AbandonedOk | TerminalDiscarded | AbandonInvalid | AbandonHeldByLease ExecutionPhase

datatype ReleaseOutcome = ReleasedOk | UnknownPermit | HeldByLease ExecutionPhase

datatype LeaseToken = LeaseToken (token_permit_id: PermitId) (token_nonce: nat)

datatype AdvanceRefusal = AdvanceUnknownPermit | NotLater ExecutionPhase

datatype AdvanceOutcome = Leased LeaseToken | Advanced | Refused AdvanceRefusal

record TransitionEffects =
  eff_wake :: "waker list"
  eff_retire :: "waker list"
  eff_more_runnable :: bool

definition no_effects :: TransitionEffects where
  "no_effects = \<lparr>eff_wake = [], eff_retire = [], eff_more_runnable = False\<rparr>"

definition absorb :: "TransitionEffects \<Rightarrow> TransitionEffects \<Rightarrow> TransitionEffects" where
  "absorb self other = \<lparr>eff_wake = eff_wake self @ eff_wake other,
     eff_retire = eff_retire self @ eff_retire other,
     eff_more_runnable = (eff_more_runnable self \<or> eff_more_runnable other)\<rparr>"

definition push_wake :: "waker option \<Rightarrow> TransitionEffects \<Rightarrow> TransitionEffects" where
  "push_wake w e = (case w of None \<Rightarrow> e | Some x \<Rightarrow> e\<lparr>eff_wake := eff_wake e @ [x]\<rparr>)"

definition retire :: "waker option \<Rightarrow> TransitionEffects \<Rightarrow> TransitionEffects" where
  "retire w e = (case w of None \<Rightarrow> e | Some x \<Rightarrow> e\<lparr>eff_retire := eff_retire e @ [x]\<rparr>)"

lemma retire_None [simp]: "retire None e = e"
  by (simp add: retire_def)

record GrantRequest =
  gr_permit_id :: PermitId
  gr_class :: TaskClass
  gr_operation :: str
  gr_root_operation_id :: str
  gr_scope :: TaskScope
  gr_parent_permit_id :: "PermitId option"
  gr_target_stage :: TaskStage
  gr_provenance :: Provenance
  gr_capabilities :: CapabilityRequirementSet
  gr_cost :: ResolvedCost
  gr_reserved_units :: nat
  gr_now_ms :: nat
  gr_pending_ticket :: "Ticket option"
  gr_claim_waker :: "waker option"

record RootOperationPermits =
  rop_root :: "PermitId option"
  rop_descendants :: "(str, PermitId) fmap"

definition rop_default :: RootOperationPermits where
  "rop_default = \<lparr>rop_root = None, rop_descendants = fmempty\<rparr>"

definition rop_get :: "RootOperationPermits \<Rightarrow> str \<Rightarrow> str \<Rightarrow> PermitId option" where
  "rop_get r root_id op = (if op = root_id then rop_root r else fmlookup (rop_descendants r) op)"

definition rop_insert :: "RootOperationPermits \<Rightarrow> str \<Rightarrow> str \<Rightarrow> PermitId \<Rightarrow> RootOperationPermits" where
  "rop_insert r root_id op p =
     (if op = root_id then r\<lparr>rop_root := Some p\<rparr>
      else r\<lparr>rop_descendants := fmupd op p (rop_descendants r)\<rparr>)"

definition rop_remove :: "RootOperationPermits \<Rightarrow> str \<Rightarrow> str \<Rightarrow> RootOperationPermits" where
  "rop_remove r root_id op =
     (if op = root_id then r\<lparr>rop_root := None\<rparr>
      else r\<lparr>rop_descendants := fmdrop op (rop_descendants r)\<rparr>)"

definition rop_is_empty :: "RootOperationPermits \<Rightarrow> bool" where
  "rop_is_empty r \<longleftrightarrow> rop_root r = None \<and> fmdom (rop_descendants r) = {||}"

record GovernedState =
  gs_classes :: "(TaskClass, ClassState) fmap"
  gs_permits :: "(PermitId, PermitRecord) fmap"
  gs_operation_permits :: "(str, RootOperationPermits) fmap"
  gs_queued_operation_identities :: "(str, str set) fmap"
  gs_next_queue_order :: nat
  gs_roots :: "(str, RootExecutionState) fmap"
  gs_active_recursion :: "(str, TaskStage set) fmap"
  gs_tickets :: "(Ticket, TicketState) fmap"
  gs_terminal_order :: "(nat, Ticket) fmap"
  gs_terminal_index :: "(Ticket, nat) fmap"
  gs_terminal_seq :: nat
  gs_cpu_units_held :: nat
  gs_memory_units_held :: nat
  gs_capability_in_use :: "(CapabilityId, nat) fmap"
  gs_virtual_time :: nat
  gs_drr_cursor :: "TaskClass option"
  gs_commit_watermark_ms :: nat
  gs_accounting_fault :: "string option"
  gs_admission_closed :: bool
  gs_promotion_pending :: bool
  gs_drr_ring_visits :: nat

definition GovernedState_default :: GovernedState where
  "GovernedState_default = \<lparr>gs_classes = fmempty, gs_permits = fmempty,
     gs_operation_permits = fmempty, gs_queued_operation_identities = fmempty,
     gs_next_queue_order = 0, gs_roots = fmempty, gs_active_recursion = fmempty,
     gs_tickets = fmempty, gs_terminal_order = fmempty, gs_terminal_index = fmempty,
     gs_terminal_seq = 0, gs_cpu_units_held = 0, gs_memory_units_held = 0,
     gs_capability_in_use = fmempty, gs_virtual_time = 0, gs_drr_cursor = None,
     gs_commit_watermark_ms = 0, gs_accounting_fault = None, gs_admission_closed = False,
     gs_promotion_pending = False, gs_drr_ring_visits = 0\<rparr>"

section \<open>The class queue and its arrival indexes\<close>

definition cs_queued :: "ClassState \<Rightarrow> nat" where
  "cs_queued cs = min (length (cs_queue cs)) u32_max"

definition index_arrival :: "nat \<Rightarrow> CapabilityId \<Rightarrow> (CapabilityId, nat set) fmap \<Rightarrow> (CapabilityId, nat set) fmap" where
  "index_arrival q i m = fmupd i (insert q (fmget m {} i)) m"

definition unindex_arrival :: "nat \<Rightarrow> CapabilityId \<Rightarrow> (CapabilityId, nat set) fmap \<Rightarrow> (CapabilityId, nat set) fmap" where
  "unindex_arrival q i m =
     (case fmlookup m i of
        None \<Rightarrow> m
      | Some arrivals \<Rightarrow> if arrivals - {q} = {} then fmdrop i m else fmupd i (arrivals - {q}) m)"

definition index_pending :: "PendingRequest \<Rightarrow> ClassState \<Rightarrow> ClassState" where
  "index_pending r cs =
     (let cs = (if is_awaited_child (pr_scope r)
                then cs\<lparr>cs_queued_awaited_children := insert (pr_seq_no r) (cs_queued_awaited_children cs)\<rparr>
                else cs)
      in if pr_capabilities r = []
         then cs\<lparr>cs_queued_ungated := insert (pr_queue_order r) (cs_queued_ungated cs)\<rparr>
         else cs\<lparr>cs_queued_by_capability :=
                fold (index_arrival (pr_queue_order r)) (pr_capabilities r) (cs_queued_by_capability cs)\<rparr>)"

definition unindex_pending :: "PendingRequest \<Rightarrow> ClassState \<Rightarrow> ClassState" where
  "unindex_pending r cs =
     (let cs = (if is_awaited_child (pr_scope r)
                then cs\<lparr>cs_queued_awaited_children := cs_queued_awaited_children cs - {pr_seq_no r}\<rparr>
                else cs)
      in if pr_capabilities r = []
         then cs\<lparr>cs_queued_ungated := cs_queued_ungated cs - {pr_queue_order r}\<rparr>
         else cs\<lparr>cs_queued_by_capability :=
                fold (unindex_arrival (pr_queue_order r)) (pr_capabilities r) (cs_queued_by_capability cs)\<rparr>)"

text \<open>\<open>BTreeSet::first().is_some_and(|order| *order < bound)\<close>\<close>

definition first_below :: "nat set \<Rightarrow> nat \<Rightarrow> bool" where
  "first_below s bound \<longleftrightarrow> s \<noteq> {} \<and> Min s < bound"

definition has_queued_predecessor :: "ClassState \<Rightarrow> PendingRequest \<Rightarrow> bool" where
  "has_queued_predecessor cs r \<longleftrightarrow>
     (if pr_capabilities r = [] then first_below (cs_queued_ungated cs) (pr_queue_order r)
      else \<exists>i \<in> set (pr_capabilities r).
             case fmlookup (cs_queued_by_capability cs) i of
               None \<Rightarrow> False | Some arrivals \<Rightarrow> first_below arrivals (pr_queue_order r))"

definition has_queued_domain :: "ClassState \<Rightarrow> CapabilityRequirementSet \<Rightarrow> bool" where
  "has_queued_domain cs caps \<longleftrightarrow>
     (if caps = [] then cs_queued_ungated cs \<noteq> {}
      else \<exists>i \<in> set caps. case fmlookup (cs_queued_by_capability cs) i of
                            None \<Rightarrow> False | Some arrivals \<Rightarrow> arrivals \<noteq> {})"

text \<open>The linear oracle the repository's own tests compare the index with
  (\<open>admission::pending::queued_behind_index\<close>).\<close>

definition queued_behind_index :: "PendingRequest list \<Rightarrow> nat \<Rightarrow> bool" where
  "queued_behind_index queue index \<longleftrightarrow>
     (if index < length queue
      then \<exists>earlier \<in> set (take index queue).
             caps_intersects (pr_capabilities earlier) (pr_capabilities (queue ! index))
      else True)"

text \<open>The class part of \<open>GovernedState::enqueue\<close> and of \<open>GovernedState::remove_pending\<close>.\<close>

definition class_push :: "PendingRequest \<Rightarrow> ClassState \<Rightarrow> ClassState" where
  "class_push r cs = (index_pending r cs)\<lparr>cs_queue := cs_queue cs @ [r]\<rparr>"

definition class_take :: "nat \<Rightarrow> ClassState \<Rightarrow> ClassState" where
  "class_take i cs = unindex_pending (cs_queue cs ! i) (cs\<lparr>cs_queue := remove_nth i (cs_queue cs)\<rparr>)"

section \<open>Phase gauges\<close>

fun phase_slot :: "ExecutionPhase \<Rightarrow> ClassState \<Rightarrow> nat" where
  "phase_slot DispatchReserved cs = cs_dispatch_reserved cs"
| "phase_slot Accepted cs = cs_accepted cs"
| "phase_slot Running cs = cs_running cs"
| "phase_slot CleanupPending cs = cs_cleanup_pending cs"

fun set_phase_slot :: "ExecutionPhase \<Rightarrow> nat \<Rightarrow> ClassState \<Rightarrow> ClassState" where
  "set_phase_slot DispatchReserved n cs = cs\<lparr>cs_dispatch_reserved := n\<rparr>"
| "set_phase_slot Accepted n cs = cs\<lparr>cs_accepted := n\<rparr>"
| "set_phase_slot Running n cs = cs\<lparr>cs_running := n\<rparr>"
| "set_phase_slot CleanupPending n cs = cs\<lparr>cs_cleanup_pending := n\<rparr>"

definition enter_phase :: "ExecutionPhase \<Rightarrow> ClassState \<Rightarrow> ClassState" where
  "enter_phase p cs = set_phase_slot p (saturating_add u32_max (phase_slot p cs) 1) cs"

definition leave_phase :: "ExecutionPhase \<Rightarrow> ClassState \<Rightarrow> ClassState" where
  "leave_phase p cs = set_phase_slot p (saturating_sub (phase_slot p cs) 1) cs"

lemma phase_slot_set [simp]:
  "phase_slot p (set_phase_slot q n cs) = (if p = q then n else phase_slot p cs)"
  by (cases p; cases q) simp_all

lemma set_phase_slot_frame [simp]:
  "cs_inflight (set_phase_slot p n cs) = cs_inflight cs"
  "cs_queue (set_phase_slot p n cs) = cs_queue cs"
  "cs_queued_by_capability (set_phase_slot p n cs) = cs_queued_by_capability cs"
  "cs_queued_ungated (set_phase_slot p n cs) = cs_queued_ungated cs"
  "cs_queued_awaited_children (set_phase_slot p n cs) = cs_queued_awaited_children cs"
  "cs_deficit (set_phase_slot p n cs) = cs_deficit cs"
  "cs_cpu_units_held (set_phase_slot p n cs) = cs_cpu_units_held cs"
  "cs_memory_units_held (set_phase_slot p n cs) = cs_memory_units_held cs"
  "cs_admitted_total (set_phase_slot p n cs) = cs_admitted_total cs"
  "cs_started_total (set_phase_slot p n cs) = cs_started_total cs"
  "cs_terminated_total (set_phase_slot p n cs) = cs_terminated_total cs"
  by (cases p; simp)+

section \<open>The index is the queue\<close>

definition queue_indexed :: "ClassState \<Rightarrow> bool" where
  "queue_indexed cs \<longleftrightarrow>
     cs_queued_awaited_children cs = pr_seq_no ` {r \<in> set (cs_queue cs). is_awaited_child (pr_scope r)}
     \<and> cs_queued_ungated cs = pr_queue_order ` {r \<in> set (cs_queue cs). pr_capabilities r = []}
     \<and> (\<forall>i. fmget (cs_queued_by_capability cs) {} i
            = pr_queue_order ` {r \<in> set (cs_queue cs). i \<in> set (pr_capabilities r)})
     \<and> sorted_wrt (<) (map pr_queue_order (cs_queue cs))
     \<and> distinct (map pr_seq_no (cs_queue cs))"

lemma fmget_index_fold:
  "fmget (fold (index_arrival q) is m) {} i = (if i \<in> set is then insert q (fmget m {} i) else fmget m {} i)"
  by (induction "is" arbitrary: m) (auto simp: index_arrival_def)

lemma fmget_unindex_arrival:
  "fmget (unindex_arrival q j m) {} i = (if i = j then fmget m {} i - {q} else fmget m {} i)"
  by (auto simp: unindex_arrival_def fmget_def split: option.splits)

lemma fmget_unindex_fold:
  "fmget (fold (unindex_arrival q) is m) {} i = (if i \<in> set is then fmget m {} i - {q} else fmget m {} i)"
  by (induction "is" arbitrary: m) (auto simp: fmget_unindex_arrival)

lemma index_pending_queue [simp]: "cs_queue (index_pending r cs) = cs_queue cs"
  by (simp add: index_pending_def Let_def)

lemma unindex_pending_queue [simp]: "cs_queue (unindex_pending r cs) = cs_queue cs"
  by (simp add: unindex_pending_def Let_def)

lemma class_push_queue [simp]: "cs_queue (class_push r cs) = cs_queue cs @ [r]"
  by (simp add: class_push_def)

lemma class_take_queue [simp]: "cs_queue (class_take i cs) = remove_nth i (cs_queue cs)"
  by (simp add: class_take_def)

lemma queue_indexed_sorted: "queue_indexed cs \<Longrightarrow> sorted_wrt (<) (map pr_queue_order (cs_queue cs))"
  by (simp add: queue_indexed_def)

lemma queue_indexed_default: "queue_indexed ClassState_default"
  by (simp add: queue_indexed_def ClassState_default_def)

lemma queue_indexed_push:
  assumes "queue_indexed cs" "\<forall>x \<in> set (cs_queue cs). pr_queue_order x < pr_queue_order r"
    "\<forall>x \<in> set (cs_queue cs). pr_seq_no x \<noteq> pr_seq_no r"
  shows "queue_indexed (class_push r cs)"
  using assms
  by (auto simp: queue_indexed_def class_push_def index_pending_def Let_def fmget_index_fold
      sorted_wrt_append image_iff)

lemma take_out_image:
  assumes "distinct (map f xs)" "i < length xs"
  shows "f ` {r \<in> set (remove_nth i xs). P r} =
    (if P (xs ! i) then f ` {r \<in> set xs. P r} - {f (xs ! i)} else f ` {r \<in> set xs. P r})"
proof -
  have ins: "set xs = insert (xs ! i) (set (remove_nth i xs))" by (rule set_remove_nth [OF assms(2)])
  have "map f xs ! i \<notin> set (remove_nth i (map f xs))"
    by (rule distinct_remove_nth_notin) (use assms in auto)
  then have fresh: "f (xs ! i) \<notin> f ` set (remove_nth i xs)"
    using assms(2) by (simp add: map_remove_nth [symmetric])
  have "f ` {r \<in> set (remove_nth i xs). P r} \<subseteq> f ` set (remove_nth i xs)" by blast
  with fresh have fresh': "f (xs ! i) \<notin> f ` {r \<in> set (remove_nth i xs). P r}" by blast
  show ?thesis
  proof (cases "P (xs ! i)")
    case True
    then have "{r \<in> set xs. P r} = insert (xs ! i) {r \<in> set (remove_nth i xs). P r}"
      using ins by auto
    with True fresh' show ?thesis by simp
  next
    case False
    then have "{r \<in> set xs. P r} = {r \<in> set (remove_nth i xs). P r}" using ins by auto
    with False show ?thesis by simp
  qed
qed

lemma queue_indexed_take:
  assumes inv: "queue_indexed cs" and i: "i < length (cs_queue cs)"
  shows "queue_indexed (class_take i cs)"
proof -
  let ?q = "cs_queue cs"
  have so: "sorted_wrt (<) (map pr_queue_order ?q)" and ds: "distinct (map pr_seq_no ?q)"
    using inv by (simp_all add: queue_indexed_def)
  have dq: "distinct (map pr_queue_order ?q)" using so by (simp add: strict_sorted_iff)
  note img = take_out_image [OF dq i] take_out_image [OF ds i]
  have "sorted_wrt (<) (map pr_queue_order (remove_nth i ?q))"
    "distinct (map pr_seq_no (remove_nth i ?q))"
    using so ds by (simp_all add: map_remove_nth sorted_wrt_remove_nth distinct_remove_nth)
  with inv show ?thesis
    by (auto simp: queue_indexed_def class_take_def unindex_pending_def Let_def img fmget_unindex_fold)
qed

lemma first_below_image: "finite s \<Longrightarrow> first_below s b \<longleftrightarrow> (\<exists>x \<in> s. x < b)"
  by (cases "s = {}") (auto simp: first_below_def Min_less_iff)

lemma fmget_case:
  "\<not> P d \<Longrightarrow> (case fmlookup m k of None \<Rightarrow> False | Some v \<Rightarrow> P v) \<longleftrightarrow> P (fmget m d k)"
  by (auto simp: fmget_def split: option.splits)

lemma has_queued_predecessor_set:
  assumes "queue_indexed cs"
  shows "has_queued_predecessor cs r \<longleftrightarrow>
    (\<exists>x \<in> set (cs_queue cs). caps_intersects (pr_capabilities x) (pr_capabilities r)
       \<and> pr_queue_order x < pr_queue_order r)"
proof (cases "pr_capabilities r = []")
  case True
  then show ?thesis
    using assms by (auto simp: has_queued_predecessor_def queue_indexed_def first_below_image
        caps_intersects_def)
next
  case False
  have "has_queued_predecessor cs r \<longleftrightarrow> (\<exists>i \<in> set (pr_capabilities r).
      first_below (fmget (cs_queued_by_capability cs) {} i) (pr_queue_order r))"
    using False
    by (simp add: has_queued_predecessor_def fmget_case [where d = "{}"] first_below_def)
  also have "\<dots> \<longleftrightarrow> (\<exists>i \<in> set (pr_capabilities r). \<exists>x \<in> set (cs_queue cs).
      i \<in> set (pr_capabilities x) \<and> pr_queue_order x < pr_queue_order r)"
    using assms by (auto simp: queue_indexed_def first_below_image)
  also have "\<dots> \<longleftrightarrow> (\<exists>x \<in> set (cs_queue cs).
      caps_intersects (pr_capabilities x) (pr_capabilities r) \<and> pr_queue_order x < pr_queue_order r)"
    using False by (auto simp: caps_intersects_def)
  finally show ?thesis .
qed

lemma has_queued_domain_set:
  assumes "queue_indexed cs"
  shows "has_queued_domain cs caps \<longleftrightarrow>
    (\<exists>x \<in> set (cs_queue cs). caps_intersects (pr_capabilities x) caps)"
proof (cases "caps = []")
  case False
  have "has_queued_domain cs caps \<longleftrightarrow> (\<exists>i \<in> set caps. fmget (cs_queued_by_capability cs) {} i \<noteq> {})"
    using False by (simp add: has_queued_domain_def fmget_case [where d = "{}"])
  then show ?thesis using assms False by (auto simp: queue_indexed_def caps_intersects_def)
qed (use assms in \<open>auto simp: has_queued_domain_def queue_indexed_def caps_intersects_def\<close>)

section \<open>The interface of an indexed arrival queue\<close>

text \<open>
  What the scheduler relies on: an indexed queue holds its requests in arrival order, appends and
  removes by position, and its index answers whether an earlier arrival conflicts with a request.
\<close>

locale arrival_queue =
  fixes contents :: "'q \<Rightarrow> 'r list"
    and enq :: "'r \<Rightarrow> 'q \<Rightarrow> 'q"
    and deq :: "nat \<Rightarrow> 'q \<Rightarrow> 'q"
    and invar :: "'q \<Rightarrow> bool"
    and fresh :: "'r \<Rightarrow> 'q \<Rightarrow> bool"
    and arrival :: "'r \<Rightarrow> nat"
    and conflict :: "'r \<Rightarrow> 'r \<Rightarrow> bool"
    and ahead :: "'q \<Rightarrow> 'r \<Rightarrow> bool"
  assumes contents_enq: "contents (enq r q) = contents q @ [r]"
    and contents_deq: "contents (deq i q) = remove_nth i (contents q)"
    and invar_enq: "invar q \<Longrightarrow> fresh r q \<Longrightarrow> invar (enq r q)"
    and invar_deq: "invar q \<Longrightarrow> i < length (contents q) \<Longrightarrow> invar (deq i q)"
    and arrival_order: "invar q \<Longrightarrow> sorted_wrt (<) (map arrival (contents q))"
    and ahead_iff: "invar q \<Longrightarrow> ahead q r \<longleftrightarrow>
          (\<exists>x \<in> set (contents q). conflict x r \<and> arrival x < arrival r)"
begin

lemma earlier_iff:
  assumes "invar q" "i < length (contents q)" "x \<in> set (contents q)"
  shows "arrival x < arrival (contents q ! i) \<longleftrightarrow> x \<in> set (take i (contents q))"
proof -
  have lt: "\<And>a b. a < b \<Longrightarrow> b < length (contents q) \<Longrightarrow> arrival (contents q ! a) < arrival (contents q ! b)"
    using arrival_order [OF assms(1)] by (simp add: sorted_wrt_iff_nth_less)
  obtain j where j: "j < length (contents q)" "x = contents q ! j"
    using assms(3) by (metis in_set_conv_nth)
  have "arrival x < arrival (contents q ! i) \<longleftrightarrow> j < i"
    using lt [of j i] lt [of i j] j assms(2) by (metis less_asym' linorder_neqE_nat less_irrefl)
  also have "j < i \<longleftrightarrow> x \<in> set (take i (contents q))"
  proof
    assume "j < i" then show "x \<in> set (take i (contents q))"
      using j assms(2) by (auto simp: in_set_conv_nth intro!: exI [of _ j])
  next
    assume "x \<in> set (take i (contents q))"
    then obtain k where k: "k < i" "k < length (contents q)" "contents q ! k = x"
      by (auto simp: in_set_conv_nth)
    then show "j < i" using lt [of i j] lt [of k j] lt [of j k] j assms(2)
      by (metis less_irrefl linorder_neqE_nat)
  qed
  finally show ?thesis .
qed

lemma ahead_nth:
  assumes "invar q" "i < length (contents q)"
  shows "ahead q (contents q ! i) \<longleftrightarrow> (\<exists>x \<in> set (take i (contents q)). conflict x (contents q ! i))"
  using assms earlier_iff [OF assms] by (auto simp: ahead_iff dest: in_set_takeD)

lemma head_not_behind: "invar q \<Longrightarrow> contents q \<noteq> [] \<Longrightarrow> \<not> ahead q (contents q ! 0)"
  using ahead_nth [of q 0] by simp

lemma removing_keeps_order:
  "invar q \<Longrightarrow> i < length (contents q) \<Longrightarrow> ahead (deq i q) r \<Longrightarrow> ahead q r"
  using set_remove_nth_subset [of i "contents q"]
  by (auto simp: ahead_iff invar_deq contents_deq)

end

interpretation class_queue: arrival_queue
  cs_queue class_push class_take queue_indexed
  "\<lambda>r cs. (\<forall>x \<in> set (cs_queue cs). pr_queue_order x < pr_queue_order r)
     \<and> (\<forall>x \<in> set (cs_queue cs). pr_seq_no x \<noteq> pr_seq_no r)"
  pr_queue_order "\<lambda>x r. caps_intersects (pr_capabilities x) (pr_capabilities r)"
  has_queued_predecessor
  by unfold_locales
     (simp_all add: queue_indexed_push queue_indexed_take has_queued_predecessor_set queue_indexed_sorted)

text \<open>
  C27: The arrival index answers exactly what a scan of the queue would: a queued request has an indexed
  predecessor if and only if some earlier request of its class needs a common capability (or both
  need none). The production lookup is the test suite's linear oracle.
\<close>

theorem has_queued_predecessor_oracle:
  assumes "queue_indexed cs" "i < length (cs_queue cs)"
  shows "has_queued_predecessor cs (cs_queue cs ! i) \<longleftrightarrow> queued_behind_index (cs_queue cs) i"
  using class_queue.ahead_nth [OF assms] assms(2) by (simp add: queued_behind_index_def)

section \<open>Concrete requests\<close>

text \<open>A queued request of one CPU unit, the concrete input of the witnesses below and in later theories.\<close>

definition sample_pending :: "nat \<Rightarrow> TaskClass \<Rightarrow> CapabilityRequirementSet \<Rightarrow> PendingRequest" where
  "sample_pending n cl caps =
     \<lparr>pr_permit_id = PermitId 0 n, pr_ticket = Ticket 0 n, pr_seq_no = n, pr_queue_order = n, pr_class = cl,
      pr_request_key = lit ''k'', pr_operation = [n], pr_root_operation_id = [n], pr_scope = Root,
      pr_parent_permit_id = None, pr_target_stage = lit ''main'',
      pr_provenance = \<lparr>prov_source = lit ''t'', prov_reason = ExplicitMapping\<rparr>,
      pr_cost = \<lparr>rc_cpu_units = 1, rc_memory_units = 0\<rparr>, pr_capabilities = caps, pr_enqueued_at_ms = 0,
      pr_deadline_ms = u64_max, pr_finish_tag = 0, pr_wfq_arrival_tag = 0, pr_blocked_on = BlockOk,
      pr_waker = None\<rparr>"

definition sample_class :: ClassState where
  "sample_class =
     class_push (sample_pending 3 (lit ''web'') [CapabilityId (lit ''gpu'') 0])
       (class_push (sample_pending 2 (lit ''web'') [])
          (class_push (sample_pending 1 (lit ''web'') [CapabilityId (lit ''gpu'') 0]) ClassState_default))"

lemma sample_class_queue:
  "cs_queue sample_class = [sample_pending 1 (lit ''web'') [CapabilityId (lit ''gpu'') 0],
     sample_pending 2 (lit ''web'') [], sample_pending 3 (lit ''web'') [CapabilityId (lit ''gpu'') 0]]"
  by (simp add: sample_class_def class_push_def ClassState_default_def)

lemma sample_class_indexed: "queue_indexed sample_class"
  unfolding sample_class_def
  by (intro queue_indexed_push queue_indexed_default)
     (simp_all add: class_push_def ClassState_default_def sample_pending_def)

theorem has_queued_predecessor_oracle_witness:
  "queue_indexed sample_class \<and> 2 < length (cs_queue sample_class)
     \<and> (has_queued_predecessor sample_class (cs_queue sample_class ! 2) \<longleftrightarrow> queued_behind_index (cs_queue sample_class) 2)"
  using has_queued_predecessor_oracle [OF sample_class_indexed, of 2] sample_class_indexed
  by (simp add: sample_class_queue)

end
