(* ===== verification/TM_Transition.thy ===== *)
theory TM_Transition
  imports TM_State
begin

text \<open>
  \<^verbatim>\<open>taskmesh-engine/src/engine/state/transition.rs\<close>: the state transitions every governor operation is
  composed of, and the accounting they maintain.

  A method that mutates \<open>self\<close> returns the new state; a \<open>&mut TransitionEffects\<close> argument is
  returned as well. \<open>mint_lease_nonce\<close> draws from a process-wide counter, which is an argument and a
  result of \<open>advance_phase\<close>. The debug-only \<open>assert_consistent\<close> is an executable predicate, and the
  invariants below imply it.
\<close>

section \<open>Reading and modifying the state\<close>

definition class_view :: "GovernedState \<Rightarrow> TaskClass \<Rightarrow> ClassState" where
  "class_view s cl = fmget (gs_classes s) ClassState_default cl"

text \<open>\<open>class_mut\<close> creates a missing class; a caller that writes through \<open>get_mut\<close> skips it.\<close>

definition class_mut :: "TaskClass \<Rightarrow> (ClassState \<Rightarrow> ClassState) \<Rightarrow> GovernedState \<Rightarrow> GovernedState" where
  "class_mut cl f s = s\<lparr>gs_classes := fmupd cl (f (class_view s cl)) (gs_classes s)\<rparr>"

definition class_get_mut :: "TaskClass \<Rightarrow> (ClassState \<Rightarrow> ClassState) \<Rightarrow> GovernedState \<Rightarrow> GovernedState" where
  "class_get_mut cl f s =
     (case fmlookup (gs_classes s) cl of
        None \<Rightarrow> s
      | Some cs \<Rightarrow> s\<lparr>gs_classes := fmupd cl (f cs) (gs_classes s)\<rparr>)"

definition inflight :: "GovernedState \<Rightarrow> TaskClass \<Rightarrow> nat" where
  "inflight s cl = (case fmlookup (gs_classes s) cl of None \<Rightarrow> 0 | Some cs \<Rightarrow> cs_inflight cs)"

definition queued :: "GovernedState \<Rightarrow> TaskClass \<Rightarrow> nat" where
  "queued s cl = (case fmlookup (gs_classes s) cl of None \<Rightarrow> 0 | Some cs \<Rightarrow> cs_queued cs)"

definition commit_time :: "nat \<Rightarrow> GovernedState \<Rightarrow> GovernedState \<times> nat" where
  "commit_time sampled_ms s =
     (let committed = max sampled_ms (gs_commit_watermark_ms s)
      in (s\<lparr>gs_commit_watermark_ms := committed\<rparr>, committed))"

definition capability_in_use :: "GovernedState \<Rightarrow> CapabilityId \<Rightarrow> nat" where
  "capability_in_use s i = fmget (gs_capability_in_use s) 0 i"

definition permits_for_operation :: "GovernedState \<Rightarrow> str \<Rightarrow> str \<Rightarrow> PermitId option" where
  "permits_for_operation s root_id op =
     Option.bind (fmlookup (gs_operation_permits s) root_id) (\<lambda>r. rop_get r root_id op)"

fun parent_permit_for_scope :: "GovernedState \<Rightarrow> str \<Rightarrow> TaskScope \<Rightarrow> PermitId option" where
  "parent_permit_for_scope s root_id (Child parent_op st aw) = permits_for_operation s root_id parent_op"
| "parent_permit_for_scope s root_id Root = None"

definition has_operation_identity :: "GovernedState \<Rightarrow> str \<Rightarrow> str \<Rightarrow> bool" where
  "has_operation_identity s root_id op \<longleftrightarrow>
     permits_for_operation s root_id op \<noteq> None
     \<or> (case fmlookup (gs_queued_operation_identities s) root_id of
          None \<Rightarrow> False | Some ops \<Rightarrow> op \<in> ops)"

section \<open>Queue transitions\<close>

definition enqueue :: "PendingRequest \<Rightarrow> GovernedState \<Rightarrow> GovernedState" where
  "enqueue request s =
     (let order = gs_next_queue_order s + 1;
          request = request\<lparr>pr_queue_order := order\<rparr>;
          ids = gs_queued_operation_identities s;
          root_id = pr_root_operation_id request;
          s = s\<lparr>gs_next_queue_order := order,
                gs_queued_operation_identities :=
                  fmupd root_id (insert (pr_operation request) (fmget ids {} root_id)) ids\<rparr>
      in class_mut (pr_class request) (class_push request) s)"

definition forget_queued_identity :: "PendingRequest \<Rightarrow> GovernedState \<Rightarrow> GovernedState" where
  "forget_queued_identity r s =
     (let ids = gs_queued_operation_identities s; root_id = pr_root_operation_id r in
      case fmlookup ids root_id of
        None \<Rightarrow> s
      | Some ops \<Rightarrow>
          let ops' = ops - {pr_operation r} in
          s\<lparr>gs_queued_operation_identities :=
              (if ops' = {} then fmdrop root_id ids else fmupd root_id ops' ids)\<rparr>)"

definition remove_pending :: "TaskClass \<Rightarrow> nat \<Rightarrow> GovernedState \<Rightarrow> GovernedState \<times> PendingRequest option" where
  "remove_pending cl index s =
     (case fmlookup (gs_classes s) cl of
        None \<Rightarrow> (s, None)
      | Some cs \<Rightarrow>
          if index < length (cs_queue cs)
          then let r = cs_queue cs ! index;
                   s = s\<lparr>gs_classes := fmupd cl (class_take index cs) (gs_classes s)\<rparr>
               in (forget_queued_identity r s, Some r)
          else (s, None))"

section \<open>Recursion guard\<close>

definition occupy_recursion_guard :: "str \<Rightarrow> TaskStage \<Rightarrow> GovernedState \<Rightarrow> GovernedState" where
  "occupy_recursion_guard root_id st s =
     s\<lparr>gs_active_recursion :=
         fmupd root_id (insert st (fmget (gs_active_recursion s) {} root_id)) (gs_active_recursion s)\<rparr>"

definition vacate_recursion_guard :: "str \<Rightarrow> TaskStage \<Rightarrow> GovernedState \<Rightarrow> GovernedState" where
  "vacate_recursion_guard root_id st s =
     (case fmlookup (gs_active_recursion s) root_id of
        None \<Rightarrow> s
      | Some stages \<Rightarrow>
          let stages' = stages - {st} in
          s\<lparr>gs_active_recursion :=
              (if stages' = {} then fmdrop root_id (gs_active_recursion s)
               else fmupd root_id stages' (gs_active_recursion s))\<rparr>)"

section \<open>Terminal tickets\<close>

text \<open>The eviction loop of \<open>record_terminal_ticket\<close>: drop the oldest retained outcome.\<close>

definition drop_terminal :: "nat \<Rightarrow> Ticket \<Rightarrow> GovernedState \<Rightarrow> GovernedState" where
  "drop_terminal sq t s =
     (let s = s\<lparr>gs_terminal_order := fmdrop sq (gs_terminal_order s),
               gs_terminal_index := fmdrop t (gs_terminal_index s)\<rparr>
      in case fmlookup (gs_tickets s) t of
           Some (TTerminal _) \<Rightarrow> s\<lparr>gs_tickets := fmdrop t (gs_tickets s)\<rparr>
         | _ \<Rightarrow> s)"

function evict_terminal :: "GovernedState \<Rightarrow> GovernedState" where
  "evict_terminal s =
     (if MAX_TERMINAL_TICKETS < bt_len (gs_terminal_order s)
      then (case bt_entries (gs_terminal_order s) of
              [] \<Rightarrow> s
            | (oldest_seq, oldest) # _ \<Rightarrow> evict_terminal (drop_terminal oldest_seq oldest s))
      else s)"
  by pat_completeness auto

lemma drop_terminal_order [simp]:
  "gs_terminal_order (drop_terminal sq t s) = fmdrop sq (gs_terminal_order s)"
  by (simp add: drop_terminal_def Let_def split: option.splits TicketState.splits)

lemma bt_entries_head:
  assumes "bt_entries m = (k, v) # es"
  shows "fmlookup m k = Some v" and "\<And>j. j |\<in>| fmdom m \<Longrightarrow> k \<le> j"
proof -
  show "fmlookup m k = Some v" using assms set_bt_entries [of k v m] by simp
  have "bt_keys m = k # map fst es" using assms map_fst_bt_entries [of m] by simp
  moreover have "sorted (bt_keys m)" by simp
  ultimately show "j |\<in>| fmdom m \<Longrightarrow> k \<le> j" for j
    using set_bt_keys [of m] by (metis list.set_intros(1) set_ConsD sorted_simps(2) order_refl)
qed

lemma bt_len_drop: "fmlookup m k = Some v \<Longrightarrow> bt_len (fmdrop k m) = bt_len m - 1"
  by (simp add: bt_len_eq fmdomI card_Diff_singleton)

lemma bt_len_pos: "fmlookup m k = Some v \<Longrightarrow> 0 < bt_len m"
  by (auto simp: bt_len_eq card_gt_0_iff dest: fmdomI)

termination evict_terminal
  by (relation "measure (\<lambda>s. bt_len (gs_terminal_order s))")
     (auto simp: bt_len_drop dest!: bt_entries_head(1))

declare evict_terminal.simps [simp del]

definition record_terminal_ticket :: "Ticket \<Rightarrow> TerminalReason \<Rightarrow> GovernedState \<Rightarrow> GovernedState" where
  "record_terminal_ticket t reason s =
     (let s = s\<lparr>gs_tickets := fmupd t (TTerminal reason) (gs_tickets s)\<rparr>;
          s = (case fmlookup (gs_terminal_index s) t of
                 None \<Rightarrow> s
               | Some previous \<Rightarrow>
                   s\<lparr>gs_terminal_index := fmdrop t (gs_terminal_index s),
                     gs_terminal_order := fmdrop previous (gs_terminal_order s)\<rparr>);
          sq = gs_terminal_seq s;
          s = s\<lparr>gs_terminal_seq := (gs_terminal_seq s + 1) mod 2 ^ 64,
                gs_terminal_order := fmupd sq t (gs_terminal_order s),
                gs_terminal_index := fmupd t sq (gs_terminal_index s)\<rparr>
      in evict_terminal s)"

definition forget_terminal_ticket :: "Ticket \<Rightarrow> GovernedState \<Rightarrow> GovernedState" where
  "forget_terminal_ticket t s =
     (let s = (case fmlookup (gs_terminal_index s) t of
                 None \<Rightarrow> s
               | Some sq \<Rightarrow>
                   s\<lparr>gs_terminal_index := fmdrop t (gs_terminal_index s),
                     gs_terminal_order := fmdrop sq (gs_terminal_order s)\<rparr>)
      in case fmlookup (gs_tickets s) t of
           Some (TTerminal _) \<Rightarrow> s\<lparr>gs_tickets := fmdrop t (gs_tickets s)\<rparr>
         | Some TFaulted \<Rightarrow> s\<lparr>gs_tickets := fmdrop t (gs_tickets s)\<rparr>
         | _ \<Rightarrow> s)"

definition retained_terminal_tickets :: "GovernedState \<Rightarrow> nat" where
  "retained_terminal_tickets s = bt_len (gs_terminal_order s)"

section \<open>Permit transitions\<close>

definition occupy_capability :: "CapabilityId \<Rightarrow> (CapabilityId, nat) fmap \<Rightarrow> (CapabilityId, nat) fmap" where
  "occupy_capability i m = fmupd i (saturating_add u32_max (fmget m 0 i) 1) m"

definition vacate_capability :: "CapabilityId \<Rightarrow> (CapabilityId, nat) fmap \<Rightarrow> (CapabilityId, nat) fmap" where
  "vacate_capability i m =
     (case fmlookup m i of
        None \<Rightarrow> m
      | Some n \<Rightarrow> if saturating_sub n 1 = 0 then fmdrop i m else fmupd i (saturating_sub n 1) m)"

definition class_grant :: "ResolvedCost \<Rightarrow> ClassState \<Rightarrow> ClassState" where
  "class_grant cost cs =
     enter_phase DispatchReserved
       (cs\<lparr>cs_inflight := cs_inflight cs + 1,
           cs_cpu_units_held := cs_cpu_units_held cs + rc_cpu_units cost,
           cs_memory_units_held := cs_memory_units_held cs + rc_memory_units cost,
           cs_admitted_total := cs_admitted_total cs + 1\<rparr>)"

definition root_grant :: "ResolvedCost \<Rightarrow> TaskStage \<Rightarrow> RootExecutionState \<Rightarrow> RootExecutionState" where
  "root_grant cost st root =
     root\<lparr>root_child_inflight := root_child_inflight root + 1,
          root_cpu_units := root_cpu_units root + rc_cpu_units cost,
          root_memory_units := root_memory_units root + rc_memory_units cost,
          root_active_stages := insert st (root_active_stages root)\<rparr>"

definition granted_record :: "GrantRequest \<Rightarrow> PermitRecord" where
  "granted_record g =
     \<lparr>rec_permit_id = gr_permit_id g, rec_class = gr_class g, rec_operation = gr_operation g,
      rec_root_operation_id = gr_root_operation_id g, rec_scope = gr_scope g,
      rec_parent_permit_id = gr_parent_permit_id g, rec_target_stage = gr_target_stage g,
      rec_provenance = gr_provenance g, rec_capabilities = gr_capabilities g,
      rec_phase = DispatchReserved, rec_lease_nonce = None,
      rec_pending_ticket = gr_pending_ticket g, rec_claim_waker = gr_claim_waker g,
      rec_ledger = \<lparr>pl_cpu_units = rc_cpu_units (gr_cost g),
         pl_original_estimate_units = gr_reserved_units g,
         pl_remaining_reservation_units = gr_reserved_units g,
         pl_measured_bytes = 0, pl_measurement_sequence = 0, pl_stage_sequence = 0,
         pl_effective_units = rc_memory_units (gr_cost g),
         pl_leased_at_ms = gr_now_ms g, pl_last_touched_ms = gr_now_ms g\<rparr>\<rparr>"

definition grant :: "GrantRequest \<Rightarrow> GovernedState \<Rightarrow> GovernedState" where
  "grant g s =
     (let root_id = gr_root_operation_id g; cost = gr_cost g;
          s = class_mut (gr_class g) (class_grant cost) s;
          s = s\<lparr>gs_cpu_units_held := gs_cpu_units_held s + rc_cpu_units cost,
                gs_memory_units_held := gs_memory_units_held s + rc_memory_units cost,
                gs_capability_in_use := fold occupy_capability (gr_capabilities g) (gs_capability_in_use s),
                gs_operation_permits :=
                  fmupd root_id
                    (rop_insert (fmget (gs_operation_permits s) rop_default root_id) root_id
                       (gr_operation g) (gr_permit_id g))
                    (gs_operation_permits s)\<rparr>;
          s = (if is_child (gr_scope g)
               then occupy_recursion_guard root_id (gr_target_stage g)
                      (s\<lparr>gs_roots := fmupd root_id
                          (root_grant cost (gr_target_stage g)
                             (fmget (gs_roots s) RootExecutionState_default root_id))
                          (gs_roots s)\<rparr>)
               else s);
          s = (case gr_pending_ticket g of
                 None \<Rightarrow> s
               | Some t \<Rightarrow> s\<lparr>gs_tickets := fmupd t (TGranted (gr_permit_id g)) (gs_tickets s)\<rparr>)
      in s\<lparr>gs_permits := fmupd (gr_permit_id g) (granted_record g) (gs_permits s)\<rparr>)"

definition mint_lease_nonce :: "nat \<Rightarrow> nat \<times> nat" where
  "mint_lease_nonce counter = (counter, (counter + 1) mod 2 ^ 64)"

definition class_advance :: "ExecutionPhase \<Rightarrow> ExecutionPhase \<Rightarrow> ClassState \<Rightarrow> ClassState" where
  "class_advance previous phase cs =
     (let cs = enter_phase phase (leave_phase previous cs)
      in if \<not> has_started previous \<and> has_started phase
         then cs\<lparr>cs_started_total := cs_started_total cs + 1\<rparr> else cs)"

definition advance_phase ::
  "PermitId \<Rightarrow> ExecutionPhase \<Rightarrow> GovernedState \<Rightarrow> nat \<Rightarrow> (GovernedState \<times> nat) \<times> AdvanceOutcome" where
  "advance_phase p phase s nonces =
     (case fmlookup (gs_permits s) p of
        None \<Rightarrow> ((s, nonces), Refused AdvanceUnknownPermit)
      | Some r \<Rightarrow>
          if rank phase \<le> rank (rec_phase r) then ((s, nonces), Refused (NotLater (rec_phase r)))
          else
            let previous = rec_phase r;
                r' = r\<lparr>rec_phase := phase\<rparr>;
                (r', nonces', outcome) =
                  (case rec_lease_nonce r of
                     None \<Rightarrow>
                       let (nonce, nonces') = mint_lease_nonce nonces
                       in (r'\<lparr>rec_lease_nonce := Some nonce\<rparr>, nonces', Leased (LeaseToken p nonce))
                   | Some _ \<Rightarrow> (r', nonces, Advanced));
                s = s\<lparr>gs_permits := fmupd p r' (gs_permits s)\<rparr>
            in ((class_mut (rec_class r) (class_advance previous phase) s, nonces'), outcome))"

definition class_unwind :: "PermitRecord \<Rightarrow> ClassState \<Rightarrow> ClassState" where
  "class_unwind r cs =
     (let cs = cs\<lparr>cs_inflight := saturating_sub (cs_inflight cs) 1,
           cs_cpu_units_held := saturating_sub (cs_cpu_units_held cs) (pl_cpu_units (rec_ledger r)),
           cs_memory_units_held :=
             saturating_sub (cs_memory_units_held cs) (pl_effective_units (rec_ledger r))\<rparr>;
          cs = leave_phase (rec_phase r) cs
      in cs\<lparr>cs_terminated_total := cs_terminated_total cs + 1\<rparr>)"

definition root_unwind :: "PermitRecord \<Rightarrow> RootExecutionState \<Rightarrow> RootExecutionState" where
  "root_unwind r root =
     root\<lparr>root_child_inflight := saturating_sub (root_child_inflight root) 1,
          root_cpu_units := saturating_sub (root_cpu_units root) (pl_cpu_units (rec_ledger r)),
          root_memory_units := saturating_sub (root_memory_units root) (pl_effective_units (rec_ledger r)),
          root_active_stages := root_active_stages root - {rec_target_stage r}\<rparr>"

definition unwind_operation :: "PermitRecord \<Rightarrow> GovernedState \<Rightarrow> GovernedState" where
  "unwind_operation r s =
     (let root_id = rec_root_operation_id r; ops = gs_operation_permits s in
      case fmlookup ops root_id of
        None \<Rightarrow> s
      | Some rop \<Rightarrow>
          let rop' = rop_remove rop root_id (rec_operation r) in
          s\<lparr>gs_operation_permits := (if rop_is_empty rop' then fmdrop root_id ops else fmupd root_id rop' ops)\<rparr>)"

definition unwind_root :: "PermitRecord \<Rightarrow> GovernedState \<Rightarrow> GovernedState" where
  "unwind_root r s =
     (if is_child (rec_scope r)
      then
        let root_id = rec_root_operation_id r;
            s = (case fmlookup (gs_roots s) root_id of
                   None \<Rightarrow> s
                 | Some root \<Rightarrow>
                     let root' = root_unwind r root in
                     s\<lparr>gs_roots := (if root_child_inflight root' = 0 then fmdrop root_id (gs_roots s)
                                    else fmupd root_id root' (gs_roots s))\<rparr>)
        in vacate_recursion_guard root_id (rec_target_stage r) s
      else s)"

definition unwind ::
  "PermitId \<Rightarrow> TerminalReason \<Rightarrow> GovernedState \<Rightarrow> TransitionEffects
     \<Rightarrow> (GovernedState \<times> TransitionEffects) \<times> PermitRecord option" where
  "unwind p reason s effects =
     (case fmlookup (gs_permits s) p of
        None \<Rightarrow> ((s, effects), None)
      | Some r \<Rightarrow>
          let s = s\<lparr>gs_permits := fmdrop p (gs_permits s)\<rparr>;
              s = class_get_mut (rec_class r) (class_unwind r) s;
              s = s\<lparr>gs_cpu_units_held := saturating_sub (gs_cpu_units_held s) (pl_cpu_units (rec_ledger r)),
                    gs_memory_units_held :=
                      saturating_sub (gs_memory_units_held s) (pl_effective_units (rec_ledger r)),
                    gs_capability_in_use := fold vacate_capability (rec_capabilities r) (gs_capability_in_use s)\<rparr>;
              s = unwind_operation r s;
              s = unwind_root r s;
              (s, effects) =
                (case rec_pending_ticket r of
                   Some t \<Rightarrow> (record_terminal_ticket t reason s, push_wake (rec_claim_waker r) effects)
                 | None \<Rightarrow> (s, retire (rec_claim_waker r) effects))
          in ((s, effects), Some (r\<lparr>rec_pending_ticket := None, rec_claim_waker := None\<rparr>)))"

definition release_with_proof_reason ::
  "PermitId \<Rightarrow> nat option \<Rightarrow> TerminalReason \<Rightarrow> GovernedState \<Rightarrow> TransitionEffects
     \<Rightarrow> (GovernedState \<times> TransitionEffects) \<times> ReleaseOutcome" where
  "release_with_proof_reason p proof reason s effects =
     (case fmlookup (gs_permits s) p of
        None \<Rightarrow> ((s, effects), UnknownPermit)
      | Some r \<Rightarrow>
          if rec_lease_nonce r \<noteq> proof then ((s, effects), HeldByLease (rec_phase r))
          else case unwind p reason s effects of
                 (se, Some _) \<Rightarrow> (se, ReleasedOk)
               | (se, None) \<Rightarrow> (se, UnknownPermit))"

definition release_with_proof ::
  "PermitId \<Rightarrow> nat option \<Rightarrow> GovernedState \<Rightarrow> TransitionEffects
     \<Rightarrow> (GovernedState \<times> TransitionEffects) \<times> ReleaseOutcome" where
  "release_with_proof p proof s effects = release_with_proof_reason p proof Released s effects"

definition record_accounting_fault :: "string \<Rightarrow> GovernedState \<Rightarrow> GovernedState" where
  "record_accounting_fault what s =
     (if gs_accounting_fault s = None then s\<lparr>gs_accounting_fault := Some what\<rparr> else s)"

definition close_admission :: "GovernedState \<Rightarrow> GovernedState" where
  "close_admission s = s\<lparr>gs_admission_closed := True\<rparr>"

section \<open>The debug assertion\<close>

definition class_count :: "GovernedState \<Rightarrow> TaskClass \<Rightarrow> nat" where
  "class_count s cl = length (filter (\<lambda>r. rec_class r = cl) (bt_values (gs_permits s)))"

definition pool_count :: "GovernedState \<Rightarrow> CapabilityId \<Rightarrow> nat" where
  "pool_count s i = sum_list (map (\<lambda>r. count_list (rec_capabilities r) i) (bt_values (gs_permits s)))"

definition assert_consistent :: "GovernedState \<Rightarrow> bool" where
  "assert_consistent s \<longleftrightarrow>
     sum_list (map cs_cpu_units_held (bt_values (gs_classes s))) = gs_cpu_units_held s
     \<and> sum_list (map cs_memory_units_held (bt_values (gs_classes s))) = gs_memory_units_held s
     \<and> list_all (\<lambda>r. rec_lease_nonce r \<noteq> None \<longleftrightarrow> rec_phase r \<noteq> DispatchReserved) (bt_values (gs_permits s))
     \<and> sum_list (map (\<lambda>r. pl_cpu_units (rec_ledger r)) (bt_values (gs_permits s))) = gs_cpu_units_held s
     \<and> sum_list (map (\<lambda>r. pl_effective_units (rec_ledger r)) (bt_values (gs_permits s)))
         = gs_memory_units_held s
     \<and> list_all (\<lambda>(cl, cs).
          cs_inflight cs = class_count s cl
          \<and> cs_inflight cs = cs_dispatch_reserved cs + cs_accepted cs + cs_running cs + cs_cleanup_pending cs
          \<and> cs_admitted_total cs = cs_inflight cs + cs_terminated_total cs)
        (bt_entries (gs_classes s))
     \<and> list_all (\<lambda>(i, n). n = pool_count s i) (bt_entries (gs_capability_in_use s))
     \<and> list_all (\<lambda>(t, ts). case ts of
            TGranted p \<Rightarrow> fmlookup (gs_permits s) p \<noteq> None
          | TClaiming p \<Rightarrow> fmlookup (gs_permits s) p \<noteq> None
          | _ \<Rightarrow> True)
        (bt_entries (gs_tickets s))"

end
