(* ===== verification/TM_Accounting.thy ===== *)
theory TM_Accounting
  imports TM_Transition
begin

text \<open>
  The ledger invariant. Every total the engine maintains incrementally (per class, globally, per
  capability) equals the sum of that quantity over the live permits, and \<open>grant\<close>, \<open>advance_phase\<close>,
  \<open>unwind\<close> and the queue transitions keep it so. The invariant is a predicate on the parts of the
  state it reads, so a transition that leaves those parts alone keeps it by rewriting.
\<close>

section \<open>Weights of a permit\<close>

abbreviation rec_cpu :: "PermitRecord \<Rightarrow> nat" where
  "rec_cpu r \<equiv> pl_cpu_units (rec_ledger r)"

abbreviation rec_mem :: "PermitRecord \<Rightarrow> nat" where
  "rec_mem r \<equiv> pl_effective_units (rec_ledger r)"

definition owned :: "TaskClass \<Rightarrow> (PermitRecord \<Rightarrow> nat) \<Rightarrow> PermitRecord \<Rightarrow> nat" where
  "owned cl f r = (if rec_class r = cl then f r else 0)"

abbreviation one :: "PermitRecord \<Rightarrow> nat" where
  "one \<equiv> (\<lambda>_. 1)"

abbreviation in_phase :: "ExecutionPhase \<Rightarrow> PermitRecord \<Rightarrow> nat" where
  "in_phase p \<equiv> (\<lambda>r. of_bool (rec_phase r = p))"

abbreviation started :: "PermitRecord \<Rightarrow> nat" where
  "started \<equiv> (\<lambda>r. of_bool (has_started (rec_phase r)))"

abbreviation uses :: "CapabilityId \<Rightarrow> PermitRecord \<Rightarrow> nat" where
  "uses i \<equiv> (\<lambda>r. of_bool (i \<in> set (rec_capabilities r)))"

section \<open>The invariant\<close>

definition class_ok :: "TaskClass \<Rightarrow> ClassState \<Rightarrow> (PermitId, PermitRecord) fmap \<Rightarrow> bool" where
  "class_ok cl cs ps \<longleftrightarrow>
     cs_inflight cs = fmsum (owned cl one) ps
     \<and> cs_cpu_units_held cs = fmsum (owned cl rec_cpu) ps
     \<and> cs_memory_units_held cs = fmsum (owned cl rec_mem) ps
     \<and> (\<forall>p. phase_slot p cs = fmsum (owned cl (in_phase p)) ps)
     \<and> cs_admitted_total cs = cs_inflight cs + cs_terminated_total cs
     \<and> fmsum (owned cl started) ps \<le> cs_started_total cs
     \<and> cs_started_total cs + cs_inflight cs \<le> cs_admitted_total cs + fmsum (owned cl started) ps"

definition record_ok :: "PermitId \<Rightarrow> PermitRecord \<Rightarrow> bool" where
  "record_ok p r \<longleftrightarrow>
     rec_permit_id r = p \<and> (rec_lease_nonce r \<noteq> None \<longleftrightarrow> rec_phase r \<noteq> DispatchReserved)
     \<and> distinct (rec_capabilities r)"

definition acct_ok ::
  "(TaskClass, ClassState) fmap \<Rightarrow> (PermitId, PermitRecord) fmap \<Rightarrow> nat \<Rightarrow> nat
     \<Rightarrow> (CapabilityId, nat) fmap \<Rightarrow> bool" where
  "acct_ok cls ps cpu mem caps \<longleftrightarrow>
     cpu = fmsum rec_cpu ps \<and> mem = fmsum rec_mem ps
     \<and> (\<forall>cl. class_ok cl (fmget cls ClassState_default cl) ps)
     \<and> (\<forall>i. fmget caps 0 i = fmsum (uses i) ps)
     \<and> (\<forall>i. fmlookup caps i \<noteq> Some 0)
     \<and> (\<forall>p r. fmlookup ps p = Some r \<longrightarrow> record_ok p r)
     \<and> fmsum one ps \<le> u32_max"

abbreviation acct_inv :: "GovernedState \<Rightarrow> bool" where
  "acct_inv s \<equiv> acct_ok (gs_classes s) (gs_permits s) (gs_cpu_units_held s) (gs_memory_units_held s)
     (gs_capability_in_use s)"

lemma acct_okI:
  assumes "cpu = fmsum rec_cpu ps" "mem = fmsum rec_mem ps"
    "\<And>cl. class_ok cl (fmget cls ClassState_default cl) ps"
    "\<And>i. fmget caps 0 i = fmsum (uses i) ps" "\<forall>i. fmlookup caps i \<noteq> Some 0"
    "\<And>p r. fmlookup ps p = Some r \<Longrightarrow> record_ok p r" "fmsum one ps \<le> u32_max"
  shows "acct_ok cls ps cpu mem caps"
  using assms by (simp add: acct_ok_def)

lemma acct_okD:
  assumes "acct_ok cls ps cpu mem caps"
  shows "cpu = fmsum rec_cpu ps" "mem = fmsum rec_mem ps"
    "class_ok cl (fmget cls ClassState_default cl) ps"
    "fmget caps 0 i = fmsum (uses i) ps" "\<forall>i. fmlookup caps i \<noteq> Some 0"
    "fmlookup ps p = Some r \<Longrightarrow> record_ok p r" "fmsum one ps \<le> u32_max"
  using assms by (simp_all add: acct_ok_def)

text \<open>The part of a class the ledger reads. Queue and scheduling updates keep it.\<close>

definition same_ledger :: "ClassState \<Rightarrow> ClassState \<Rightarrow> bool" where
  "same_ledger cs cs' \<longleftrightarrow>
     cs_inflight cs' = cs_inflight cs \<and> cs_cpu_units_held cs' = cs_cpu_units_held cs
     \<and> cs_memory_units_held cs' = cs_memory_units_held cs
     \<and> (\<forall>p. phase_slot p cs' = phase_slot p cs)
     \<and> cs_admitted_total cs' = cs_admitted_total cs \<and> cs_started_total cs' = cs_started_total cs
     \<and> cs_terminated_total cs' = cs_terminated_total cs"

lemma class_ok_same_ledger: "same_ledger cs cs' \<Longrightarrow> class_ok cl cs' ps \<longleftrightarrow> class_ok cl cs ps"
  by (simp add: same_ledger_def class_ok_def)

lemma class_ok_default: "class_ok cl ClassState_default fmempty"
proof -
  have "phase_slot p ClassState_default = 0" for p
    by (cases p) (simp_all add: ClassState_default_def)
  then show ?thesis by (simp add: class_ok_def) (simp add: ClassState_default_def)
qed

lemma acct_inv_default: "acct_inv GovernedState_default"
  by (simp add: acct_ok_def GovernedState_default_def class_ok_default)

lemma acct_ok_class_upd:
  assumes "acct_ok cls ps cpu mem caps" "same_ledger (fmget cls ClassState_default cl) cs"
  shows "acct_ok (fmupd cl cs cls) ps cpu mem caps"
  using assms by (auto simp: acct_ok_def class_ok_same_ledger)

section \<open>Class updates\<close>

lemma owned_le: "fmsum (owned cl f) ps \<le> fmsum f ps"
  by (rule fmsum_mono) (simp add: owned_def)

lemma class_ok_other:
  assumes "class_ok cl cs ps" "\<And>f. fmsum (owned cl f) ps' = fmsum (owned cl f) ps"
  shows "class_ok cl cs ps'"
  using assms by (simp add: class_ok_def)

lemma phase_weight_le: "fmsum (owned cl (in_phase p)) ps \<le> fmsum (owned cl one) ps"
  by (rule fmsum_mono) (simp add: owned_def)

lemma uses_le: "fmsum (uses i) ps \<le> fmsum one ps"
  by (rule fmsum_mono) simp

lemma enter_phase_frame [simp]:
  "cs_inflight (enter_phase p cs) = cs_inflight cs"
  "cs_cpu_units_held (enter_phase p cs) = cs_cpu_units_held cs"
  "cs_memory_units_held (enter_phase p cs) = cs_memory_units_held cs"
  "cs_admitted_total (enter_phase p cs) = cs_admitted_total cs"
  "cs_started_total (enter_phase p cs) = cs_started_total cs"
  "cs_terminated_total (enter_phase p cs) = cs_terminated_total cs"
  "cs_queue (enter_phase p cs) = cs_queue cs"
  "cs_inflight (leave_phase p cs) = cs_inflight cs"
  "cs_cpu_units_held (leave_phase p cs) = cs_cpu_units_held cs"
  "cs_memory_units_held (leave_phase p cs) = cs_memory_units_held cs"
  "cs_admitted_total (leave_phase p cs) = cs_admitted_total cs"
  "cs_started_total (leave_phase p cs) = cs_started_total cs"
  "cs_terminated_total (leave_phase p cs) = cs_terminated_total cs"
  "cs_queue (leave_phase p cs) = cs_queue cs"
  by (simp_all add: enter_phase_def leave_phase_def)

lemma phase_slot_enter:
  "phase_slot p cs < u32_max \<Longrightarrow>
     phase_slot q (enter_phase p cs) = phase_slot q cs + of_bool (q = p)"
  by (simp add: enter_phase_def saturating_add_exact)

lemma phase_slot_leave: "phase_slot q (leave_phase p cs) = phase_slot q cs - of_bool (q = p)"
  by (simp add: leave_phase_def)

lemma phase_slot_more [simp]:
  "phase_slot p (cs\<lparr>cs_inflight := a\<rparr>) = phase_slot p cs"
  "phase_slot p (cs\<lparr>cs_cpu_units_held := a\<rparr>) = phase_slot p cs"
  "phase_slot p (cs\<lparr>cs_memory_units_held := a\<rparr>) = phase_slot p cs"
  "phase_slot p (cs\<lparr>cs_admitted_total := a\<rparr>) = phase_slot p cs"
  "phase_slot p (cs\<lparr>cs_started_total := a\<rparr>) = phase_slot p cs"
  "phase_slot p (cs\<lparr>cs_terminated_total := a\<rparr>) = phase_slot p cs"
  "phase_slot p (cs\<lparr>cs_queue := q\<rparr>) = phase_slot p cs"
  "phase_slot p (cs\<lparr>cs_queued_ungated := u\<rparr>) = phase_slot p cs"
  "phase_slot p (cs\<lparr>cs_queued_by_capability := c\<rparr>) = phase_slot p cs"
  "phase_slot p (cs\<lparr>cs_queued_awaited_children := w\<rparr>) = phase_slot p cs"
  "phase_slot p (cs\<lparr>cs_last_finish_tag := a\<rparr>) = phase_slot p cs"
  "phase_slot p (cs\<lparr>cs_last_served_finish_tag := a\<rparr>) = phase_slot p cs"
  "phase_slot p (cs\<lparr>cs_deficit := a\<rparr>) = phase_slot p cs"
  by (cases p; simp)+

lemma class_ok_grant:
  assumes ok: "class_ok cl cs ps" and new: "fmlookup ps p = None"
    and r: "rec_class r = cl" "rec_cpu r = rc_cpu_units cost" "rec_mem r = rc_memory_units cost"
      "rec_phase r = DispatchReserved"
    and room: "fmsum one ps < u32_max"
  shows "class_ok cl (class_grant cost cs) (fmupd p r ps)"
proof -
  have "phase_slot DispatchReserved cs < u32_max"
    using ok room phase_weight_le [of cl DispatchReserved ps] owned_le [of cl one ps]
    by (simp add: class_ok_def)
  then have slots: "phase_slot q (class_grant cost cs) = fmsum (owned cl (in_phase q)) (fmupd p r ps)" for q
    using ok new r
    by (auto simp: class_ok_def class_grant_def phase_slot_enter fmsum_upd_new owned_def
        simp del: phase_slot.simps)
  have "\<not> has_started DispatchReserved" by (simp add: has_started_def)
  with ok new r slots show ?thesis
    by (auto simp: class_ok_def class_grant_def fmsum_upd_new owned_def simp del: phase_slot.simps)
qed

lemma class_ok_advance:
  assumes ok: "class_ok cl cs ps" and old: "fmlookup ps p = Some r" and c: "rec_class r = cl"
    and r': "rec_class r' = cl" "rec_ledger r' = rec_ledger r" "rec_phase r' = phase"
    and later: "rank (rec_phase r) < rank phase" and room: "fmsum one ps \<le> u32_max"
  shows "class_ok cl (class_advance (rec_phase r) phase cs) (fmupd p r' ps)"
proof -
  have ne: "rec_phase r \<noteq> phase" using later by auto
  have up: "\<And>f. fmsum f (fmupd p r' ps) + f r = fmsum f ps + f r'"
    using old by (rule fmsum_upd_old)
  have two: "fmsum (owned cl (in_phase (rec_phase r))) ps + fmsum (owned cl (in_phase phase)) ps
      \<le> fmsum (owned cl one) ps"
    unfolding fmsum_add [symmetric] by (rule fmsum_mono) (use ne in \<open>auto simp: owned_def\<close>)
  have pos: "1 \<le> fmsum (owned cl (in_phase (rec_phase r))) ps"
    using fmsum_ge [OF old, of "owned cl (in_phase (rec_phase r))"] c by (simp add: owned_def)
  have lt: "phase_slot phase (leave_phase (rec_phase r) cs) < u32_max"
    using ok two pos room owned_le [of cl one ps] ne by (simp add: class_ok_def phase_slot_leave)
  have mono: "has_started (rec_phase r) \<longrightarrow> has_started phase"
    using later by (cases "rec_phase r"; cases phase) (auto simp: has_started_def)
  have slots: "phase_slot q (class_advance (rec_phase r) phase cs)
      = fmsum (owned cl (in_phase q)) (fmupd p r' ps)" for q
    using up [of "owned cl (in_phase q)"] ok pos ne lt c r'
    by (auto simp: class_ok_def class_advance_def Let_def phase_slot_enter phase_slot_leave owned_def)
  have eqs: "fmsum (owned cl one) (fmupd p r' ps) = fmsum (owned cl one) ps"
    "fmsum (owned cl rec_cpu) (fmupd p r' ps) = fmsum (owned cl rec_cpu) ps"
    "fmsum (owned cl rec_mem) (fmupd p r' ps) = fmsum (owned cl rec_mem) ps"
    by (rule fmsum_upd_same [OF old], use c r' in \<open>simp add: owned_def\<close>)+
  have st: "fmsum (owned cl started) (fmupd p r' ps)
      = fmsum (owned cl started) ps + of_bool (\<not> has_started (rec_phase r) \<and> has_started phase)"
    using up [of "owned cl started"] c r' mono by (auto simp: owned_def)
  show ?thesis
    using ok slots unfolding class_ok_def eqs st
    by (auto simp: class_advance_def Let_def)
qed

lemma class_ok_unwind:
  assumes ok: "class_ok cl cs ps" and old: "fmlookup ps p = Some r" and c: "rec_class r = cl"
  shows "class_ok cl (class_unwind r cs) (fmdrop p ps)"
proof -
  have dr: "\<And>f. fmsum f (fmdrop p ps) + f r = fmsum f ps" using old by (rule fmsum_drop)
  have own: "\<And>f. owned cl f r = f r" using c by (simp add: owned_def)
  have slots: "phase_slot q (class_unwind r cs) = fmsum (owned cl (in_phase q)) (fmdrop p ps)" for q
    using dr [of "owned cl (in_phase q)"] ok
    by (auto simp: class_ok_def class_unwind_def Let_def phase_slot_leave own)
  have "started r \<le> 1" by simp
  then show ?thesis
    using ok slots dr [of "owned cl one"] dr [of "owned cl rec_cpu"] dr [of "owned cl rec_mem"]
      dr [of "owned cl started"]
    unfolding class_ok_def class_unwind_def Let_def own by (simp add: slots) linarith
qed

section \<open>Capability occupancy\<close>

lemma fmget_occupy_fold:
  assumes "distinct is" "\<forall>i \<in> set is. fmget m 0 i < u32_max"
  shows "fmget (fold occupy_capability is m) 0 i = fmget m 0 i + of_bool (i \<in> set is)"
  using assms
proof (induction "is" arbitrary: m)
  case (Cons j js)
  have "\<forall>i \<in> set js. fmget (occupy_capability j m) 0 i < u32_max"
    using Cons.prems by (auto simp: occupy_capability_def)
  from Cons.IH [OF _ this] Cons.prems show ?case
    by (auto simp: occupy_capability_def saturating_add_exact)
qed simp

lemma fold_occupy_nonzero:
  "\<forall>i. fmlookup m i \<noteq> Some 0 \<Longrightarrow> fmlookup (fold occupy_capability is m) i \<noteq> Some 0"
proof (induction "is" arbitrary: m)
  case (Cons j js)
  have "\<forall>i. fmlookup (occupy_capability j m) i \<noteq> Some 0"
    using Cons.prems by (auto simp: occupy_capability_def saturating_add_def u32_max_def)
  from Cons.IH [OF this] show ?case by simp
qed simp

lemma fmget_vacate: "fmget (vacate_capability j m) 0 i = fmget m 0 i - of_bool (i = j)"
  by (auto simp: vacate_capability_def fmget_def split: option.splits)

lemma fmget_vacate_fold:
  "distinct is \<Longrightarrow> fmget (fold vacate_capability is m) 0 i = fmget m 0 i - of_bool (i \<in> set is)"
  by (induction "is" arbitrary: m) (auto simp: fmget_vacate)

lemma fold_vacate_nonzero:
  "\<forall>i. fmlookup m i \<noteq> Some 0 \<Longrightarrow> fmlookup (fold vacate_capability is m) i \<noteq> Some 0"
proof (induction "is" arbitrary: m)
  case (Cons j js)
  have "\<forall>i. fmlookup (vacate_capability j m) i \<noteq> Some 0"
    using Cons.prems by (auto simp: vacate_capability_def split: option.splits)
  from Cons.IH [OF this] show ?case by simp
qed simp

section \<open>The fields a transition writes\<close>

lemma class_mut_fields [simp]:
  "gs_classes (class_mut cl f s) = fmupd cl (f (class_view s cl)) (gs_classes s)"
  "gs_permits (class_mut cl f s) = gs_permits s"
  "gs_operation_permits (class_mut cl f s) = gs_operation_permits s"
  "gs_queued_operation_identities (class_mut cl f s) = gs_queued_operation_identities s"
  "gs_next_queue_order (class_mut cl f s) = gs_next_queue_order s"
  "gs_roots (class_mut cl f s) = gs_roots s"
  "gs_active_recursion (class_mut cl f s) = gs_active_recursion s"
  "gs_tickets (class_mut cl f s) = gs_tickets s"
  "gs_terminal_order (class_mut cl f s) = gs_terminal_order s"
  "gs_terminal_index (class_mut cl f s) = gs_terminal_index s"
  "gs_terminal_seq (class_mut cl f s) = gs_terminal_seq s"
  "gs_cpu_units_held (class_mut cl f s) = gs_cpu_units_held s"
  "gs_memory_units_held (class_mut cl f s) = gs_memory_units_held s"
  "gs_capability_in_use (class_mut cl f s) = gs_capability_in_use s"
  "gs_accounting_fault (class_mut cl f s) = gs_accounting_fault s"
  "gs_admission_closed (class_mut cl f s) = gs_admission_closed s"
  "gs_promotion_pending (class_mut cl f s) = gs_promotion_pending s"
  "gs_commit_watermark_ms (class_mut cl f s) = gs_commit_watermark_ms s"
  by (simp_all add: class_mut_def)

lemma guard_fields [simp]:
  "gs_classes (occupy_recursion_guard root st s) = gs_classes s"
  "gs_permits (occupy_recursion_guard root st s) = gs_permits s"
  "gs_operation_permits (occupy_recursion_guard root st s) = gs_operation_permits s"
  "gs_queued_operation_identities (occupy_recursion_guard root st s) = gs_queued_operation_identities s"
  "gs_next_queue_order (occupy_recursion_guard root st s) = gs_next_queue_order s"
  "gs_roots (occupy_recursion_guard root st s) = gs_roots s"
  "gs_tickets (occupy_recursion_guard root st s) = gs_tickets s"
  "gs_terminal_order (occupy_recursion_guard root st s) = gs_terminal_order s"
  "gs_terminal_index (occupy_recursion_guard root st s) = gs_terminal_index s"
  "gs_terminal_seq (occupy_recursion_guard root st s) = gs_terminal_seq s"
  "gs_cpu_units_held (occupy_recursion_guard root st s) = gs_cpu_units_held s"
  "gs_memory_units_held (occupy_recursion_guard root st s) = gs_memory_units_held s"
  "gs_capability_in_use (occupy_recursion_guard root st s) = gs_capability_in_use s"
  "gs_accounting_fault (occupy_recursion_guard root st s) = gs_accounting_fault s"
  "gs_admission_closed (occupy_recursion_guard root st s) = gs_admission_closed s"
  "gs_promotion_pending (occupy_recursion_guard root st s) = gs_promotion_pending s"
  "gs_commit_watermark_ms (occupy_recursion_guard root st s) = gs_commit_watermark_ms s"
  "gs_classes (vacate_recursion_guard root st s) = gs_classes s"
  "gs_permits (vacate_recursion_guard root st s) = gs_permits s"
  "gs_operation_permits (vacate_recursion_guard root st s) = gs_operation_permits s"
  "gs_queued_operation_identities (vacate_recursion_guard root st s) = gs_queued_operation_identities s"
  "gs_next_queue_order (vacate_recursion_guard root st s) = gs_next_queue_order s"
  "gs_roots (vacate_recursion_guard root st s) = gs_roots s"
  "gs_tickets (vacate_recursion_guard root st s) = gs_tickets s"
  "gs_terminal_order (vacate_recursion_guard root st s) = gs_terminal_order s"
  "gs_terminal_index (vacate_recursion_guard root st s) = gs_terminal_index s"
  "gs_terminal_seq (vacate_recursion_guard root st s) = gs_terminal_seq s"
  "gs_cpu_units_held (vacate_recursion_guard root st s) = gs_cpu_units_held s"
  "gs_memory_units_held (vacate_recursion_guard root st s) = gs_memory_units_held s"
  "gs_capability_in_use (vacate_recursion_guard root st s) = gs_capability_in_use s"
  "gs_accounting_fault (vacate_recursion_guard root st s) = gs_accounting_fault s"
  "gs_admission_closed (vacate_recursion_guard root st s) = gs_admission_closed s"
  "gs_promotion_pending (vacate_recursion_guard root st s) = gs_promotion_pending s"
  "gs_commit_watermark_ms (vacate_recursion_guard root st s) = gs_commit_watermark_ms s"
  by (simp_all add: occupy_recursion_guard_def vacate_recursion_guard_def Let_def split: option.splits)

lemma grant_fields [simp]:
  "gs_classes (grant g s) = fmupd (gr_class g) (class_grant (gr_cost g) (class_view s (gr_class g))) (gs_classes s)"
  "gs_permits (grant g s) = fmupd (gr_permit_id g) (granted_record g) (gs_permits s)"
  "gs_cpu_units_held (grant g s) = gs_cpu_units_held s + rc_cpu_units (gr_cost g)"
  "gs_memory_units_held (grant g s) = gs_memory_units_held s + rc_memory_units (gr_cost g)"
  "gs_capability_in_use (grant g s) = fold occupy_capability (gr_capabilities g) (gs_capability_in_use s)"
  "gs_queued_operation_identities (grant g s) = gs_queued_operation_identities s"
  "gs_next_queue_order (grant g s) = gs_next_queue_order s"
  "gs_terminal_order (grant g s) = gs_terminal_order s"
  "gs_terminal_index (grant g s) = gs_terminal_index s"
  "gs_terminal_seq (grant g s) = gs_terminal_seq s"
  "gs_tickets (grant g s) = (case gr_pending_ticket g of None \<Rightarrow> gs_tickets s
     | Some t \<Rightarrow> fmupd t (TGranted (gr_permit_id g)) (gs_tickets s))"
  "gs_operation_permits (grant g s) = fmupd (gr_root_operation_id g)
     (rop_insert (fmget (gs_operation_permits s) rop_default (gr_root_operation_id g))
        (gr_root_operation_id g) (gr_operation g) (gr_permit_id g)) (gs_operation_permits s)"
  "gs_accounting_fault (grant g s) = gs_accounting_fault s"
  "gs_admission_closed (grant g s) = gs_admission_closed s"
  "gs_promotion_pending (grant g s) = gs_promotion_pending s"
  "gs_commit_watermark_ms (grant g s) = gs_commit_watermark_ms s"
  by (simp_all add: grant_def Let_def split: option.splits)

lemma granted_record_fields [simp]:
  "rec_permit_id (granted_record g) = gr_permit_id g"
  "rec_class (granted_record g) = gr_class g"
  "rec_operation (granted_record g) = gr_operation g"
  "rec_root_operation_id (granted_record g) = gr_root_operation_id g"
  "rec_scope (granted_record g) = gr_scope g"
  "rec_target_stage (granted_record g) = gr_target_stage g"
  "rec_capabilities (granted_record g) = gr_capabilities g"
  "rec_phase (granted_record g) = DispatchReserved"
  "rec_lease_nonce (granted_record g) = None"
  "rec_pending_ticket (granted_record g) = gr_pending_ticket g"
  "rec_claim_waker (granted_record g) = gr_claim_waker g"
  "rec_cpu (granted_record g) = rc_cpu_units (gr_cost g)"
  "rec_mem (granted_record g) = rc_memory_units (gr_cost g)"
  by (simp_all add: granted_record_def)

section \<open>Every transition keeps the ledger\<close>

lemma acct_inv_grant:
  assumes inv: "acct_inv s" and new: "fmlookup (gs_permits s) (gr_permit_id g) = None"
    and caps: "distinct (gr_capabilities g)" and room: "fmsum one (gs_permits s) < u32_max"
  shows "acct_inv (grant g s)"
proof -
  let ?ps = "gs_permits s" and ?r = "granted_record g" and ?p = "gr_permit_id g"
  note new' = fmsum_upd_new [OF new, of _ ?r] and D = acct_okD [OF inv]
  show ?thesis
    unfolding grant_fields
  proof (rule acct_okI)
    fix cl
    show "class_ok cl (fmget (fmupd (gr_class g) (class_grant (gr_cost g) (class_view s (gr_class g)))
        (gs_classes s)) ClassState_default cl) (fmupd ?p ?r ?ps)"
    proof (cases "cl = gr_class g")
      case True
      then show ?thesis using D(3) [of cl] new room
        by (simp add: class_view_def) (rule class_ok_grant; simp)
    next
      case False
      then show ?thesis using D(3) [of cl]
        by simp (erule class_ok_other, simp add: new' owned_def)
    qed
  next
    fix i
    have "fmget (gs_capability_in_use s) 0 j < u32_max" for j
      using D(4) [of j] uses_le [of j ?ps] room by simp
    then show "fmget (fold occupy_capability (gr_capabilities g) (gs_capability_in_use s)) 0 i
        = fmsum (uses i) (fmupd ?p ?r ?ps)"
      using D(4) [of i] caps by (simp add: fmget_occupy_fold new')
  next
    fix p r
    assume "fmlookup (fmupd ?p ?r ?ps) p = Some r"
    then show "record_ok p r" using D(6) caps by (auto simp: record_ok_def split: if_splits)
  next
    show "\<forall>i. fmlookup (fold occupy_capability (gr_capabilities g) (gs_capability_in_use s)) i \<noteq> Some 0"
      using fold_occupy_nonzero [OF D(5)] by blast
  qed (use D(1,2) room in \<open>simp_all add: new'\<close>)
qed

lemma advance_phase_cases:
  obtains (unknown) "fmlookup (gs_permits s) p = None"
      "advance_phase p phase s n = ((s, n), Refused AdvanceUnknownPermit)"
  | (late) r where "fmlookup (gs_permits s) p = Some r" "rank phase \<le> rank (rec_phase r)"
      "advance_phase p phase s n = ((s, n), Refused (NotLater (rec_phase r)))"
  | (leased) r where "fmlookup (gs_permits s) p = Some r" "rank (rec_phase r) < rank phase"
      "rec_lease_nonce r = None"
      "advance_phase p phase s n =
         ((class_mut (rec_class r) (class_advance (rec_phase r) phase)
             (s\<lparr>gs_permits := fmupd p (r\<lparr>rec_phase := phase, rec_lease_nonce := Some n\<rparr>) (gs_permits s)\<rparr>),
           (n + 1) mod 2 ^ 64), Leased (LeaseToken p n))"
  | (advanced) r m where "fmlookup (gs_permits s) p = Some r" "rank (rec_phase r) < rank phase"
      "rec_lease_nonce r = Some m"
      "advance_phase p phase s n =
         ((class_mut (rec_class r) (class_advance (rec_phase r) phase)
             (s\<lparr>gs_permits := fmupd p (r\<lparr>rec_phase := phase\<rparr>) (gs_permits s)\<rparr>), n), Advanced)"
proof (cases "fmlookup (gs_permits s) p")
  case None
  then show ?thesis by (intro unknown) (simp_all add: advance_phase_def)
next
  case (Some r)
  then show ?thesis
    by (cases "rank phase \<le> rank (rec_phase r)"; cases "rec_lease_nonce r")
       (auto simp: advance_phase_def mint_lease_nonce_def Let_def not_le intro: late leased advanced)
qed

lemma acct_inv_phase_update:
  assumes inv: "acct_inv s" and old: "fmlookup (gs_permits s) p = Some r"
    and r': "rec_class r' = rec_class r" "rec_ledger r' = rec_ledger r" "rec_phase r' = phase"
      "rec_capabilities r' = rec_capabilities r" "rec_permit_id r' = rec_permit_id r"
      "rec_lease_nonce r' \<noteq> None"
    and later: "rank (rec_phase r) < rank phase"
  shows "acct_inv (class_mut (rec_class r) (class_advance (rec_phase r) phase)
           (s\<lparr>gs_permits := fmupd p r' (gs_permits s)\<rparr>))"
proof -
  let ?ps = "gs_permits s"
  note D = acct_okD [OF inv]
  have same: "f r' = f r \<Longrightarrow> fmsum f (fmupd p r' ?ps) = fmsum f ?ps" for f
    using old by (rule fmsum_upd_same)
  have ok: "class_ok cl (fmget (fmupd (rec_class r)
      (class_advance (rec_phase r) phase (fmget (gs_classes s) ClassState_default (rec_class r)))
      (gs_classes s)) ClassState_default cl) (fmupd p r' ?ps)" for cl
  proof (cases "cl = rec_class r")
    case True
    then show ?thesis using class_ok_advance [OF D(3) old refl _ _ _ later D(7)] r' by simp
  next
    case False
    then show ?thesis using D(3) [of cl] r' by simp (erule class_ok_other, simp add: same owned_def)
  qed
  have "phase \<noteq> DispatchReserved" using later by auto
  then have rec: "record_ok p r'" using D(6) [OF old] r' by (simp add: record_ok_def)
  show ?thesis
    by (rule acct_okI)
       (use ok rec D r' in \<open>auto simp: class_view_def same split: if_splits\<close>)
qed

lemma acct_inv_advance_phase:
  assumes inv: "acct_inv s" and eq: "advance_phase p phase s n = ((s', n'), out)"
  shows "acct_inv s'"
proof (cases rule: advance_phase_cases [of s p phase n])
  case (leased r)
  with eq inv show ?thesis by (auto simp del: class_mut_fields intro!: acct_inv_phase_update)
next
  case (advanced r m)
  with eq inv show ?thesis by (auto simp del: class_mut_fields intro!: acct_inv_phase_update)
qed (use inv eq in auto)

section \<open>Terminal records leave the ledger alone\<close>

lemma drop_terminal_fields [simp]:
  "gs_classes (drop_terminal sq t s) = gs_classes s"
  "gs_permits (drop_terminal sq t s) = gs_permits s"
  "gs_operation_permits (drop_terminal sq t s) = gs_operation_permits s"
  "gs_queued_operation_identities (drop_terminal sq t s) = gs_queued_operation_identities s"
  "gs_next_queue_order (drop_terminal sq t s) = gs_next_queue_order s"
  "gs_roots (drop_terminal sq t s) = gs_roots s"
  "gs_active_recursion (drop_terminal sq t s) = gs_active_recursion s"
  "gs_cpu_units_held (drop_terminal sq t s) = gs_cpu_units_held s"
  "gs_memory_units_held (drop_terminal sq t s) = gs_memory_units_held s"
  "gs_capability_in_use (drop_terminal sq t s) = gs_capability_in_use s"
  "gs_accounting_fault (drop_terminal sq t s) = gs_accounting_fault s"
  "gs_admission_closed (drop_terminal sq t s) = gs_admission_closed s"
  "gs_promotion_pending (drop_terminal sq t s) = gs_promotion_pending s"
  "gs_commit_watermark_ms (drop_terminal sq t s) = gs_commit_watermark_ms s"
  "gs_terminal_seq (drop_terminal sq t s) = gs_terminal_seq s"
  by (simp_all add: drop_terminal_def Let_def split: option.splits TicketState.splits)

lemma evict_terminal_keeps:
  assumes "\<And>sq t s. f (drop_terminal sq t s) = f s"
  shows "f (evict_terminal s) = f s"
proof (induction s rule: evict_terminal.induct)
  case (1 s)
  then show ?case
    by (subst evict_terminal.simps) (auto simp: assms split: list.splits prod.splits)
qed

lemma evict_terminal_fields [simp]:
  "gs_classes (evict_terminal s) = gs_classes s"
  "gs_permits (evict_terminal s) = gs_permits s"
  "gs_operation_permits (evict_terminal s) = gs_operation_permits s"
  "gs_queued_operation_identities (evict_terminal s) = gs_queued_operation_identities s"
  "gs_next_queue_order (evict_terminal s) = gs_next_queue_order s"
  "gs_roots (evict_terminal s) = gs_roots s"
  "gs_active_recursion (evict_terminal s) = gs_active_recursion s"
  "gs_cpu_units_held (evict_terminal s) = gs_cpu_units_held s"
  "gs_memory_units_held (evict_terminal s) = gs_memory_units_held s"
  "gs_capability_in_use (evict_terminal s) = gs_capability_in_use s"
  "gs_accounting_fault (evict_terminal s) = gs_accounting_fault s"
  "gs_admission_closed (evict_terminal s) = gs_admission_closed s"
  "gs_promotion_pending (evict_terminal s) = gs_promotion_pending s"
  "gs_commit_watermark_ms (evict_terminal s) = gs_commit_watermark_ms s"
  "gs_terminal_seq (evict_terminal s) = gs_terminal_seq s"
  by (simp_all add: evict_terminal_keeps)

lemma record_terminal_ticket_fields [simp]:
  "gs_classes (record_terminal_ticket t reason s) = gs_classes s"
  "gs_permits (record_terminal_ticket t reason s) = gs_permits s"
  "gs_operation_permits (record_terminal_ticket t reason s) = gs_operation_permits s"
  "gs_queued_operation_identities (record_terminal_ticket t reason s) = gs_queued_operation_identities s"
  "gs_next_queue_order (record_terminal_ticket t reason s) = gs_next_queue_order s"
  "gs_roots (record_terminal_ticket t reason s) = gs_roots s"
  "gs_active_recursion (record_terminal_ticket t reason s) = gs_active_recursion s"
  "gs_cpu_units_held (record_terminal_ticket t reason s) = gs_cpu_units_held s"
  "gs_memory_units_held (record_terminal_ticket t reason s) = gs_memory_units_held s"
  "gs_capability_in_use (record_terminal_ticket t reason s) = gs_capability_in_use s"
  "gs_accounting_fault (record_terminal_ticket t reason s) = gs_accounting_fault s"
  "gs_admission_closed (record_terminal_ticket t reason s) = gs_admission_closed s"
  "gs_promotion_pending (record_terminal_ticket t reason s) = gs_promotion_pending s"
  "gs_commit_watermark_ms (record_terminal_ticket t reason s) = gs_commit_watermark_ms s"
  by (simp_all add: record_terminal_ticket_def Let_def split: option.splits)

lemma forget_terminal_ticket_fields [simp]:
  "gs_classes (forget_terminal_ticket t s) = gs_classes s"
  "gs_permits (forget_terminal_ticket t s) = gs_permits s"
  "gs_operation_permits (forget_terminal_ticket t s) = gs_operation_permits s"
  "gs_queued_operation_identities (forget_terminal_ticket t s) = gs_queued_operation_identities s"
  "gs_next_queue_order (forget_terminal_ticket t s) = gs_next_queue_order s"
  "gs_roots (forget_terminal_ticket t s) = gs_roots s"
  "gs_active_recursion (forget_terminal_ticket t s) = gs_active_recursion s"
  "gs_cpu_units_held (forget_terminal_ticket t s) = gs_cpu_units_held s"
  "gs_memory_units_held (forget_terminal_ticket t s) = gs_memory_units_held s"
  "gs_capability_in_use (forget_terminal_ticket t s) = gs_capability_in_use s"
  "gs_accounting_fault (forget_terminal_ticket t s) = gs_accounting_fault s"
  "gs_admission_closed (forget_terminal_ticket t s) = gs_admission_closed s"
  "gs_promotion_pending (forget_terminal_ticket t s) = gs_promotion_pending s"
  "gs_commit_watermark_ms (forget_terminal_ticket t s) = gs_commit_watermark_ms s"
  "gs_terminal_seq (forget_terminal_ticket t s) = gs_terminal_seq s"
  by (simp_all add: forget_terminal_ticket_def Let_def split: option.splits TicketState.splits)

section \<open>Unwinding\<close>

text \<open>The state after the ledger part of \<open>unwind\<close>, before the ticket is settled.\<close>

definition unwind_ledger :: "PermitId \<Rightarrow> PermitRecord \<Rightarrow> GovernedState \<Rightarrow> GovernedState" where
  "unwind_ledger p r s =
     (let s = s\<lparr>gs_permits := fmdrop p (gs_permits s)\<rparr>;
          s = class_get_mut (rec_class r) (class_unwind r) s;
          s = s\<lparr>gs_cpu_units_held := saturating_sub (gs_cpu_units_held s) (pl_cpu_units (rec_ledger r)),
                gs_memory_units_held :=
                  saturating_sub (gs_memory_units_held s) (pl_effective_units (rec_ledger r)),
                gs_capability_in_use := fold vacate_capability (rec_capabilities r) (gs_capability_in_use s)\<rparr>
      in unwind_root r (unwind_operation r s))"

lemma unwind_eq:
  "unwind p reason s effects =
     (case fmlookup (gs_permits s) p of
        None \<Rightarrow> ((s, effects), None)
      | Some r \<Rightarrow>
          ((case rec_pending_ticket r of
              Some t \<Rightarrow> (record_terminal_ticket t reason (unwind_ledger p r s), push_wake (rec_claim_waker r) effects)
            | None \<Rightarrow> (unwind_ledger p r s, retire (rec_claim_waker r) effects)),
           Some (r\<lparr>rec_pending_ticket := None, rec_claim_waker := None\<rparr>)))"
  by (simp add: unwind_def unwind_ledger_def Let_def split: option.splits)

lemma unwind_operation_fields [simp]:
  "gs_classes (unwind_operation r s) = gs_classes s"
  "gs_permits (unwind_operation r s) = gs_permits s"
  "gs_queued_operation_identities (unwind_operation r s) = gs_queued_operation_identities s"
  "gs_next_queue_order (unwind_operation r s) = gs_next_queue_order s"
  "gs_roots (unwind_operation r s) = gs_roots s"
  "gs_active_recursion (unwind_operation r s) = gs_active_recursion s"
  "gs_cpu_units_held (unwind_operation r s) = gs_cpu_units_held s"
  "gs_memory_units_held (unwind_operation r s) = gs_memory_units_held s"
  "gs_capability_in_use (unwind_operation r s) = gs_capability_in_use s"
  "gs_accounting_fault (unwind_operation r s) = gs_accounting_fault s"
  "gs_admission_closed (unwind_operation r s) = gs_admission_closed s"
  "gs_promotion_pending (unwind_operation r s) = gs_promotion_pending s"
  "gs_commit_watermark_ms (unwind_operation r s) = gs_commit_watermark_ms s"
  "gs_tickets (unwind_operation r s) = gs_tickets s"
  "gs_terminal_order (unwind_operation r s) = gs_terminal_order s"
  "gs_terminal_index (unwind_operation r s) = gs_terminal_index s"
  "gs_terminal_seq (unwind_operation r s) = gs_terminal_seq s"
  by (simp_all add: unwind_operation_def Let_def split: option.splits)

lemma unwind_root_fields [simp]:
  "gs_classes (unwind_root r s) = gs_classes s"
  "gs_permits (unwind_root r s) = gs_permits s"
  "gs_operation_permits (unwind_root r s) = gs_operation_permits s"
  "gs_queued_operation_identities (unwind_root r s) = gs_queued_operation_identities s"
  "gs_next_queue_order (unwind_root r s) = gs_next_queue_order s"
  "gs_cpu_units_held (unwind_root r s) = gs_cpu_units_held s"
  "gs_memory_units_held (unwind_root r s) = gs_memory_units_held s"
  "gs_capability_in_use (unwind_root r s) = gs_capability_in_use s"
  "gs_accounting_fault (unwind_root r s) = gs_accounting_fault s"
  "gs_admission_closed (unwind_root r s) = gs_admission_closed s"
  "gs_promotion_pending (unwind_root r s) = gs_promotion_pending s"
  "gs_commit_watermark_ms (unwind_root r s) = gs_commit_watermark_ms s"
  "gs_tickets (unwind_root r s) = gs_tickets s"
  "gs_terminal_order (unwind_root r s) = gs_terminal_order s"
  "gs_terminal_index (unwind_root r s) = gs_terminal_index s"
  "gs_terminal_seq (unwind_root r s) = gs_terminal_seq s"
  by (simp_all add: unwind_root_def Let_def split: option.splits)

lemma class_get_mut_fields [simp]:
  "gs_permits (class_get_mut cl f s) = gs_permits s"
  "gs_operation_permits (class_get_mut cl f s) = gs_operation_permits s"
  "gs_queued_operation_identities (class_get_mut cl f s) = gs_queued_operation_identities s"
  "gs_next_queue_order (class_get_mut cl f s) = gs_next_queue_order s"
  "gs_roots (class_get_mut cl f s) = gs_roots s"
  "gs_active_recursion (class_get_mut cl f s) = gs_active_recursion s"
  "gs_cpu_units_held (class_get_mut cl f s) = gs_cpu_units_held s"
  "gs_memory_units_held (class_get_mut cl f s) = gs_memory_units_held s"
  "gs_capability_in_use (class_get_mut cl f s) = gs_capability_in_use s"
  "gs_accounting_fault (class_get_mut cl f s) = gs_accounting_fault s"
  "gs_admission_closed (class_get_mut cl f s) = gs_admission_closed s"
  "gs_promotion_pending (class_get_mut cl f s) = gs_promotion_pending s"
  "gs_commit_watermark_ms (class_get_mut cl f s) = gs_commit_watermark_ms s"
  "gs_tickets (class_get_mut cl f s) = gs_tickets s"
  "gs_terminal_order (class_get_mut cl f s) = gs_terminal_order s"
  "gs_terminal_index (class_get_mut cl f s) = gs_terminal_index s"
  "gs_terminal_seq (class_get_mut cl f s) = gs_terminal_seq s"
  by (simp_all add: class_get_mut_def split: option.splits)

lemma class_get_mut_classes:
  "gs_classes (class_get_mut cl f s) = (case fmlookup (gs_classes s) cl of
     None \<Rightarrow> gs_classes s | Some cs \<Rightarrow> fmupd cl (f cs) (gs_classes s))"
  by (simp add: class_get_mut_def split: option.splits)

lemma unwind_ledger_fields [simp]:
  "gs_permits (unwind_ledger p r s) = fmdrop p (gs_permits s)"
  "gs_classes (unwind_ledger p r s) = (case fmlookup (gs_classes s) (rec_class r) of
     None \<Rightarrow> gs_classes s | Some cs \<Rightarrow> fmupd (rec_class r) (class_unwind r cs) (gs_classes s))"
  "gs_cpu_units_held (unwind_ledger p r s) = gs_cpu_units_held s - rec_cpu r"
  "gs_memory_units_held (unwind_ledger p r s) = gs_memory_units_held s - rec_mem r"
  "gs_capability_in_use (unwind_ledger p r s) = fold vacate_capability (rec_capabilities r) (gs_capability_in_use s)"
  "gs_queued_operation_identities (unwind_ledger p r s) = gs_queued_operation_identities s"
  "gs_next_queue_order (unwind_ledger p r s) = gs_next_queue_order s"
  "gs_accounting_fault (unwind_ledger p r s) = gs_accounting_fault s"
  "gs_admission_closed (unwind_ledger p r s) = gs_admission_closed s"
  "gs_promotion_pending (unwind_ledger p r s) = gs_promotion_pending s"
  "gs_commit_watermark_ms (unwind_ledger p r s) = gs_commit_watermark_ms s"
  "gs_tickets (unwind_ledger p r s) = gs_tickets s"
  "gs_terminal_order (unwind_ledger p r s) = gs_terminal_order s"
  "gs_terminal_index (unwind_ledger p r s) = gs_terminal_index s"
  "gs_terminal_seq (unwind_ledger p r s) = gs_terminal_seq s"
  by (simp_all add: unwind_ledger_def Let_def class_get_mut_classes split: option.splits)

lemma acct_inv_present_class:
  assumes "acct_inv s" "fmlookup (gs_permits s) p = Some r"
  shows "\<exists>cs. fmlookup (gs_classes s) (rec_class r) = Some cs"
proof (rule ccontr)
  assume "\<not> ?thesis"
  then have "fmlookup (gs_classes s) (rec_class r) = None" by (cases "fmlookup (gs_classes s) (rec_class r)") auto
  then have "class_ok (rec_class r) ClassState_default (gs_permits s)"
    using acct_okD(3) [OF assms(1), of "rec_class r"] by (simp add: fmget_def)
  then show False
    using fmsum_ge [OF assms(2), of "owned (rec_class r) one"]
    by (simp add: class_ok_def owned_def ClassState_default_def)
qed

lemma acct_inv_unwind_ledger:
  assumes inv: "acct_inv s" and old: "fmlookup (gs_permits s) p = Some r"
  shows "acct_inv (unwind_ledger p r s)"
proof -
  let ?ps = "gs_permits s"
  note D = acct_okD [OF inv]
  have dr: "fmsum f (fmdrop p ?ps) = fmsum f ?ps - f r" for f using old by (rule fmsum_drop_minus)
  have rec: "record_ok p r" using D(6) [OF old] .
  obtain cs where cs: "fmlookup (gs_classes s) (rec_class r) = Some cs"
    using acct_inv_present_class [OF inv old] by blast
  have ok: "class_ok cl (fmget (fmupd (rec_class r) (class_unwind r cs) (gs_classes s))
      ClassState_default cl) (fmdrop p ?ps)" for cl
  proof (cases "cl = rec_class r")
    case True
    then show ?thesis using class_ok_unwind [OF D(3) old refl] cs by (simp add: fmget_def)
  next
    case False
    then show ?thesis using D(3) [of cl] by simp (erule class_ok_other, simp add: dr owned_def)
  qed
  show ?thesis
    unfolding unwind_ledger_fields
  proof (rule acct_okI)
    show "\<forall>i. fmlookup (fold vacate_capability (rec_capabilities r) (gs_capability_in_use s)) i \<noteq> Some 0"
      using fold_vacate_nonzero [OF D(5)] by blast
  next
    fix q r' assume "fmlookup (fmdrop p ?ps) q = Some r'"
    then show "record_ok q r'" using D(6) by (auto split: if_splits)
  qed (use ok rec D cs in \<open>simp_all add: dr fmget_vacate_fold record_ok_def\<close>)
qed

lemma acct_inv_unwind:
  assumes "acct_inv s" "unwind p reason s e = ((s', e'), out)"
  shows "acct_inv s'"
  using assms acct_inv_unwind_ledger [OF assms(1)]
  by (auto simp: unwind_eq split: option.splits)

lemma acct_inv_release:
  assumes "acct_inv s" "release_with_proof_reason p pf reason s e = ((s', e'), out)"
  shows "acct_inv s'"
  using assms acct_inv_unwind [OF assms(1), of p reason e]
  by (auto simp: release_with_proof_reason_def split: option.splits if_splits prod.splits)

section \<open>Queue transitions\<close>

lemma index_pending_ledger: "same_ledger cs (index_pending r cs)"
  by (simp add: same_ledger_def index_pending_def Let_def)

lemma unindex_pending_ledger: "same_ledger cs (unindex_pending r cs)"
  by (simp add: same_ledger_def unindex_pending_def Let_def)

lemma class_push_ledger: "same_ledger cs (class_push r cs)"
  using index_pending_ledger [of cs r] by (simp add: class_push_def same_ledger_def)

lemma class_take_ledger: "same_ledger cs (class_take i cs)"
  using unindex_pending_ledger [of "cs\<lparr>cs_queue := remove_nth i (cs_queue cs)\<rparr>" "cs_queue cs ! i"]
  by (simp add: class_take_def same_ledger_def)

lemma acct_inv_enqueue: "acct_inv s \<Longrightarrow> acct_inv (enqueue r s)"
  by (simp add: enqueue_def Let_def acct_ok_class_upd class_push_ledger class_view_def)

lemma forget_queued_identity_fields [simp]:
  "gs_classes (forget_queued_identity r s) = gs_classes s"
  "gs_permits (forget_queued_identity r s) = gs_permits s"
  "gs_operation_permits (forget_queued_identity r s) = gs_operation_permits s"
  "gs_next_queue_order (forget_queued_identity r s) = gs_next_queue_order s"
  "gs_roots (forget_queued_identity r s) = gs_roots s"
  "gs_active_recursion (forget_queued_identity r s) = gs_active_recursion s"
  "gs_cpu_units_held (forget_queued_identity r s) = gs_cpu_units_held s"
  "gs_memory_units_held (forget_queued_identity r s) = gs_memory_units_held s"
  "gs_capability_in_use (forget_queued_identity r s) = gs_capability_in_use s"
  "gs_accounting_fault (forget_queued_identity r s) = gs_accounting_fault s"
  "gs_admission_closed (forget_queued_identity r s) = gs_admission_closed s"
  "gs_promotion_pending (forget_queued_identity r s) = gs_promotion_pending s"
  "gs_commit_watermark_ms (forget_queued_identity r s) = gs_commit_watermark_ms s"
  "gs_tickets (forget_queued_identity r s) = gs_tickets s"
  "gs_terminal_order (forget_queued_identity r s) = gs_terminal_order s"
  "gs_terminal_index (forget_queued_identity r s) = gs_terminal_index s"
  "gs_terminal_seq (forget_queued_identity r s) = gs_terminal_seq s"
  by (simp_all add: forget_queued_identity_def Let_def split: option.splits)

lemma acct_inv_remove_pending:
  "acct_inv s \<Longrightarrow> remove_pending cl i s = (s', out) \<Longrightarrow> acct_inv s'"
  by (auto simp: remove_pending_def Let_def fmget_def acct_ok_class_upd class_take_ledger
      split: option.splits if_splits)

end
