(* ===== verification/TM_Tickets.thy ===== *)
theory TM_Tickets
  imports TM_Accounting
begin

text \<open>
  The life of a ticket. A ticket is \<^emph>\<open>live\<close> while a caller may still be promoted through it: queued,
  granted or being claimed. The invariant ties live tickets to queued requests and to permits in both
  directions, so a waiter is never left holding a ticket nobody will settle. The retained terminal
  outcomes form a ring of bounded size that evicts its oldest entry.
\<close>

section \<open>Live tickets\<close>

fun live_state :: "TicketState \<Rightarrow> bool" where
  "live_state (TQueued _) = True"
| "live_state (TGranted _) = True"
| "live_state (TClaiming _) = True"
| "live_state (TTerminal _) = False"
| "live_state TFaulted = False"

definition live_tickets :: "(Ticket, TicketState) fmap \<Rightarrow> Ticket \<Rightarrow> TicketState option" where
  "live_tickets ts t =
     (case fmlookup ts t of None \<Rightarrow> None | Some x \<Rightarrow> if live_state x then Some x else None)"

abbreviation live :: "GovernedState \<Rightarrow> Ticket \<Rightarrow> TicketState option" where
  "live s \<equiv> live_tickets (gs_tickets s)"

text \<open>
  Weighted-fair queueing re-prices queued requests in place. The two tags it rewrites are scheduling
  data; \<open>untagged\<close> forgets them, and \<open>queue_of\<close> is the queue of a class without them.
\<close>

definition untagged :: "PendingRequest \<Rightarrow> PendingRequest" where
  "untagged r = r\<lparr>pr_finish_tag := 0, pr_wfq_arrival_tag := 0\<rparr>"

definition queue_of :: "(TaskClass, ClassState) fmap \<Rightarrow> TaskClass \<Rightarrow> PendingRequest list" where
  "queue_of cls cl = map untagged (cs_queue (fmget cls ClassState_default cl))"

abbreviation queues :: "GovernedState \<Rightarrow> TaskClass \<Rightarrow> PendingRequest list" where
  "queues s \<equiv> queue_of (gs_classes s)"

lemma live_tickets_upd [simp]:
  "live_tickets (fmupd t x ts) = (live_tickets ts)(t := (if live_state x then Some x else None))"
  by (auto simp: live_tickets_def)

lemma live_tickets_drop [simp]: "live_tickets (fmdrop t ts) = (live_tickets ts)(t := None)"
  by (auto simp: live_tickets_def)

lemma live_tickets_empty [simp]: "live_tickets fmempty t = None"
  by (simp add: live_tickets_def)

lemma finite_live: "finite (dom (live_tickets ts))"
proof -
  have "dom (live_tickets ts) \<subseteq> fset (fmdom ts)"
    by (auto simp: live_tickets_def fmlookup_dom_iff split: option.splits)
  then show ?thesis by (rule finite_subset) simp
qed

lemma live_lookup: "live_tickets ts t = Some x \<longleftrightarrow> fmlookup ts t = Some x \<and> live_state x"
  by (auto simp: live_tickets_def split: option.splits)

lemma fun_upd_live_None: "m t = None \<Longrightarrow> m(t := None) = m"
  by (rule ext) simp

lemma live_drop_terminal [simp]: "live (drop_terminal sq t s) = live s"
  by (auto simp: drop_terminal_def Let_def live_tickets_def fun_eq_iff split: option.splits TicketState.splits)

lemma live_evict [simp]: "live (evict_terminal s) = live s"
  by (rule evict_terminal_keeps) simp

lemma live_record_terminal [simp]: "live (record_terminal_ticket t reason s) = (live s)(t := None)"
  by (simp add: record_terminal_ticket_def Let_def split: option.splits)

lemma live_forget_terminal [simp]: "live (forget_terminal_ticket t s) = live s"
  by (auto simp: forget_terminal_ticket_def Let_def live_tickets_def fun_eq_iff
      split: option.splits TicketState.splits)

lemma untagged_fields [simp]:
  "pr_permit_id (untagged r) = pr_permit_id r" "pr_ticket (untagged r) = pr_ticket r"
  "pr_seq_no (untagged r) = pr_seq_no r" "pr_queue_order (untagged r) = pr_queue_order r"
  "pr_class (untagged r) = pr_class r" "pr_operation (untagged r) = pr_operation r"
  "pr_root_operation_id (untagged r) = pr_root_operation_id r" "pr_scope (untagged r) = pr_scope r"
  "pr_parent_permit_id (untagged r) = pr_parent_permit_id r" "pr_target_stage (untagged r) = pr_target_stage r"
  "pr_cost (untagged r) = pr_cost r" "pr_capabilities (untagged r) = pr_capabilities r"
  "pr_waker (untagged r) = pr_waker r" "untagged (untagged r) = untagged r"
  by (simp_all add: untagged_def)

lemma queue_of_upd [simp]: "queue_of (fmupd cl cs cls) = (queue_of cls)(cl := map untagged (cs_queue cs))"
  by (auto simp: queue_of_def)

section \<open>Tickets, queues and permits agree\<close>

definition holds_ticket :: "TicketState option \<Rightarrow> PermitId \<Rightarrow> bool" where
  "holds_ticket x p \<longleftrightarrow> x = Some (TGranted p) \<or> x = Some (TClaiming p)"

definition ticket_ok ::
  "(Ticket \<Rightarrow> TicketState option) \<Rightarrow> (PermitId, PermitRecord) fmap
     \<Rightarrow> (TaskClass \<Rightarrow> PendingRequest list) \<Rightarrow> bool" where
  "ticket_ok L ps Q \<longleftrightarrow>
     (\<forall>t p. holds_ticket (L t) p \<longrightarrow>
        (\<exists>r. fmlookup ps p = Some r \<and> rec_pending_ticket r = Some t))
     \<and> (\<forall>p r t. fmlookup ps p = Some r \<longrightarrow> rec_pending_ticket r = Some t \<longrightarrow> holds_ticket (L t) p)
     \<and> (\<forall>cl. \<forall>r \<in> set (Q cl). L (pr_ticket r) = Some (TQueued cl) \<and> pr_class r = cl)
     \<and> (\<forall>t cl. L t = Some (TQueued cl) \<longrightarrow> (\<exists>r \<in> set (Q cl). pr_ticket r = t))
     \<and> (\<forall>cl. distinct (map pr_ticket (Q cl)))"

abbreviation ticket_inv :: "GovernedState \<Rightarrow> bool" where
  "ticket_inv s \<equiv> ticket_ok (live s) (gs_permits s) (queues s)"

lemma ticket_okI:
  assumes "\<And>t p. holds_ticket (L t) p \<Longrightarrow> \<exists>r. fmlookup ps p = Some r \<and> rec_pending_ticket r = Some t"
    "\<And>p r t. fmlookup ps p = Some r \<Longrightarrow> rec_pending_ticket r = Some t \<Longrightarrow> holds_ticket (L t) p"
    "\<And>cl r. r \<in> set (Q cl) \<Longrightarrow> L (pr_ticket r) = Some (TQueued cl) \<and> pr_class r = cl"
    "\<And>t cl. L t = Some (TQueued cl) \<Longrightarrow> \<exists>r \<in> set (Q cl). pr_ticket r = t"
    "\<And>cl. distinct (map pr_ticket (Q cl))"
  shows "ticket_ok L ps Q"
  using assms unfolding ticket_ok_def by blast

lemma ticket_okD:
  assumes "ticket_ok L ps Q"
  shows "holds_ticket (L t) p \<Longrightarrow> \<exists>r. fmlookup ps p = Some r \<and> rec_pending_ticket r = Some t"
    "fmlookup ps p = Some r \<Longrightarrow> rec_pending_ticket r = Some t \<Longrightarrow> holds_ticket (L t) p"
    "r' \<in> set (Q cl) \<Longrightarrow> L (pr_ticket r') = Some (TQueued cl) \<and> pr_class r' = cl"
    "L t = Some (TQueued cl) \<Longrightarrow> \<exists>r \<in> set (Q cl). pr_ticket r = t"
    "distinct (map pr_ticket (Q cl))"
  using assms unfolding ticket_ok_def by blast+

lemma holds_ticket_simps [simp]:
  "holds_ticket (Some (TGranted q)) p \<longleftrightarrow> q = p"
  "holds_ticket (Some (TClaiming q)) p \<longleftrightarrow> q = p"
  "\<not> holds_ticket (Some (TQueued cl)) p"
  "\<not> holds_ticket None p"
  by (auto simp: holds_ticket_def)

lemma ticket_inv_default: "ticket_inv GovernedState_default"
  by (simp add: ticket_ok_def GovernedState_default_def queue_of_def ClassState_default_def)

lemma ticket_ok_enqueue:
  assumes ok: "ticket_ok L ps Q" and fresh: "L (pr_ticket r) = None" and c: "pr_class r = cl"
  shows "ticket_ok (L(pr_ticket r \<mapsto> TQueued cl)) ps (Q(cl := Q cl @ [r]))"
proof -
  note D = ticket_okD [OF ok]
  have nt: "x \<in> set (Q c') \<Longrightarrow> pr_ticket x \<noteq> pr_ticket r" for x c' using D(3) [of x c'] fresh by auto
  show ?thesis
  proof (rule ticket_okI)
    fix p r' t assume "fmlookup ps p = Some r'" "rec_pending_ticket r' = Some t"
    with D(2) [of p r' t] fresh show "holds_ticket ((L(pr_ticket r \<mapsto> TQueued cl)) t) p"
      by (cases "t = pr_ticket r") auto
  next
    fix c' x assume "x \<in> set ((Q(cl := Q cl @ [r])) c')"
    then show "(L(pr_ticket r \<mapsto> TQueued cl)) (pr_ticket x) = Some (TQueued c') \<and> pr_class x = c'"
      using D(3) [of x c'] nt [of x c'] c by (auto split: if_splits)
  next
    fix c' show "distinct (map pr_ticket ((Q(cl := Q cl @ [r])) c'))"
      using D(5) [of c'] nt [of _ cl] by force
  qed (use D(1,4) in \<open>auto split: if_splits\<close>)
qed

lemma ticket_ok_dequeue:
  assumes ok: "ticket_ok L ps Q" and i: "i < length (Q cl)"
  shows "ticket_ok (L(pr_ticket (Q cl ! i) := None)) ps (Q(cl := remove_nth i (Q cl)))"
proof -
  note D = ticket_okD [OF ok]
  let ?t = "pr_ticket (Q cl ! i)"
  have Lt: "L ?t = Some (TQueued cl)" using D(3) i by simp
  have sub: "set (remove_nth i (Q cl)) \<subseteq> set (Q cl)" by (rule set_remove_nth_subset)
  have gone: "x \<in> set (remove_nth i (Q cl)) \<Longrightarrow> pr_ticket x \<noteq> ?t" for x
    using distinct_remove_nth_notin [OF D(5) [of cl], of i] i
    by (metis image_eqI length_map map_remove_nth nth_map set_map)
  have other: "x \<in> set (Q c') \<Longrightarrow> c' \<noteq> cl \<Longrightarrow> pr_ticket x \<noteq> ?t" for x c'
    using D(3) [of x c'] Lt by auto
  show ?thesis
  proof (rule ticket_okI)
    fix t p assume "holds_ticket ((L(?t := None)) t) p"
    then show "\<exists>r. fmlookup ps p = Some r \<and> rec_pending_ticket r = Some t"
      using D(1) by (auto split: if_splits)
  next
    fix p r t assume "fmlookup ps p = Some r" "rec_pending_ticket r = Some t"
    with D(2) [of p r t] Lt show "holds_ticket ((L(?t := None)) t) p" by (cases "t = ?t") auto
  next
    fix c' x assume x: "x \<in> set ((Q(cl := remove_nth i (Q cl))) c')"
    then have "x \<in> set (Q c')" "pr_ticket x \<noteq> ?t" using sub gone other by (auto split: if_splits)
    then show "(L(?t := None)) (pr_ticket x) = Some (TQueued c') \<and> pr_class x = c'" using D(3) by auto
  next
    fix t c' assume t: "(L(?t := None)) t = Some (TQueued c')"
    then have "L t = Some (TQueued c')" "t \<noteq> ?t" by (auto split: if_splits)
    then obtain x where x: "x \<in> set (Q c')" "pr_ticket x = t" using D(4) by blast
    then have "c' = cl \<Longrightarrow> x \<in> set (remove_nth i (Q cl))"
      using set_remove_nth [OF i] \<open>t \<noteq> ?t\<close> by auto
    with x show "\<exists>r \<in> set ((Q(cl := remove_nth i (Q cl))) c'). pr_ticket r = t" by auto
  qed (use D(5) distinct_remove_nth [OF D(5) [of cl]] in \<open>auto simp: map_remove_nth\<close>)
qed

lemma ticket_ok_grant:
  assumes ok: "ticket_ok L ps Q" and new: "fmlookup ps p = None"
    and t: "\<And>t. rec_pending_ticket r = Some t \<Longrightarrow> L t = None"
  shows "ticket_ok (case rec_pending_ticket r of None \<Rightarrow> L | Some t \<Rightarrow> L(t \<mapsto> TGranted p)) (fmupd p r ps) Q"
proof (cases "rec_pending_ticket r")
  case None
  note D = ticket_okD [OF ok]
  show ?thesis unfolding None option.case
    by (rule ticket_okI) (use D None new in \<open>fastforce split: if_splits\<close>)+
next
  case (Some t)
  note D = ticket_okD [OF ok]
  have Lt: "L t = None" using t Some by blast
  show ?thesis unfolding Some option.case
  proof (rule ticket_okI)
    fix t' q assume "holds_ticket ((L(t \<mapsto> TGranted p)) t') q"
    then show "\<exists>r'. fmlookup (fmupd p r ps) q = Some r' \<and> rec_pending_ticket r' = Some t'"
      using D(1) [of t' q] Some new by (cases "t' = t") auto
  next
    fix q r' t' assume "fmlookup (fmupd p r ps) q = Some r'" "rec_pending_ticket r' = Some t'"
    then show "holds_ticket ((L(t \<mapsto> TGranted p)) t') q"
      using D(2) [of q r' t'] Some Lt by (auto split: if_splits)
  qed (use D(3,4,5) Lt in \<open>fastforce split: if_splits\<close>)+
qed

lemma ticket_ok_unwind:
  assumes ok: "ticket_ok L ps Q" and old: "fmlookup ps p = Some r"
  shows "ticket_ok (case rec_pending_ticket r of None \<Rightarrow> L | Some t \<Rightarrow> L(t := None)) (fmdrop p ps) Q"
proof (cases "rec_pending_ticket r")
  case None
  note D = ticket_okD [OF ok]
  show ?thesis unfolding None option.case
  proof (rule ticket_okI)
    fix t q assume h: "holds_ticket (L t) q"
    then obtain r' where "fmlookup ps q = Some r'" "rec_pending_ticket r' = Some t" using D(1) by blast
    then show "\<exists>r. fmlookup (fmdrop p ps) q = Some r \<and> rec_pending_ticket r = Some t"
      using None old by (cases "q = p") auto
  qed (use D in \<open>auto split: if_splits\<close>)
next
  case (Some t)
  note D = ticket_okD [OF ok]
  have Lt: "holds_ticket (L t) p" using D(2) old Some by blast
  then have nq: "L t \<noteq> Some (TQueued cl)" for cl by (auto simp: holds_ticket_def)
  show ?thesis unfolding Some option.case
  proof (rule ticket_okI)
    fix t' q assume h: "holds_ticket ((L(t := None)) t') q"
    then have ne: "t' \<noteq> t" and h': "holds_ticket (L t') q" by (auto split: if_splits)
    obtain r' where "fmlookup ps q = Some r'" "rec_pending_ticket r' = Some t'" using D(1) h' by blast
    then show "\<exists>r. fmlookup (fmdrop p ps) q = Some r \<and> rec_pending_ticket r = Some t'"
      using ne old Some by (cases "q = p") auto
  next
    fix q r' t' assume "fmlookup (fmdrop p ps) q = Some r'" "rec_pending_ticket r' = Some t'"
    then have q: "q \<noteq> p" and h: "holds_ticket (L t') q" using D(2) by (auto split: if_splits)
    then have "t' \<noteq> t" using Lt by (auto simp: holds_ticket_def)
    with h show "holds_ticket ((L(t := None)) t') q" by simp
  next
    fix c x assume "x \<in> set (Q c)"
    then show "(L(t := None)) (pr_ticket x) = Some (TQueued c) \<and> pr_class x = c"
      using D(3) [of x c] nq [of c] by (cases "pr_ticket x = t") auto
  next
    fix t' c assume "(L(t := None)) t' = Some (TQueued c)"
    then show "\<exists>r \<in> set (Q c). pr_ticket r = t'" using D(4) by (auto split: if_splits)
  qed (use D(5) in auto)
qed

lemma ticket_ok_permit_upd:
  assumes ok: "ticket_ok L ps Q" and old: "fmlookup ps p = Some r"
    and same: "rec_pending_ticket r' = rec_pending_ticket r"
  shows "ticket_ok L (fmupd p r' ps) Q"
proof -
  note D = ticket_okD [OF ok]
  show ?thesis
    by (rule ticket_okI) (use D old same in \<open>fastforce split: if_splits\<close>)+
qed

lemma ticket_ok_claiming:
  assumes ok: "ticket_ok L ps Q" and g: "L t = Some (TGranted p)"
  shows "ticket_ok (L(t \<mapsto> TClaiming p)) ps Q"
proof -
  note D = ticket_okD [OF ok]
  have hold: "holds_ticket ((L(t \<mapsto> TClaiming p)) t') q = holds_ticket (L t') q" for t' q
    using g by auto
  show ?thesis
    by (rule ticket_okI) (use D g hold in \<open>fastforce split: if_splits\<close>)+
qed

lemma ticket_ok_detach:
  assumes ok: "ticket_ok L ps Q" and h: "holds_ticket (L t) p" and old: "fmlookup ps p = Some r"
    and r': "rec_pending_ticket r' = None"
  shows "ticket_ok (L(t := None)) (fmupd p r' ps) Q"
proof -
  note D = ticket_okD [OF ok]
  have pend: "rec_pending_ticket r = Some t" using D(1) [OF h] old by auto
  have "ticket_ok (L(t := None)) (fmdrop p ps) Q" using ticket_ok_unwind [OF ok old] pend by simp
  moreover have "fmupd p r' (fmdrop p ps) = fmupd p r' ps" by (intro fmap_ext) simp
  ultimately show ?thesis using ticket_ok_grant [of "L(t := None)" "fmdrop p ps" Q p r'] r' by simp
qed

section \<open>The ring of terminal outcomes\<close>

definition ring_links ::
  "(nat, Ticket) fmap \<Rightarrow> (Ticket, nat) fmap \<Rightarrow> nat \<Rightarrow> (Ticket, TicketState) fmap \<Rightarrow> bool" where
  "ring_links order index sq ts \<longleftrightarrow>
     (\<forall>k t. fmlookup order k = Some t \<longleftrightarrow> fmlookup index t = Some k)
     \<and> (\<forall>k t. fmlookup order k = Some t \<longrightarrow> k < sq)
     \<and> (\<forall>t k. fmlookup index t = Some k \<longrightarrow> (\<exists>reason. fmlookup ts t = Some (TTerminal reason)))"

definition ring_ok ::
  "(nat, Ticket) fmap \<Rightarrow> (Ticket, nat) fmap \<Rightarrow> nat \<Rightarrow> (Ticket, TicketState) fmap \<Rightarrow> bool" where
  "ring_ok order index sq ts \<longleftrightarrow> ring_links order index sq ts \<and> bt_len order \<le> MAX_TERMINAL_TICKETS"

abbreviation links :: "GovernedState \<Rightarrow> bool" where
  "links s \<equiv> ring_links (gs_terminal_order s) (gs_terminal_index s) (gs_terminal_seq s) (gs_tickets s)"

abbreviation ring_inv :: "GovernedState \<Rightarrow> bool" where
  "ring_inv s \<equiv> ring_ok (gs_terminal_order s) (gs_terminal_index s) (gs_terminal_seq s) (gs_tickets s)"

lemma ring_inv_default: "ring_inv GovernedState_default"
  by (simp add: ring_ok_def ring_links_def GovernedState_default_def bt_len_eq)

lemma ring_links_live:
  "ring_links order index sq ts \<Longrightarrow> live_tickets ts t \<noteq> None \<Longrightarrow> fmlookup index t = None"
  by (cases "fmlookup index t") (auto simp: ring_links_def live_tickets_def)

lemma ring_links_fresh:
  "ring_links order index sq ts \<Longrightarrow> fmlookup ts t = None \<Longrightarrow> fmlookup index t = None"
  by (cases "fmlookup index t") (auto simp: ring_links_def)

lemma ring_ok_ticket_upd:
  "ring_ok order index sq ts \<Longrightarrow> fmlookup index t = None \<Longrightarrow> ring_ok order index sq (fmupd t x ts)"
  by (auto simp: ring_ok_def ring_links_def)

lemma ring_ok_ticket_drop:
  "ring_ok order index sq ts \<Longrightarrow> fmlookup index t = None \<Longrightarrow> ring_ok order index sq (fmdrop t ts)"
  by (auto simp: ring_ok_def ring_links_def)

lemma drop_terminal_index [simp]:
  "gs_terminal_index (drop_terminal sq t s) = fmdrop t (gs_terminal_index s)"
  by (simp add: drop_terminal_def Let_def split: option.splits TicketState.splits)

lemma drop_terminal_tickets:
  "links s \<Longrightarrow> fmlookup (gs_terminal_order s) sq = Some t \<Longrightarrow>
     gs_tickets (drop_terminal sq t s) = fmdrop t (gs_tickets s)"
  by (auto simp: ring_links_def drop_terminal_def Let_def split: option.splits TicketState.splits)

lemma links_drop_terminal:
  assumes "links s" "fmlookup (gs_terminal_order s) sq = Some t"
  shows "links (drop_terminal sq t s)"
proof -
  have inj: "fmlookup (gs_terminal_order s) k = Some t \<Longrightarrow> k = sq"
    "fmlookup (gs_terminal_index s) u = Some sq \<Longrightarrow> u = t" for k u
    using assms by (auto simp: ring_links_def) (metis option.inject)+
  have "links s" by fact
  with inj show ?thesis
    unfolding ring_links_def drop_terminal_order drop_terminal_index drop_terminal_fields
      drop_terminal_tickets [OF assms] fmlookup_drop
    by (simp split: if_splits) metis
qed

text \<open>Eviction keeps the newest entry and stops at the bound.\<close>

lemma evict_terminal_ring:
  assumes "links s" "fmlookup (gs_terminal_order s) m = Some t"
    "\<And>k. k |\<in>| fmdom (gs_terminal_order s) \<Longrightarrow> k \<le> m"
  shows "links (evict_terminal s)
    \<and> bt_len (gs_terminal_order (evict_terminal s)) \<le> MAX_TERMINAL_TICKETS
    \<and> fmlookup (gs_tickets (evict_terminal s)) t = fmlookup (gs_tickets s) t"
  using assms
proof (induction s rule: evict_terminal.induct)
  case (1 s)
  show ?case
  proof (cases "MAX_TERMINAL_TICKETS < bt_len (gs_terminal_order s)")
    case False
    then show ?thesis using "1.prems" by (subst (1 2 3 4 5 6) evict_terminal.simps) simp
  next
    case True
    then have "bt_entries (gs_terminal_order s) \<noteq> []"
      by (auto simp: bt_len_def bt_entries_def)
    then obtain k u es where es: "bt_entries (gs_terminal_order s) = (k, u) # es"
      by (metis list.exhaust surj_pair)
    note hd = bt_entries_head [OF es]
    have step: "evict_terminal s = evict_terminal (drop_terminal k u s)"
      using True es by (subst evict_terminal.simps) simp
    have ne: "k \<noteq> m"
    proof
      assume "k = m"
      then have "fset (fmdom (gs_terminal_order s)) \<subseteq> {m}" using hd(2) "1.prems"(3) by fastforce
      then have "card (fset (fmdom (gs_terminal_order s))) \<le> 1"
        by (metis card_mono finite.emptyI finite_insert is_singletonI is_singleton_altdef)
      with True show False by (simp add: bt_len_eq MAX_TERMINAL_TICKETS_def)
    qed
    have tu: "t \<noteq> u"
      using "1.prems"(1,2) hd(1) ne by (auto simp: ring_links_def)
    have "links (drop_terminal k u s)" by (rule links_drop_terminal [OF "1.prems"(1) hd(1)])
    from "1.IH" [OF True es refl this] ne "1.prems" tu
    show ?thesis by (simp add: step drop_terminal_tickets [OF "1.prems"(1) hd(1)])
  qed
qed

lemma record_terminal_ring:
  assumes inv: "ring_inv s" and room: "gs_terminal_seq s < u64_max"
  shows "ring_inv (record_terminal_ticket t reason s)"
    and "fmlookup (gs_tickets (record_terminal_ticket t reason s)) t = Some (TTerminal reason)"
    and "gs_terminal_seq (record_terminal_ticket t reason s) = gs_terminal_seq s + 1"
proof -
  let ?sq = "gs_terminal_seq s"
  let ?o = "case fmlookup (gs_terminal_index s) t of None \<Rightarrow> gs_terminal_order s
    | Some k \<Rightarrow> fmdrop k (gs_terminal_order s)"
  define s1 where "s1 = s\<lparr>gs_tickets := fmupd t (TTerminal reason) (gs_tickets s),
      gs_terminal_seq := ?sq + 1, gs_terminal_order := fmupd ?sq t ?o,
      gs_terminal_index := fmupd t ?sq (gs_terminal_index s)\<rparr>"
  have wrap: "(?sq + 1) mod 2 ^ 64 = ?sq + 1" using room by (simp add: u64_max_def)
  have fm: "fmupd t ?sq (fmdrop t (gs_terminal_index s)) = fmupd t ?sq (gs_terminal_index s)"
    by (intro fmap_ext) simp
  have eq: "record_terminal_ticket t reason s = evict_terminal s1"
    using wrap fm by (simp add: record_terminal_ticket_def Let_def s1_def split: option.splits)
  have L: "links s" using inv by (simp add: ring_ok_def)
  have l1: "fmlookup (gs_terminal_order s) k = Some u \<longleftrightarrow> fmlookup (gs_terminal_index s) u = Some k"
    and l2: "fmlookup (gs_terminal_order s) k = Some u \<Longrightarrow> k < ?sq"
    and l3: "fmlookup (gs_terminal_index s) u = Some k \<Longrightarrow> \<exists>r. fmlookup (gs_tickets s) u = Some (TTerminal r)"
    for k u using L by (auto simp: ring_links_def)
  have o: "fmlookup ?o k = Some u \<longleftrightarrow> fmlookup (gs_terminal_order s) k = Some u \<and> u \<noteq> t" for k u
    using l1 [of _ t] by (cases "fmlookup (gs_terminal_index s) t") (auto, metis option.inject)
  have l2': "fmlookup (gs_terminal_index s) u = Some k \<Longrightarrow> k < ?sq" for k u using l1 l2 by blast
  have links1: "links s1"
    unfolding ring_links_def s1_def using o l1 l2' l3 by (auto dest: l2' intro: less_SucI)
  have max1: "k |\<in>| fmdom (gs_terminal_order s1) \<Longrightarrow> k \<le> ?sq" for k
    using l2 o by (auto simp: s1_def fmlookup_dom_iff less_imp_le split: if_splits)
  have look: "fmlookup (gs_terminal_order s1) ?sq = Some t" by (simp add: s1_def)
  from evict_terminal_ring [OF links1 look max1]
  show "ring_inv (record_terminal_ticket t reason s)"
    "fmlookup (gs_tickets (record_terminal_ticket t reason s)) t = Some (TTerminal reason)"
    by (simp_all add: eq ring_ok_def s1_def)
  show "gs_terminal_seq (record_terminal_ticket t reason s) = ?sq + 1" by (simp add: eq s1_def)
qed

lemma forget_terminal_ring:
  assumes inv: "ring_inv s"
  shows "ring_inv (forget_terminal_ticket t s)"
proof (cases "fmlookup (gs_terminal_index s) t")
  case None
  then show ?thesis using inv
    by (auto simp: forget_terminal_ticket_def Let_def ring_ok_ticket_drop
        split: option.splits TicketState.splits)
next
  case (Some k)
  have L: "links s" using inv by (simp add: ring_ok_def)
  then have k: "fmlookup (gs_terminal_order s) k = Some t" using Some by (auto simp: ring_links_def)
  obtain reason where "fmlookup (gs_tickets s) t = Some (TTerminal reason)"
    using L Some by (auto simp: ring_links_def)
  then have "forget_terminal_ticket t s = drop_terminal k t s"
    using Some by (simp add: forget_terminal_ticket_def drop_terminal_def Let_def)
  moreover have "bt_len (fmdrop k (gs_terminal_order s)) \<le> MAX_TERMINAL_TICKETS"
    using inv by (auto simp: ring_ok_def bt_len_drop [OF k])
  ultimately show ?thesis using links_drop_terminal [OF L k] by (simp add: ring_ok_def)
qed

end
