(* ===== verification/TM_Occupancy.thy ===== *)
theory TM_Occupancy
  imports TM_Tickets
begin

text \<open>
  Exclusive keys. A live permit or a queued request may occupy a key: its operation identity
  \<open>(root_operation_id, operation)\<close>, and, for a child, its recursion-guard slot
  \<open>(root_operation_id, stage)\<close>. The engine refuses a second occupant at admission and tracks the
  occupied keys in indexes of its own. This theory relates the indexes to the occupants and shows
  that every key has at most one, for both kinds of key with the same lemmas; it also relates the
  per-root attribution totals to the live children of the root.
\<close>

section \<open>Occupants\<close>

type_synonym occupant = "PermitId + Ticket"

definition occupants ::
  "(PermitRecord \<Rightarrow> 'k option) \<Rightarrow> (PendingRequest \<Rightarrow> 'k option) \<Rightarrow> (PermitId, PermitRecord) fmap
     \<Rightarrow> (TaskClass \<Rightarrow> PendingRequest list) \<Rightarrow> (occupant \<times> 'k) set" where
  "occupants kp kq ps Q =
     {(Inl p, k) |p k. \<exists>r. fmlookup ps p = Some r \<and> kp r = Some k}
     \<union> {(Inr t, k) |t k. \<exists>cl. \<exists>q \<in> set (Q cl). pr_ticket q = t \<and> kq q = Some k}"

definition exclusive :: "(occupant \<times> 'k) set \<Rightarrow> bool" where
  "exclusive R \<longleftrightarrow> (\<forall>x y k. (x, k) \<in> R \<longrightarrow> (y, k) \<in> R \<longrightarrow> x = y)"

lemma Inl_occupants [simp]:
  "(Inl p, k) \<in> occupants kp kq ps Q \<longleftrightarrow> (\<exists>r. fmlookup ps p = Some r \<and> kp r = Some k)"
  by (auto simp: occupants_def)

lemma Inr_occupants [simp]:
  "(Inr t, k) \<in> occupants kp kq ps Q \<longleftrightarrow> (\<exists>cl. \<exists>q \<in> set (Q cl). pr_ticket q = t \<and> kq q = Some k)"
  by (auto simp: occupants_def)

lemma occupants_eqI:
  fixes R S :: "(occupant \<times> 'k) set"
  assumes "\<And>p k. (Inl p, k) \<in> R \<longleftrightarrow> (Inl p, k) \<in> S" "\<And>t k. (Inr t, k) \<in> R \<longleftrightarrow> (Inr t, k) \<in> S"
  shows "R = S"
proof (rule set_eqI)
  fix xk :: "occupant \<times> 'k"
  obtain x k where "xk = (x, k)" by force
  then show "xk \<in> R \<longleftrightarrow> xk \<in> S" using assms by (cases x) simp_all
qed

lemma Range_occupants:
  "k \<in> Range (occupants kp kq ps Q) \<longleftrightarrow>
     (\<exists>p r. fmlookup ps p = Some r \<and> kp r = Some k) \<or> (\<exists>cl. \<exists>q \<in> set (Q cl). kq q = Some k)"
  by (auto simp: occupants_def Range_iff) blast

lemma occupants_empty: "occupants kp kq fmempty (\<lambda>_. []) = {}"
  by (rule occupants_eqI) simp_all

lemma occupants_grant:
  "fmlookup ps p = None \<Longrightarrow>
     occupants kp kq (fmupd p r ps) Q = occupants kp kq ps Q \<union> {(Inl p, k) |k. kp r = Some k}"
  by (rule occupants_eqI) auto

lemma occupants_unwind:
  "occupants kp kq (fmdrop p ps) Q = {(x, k) \<in> occupants kp kq ps Q. x \<noteq> Inl p}"
  by (rule occupants_eqI) auto

lemma occupants_permit_upd:
  "fmlookup ps p = Some r \<Longrightarrow> kp r' = kp r \<Longrightarrow> occupants kp kq (fmupd p r' ps) Q = occupants kp kq ps Q"
  by (rule occupants_eqI) auto

lemma occupants_enqueue:
  "occupants kp kq ps (Q(cl := Q cl @ [q])) =
     occupants kp kq ps Q \<union> {(Inr (pr_ticket q), k) |k. kq q = Some k}"
  by (rule occupants_eqI) (auto split: if_splits)

lemma occupants_dequeue:
  assumes ok: "ticket_ok L ps' Q" and i: "i < length (Q cl)"
  shows "occupants kp kq ps (Q(cl := remove_nth i (Q cl))) =
     {(x, k) \<in> occupants kp kq ps Q. x \<noteq> Inr (pr_ticket (Q cl ! i))}"
proof (rule occupants_eqI)
  fix t k
  let ?t = "pr_ticket (Q cl ! i)"
  note D = ticket_okD [OF ok]
  have gone: "x \<in> set (remove_nth i (Q cl)) \<Longrightarrow> pr_ticket x \<noteq> ?t" for x
    using distinct_remove_nth_notin [OF D(5) [of cl], of i] i
    by (metis image_eqI length_map map_remove_nth nth_map set_map)
  have other: "x \<in> set (Q c') \<Longrightarrow> c' \<noteq> cl \<Longrightarrow> pr_ticket x \<noteq> ?t" for x c'
    using D(3) [of x c'] D(3) [of "Q cl ! i" cl] i by auto
  have split: "set (Q cl) = insert (Q cl ! i) (set (remove_nth i (Q cl)))" using i by (rule set_remove_nth)
  show "(Inr t, k) \<in> occupants kp kq ps (Q(cl := remove_nth i (Q cl)))
    \<longleftrightarrow> (Inr t, k) \<in> {(x, k). (x, k) \<in> occupants kp kq ps Q \<and> x \<noteq> Inr ?t}"
  proof
    assume "(Inr t, k) \<in> occupants kp kq ps (Q(cl := remove_nth i (Q cl)))"
    then obtain c' q where q: "q \<in> set ((Q(cl := remove_nth i (Q cl))) c')" "pr_ticket q = t" "kq q = Some k"
      by auto
    then have "q \<in> set (Q c')" "pr_ticket q \<noteq> ?t" using gone other split by (auto split: if_splits)
    with q show "(Inr t, k) \<in> {(x, k). (x, k) \<in> occupants kp kq ps Q \<and> x \<noteq> Inr ?t}" by auto
  next
    assume "(Inr t, k) \<in> {(x, k). (x, k) \<in> occupants kp kq ps Q \<and> x \<noteq> Inr ?t}"
    then obtain c' q where q: "q \<in> set (Q c')" "pr_ticket q = t" "kq q = Some k" "t \<noteq> ?t" by auto
    then have "q \<in> set ((Q(cl := remove_nth i (Q cl))) c')" using split by auto
    with q show "(Inr t, k) \<in> occupants kp kq ps (Q(cl := remove_nth i (Q cl)))"
      unfolding Inr_occupants by blast
  qed
qed simp

lemma exclusive_add:
  "exclusive R \<Longrightarrow> (\<And>k. ko = Some k \<Longrightarrow> k \<notin> Range R) \<Longrightarrow> exclusive (R \<union> {(x, k) |k. ko = Some k})"
  unfolding exclusive_def by (auto simp: Range_iff)

lemma exclusive_subset: "exclusive R \<Longrightarrow> S \<subseteq> R \<Longrightarrow> exclusive S"
  unfolding exclusive_def by blast

lemma Range_add: "Range (R \<union> {(x, k) |k. ko = Some k}) = Range R \<union> {k. ko = Some k}"
  by auto

lemma Range_remove:
  "exclusive R \<Longrightarrow> Range {(y, k) \<in> R. y \<noteq> x} = Range R - {k. (x, k) \<in> R}"
  unfolding exclusive_def by (auto simp: Range_iff)

text \<open>A promotion hands a key from the queued request to its permit.\<close>

lemma exclusive_transfer:
  assumes "exclusive R" "\<And>k. (x, k) \<in> R \<longleftrightarrow> ko = Some k"
  shows "exclusive ({(y, k) \<in> R. y \<noteq> x} \<union> {(z, k) |k. ko = Some k})"
    and "Range ({(y, k) \<in> R. y \<noteq> x} \<union> {(z, k) |k. ko = Some k}) = Range R"
proof -
  have "exclusive {(y, k) \<in> R. y \<noteq> x}" by (rule exclusive_subset [OF assms(1)]) auto
  then show "exclusive ({(y, k) \<in> R. y \<noteq> x} \<union> {(z, k) |k. ko = Some k})"
    by (rule exclusive_add) (unfold Range_remove [OF assms(1)], simp add: assms(2))
  show "Range ({(y, k) \<in> R. y \<noteq> x} \<union> {(z, k) |k. ko = Some k}) = Range R"
    unfolding Range_add Range_remove [OF assms(1)] assms(2) using assms(2) by (auto simp: Range_iff)
qed

section \<open>Operation identities\<close>

definition ident_p :: "PermitRecord \<Rightarrow> (str \<times> str) option" where
  "ident_p r = Some (rec_root_operation_id r, rec_operation r)"

definition ident_q :: "PendingRequest \<Rightarrow> (str \<times> str) option" where
  "ident_q q = Some (pr_root_operation_id q, pr_operation q)"

definition live_operation :: "(str, RootOperationPermits) fmap \<Rightarrow> str \<Rightarrow> str \<Rightarrow> PermitId option" where
  "live_operation ops root_id op = Option.bind (fmlookup ops root_id) (\<lambda>r. rop_get r root_id op)"

definition ident_ok ::
  "(str, RootOperationPermits) fmap \<Rightarrow> (str, str set) fmap \<Rightarrow> (PermitId, PermitRecord) fmap
     \<Rightarrow> (TaskClass \<Rightarrow> PendingRequest list) \<Rightarrow> bool" where
  "ident_ok ops ids ps Q \<longleftrightarrow>
     (\<forall>root_id op p. live_operation ops root_id op = Some p \<longleftrightarrow>
        (\<exists>r. fmlookup ps p = Some r \<and> ident_p r = Some (root_id, op)))
     \<and> (\<forall>root_id op. op \<in> fmget ids {} root_id \<longleftrightarrow>
        (\<exists>cl. \<exists>q \<in> set (Q cl). ident_q q = Some (root_id, op)))
     \<and> exclusive (occupants ident_p ident_q ps Q)"

abbreviation ident_inv :: "GovernedState \<Rightarrow> bool" where
  "ident_inv s \<equiv> ident_ok (gs_operation_permits s) (gs_queued_operation_identities s) (gs_permits s) (queues s)"

lemma permits_for_operation_eq: "permits_for_operation s = live_operation (gs_operation_permits s)"
  by (simp add: permits_for_operation_def live_operation_def fun_eq_iff)

lemma ident_inv_default: "ident_inv GovernedState_default"
proof -
  have q: "queue_of fmempty = (\<lambda>_. [])" by (rule ext) (simp add: queue_of_def ClassState_default_def)
  show ?thesis
    by (simp add: ident_ok_def GovernedState_default_def live_operation_def occupants_empty q exclusive_def)
qed

lemma has_operation_identity_iff:
  assumes "ident_inv s"
  shows "has_operation_identity s root_id op \<longleftrightarrow>
    (root_id, op) \<in> Range (occupants ident_p ident_q (gs_permits s) (queues s))"
proof -
  have "has_operation_identity s root_id op \<longleftrightarrow>
      (\<exists>p. live_operation (gs_operation_permits s) root_id op = Some p)
      \<or> op \<in> fmget (gs_queued_operation_identities s) {} root_id"
    by (auto simp: has_operation_identity_def permits_for_operation_eq fmget_def split: option.splits)
  also have "\<dots> \<longleftrightarrow> (root_id, op) \<in> Range (occupants ident_p ident_q (gs_permits s) (queues s))"
    using assms unfolding ident_ok_def Range_occupants by auto
  finally show ?thesis .
qed

lemma live_operation_insert:
  "live_operation (fmupd root_id (rop_insert (fmget ops rop_default root_id) root_id op p) ops) root' op' =
     (if root' = root_id \<and> op' = op then Some p else live_operation ops root' op')"
  by (auto simp: live_operation_def rop_get_def rop_insert_def rop_default_def fmget_def
      split: option.splits)

lemma ident_ok_grant:
  assumes ok: "ident_ok ops ids ps Q" and new: "fmlookup ps p = None"
    and free: "(rec_root_operation_id r, rec_operation r) \<notin> Range (occupants ident_p ident_q ps Q)"
  shows "ident_ok (fmupd (rec_root_operation_id r)
      (rop_insert (fmget ops rop_default (rec_root_operation_id r)) (rec_root_operation_id r) (rec_operation r) p) ops)
    ids (fmupd p r ps) Q"
proof -
  have "exclusive (occupants ident_p ident_q (fmupd p r ps) Q)"
    unfolding occupants_grant [OF new]
    by (rule exclusive_add) (use ok free in \<open>auto simp: ident_ok_def ident_p_def\<close>)
  moreover have "\<not> (fmlookup ps q = Some r' \<and> rec_root_operation_id r' = rec_root_operation_id r
      \<and> rec_operation r' = rec_operation r)" for q r'
    using free by (auto simp: Range_iff occupants_def ident_p_def)
  ultimately show ?thesis
    using ok new unfolding ident_ok_def live_operation_insert
    by (auto simp: ident_p_def split: if_splits)
qed

lemma rop_get_remove:
  "rop_get (rop_remove rop root_id op) root_id op' = (if op' = op then None else rop_get rop root_id op')"
  by (simp add: rop_get_def rop_remove_def)

lemma rop_get_empty: "rop_is_empty rop \<Longrightarrow> rop_get rop root_id op = None"
  by (simp add: rop_is_empty_def rop_get_def fmdom_notD)

lemma live_operation_unwind:
  "live_operation (gs_operation_permits (unwind_operation r s)) root' op' =
     (if root' = rec_root_operation_id r \<and> op' = rec_operation r then None
      else live_operation (gs_operation_permits s) root' op')"
proof (cases "fmlookup (gs_operation_permits s) (rec_root_operation_id r)")
  case (Some rop)
  let ?rop = "rop_remove rop (rec_root_operation_id r) (rec_operation r)"
  show ?thesis
  proof (cases "rop_is_empty ?rop")
    case True
    then show ?thesis
      using Some rop_get_empty [OF True, of "rec_root_operation_id r" op']
      by (auto simp: unwind_operation_def Let_def live_operation_def rop_get_remove split: if_splits)
  next
    case False
    then show ?thesis
      using Some by (auto simp: unwind_operation_def Let_def live_operation_def rop_get_remove)
  qed
qed (auto simp: unwind_operation_def live_operation_def)

lemma ident_ok_unwind:
  assumes ok: "ident_ok ops ids ps Q" and old: "fmlookup ps p = Some r"
    and ops': "\<And>root' op'. live_operation ops' root' op' =
      (if root' = rec_root_operation_id r \<and> op' = rec_operation r then None else live_operation ops root' op')"
  shows "ident_ok ops' ids (fmdrop p ps) Q"
proof -
  have ex: "exclusive (occupants ident_p ident_q ps Q)" using ok by (simp add: ident_ok_def)
  then have uniq: "fmlookup ps q = Some r' \<Longrightarrow> ident_p r' = ident_p r \<Longrightarrow> q = p" for q r'
    using old unfolding exclusive_def
    by (metis Inl_occupants ident_p_def sum.inject(1))
  have "exclusive (occupants ident_p ident_q (fmdrop p ps) Q)"
    by (rule exclusive_subset [OF ex]) (auto simp: occupants_unwind)
  moreover have "live_operation ops' root_id op = Some q \<longleftrightarrow>
      (\<exists>r'. fmlookup (fmdrop p ps) q = Some r' \<and> ident_p r' = Some (root_id, op))" for root_id op q
  proof (cases "Some (root_id, op) = ident_p r")
    case True
    then show ?thesis using uniq by (auto simp: ops' ident_p_def)
  next
    case False
    then have "live_operation ops' root_id op = live_operation ops root_id op"
      by (auto simp: ops' ident_p_def)
    moreover have "fmlookup ps q = Some r' \<Longrightarrow> ident_p r' = Some (root_id, op) \<Longrightarrow> q \<noteq> p" for r'
      using False old by auto
    ultimately show ?thesis using ok unfolding ident_ok_def by auto
  qed
  ultimately show ?thesis using ok unfolding ident_ok_def by blast
qed

lemma ident_ok_enqueue:
  assumes ok: "ident_ok ops ids ps Q"
    and free: "(pr_root_operation_id q, pr_operation q) \<notin> Range (occupants ident_p ident_q ps Q)"
  shows "ident_ok ops (fmupd (pr_root_operation_id q)
      (insert (pr_operation q) (fmget ids {} (pr_root_operation_id q))) ids) ps (Q(cl := Q cl @ [q]))"
proof -
  have "exclusive (occupants ident_p ident_q ps (Q(cl := Q cl @ [q])))"
    unfolding occupants_enqueue
    by (rule exclusive_add) (use ok free in \<open>auto simp: ident_ok_def ident_q_def\<close>)
  then show ?thesis
    using ok unfolding ident_ok_def by (auto simp: ident_q_def split: if_splits)
qed

lemma fmget_forget_queued_identity:
  "fmget (gs_queued_operation_identities (forget_queued_identity q s)) {} root_id =
     (if root_id = pr_root_operation_id q
      then fmget (gs_queued_operation_identities s) {} root_id - {pr_operation q}
      else fmget (gs_queued_operation_identities s) {} root_id)"
  by (auto simp: forget_queued_identity_def Let_def fmget_def split: option.splits)

text \<open>Removing one occupant of the queue removes exactly its key.\<close>

lemma queued_keys_dequeue:
  assumes ok: "ticket_ok L ps' Q" and ex: "exclusive (occupants kp kq ps Q)" and i: "i < length (Q cl)"
  shows "(\<exists>c'. \<exists>q \<in> set ((Q(cl := remove_nth i (Q cl))) c'). kq q = Some k) \<longleftrightarrow>
    (\<exists>c'. \<exists>q \<in> set (Q c'). kq q = Some k) \<and> kq (Q cl ! i) \<noteq> Some k"
proof -
  let ?Q = "Q(cl := remove_nth i (Q cl))" and ?t = "pr_ticket (Q cl ! i)"
  have "(\<exists>c'. \<exists>q \<in> set (?Q c'). kq q = Some k) \<longleftrightarrow> (\<exists>t. (Inr t, k) \<in> occupants kp kq ps ?Q)" by auto
  also have "\<dots> \<longleftrightarrow> (\<exists>t. (Inr t, k) \<in> occupants kp kq ps Q \<and> t \<noteq> ?t)"
    unfolding occupants_dequeue [OF ok i] by auto
  also have "\<dots> \<longleftrightarrow> (\<exists>c'. \<exists>q \<in> set (Q c'). kq q = Some k) \<and> kq (Q cl ! i) \<noteq> Some k"
  proof
    assume "\<exists>t. (Inr t, k) \<in> occupants kp kq ps Q \<and> t \<noteq> ?t"
    then obtain t where t: "(Inr t, k) \<in> occupants kp kq ps Q" "t \<noteq> ?t" by blast
    moreover have "kq (Q cl ! i) = Some k \<Longrightarrow> (Inr ?t, k) \<in> occupants kp kq ps Q"
      unfolding Inr_occupants using nth_mem [OF i] by blast
    ultimately show "(\<exists>c'. \<exists>q \<in> set (Q c'). kq q = Some k) \<and> kq (Q cl ! i) \<noteq> Some k"
      using ex unfolding exclusive_def by (metis Inr_occupants sum.inject(2))
  next
    assume h: "(\<exists>c'. \<exists>q \<in> set (Q c'). kq q = Some k) \<and> kq (Q cl ! i) \<noteq> Some k"
    then obtain c' q where q: "q \<in> set (Q c')" "kq q = Some k" by blast
    moreover have "pr_ticket q \<noteq> ?t"
    proof
      assume same: "pr_ticket q = ?t"
      then have "c' = cl" using ticket_okD(3) [OF ok, of q c'] ticket_okD(3) [OF ok, of "Q cl ! i" cl] q i by auto
      then have "q = Q cl ! i"
        using same q ticket_okD(5) [OF ok, of cl] i
        by (metis (no_types, lifting) distinct_map inj_onD nth_mem)
      with q h show False by simp
    qed
    ultimately show "\<exists>t. (Inr t, k) \<in> occupants kp kq ps Q \<and> t \<noteq> ?t" by auto
  qed
  finally show ?thesis .
qed

lemma exclusive_dequeue:
  "ticket_ok L ps' Q \<Longrightarrow> exclusive (occupants kp kq ps Q) \<Longrightarrow> i < length (Q cl) \<Longrightarrow>
     exclusive (occupants kp kq ps (Q(cl := remove_nth i (Q cl))))"
  by (erule exclusive_subset) (auto simp: occupants_dequeue)

lemma ident_ok_dequeue:
  assumes ok: "ident_ok ops (gs_queued_operation_identities s) ps Q" and tk: "ticket_ok L ps' Q"
    and i: "i < length (Q cl)"
  shows "ident_ok ops (gs_queued_operation_identities (forget_queued_identity (Q cl ! i) s)) ps
    (Q(cl := remove_nth i (Q cl)))"
proof -
  have ex: "exclusive (occupants ident_p ident_q ps Q)" using ok by (simp add: ident_ok_def)
  have "op \<in> fmget (gs_queued_operation_identities (forget_queued_identity (Q cl ! i) s)) {} root_id \<longleftrightarrow>
      (\<exists>c'. \<exists>q \<in> set ((Q(cl := remove_nth i (Q cl))) c'). ident_q q = Some (root_id, op))" for root_id op
    unfolding queued_keys_dequeue [OF tk ex i] fmget_forget_queued_identity
    using ok unfolding ident_ok_def by (auto simp: ident_q_def)
  with ok exclusive_dequeue [OF tk ex i] show ?thesis unfolding ident_ok_def by blast
qed

lemma ident_ok_permit_upd:
  assumes "ident_ok ops ids ps Q" "fmlookup ps p = Some r" "ident_p r' = ident_p r"
  shows "ident_ok ops ids (fmupd p r' ps) Q"
  using assms occupants_permit_upd [of ps p r ident_p r' ident_q Q] unfolding ident_ok_def by auto

section \<open>The recursion guard\<close>

definition guard_p :: "PermitRecord \<Rightarrow> (str \<times> TaskStage) option" where
  "guard_p r = (if is_child (rec_scope r) then Some (rec_root_operation_id r, rec_target_stage r) else None)"

definition guard_q :: "PendingRequest \<Rightarrow> (str \<times> TaskStage) option" where
  "guard_q q = (if is_child (pr_scope q) then Some (pr_root_operation_id q, pr_target_stage q) else None)"

definition guard_ok ::
  "(str, TaskStage set) fmap \<Rightarrow> (PermitId, PermitRecord) fmap \<Rightarrow> (TaskClass \<Rightarrow> PendingRequest list) \<Rightarrow> bool" where
  "guard_ok rec ps Q \<longleftrightarrow>
     (\<forall>root_id st. st \<in> fmget rec {} root_id \<longleftrightarrow> (root_id, st) \<in> Range (occupants guard_p guard_q ps Q))
     \<and> exclusive (occupants guard_p guard_q ps Q)"

abbreviation guard_inv :: "GovernedState \<Rightarrow> bool" where
  "guard_inv s \<equiv> guard_ok (gs_active_recursion s) (gs_permits s) (queues s)"

lemma guard_inv_default: "guard_inv GovernedState_default"
proof -
  have q: "queue_of fmempty = (\<lambda>_. [])" by (rule ext) (simp add: queue_of_def ClassState_default_def)
  show ?thesis by (simp add: guard_ok_def GovernedState_default_def occupants_empty q exclusive_def)
qed

lemma fmget_occupy_guard:
  "fmget (gs_active_recursion (occupy_recursion_guard root_id st s)) {} root' =
     (if root' = root_id then insert st (fmget (gs_active_recursion s) {} root') else fmget (gs_active_recursion s) {} root')"
  by (simp add: occupy_recursion_guard_def)

lemma fmget_vacate_guard:
  "fmget (gs_active_recursion (vacate_recursion_guard root_id st s)) {} root' =
     (if root' = root_id then fmget (gs_active_recursion s) {} root' - {st} else fmget (gs_active_recursion s) {} root')"
  by (auto simp: vacate_recursion_guard_def Let_def fmget_def split: option.splits)

lemma guard_ok_add:
  assumes ok: "guard_ok rec ps Q" and occ: "occupants guard_p guard_q ps' Q' =
      occupants guard_p guard_q ps Q \<union> {(x, k) |k. ko = Some k}"
    and free: "\<And>k. ko = Some k \<Longrightarrow> k \<notin> Range (occupants guard_p guard_q ps Q)"
    and rec: "\<And>root_id st. st \<in> fmget rec' {} root_id \<longleftrightarrow>
      st \<in> fmget rec {} root_id \<or> ko = Some (root_id, st)"
  shows "guard_ok rec' ps' Q'"
  using ok exclusive_add [of "occupants guard_p guard_q ps Q" ko x] free
  unfolding guard_ok_def occ rec Range_add by blast

lemma guard_ok_remove:
  assumes ok: "guard_ok rec ps Q" and occ: "occupants guard_p guard_q ps' Q' =
      {(y, k) \<in> occupants guard_p guard_q ps Q. y \<noteq> x}"
    and key: "\<And>k. (x, k) \<in> occupants guard_p guard_q ps Q \<longleftrightarrow> ko = Some k"
    and rec: "\<And>root_id st. st \<in> fmget rec' {} root_id \<longleftrightarrow>
      st \<in> fmget rec {} root_id \<and> ko \<noteq> Some (root_id, st)"
  shows "guard_ok rec' ps' Q'"
proof -
  have ex: "exclusive (occupants guard_p guard_q ps Q)" using ok by (simp add: guard_ok_def)
  have "exclusive (occupants guard_p guard_q ps' Q')"
    unfolding occ by (rule exclusive_subset [OF ex]) auto
  with ok show ?thesis unfolding guard_ok_def occ rec Range_remove [OF ex] key by auto
qed

lemma guard_ok_permit_upd:
  assumes "guard_ok rec ps Q" "fmlookup ps p = Some r" "guard_p r' = guard_p r"
  shows "guard_ok rec (fmupd p r' ps) Q"
  using assms by (simp add: guard_ok_def occupants_permit_upd)

section \<open>Root attribution\<close>

definition attributed :: "str \<Rightarrow> (PermitRecord \<Rightarrow> nat) \<Rightarrow> PermitRecord \<Rightarrow> nat" where
  "attributed root_id f r =
     (if is_child (rec_scope r) \<and> rec_root_operation_id r = root_id then f r else 0)"

definition root_stages :: "(PermitId, PermitRecord) fmap \<Rightarrow> str \<Rightarrow> TaskStage set" where
  "root_stages ps root_id = {st. \<exists>p r. fmlookup ps p = Some r \<and> guard_p r = Some (root_id, st)}"

definition root_ok :: "str \<Rightarrow> RootExecutionState \<Rightarrow> (PermitId, PermitRecord) fmap \<Rightarrow> bool" where
  "root_ok root_id x ps \<longleftrightarrow>
     root_child_inflight x = fmsum (attributed root_id one) ps
     \<and> root_cpu_units x = fmsum (attributed root_id rec_cpu) ps
     \<and> root_memory_units x = fmsum (attributed root_id rec_mem) ps
     \<and> root_active_stages x = root_stages ps root_id"

definition roots_ok :: "(str, RootExecutionState) fmap \<Rightarrow> (PermitId, PermitRecord) fmap \<Rightarrow> bool" where
  "roots_ok roots ps \<longleftrightarrow>
     (\<forall>root_id. root_ok root_id (fmget roots RootExecutionState_default root_id) ps)
     \<and> (\<forall>root_id x. fmlookup roots root_id = Some x \<longrightarrow> root_child_inflight x \<noteq> 0)"

abbreviation roots_inv :: "GovernedState \<Rightarrow> bool" where
  "roots_inv s \<equiv> roots_ok (gs_roots s) (gs_permits s)"

lemma roots_inv_default: "roots_inv GovernedState_default"
  by (simp add: roots_ok_def root_ok_def GovernedState_default_def RootExecutionState_default_def
      root_stages_def)

lemma root_stages_grant:
  "fmlookup ps p = None \<Longrightarrow>
     root_stages (fmupd p r ps) root_id = root_stages ps root_id \<union> {st. guard_p r = Some (root_id, st)}"
  by (auto simp: root_stages_def split: if_splits) (metis option.distinct(1))

lemma root_stages_unwind:
  assumes "exclusive (occupants guard_p guard_q ps Q)" "fmlookup ps p = Some r"
  shows "root_stages (fmdrop p ps) root_id = root_stages ps root_id - {st. guard_p r = Some (root_id, st)}"
proof -
  have uniq: "fmlookup ps q = Some r' \<Longrightarrow> guard_p r' = Some k \<Longrightarrow> guard_p r = Some k \<Longrightarrow> q = p" for q r' k
    using assms unfolding exclusive_def by (metis Inl_occupants sum.inject(1))
  show ?thesis
  proof (rule set_eqI)
    fix st
    have "(\<exists>q r'. fmlookup (fmdrop p ps) q = Some r' \<and> guard_p r' = Some (root_id, st)) \<longleftrightarrow>
        (\<exists>q r'. fmlookup ps q = Some r' \<and> q \<noteq> p \<and> guard_p r' = Some (root_id, st))" by auto
    also have "\<dots> \<longleftrightarrow> (\<exists>q r'. fmlookup ps q = Some r' \<and> guard_p r' = Some (root_id, st))
        \<and> guard_p r \<noteq> Some (root_id, st)"
      using uniq [of _ _ "(root_id, st)"] assms(2) by (metis option.inject)
    finally show "st \<in> root_stages (fmdrop p ps) root_id \<longleftrightarrow>
        st \<in> root_stages ps root_id - {st. guard_p r = Some (root_id, st)}"
      by (simp add: root_stages_def)
  qed
qed

lemma root_stages_permit_upd:
  "fmlookup ps p = Some r \<Longrightarrow> guard_p r' = guard_p r \<Longrightarrow> root_stages (fmupd p r' ps) = root_stages ps"
  by (auto simp: root_stages_def fun_eq_iff) (metis option.inject)+

lemma root_ok_default: "root_ok root_id RootExecutionState_default ps \<longleftrightarrow> fmsum (attributed root_id one) ps = 0"
proof
  assume z: "fmsum (attributed root_id one) ps = 0"
  then have no: "fmlookup ps p = Some r \<Longrightarrow> \<not> (is_child (rec_scope r) \<and> rec_root_operation_id r = root_id)" for p r
    by (auto simp: fmsum_zero_iff attributed_def split: if_splits)
  then have "fmsum (attributed root_id f) ps = 0" for f
    by (intro fmsum_zero) (auto simp: attributed_def)
  moreover have "root_stages ps root_id = {}" using no by (auto simp: root_stages_def guard_p_def split: if_splits)
  ultimately show "root_ok root_id RootExecutionState_default ps"
    by (simp add: root_ok_def RootExecutionState_default_def)
qed (simp add: root_ok_def RootExecutionState_default_def)

lemma grant_roots:
  "gs_roots (grant g s) = (if is_child (gr_scope g)
     then fmupd (gr_root_operation_id g) (root_grant (gr_cost g) (gr_target_stage g)
        (fmget (gs_roots s) RootExecutionState_default (gr_root_operation_id g))) (gs_roots s)
     else gs_roots s)"
  by (simp add: grant_def Let_def split: option.splits)

lemma grant_recursion:
  "gs_active_recursion (grant g s) = (if is_child (gr_scope g)
     then fmupd (gr_root_operation_id g) (insert (gr_target_stage g)
        (fmget (gs_active_recursion s) {} (gr_root_operation_id g))) (gs_active_recursion s)
     else gs_active_recursion s)"
  by (simp add: grant_def Let_def occupy_recursion_guard_def split: option.splits)

lemma roots_inv_grant:
  assumes inv: "roots_inv s" and new: "fmlookup (gs_permits s) (gr_permit_id g) = None"
  shows "roots_inv (grant g s)"
proof -
  let ?ps = "fmupd (gr_permit_id g) (granted_record g) (gs_permits s)"
  note simps = fmsum_upd_new [OF new] root_stages_grant [OF new]
  have ok: "root_ok root_id (fmget (gs_roots s) RootExecutionState_default root_id) (gs_permits s)" for root_id
    using inv by (simp add: roots_ok_def)
  have "root_ok root_id (fmget (gs_roots (grant g s)) RootExecutionState_default root_id) ?ps" for root_id
  proof (cases "is_child (gr_scope g) \<and> root_id = gr_root_operation_id g")
    case True
    with ok [of root_id] show ?thesis
      by (simp add: root_ok_def simps grant_roots attributed_def root_grant_def guard_p_def)
  next
    case False
    then have a: "attributed root_id f (granted_record g) = 0"
      and b: "{st. guard_p (granted_record g) = Some (root_id, st)} = {}" for f
      by (auto simp: attributed_def guard_p_def)
    have "root_ok root_id (fmget (gs_roots s) RootExecutionState_default root_id) ?ps"
      using ok [of root_id] by (simp add: root_ok_def simps a b)
    moreover have "fmget (gs_roots (grant g s)) RootExecutionState_default root_id
        = fmget (gs_roots s) RootExecutionState_default root_id"
      using False by (simp add: grant_roots)
    ultimately show ?thesis by (simp only:)
  qed
  moreover have "fmlookup (gs_roots (grant g s)) root_id = Some x \<Longrightarrow> root_child_inflight x \<noteq> 0" for root_id x
  proof -
    assume x: "fmlookup (gs_roots (grant g s)) root_id = Some x"
    have old: "fmlookup (gs_roots s) root_id = Some x \<Longrightarrow> root_child_inflight x \<noteq> 0"
      using inv unfolding roots_ok_def by blast
    from x old show ?thesis unfolding grant_roots
      by (cases "is_child (gr_scope g)"; cases "root_id = gr_root_operation_id g") (auto simp: root_grant_def)
  qed
  ultimately show ?thesis unfolding roots_ok_def grant_fields by blast
qed

lemma unwind_ledger_roots:
  "gs_roots (unwind_ledger p r s) = (if is_child (rec_scope r)
     then (case fmlookup (gs_roots s) (rec_root_operation_id r) of
             None \<Rightarrow> gs_roots s
           | Some root \<Rightarrow> if root_child_inflight (root_unwind r root) = 0
               then fmdrop (rec_root_operation_id r) (gs_roots s)
               else fmupd (rec_root_operation_id r) (root_unwind r root) (gs_roots s))
     else gs_roots s)"
  by (simp add: unwind_ledger_def Let_def unwind_root_def split: option.splits)

lemma unwind_ledger_recursion:
  "fmget (gs_active_recursion (unwind_ledger p r s)) {} root' =
     (if is_child (rec_scope r) \<and> root' = rec_root_operation_id r
      then fmget (gs_active_recursion s) {} root' - {rec_target_stage r}
      else fmget (gs_active_recursion s) {} root')"
  by (simp add: unwind_ledger_def Let_def unwind_root_def fmget_vacate_guard split: option.splits)

lemma unwind_ledger_operations:
  "live_operation (gs_operation_permits (unwind_ledger p r s)) root' op' =
     (if root' = rec_root_operation_id r \<and> op' = rec_operation r then None
      else live_operation (gs_operation_permits s) root' op')"
proof -
  have "gs_operation_permits (unwind_ledger p r s) = gs_operation_permits (unwind_operation r s)"
    by (simp add: unwind_ledger_def Let_def unwind_operation_def split: option.splits)
  then show ?thesis by (simp add: live_operation_unwind)
qed

lemma roots_inv_unwind_ledger:
  assumes inv: "roots_inv s" and ex: "exclusive (occupants guard_p guard_q (gs_permits s) Q)"
    and old: "fmlookup (gs_permits s) p = Some r"
  shows "roots_inv (unwind_ledger p r s)"
proof (cases "is_child (rec_scope r)")
  case False
  then have "fmsum (attributed root_id f) (fmdrop p (gs_permits s)) = fmsum (attributed root_id f) (gs_permits s)"
    for root_id f using fmsum_drop_minus [OF old, of "attributed root_id f"] by (simp add: attributed_def)
  then show ?thesis
    using inv False
    by (simp add: roots_ok_def root_ok_def unwind_ledger_roots root_stages_unwind [OF ex old] guard_p_def)
next
  case True
  let ?root = "rec_root_operation_id r" and ?ps = "gs_permits s"
  have dr: "fmsum f (fmdrop p ?ps) = fmsum f ?ps - f r" for f using old by (rule fmsum_drop_minus)
  have one: "fmsum (attributed ?root one) ?ps \<noteq> 0"
    using fmsum_ge [OF old, of "attributed ?root one"] True by (simp add: attributed_def)
  have ok: "root_ok root_id (fmget (gs_roots s) RootExecutionState_default root_id) ?ps" for root_id
    using inv by (simp add: roots_ok_def)
  obtain x where x: "fmlookup (gs_roots s) ?root = Some x"
    using ok [of ?root] one root_ok_default [of ?root ?ps]
    by (cases "fmlookup (gs_roots s) ?root") (auto simp: fmget_def)
  have okx: "root_ok ?root (root_unwind r x) (fmdrop p ?ps)"
    using ok [of ?root] x True
    by (simp add: root_ok_def root_unwind_def fmget_def dr attributed_def root_stages_unwind [OF ex old] guard_p_def)
  have other: "root_id \<noteq> ?root \<Longrightarrow> root_ok root_id (fmget (gs_roots s) RootExecutionState_default root_id) (fmdrop p ?ps)"
    for root_id
    using ok [of root_id] by (simp add: root_ok_def dr attributed_def root_stages_unwind [OF ex old] guard_p_def)
  show ?thesis
  proof (cases "root_child_inflight (root_unwind r x) = 0")
    case z: True
    then have "root_ok ?root RootExecutionState_default (fmdrop p ?ps)"
      using okx by (simp add: root_ok_default) (simp add: root_ok_def)
    with other inv show ?thesis using True x z
      by (auto simp: roots_ok_def unwind_ledger_roots split: if_splits)
  next
    case False
    with other inv okx show ?thesis using True x
      by (auto simp: roots_ok_def unwind_ledger_roots split: if_splits)
  qed
qed

end
