(* ===== verification/TM_Invariant.thy ===== *)
theory TM_Invariant
  imports TM_Occupancy
begin

text \<open>
  The structural invariant of the governed state and its preservation by the building blocks of the
  governor's critical sections: granting, unwinding, queueing, leaving the queue, and promoting a
  queued request. \<open>core n s\<close> collects everything but the recursion guard, which is briefly ahead of
  the queue while a promotion is in progress; \<open>n\<close> is the number of tickets issued so far, which bounds
  the terminal sequence and the queue order so that neither counter can wrap.
\<close>

section \<open>Queues\<close>

definition class_queue_ok :: "nat \<Rightarrow> ClassState \<Rightarrow> bool" where
  "class_queue_ok order cs \<longleftrightarrow>
     queue_indexed cs
     \<and> (\<forall>r \<in> set (cs_queue cs). pr_queue_order r \<le> order \<and> distinct (pr_capabilities r))"

definition queue_ok :: "(TaskClass, ClassState) fmap \<Rightarrow> nat \<Rightarrow> bool" where
  "queue_ok cls order \<longleftrightarrow> (\<forall>cl. class_queue_ok order (fmget cls ClassState_default cl))"

abbreviation queue_inv :: "GovernedState \<Rightarrow> bool" where
  "queue_inv s \<equiv> queue_ok (gs_classes s) (gs_next_queue_order s)"

text \<open>Re-pricing and ledger updates leave the queue and its indexes alone.\<close>

definition same_queue :: "ClassState \<Rightarrow> ClassState \<Rightarrow> bool" where
  "same_queue cs cs' \<longleftrightarrow>
     map untagged (cs_queue cs') = map untagged (cs_queue cs)
     \<and> cs_queued_by_capability cs' = cs_queued_by_capability cs
     \<and> cs_queued_ungated cs' = cs_queued_ungated cs
     \<and> cs_queued_awaited_children cs' = cs_queued_awaited_children cs"

lemma untagged_keys:
  assumes "map untagged qs' = map untagged qs" "\<And>r. f (untagged r) = f r" "\<And>r. P (untagged r) = P r"
  shows "f ` {r \<in> set qs'. P r} = f ` {r \<in> set qs. P r}" and "map f qs' = map f qs"
    and "(\<forall>r \<in> set qs'. P r) \<longleftrightarrow> (\<forall>r \<in> set qs. P r)"
proof -
  have img: "f ` {r \<in> set xs. P r} = f ` {r \<in> set (map untagged xs). P r}" for xs
    using assms(2,3) by (auto simp: image_iff) (metis assms(2))+
  then show "f ` {r \<in> set qs'. P r} = f ` {r \<in> set qs. P r}" using assms(1) by metis
  have "map f xs = map f (map untagged xs)" for xs using assms(2) by simp
  then show "map f qs' = map f qs" using assms(1) by metis
  have "(\<forall>r \<in> set xs. P r) \<longleftrightarrow> (\<forall>r \<in> set (map untagged xs). P r)" for xs using assms(3) by auto
  then show "(\<forall>r \<in> set qs'. P r) \<longleftrightarrow> (\<forall>r \<in> set qs. P r)" using assms(1) by metis
qed

lemma class_queue_ok_same: "same_queue cs cs' \<Longrightarrow> class_queue_ok n cs' = class_queue_ok n cs"
  unfolding same_queue_def class_queue_ok_def queue_indexed_def
  using untagged_keys [of "cs_queue cs'" "cs_queue cs" pr_seq_no "\<lambda>r. is_awaited_child (pr_scope r)"]
    untagged_keys [of "cs_queue cs'" "cs_queue cs" pr_queue_order "\<lambda>r. pr_capabilities r = []"]
    untagged_keys(1) [of "cs_queue cs'" "cs_queue cs" pr_queue_order "\<lambda>r. i \<in> set (pr_capabilities r)" for i]
    untagged_keys(3) [of "cs_queue cs'" "cs_queue cs" pr_queue_order
      "\<lambda>r. pr_queue_order r \<le> n \<and> distinct (pr_capabilities r)"]
  by simp

lemma same_queue_refl [simp]: "same_queue cs cs"
  by (simp add: same_queue_def)

lemma same_queue_trans: "same_queue a b \<Longrightarrow> same_queue b c \<Longrightarrow> same_queue a c"
  by (simp add: same_queue_def)

lemma queue_ok_upd:
  "queue_ok cls n \<Longrightarrow> class_queue_ok n cs \<Longrightarrow> queue_ok (fmupd cl cs cls) n"
  by (simp add: queue_ok_def)

lemma queue_ok_same_upd:
  "queue_ok cls n \<Longrightarrow> same_queue (fmget cls ClassState_default cl) cs \<Longrightarrow> queue_ok (fmupd cl cs cls) n"
  by (simp add: queue_ok_def class_queue_ok_same)

lemma queue_of_same_upd:
  "same_queue (fmget cls ClassState_default cl) cs \<Longrightarrow> queue_of (fmupd cl cs cls) = queue_of cls"
  by (auto simp: same_queue_def queue_of_def)

lemma set_phase_slot_same_queue: "same_queue cs (set_phase_slot p n cs)"
  by (simp add: same_queue_def)

lemma class_ledger_same_queue:
  "same_queue cs (class_grant cost cs)" "same_queue cs (class_advance p q cs)"
  "same_queue cs (class_unwind r cs)"
  by (simp_all add: same_queue_def class_grant_def class_advance_def class_unwind_def Let_def
      enter_phase_def leave_phase_def)

lemma class_queue_ok_push:
  assumes "class_queue_ok n cs" "pr_queue_order r = n + 1" "distinct (pr_capabilities r)"
    "\<forall>x \<in> set (cs_queue cs). pr_seq_no x \<noteq> pr_seq_no r"
  shows "class_queue_ok (n + 1) (class_push r cs)"
  using assms by (auto simp: class_queue_ok_def le_imp_less_Suc intro!: queue_indexed_push)

lemma class_queue_ok_mono: "class_queue_ok n cs \<Longrightarrow> n \<le> m \<Longrightarrow> class_queue_ok m cs"
  by (auto simp: class_queue_ok_def)

lemma class_queue_ok_take:
  "class_queue_ok n cs \<Longrightarrow> i < length (cs_queue cs) \<Longrightarrow> class_queue_ok n (class_take i cs)"
  using set_remove_nth_subset [of i "cs_queue cs"]
  by (auto simp: class_queue_ok_def intro: queue_indexed_take)

section \<open>The invariant\<close>

definition pid_p :: "PermitRecord \<Rightarrow> PermitId option" where
  "pid_p r = Some (rec_permit_id r)"

definition pid_q :: "PendingRequest \<Rightarrow> PermitId option" where
  "pid_q q = Some (pr_permit_id q)"

definition core :: "nat \<Rightarrow> GovernedState \<Rightarrow> bool" where
  "core n s \<longleftrightarrow> acct_inv s \<and> ticket_inv s \<and> ring_inv s \<and> ident_inv s \<and> roots_inv s \<and> queue_inv s
     \<and> exclusive (occupants pid_p pid_q (gs_permits s) (queues s))
     \<and> gs_terminal_seq s + card (dom (live s)) \<le> n \<and> gs_next_queue_order s \<le> n \<and> n < u64_max"

definition gov_inv :: "nat \<Rightarrow> GovernedState \<Rightarrow> bool" where
  "gov_inv n s \<longleftrightarrow> core n s \<and> guard_inv s"

lemma coreI:
  assumes "acct_inv s" "ticket_inv s" "ring_inv s" "ident_inv s" "roots_inv s" "queue_inv s"
    "exclusive (occupants pid_p pid_q (gs_permits s) (queues s))"
    "gs_terminal_seq s + card (dom (live s)) \<le> n" "gs_next_queue_order s \<le> n" "n < u64_max"
  shows "core n s"
  using assms by (simp add: core_def)

lemma coreD:
  assumes "core n s"
  shows "acct_inv s" "ticket_inv s" "ring_inv s" "ident_inv s" "roots_inv s" "queue_inv s"
    "exclusive (occupants pid_p pid_q (gs_permits s) (queues s))"
    "gs_terminal_seq s + card (dom (live s)) \<le> n" "gs_next_queue_order s \<le> n" "n < u64_max"
  using assms by (simp_all add: core_def)

lemma gov_inv_default: "gov_inv 0 GovernedState_default"
proof -
  have q: "queues GovernedState_default = (\<lambda>_. [])"
    by (rule ext) (simp add: queue_of_def ClassState_default_def GovernedState_default_def)
  have "core 0 GovernedState_default"
  proof (rule coreI)
    show "queue_inv GovernedState_default"
      by (simp add: queue_ok_def GovernedState_default_def class_queue_ok_def queue_indexed_default)
         (simp add: ClassState_default_def)
    have "live GovernedState_default = (\<lambda>_. None)" by (rule ext) (simp add: GovernedState_default_def)
    then show "gs_terminal_seq GovernedState_default + card (dom (live GovernedState_default)) \<le> 0"
      by (simp add: dom_def) (simp add: GovernedState_default_def)
    show "exclusive (occupants pid_p pid_q (gs_permits GovernedState_default) (queues GovernedState_default))"
      unfolding q by (simp add: GovernedState_default_def occupants_empty exclusive_def)
  qed (simp_all add: acct_inv_default ticket_inv_default ring_inv_default ident_inv_default roots_inv_default,
      simp_all add: GovernedState_default_def u64_max_def)
  then show ?thesis by (simp add: gov_inv_def guard_inv_default)
qed

text \<open>A state that agrees on the fields the invariant reads satisfies it too.\<close>

lemma core_cong:
  assumes "gs_permits s' = gs_permits s" "gs_operation_permits s' = gs_operation_permits s"
    "gs_queued_operation_identities s' = gs_queued_operation_identities s"
    "gs_next_queue_order s' = gs_next_queue_order s" "gs_roots s' = gs_roots s"
    "gs_tickets s' = gs_tickets s" "gs_terminal_order s' = gs_terminal_order s"
    "gs_terminal_index s' = gs_terminal_index s" "gs_terminal_seq s' = gs_terminal_seq s"
    "gs_cpu_units_held s' = gs_cpu_units_held s" "gs_memory_units_held s' = gs_memory_units_held s"
    "gs_capability_in_use s' = gs_capability_in_use s" "gs_classes s' = gs_classes s"
  shows "core n s' \<longleftrightarrow> core n s"
  by (simp add: core_def assms)

lemma gov_inv_cong:
  assumes "gs_permits s' = gs_permits s" "gs_operation_permits s' = gs_operation_permits s"
    "gs_queued_operation_identities s' = gs_queued_operation_identities s"
    "gs_next_queue_order s' = gs_next_queue_order s" "gs_roots s' = gs_roots s"
    "gs_tickets s' = gs_tickets s" "gs_terminal_order s' = gs_terminal_order s"
    "gs_terminal_index s' = gs_terminal_index s" "gs_terminal_seq s' = gs_terminal_seq s"
    "gs_cpu_units_held s' = gs_cpu_units_held s" "gs_memory_units_held s' = gs_memory_units_held s"
    "gs_capability_in_use s' = gs_capability_in_use s" "gs_classes s' = gs_classes s"
    "gs_active_recursion s' = gs_active_recursion s"
  shows "gov_inv n s' \<longleftrightarrow> gov_inv n s"
  by (simp add: gov_inv_def core_cong [OF assms(1-13)] assms)

lemma gov_inv_mono: "gov_inv n s \<Longrightarrow> n \<le> m \<Longrightarrow> m < u64_max \<Longrightarrow> gov_inv m s"
  by (auto simp: gov_inv_def core_def)

text \<open>Scheduling updates of a class.\<close>

lemma core_class_upd:
  assumes "core n s" "same_ledger (class_view s cl) cs" "same_queue (class_view s cl) cs"
  shows "core n (s\<lparr>gs_classes := fmupd cl cs (gs_classes s)\<rparr>)"
  using assms unfolding core_def class_view_def
  by (simp add: acct_ok_class_upd queue_ok_same_upd queue_of_same_upd del: queue_of_upd)

lemma gov_inv_class_upd:
  assumes "gov_inv n s" "same_ledger (class_view s cl) cs" "same_queue (class_view s cl) cs"
  shows "gov_inv n (s\<lparr>gs_classes := fmupd cl cs (gs_classes s)\<rparr>)"
  using assms core_class_upd [of n s cl cs] unfolding gov_inv_def class_view_def
  by (simp add: queue_of_same_upd del: queue_of_upd)

section \<open>Granting and unwinding\<close>

lemma card_live_drop: "finite (dom L) \<Longrightarrow> L t \<noteq> None \<Longrightarrow> card (dom (L(t := None))) + 1 = card (dom L)"
proof -
  assume a: "finite (dom L)" "L t \<noteq> None"
  then have "0 < card (dom L)" by (auto simp: card_gt_0_iff)
  moreover have "card (dom L - {t}) = card (dom L) - 1" using a by (intro card_Diff_singleton) auto
  ultimately show ?thesis by simp
qed

lemma card_live_add: "finite (dom L) \<Longrightarrow> L t = None \<Longrightarrow> card (dom (L(t \<mapsto> x))) = card (dom L) + 1"
  by (simp add: domIff)

lemma pid_fresh:
  assumes "core n s" "p \<notin> Range (occupants pid_p pid_q (gs_permits s) (queues s))"
  shows "fmlookup (gs_permits s) p = None"
proof (rule ccontr)
  assume "fmlookup (gs_permits s) p \<noteq> None"
  then obtain r where r: "fmlookup (gs_permits s) p = Some r" by auto
  then have "pid_p r = Some p"
    using acct_okD(6) [OF coreD(1) [OF assms(1)] r] by (simp add: record_ok_def pid_p_def)
  with r assms(2) show False unfolding Range_occupants by blast
qed

lemma core_grant:
  assumes inv: "core n s"
    and pid: "gr_permit_id g \<notin> Range (occupants pid_p pid_q (gs_permits s) (queues s))"
    and caps: "distinct (gr_capabilities g)" and room: "fmsum one (gs_permits s) < u32_max"
    and ident: "(gr_root_operation_id g, gr_operation g)
      \<notin> Range (occupants ident_p ident_q (gs_permits s) (queues s))"
    and tick: "\<And>t. gr_pending_ticket g = Some t \<Longrightarrow>
      live s t = None \<and> fmlookup (gs_terminal_index s) t = None
      \<and> gs_terminal_seq s + card (dom (live s)) + 1 \<le> n"
  shows "core n (grant g s)"
proof -
  note D = coreD [OF inv]
  have new: "fmlookup (gs_permits s) (gr_permit_id g) = None" by (rule pid_fresh [OF inv pid])
  have q: "queues (grant g s) = queues s"
    unfolding grant_fields(1) class_view_def by (rule queue_of_same_upd) (rule class_ledger_same_queue)
  have L: "live (grant g s) = (case gr_pending_ticket g of None \<Rightarrow> live s
      | Some t \<Rightarrow> (live s)(t \<mapsto> TGranted (gr_permit_id g)))"
    by (simp split: option.splits)
  show ?thesis
  proof (rule coreI)
    show "acct_inv (grant g s)" by (rule acct_inv_grant [OF D(1) new caps room])
    show "ticket_inv (grant g s)"
      using ticket_ok_grant [OF D(2) new, of "granted_record g"] tick by (simp only: L q) simp
    show "ring_inv (grant g s)"
      using D(3) tick by (simp add: ring_ok_ticket_upd split: option.splits)
    show "ident_inv (grant g s)"
      using ident_ok_grant [OF D(4) new, of "granted_record g"] ident by (simp only: q) simp
    show "roots_inv (grant g s)" by (rule roots_inv_grant [OF D(5) new])
    show "queue_inv (grant g s)"
      unfolding grant_fields class_view_def
      by (rule queue_ok_same_upd [OF D(6)]) (rule class_ledger_same_queue)
    show "exclusive (occupants pid_p pid_q (gs_permits (grant g s)) (queues (grant g s)))"
      unfolding q grant_fields(2) occupants_grant [OF new]
      by (rule exclusive_add [OF D(7)]) (use pid in \<open>simp add: pid_p_def\<close>)
    show "gs_terminal_seq (grant g s) + card (dom (live (grant g s))) \<le> n"
    proof (cases "gr_pending_ticket g")
      case None
      then show ?thesis using D(8) by (simp add: L)
    next
      case (Some t)
      then show ?thesis using tick [OF Some] card_live_add [OF finite_live, of "gs_tickets s" t]
        by (simp add: L del: dom_fun_upd)
    qed
  qed (use D(9,10) in simp_all)
qed

lemma core_unwind:
  assumes inv: "core n s" and ex: "exclusive (occupants guard_p guard_q (gs_permits s) (queues s))"
    and eq: "unwind p reason s e = ((s', e'), out)"
  shows "core n s'"
proof (cases "fmlookup (gs_permits s) p")
  case None
  with eq inv show ?thesis by (simp add: unwind_eq)
next
  case (Some r)
  note D = coreD [OF inv]
  let ?u = "unwind_ledger p r s"
  have s': "s' = (case rec_pending_ticket r of None \<Rightarrow> ?u | Some t \<Rightarrow> record_terminal_ticket t reason ?u)"
    using eq Some by (auto simp: unwind_eq split: option.splits)
  obtain cs where cs: "fmlookup (gs_classes s) (rec_class r) = Some cs"
    using acct_inv_present_class [OF D(1) Some] by blast
  have sq: "same_queue (fmget (gs_classes s) ClassState_default (rec_class r)) (class_unwind r cs)"
    using cs class_ledger_same_queue(3) by (simp add: fmget_def)
  have q: "queues ?u = queues s" using sq cs by (simp add: queue_of_same_upd del: queue_of_upd)
  have qi: "queue_inv ?u" using queue_ok_same_upd [OF D(6) sq] cs by simp
  have acct: "acct_inv ?u" by (rule acct_inv_unwind_ledger [OF D(1) Some])
  have idt: "ident_ok (gs_operation_permits ?u) (gs_queued_operation_identities ?u) (gs_permits ?u) (queues s)"
    unfolding unwind_ledger_fields by (rule ident_ok_unwind [OF D(4) Some]) (rule unwind_ledger_operations)
  have rts: "roots_inv ?u" by (rule roots_inv_unwind_ledger [OF D(5) ex Some])
  have pid: "exclusive (occupants pid_p pid_q (gs_permits ?u) (queues s))"
    by (rule exclusive_subset [OF D(7)]) (auto simp: occupants_unwind)
  have tk: "ticket_ok (case rec_pending_ticket r of None \<Rightarrow> live s | Some t \<Rightarrow> (live s)(t := None))
      (gs_permits ?u) (queues s)"
    using ticket_ok_unwind [OF D(2) Some] by simp
  show ?thesis
  proof (cases "rec_pending_ticket r")
    case None
    then show ?thesis unfolding s'
      using acct tk D(3,8,9,10) idt rts qi pid q by (simp add: core_def)
  next
    case t: (Some t)
    have hold: "live s t \<noteq> None" using ticket_okD(2) [OF D(2) Some t] by (auto simp: holds_ticket_def)
    have card: "card (dom ((live s)(t := None))) + 1 = card (dom (live s))"
      using hold by (rule card_live_drop [OF finite_live])
    have ring: "ring_inv ?u" and room: "gs_terminal_seq ?u < u64_max" using D(3,8,10) by simp_all
    note R = record_terminal_ring [OF ring room, of t reason]
    show ?thesis unfolding s' t option.case
    proof (rule coreI)
      show "gs_terminal_seq (record_terminal_ticket t reason ?u)
          + card (dom (live (record_terminal_ticket t reason ?u))) \<le> n"
        using D(8) card R(3) by simp
      show "ring_inv (record_terminal_ticket t reason ?u)" by (rule R(1))
      show "ticket_inv (record_terminal_ticket t reason ?u)" using tk t q by simp
    qed (use acct idt rts qi pid q D(9,10) in simp_all)
  qed
qed

lemma guard_inv_unwind:
  assumes inv: "guard_inv s" and acct: "acct_inv s" and eq: "unwind p reason s e = ((s', e'), out)"
  shows "guard_inv s'"
proof (cases "fmlookup (gs_permits s) p")
  case None
  with eq inv show ?thesis by (simp add: unwind_eq)
next
  case (Some r)
  let ?u = "unwind_ledger p r s"
  have s': "s' = (case rec_pending_ticket r of None \<Rightarrow> ?u | Some t \<Rightarrow> record_terminal_ticket t reason ?u)"
    using eq Some by (auto simp: unwind_eq split: option.splits)
  obtain cs where cs: "fmlookup (gs_classes s) (rec_class r) = Some cs"
    using acct_inv_present_class [OF acct Some] by blast
  have sq: "same_queue (fmget (gs_classes s) ClassState_default (rec_class r)) (class_unwind r cs)"
    using cs class_ledger_same_queue(3) by (simp add: fmget_def)
  have q: "queues ?u = queues s" using sq cs by (simp add: queue_of_same_upd del: queue_of_upd)
  have "guard_ok (gs_active_recursion ?u) (fmdrop p (gs_permits s)) (queues s)"
    by (rule guard_ok_remove [where ko = "guard_p r", OF inv occupants_unwind])
       (use Some in \<open>auto simp: unwind_ledger_recursion guard_p_def\<close>)
  with q show ?thesis unfolding s' by (simp split: option.splits)
qed

lemma gov_inv_unwind:
  assumes "gov_inv n s" "unwind p reason s e = ((s', e'), out)"
  shows "gov_inv n s'"
proof -
  have co: "core n s" and g: "guard_inv s" using assms(1) by (simp_all add: gov_inv_def)
  have "exclusive (occupants guard_p guard_q (gs_permits s) (queues s))" using g by (simp add: guard_ok_def)
  from core_unwind [OF co this assms(2)] guard_inv_unwind [OF g coreD(1) [OF co] assms(2)]
  show ?thesis by (simp add: gov_inv_def)
qed

lemma gov_inv_release:
  assumes "gov_inv n s" "release_with_proof_reason p pf reason s e = ((s', e'), out)"
  shows "gov_inv n s'"
  using assms gov_inv_unwind [OF assms(1), of p reason e]
  by (auto simp: release_with_proof_reason_def split: option.splits if_splits prod.splits)

lemma gov_inv_grant:
  assumes inv: "gov_inv n s"
    and pid: "gr_permit_id g \<notin> Range (occupants pid_p pid_q (gs_permits s) (queues s))"
    and caps: "distinct (gr_capabilities g)" and room: "fmsum one (gs_permits s) < u32_max"
    and ident: "(gr_root_operation_id g, gr_operation g)
      \<notin> Range (occupants ident_p ident_q (gs_permits s) (queues s))"
    and guard: "is_child (gr_scope g) \<Longrightarrow> (gr_root_operation_id g, gr_target_stage g)
      \<notin> Range (occupants guard_p guard_q (gs_permits s) (queues s))"
    and tick: "gr_pending_ticket g = None"
  shows "gov_inv n (grant g s)"
proof -
  have co: "core n s" and g: "guard_inv s" using inv by (simp_all add: gov_inv_def)
  have q: "queues (grant g s) = queues s"
    unfolding grant_fields(1) class_view_def by (rule queue_of_same_upd) (rule class_ledger_same_queue)
  have "guard_ok (gs_active_recursion (grant g s)) (gs_permits (grant g s)) (queues s)"
    unfolding grant_fields(2)
    by (rule guard_ok_add [OF g occupants_grant [OF pid_fresh [OF co pid]]])
       (use guard in \<open>auto simp: grant_recursion guard_p_def split: if_splits\<close>)
  moreover have "core n (grant g s)" by (rule core_grant [OF co pid caps room ident]) (simp add: tick)
  ultimately show ?thesis by (simp only: gov_inv_def q simp_thms)
qed

section \<open>Joining and leaving the queue\<close>

lemma enqueue_fields [simp]:
  "gs_permits (enqueue r s) = gs_permits s"
  "gs_operation_permits (enqueue r s) = gs_operation_permits s"
  "gs_roots (enqueue r s) = gs_roots s"
  "gs_active_recursion (enqueue r s) = gs_active_recursion s"
  "gs_tickets (enqueue r s) = gs_tickets s"
  "gs_terminal_order (enqueue r s) = gs_terminal_order s"
  "gs_terminal_index (enqueue r s) = gs_terminal_index s"
  "gs_terminal_seq (enqueue r s) = gs_terminal_seq s"
  "gs_cpu_units_held (enqueue r s) = gs_cpu_units_held s"
  "gs_memory_units_held (enqueue r s) = gs_memory_units_held s"
  "gs_capability_in_use (enqueue r s) = gs_capability_in_use s"
  "gs_next_queue_order (enqueue r s) = gs_next_queue_order s + 1"
  "gs_queued_operation_identities (enqueue r s) =
     fmupd (pr_root_operation_id r) (insert (pr_operation r)
       (fmget (gs_queued_operation_identities s) {} (pr_root_operation_id r))) (gs_queued_operation_identities s)"
  "gs_classes (enqueue r s) = fmupd (pr_class r)
     (class_push (r\<lparr>pr_queue_order := gs_next_queue_order s + 1\<rparr>) (class_view s (pr_class r))) (gs_classes s)"
  "gs_accounting_fault (enqueue r s) = gs_accounting_fault s"
  "gs_admission_closed (enqueue r s) = gs_admission_closed s"
  by (simp_all add: enqueue_def Let_def class_view_def)

definition enqueued :: "PendingRequest \<Rightarrow> GovernedState \<Rightarrow> PendingRequest" where
  "enqueued r s = untagged (r\<lparr>pr_queue_order := gs_next_queue_order s + 1\<rparr>)"

lemma queues_enqueue:
  "queues (enqueue r s) = (queues s)(pr_class r := queues s (pr_class r) @ [enqueued r s])"
  by (simp add: queue_of_def class_view_def enqueued_def fun_eq_iff)

lemma enqueued_fields [simp]:
  "pr_ticket (enqueued r s) = pr_ticket r" "pr_class (enqueued r s) = pr_class r"
  "pr_root_operation_id (enqueued r s) = pr_root_operation_id r" "pr_operation (enqueued r s) = pr_operation r"
  "pr_permit_id (enqueued r s) = pr_permit_id r" "pr_scope (enqueued r s) = pr_scope r"
  "pr_target_stage (enqueued r s) = pr_target_stage r"
  by (simp_all add: enqueued_def)

lemma gov_inv_enqueue:
  assumes inv: "gov_inv n s" and n: "n + 1 < u64_max"
    and pid: "pr_permit_id r \<notin> Range (occupants pid_p pid_q (gs_permits s) (queues s))"
    and ident: "(pr_root_operation_id r, pr_operation r)
      \<notin> Range (occupants ident_p ident_q (gs_permits s) (queues s))"
    and guard: "is_child (pr_scope r) \<Longrightarrow> (pr_root_operation_id r, pr_target_stage r)
      \<notin> Range (occupants guard_p guard_q (gs_permits s) (queues s))"
    and tick: "fmlookup (gs_tickets s) (pr_ticket r) = None"
    and sq: "\<forall>x \<in> set (queues s (pr_class r)). pr_seq_no x \<noteq> pr_seq_no r"
    and caps: "distinct (pr_capabilities r)"
    and s': "s' = (enqueue r s)\<lparr>gs_tickets := fmupd (pr_ticket r) (TQueued (pr_class r)) (gs_tickets s)\<rparr>"
  shows "gov_inv (n + 1) (if is_child (pr_scope r)
    then occupy_recursion_guard (pr_root_operation_id r) (pr_target_stage r) s' else s')"
proof -
  have co: "core n s" and g: "guard_inv s" using inv by (simp_all add: gov_inv_def)
  note D = coreD [OF co]
  have Lt: "live s (pr_ticket r) = None" using tick by (simp add: live_tickets_def)
  have q: "queues s' = (queues s)(pr_class r := queues s (pr_class r) @ [enqueued r s])"
    using queues_enqueue [of r s] by (simp add: s')
  have L: "live s' = (live s)(pr_ticket r \<mapsto> TQueued (pr_class r))" by (simp add: s')
  have core': "core (n + 1) s'"
  proof (rule coreI)
    show "acct_inv s'" using acct_inv_enqueue [OF D(1), of r] by (simp add: s')
    show "ticket_inv s'"
      using ticket_ok_enqueue [OF D(2), of "enqueued r s" "pr_class r"] Lt unfolding q L by (simp add: s')
    have "fmlookup (gs_terminal_index s) (pr_ticket r) = None"
      using ring_links_fresh [OF _ tick] D(3) unfolding ring_ok_def by blast
    then show "ring_inv s'" using ring_ok_ticket_upd [OF D(3)] by (simp add: s')
    show "ident_inv s'"
      using ident_ok_enqueue [OF D(4), of "enqueued r s" "pr_class r"] ident unfolding q by (simp add: s')
    show "roots_inv s'" using D(5) by (simp add: s')
    have "class_queue_ok (gs_next_queue_order s + 1)
        (class_push (r\<lparr>pr_queue_order := gs_next_queue_order s + 1\<rparr>) (class_view s (pr_class r)))"
      by (rule class_queue_ok_push)
         (use D(6) sq caps in \<open>auto simp: queue_ok_def class_view_def queue_of_def\<close>)
    then show "queue_inv s'"
      using D(6) unfolding s' by (auto simp: queue_ok_def intro: class_queue_ok_mono)
    show "exclusive (occupants pid_p pid_q (gs_permits s') (queues s'))"
      unfolding q occupants_enqueue
      by (rule exclusive_add) (use D(7) pid in \<open>auto simp: s' pid_q_def\<close>)
    show "gs_terminal_seq s' + card (dom (live s')) \<le> n + 1"
      using D(8) card_live_add [OF finite_live Lt, of "TQueued (pr_class r)"] unfolding L by (simp add: s')
  qed (use D(9) n in \<open>simp_all add: s'\<close>)
  let ?s = "if is_child (pr_scope r)
    then occupy_recursion_guard (pr_root_operation_id r) (pr_target_stage r) s' else s'"
  have "core (n + 1) ?s" using core' by (simp add: core_cong [of "occupy_recursion_guard _ _ s'" s'])
  moreover have "guard_ok (gs_active_recursion ?s) (gs_permits s) ((queues s)(pr_class r := queues s (pr_class r) @ [enqueued r s]))"
    by (rule guard_ok_add [where ko = "guard_q r", OF g])
       (use guard in \<open>auto simp: occupants_enqueue guard_q_def fmget_occupy_guard s' split: if_splits\<close>)
  moreover have "queues ?s = queues s'" "gs_permits ?s = gs_permits s"
    using s' by (cases "is_child (pr_scope r)"; simp)+
  ultimately show ?thesis by (simp only: gov_inv_def q simp_thms)
qed

lemma remove_pending_Some:
  assumes "remove_pending cl i s = (s', Some r)"
  obtains cs where "fmlookup (gs_classes s) cl = Some cs" "i < length (cs_queue cs)" "r = cs_queue cs ! i"
    "s' = forget_queued_identity r (s\<lparr>gs_classes := fmupd cl (class_take i cs) (gs_classes s)\<rparr>)"
    "i < length (queues s cl)" "untagged r = queues s cl ! i"
  using assms
  by (auto simp: remove_pending_def Let_def queue_of_def fmget_def split: option.splits if_splits)

lemma forget_queued_identity_ids:
  "gs_queued_operation_identities (forget_queued_identity (untagged r) s) =
     gs_queued_operation_identities (forget_queued_identity r s)"
  "gs_queued_operation_identities (forget_queued_identity r (s\<lparr>gs_classes := cls\<rparr>)) =
     gs_queued_operation_identities (forget_queued_identity r s)"
  by (simp_all add: forget_queued_identity_def Let_def split: option.splits)

lemma core_dequeue:
  assumes inv: "core n s" and eq: "remove_pending cl i s = (s', Some r)"
  shows "core n (s'\<lparr>gs_tickets := fmdrop (pr_ticket r) (gs_tickets s')\<rparr>)"
    and "queues s' = (queues s)(cl := remove_nth i (queues s cl))"
    and "live s (pr_ticket r) = Some (TQueued cl)" and "pr_class r = cl"
    and "\<And>kp kq. occupants kp kq (gs_permits s') (queues s') =
      {(x, k) \<in> occupants kp kq (gs_permits s) (queues s). x \<noteq> Inr (pr_ticket r)}"
proof -
  obtain cs where cs: "fmlookup (gs_classes s) cl = Some cs" "i < length (cs_queue cs)" "r = cs_queue cs ! i"
    and s': "s' = forget_queued_identity r (s\<lparr>gs_classes := fmupd cl (class_take i cs) (gs_classes s)\<rparr>)"
    and i: "i < length (queues s cl)" and r: "untagged r = queues s cl ! i"
    using eq by (rule remove_pending_Some)
  note D = coreD [OF inv]
  have t: "pr_ticket r = pr_ticket (queues s cl ! i)" using r by (metis untagged_fields(2))
  show q: "queues s' = (queues s)(cl := remove_nth i (queues s cl))"
    using cs by (simp add: s' queue_of_def fmget_def map_remove_nth)
  show live: "live s (pr_ticket r) = Some (TQueued cl)" and "pr_class r = cl"
    using ticket_okD(3) [OF D(2) nth_mem [OF i]] by (simp_all flip: r)
  show occ: "occupants kp kq (gs_permits s') (queues s') =
      {(x, k) \<in> occupants kp kq (gs_permits s) (queues s). x \<noteq> Inr (pr_ticket r)}" for kp kq
    using occupants_dequeue [OF D(2) i, of kp kq "gs_permits s"] unfolding q t by (simp add: s')
  let ?s = "s'\<lparr>gs_tickets := fmdrop (pr_ticket r) (gs_tickets s')\<rparr>"
  have idx: "fmlookup (gs_terminal_index s) (pr_ticket r) = None"
    using ring_links_live D(3) live unfolding ring_ok_def by (metis option.distinct(1))
  show "core n ?s"
  proof (rule coreI)
    show "acct_inv ?s" using acct_inv_remove_pending [OF D(1) eq] by simp
    show "ticket_inv ?s" using ticket_ok_dequeue [OF D(2) i] q t by (simp add: s')
    show "ring_inv ?s" using ring_ok_ticket_drop [OF D(3) idx] by (simp add: s')
    show "ident_inv ?s"
      using ident_ok_dequeue [OF D(4) D(2) i] q
      by (simp add: s' forget_queued_identity_ids flip: r)
    show "roots_inv ?s" using D(5) by (simp add: s')
    have "class_queue_ok (gs_next_queue_order s) cs"
      using D(6) cs(1) unfolding queue_ok_def by (metis fmget_Some)
    then show "queue_inv ?s"
      using queue_ok_upd [OF D(6) class_queue_ok_take] cs(2) by (simp add: s')
    show "exclusive (occupants pid_p pid_q (gs_permits ?s) (queues ?s))"
      using exclusive_dequeue [OF D(2) D(7) i] q by (simp add: s')
    have "card (dom ((live s)(pr_ticket r := None))) + 1 = card (dom (live s))"
      by (rule card_live_drop [OF finite_live]) (simp add: live)
    then show "gs_terminal_seq ?s + card (dom (live ?s)) \<le> n" using D(8) by (simp add: s')
  qed (use D(9,10) in \<open>simp_all add: s'\<close>)
qed

lemma dequeued_member:
  assumes "remove_pending cl i s = (s', Some r)"
  shows "untagged r \<in> set (queues s cl)" and "gs_permits s' = gs_permits s"
    and "gs_active_recursion s' = gs_active_recursion s" and "gs_terminal_index s' = gs_terminal_index s"
    and "gs_terminal_seq s' = gs_terminal_seq s" and "gs_tickets s' = gs_tickets s"
proof -
  obtain i: "i < length (queues s cl)" and r: "untagged r = queues s cl ! i"
    using assms by (rule remove_pending_Some)
  show "untagged r \<in> set (queues s cl)" using nth_mem [OF i] by (simp flip: r)
qed (use assms in \<open>auto simp: remove_pending_def Let_def split: option.splits if_splits\<close>)

lemma dequeued_key:
  assumes co: "core n s" and eq: "remove_pending cl i s = (s', Some r)"
  shows "(Inr (pr_ticket r), k) \<in> occupants kp kq (gs_permits s) (queues s) \<longleftrightarrow> kq (untagged r) = Some k"
proof
  note T = ticket_okD [OF coreD(2) [OF co]] and ur = dequeued_member(1) [OF eq]
  assume "(Inr (pr_ticket r), k) \<in> occupants kp kq (gs_permits s) (queues s)"
  then obtain c' x where x: "x \<in> set (queues s c')" "pr_ticket x = pr_ticket r" "kq x = Some k" by auto
  have "c' = cl" using T(3) [OF x(1)] T(3) [OF ur] x(2) by simp
  then have "x = untagged r"
    using x T(5) [of cl] ur by (metis (no_types, lifting) distinct_map inj_onD untagged_fields(2))
  with x show "kq (untagged r) = Some k" by simp
next
  assume "kq (untagged r) = Some k"
  then show "(Inr (pr_ticket r), k) \<in> occupants kp kq (gs_permits s) (queues s)"
    unfolding Inr_occupants using dequeued_member(1) [OF eq] by (metis untagged_fields(2))
qed

text \<open>A child that leaves the queue unserved gives up its guard slot.\<close>

lemma guard_inv_dequeue:
  assumes inv: "gov_inv n s" and eq: "remove_pending cl i s = (s', Some r)"
    and perm: "gs_permits s'' = gs_permits s'" and q: "queues s'' = queues s'"
    and rec: "\<And>root'. fmget (gs_active_recursion s'') {} root' =
      (if is_child (pr_scope r) \<and> root' = pr_root_operation_id r
       then fmget (gs_active_recursion s) {} root' - {pr_target_stage r}
       else fmget (gs_active_recursion s) {} root')"
  shows "guard_inv s''"
proof -
  have co: "core n s" and g: "guard_inv s" using inv by (simp_all add: gov_inv_def)
  show ?thesis unfolding perm q
    by (rule guard_ok_remove [where ko = "guard_q (untagged r)", OF g core_dequeue(5) [OF co eq] dequeued_key [OF co eq]])
       (auto simp: rec guard_q_def)
qed

lemma core_settle:
  assumes inv: "core n s" and t: "live s t = None" "fmlookup (gs_terminal_index s) t = None"
    and x: "x = TFaulted"
  shows "core n (s\<lparr>gs_tickets := fmupd t x (gs_tickets s)\<rparr>)"
  using coreD [OF inv] t x
  by (simp add: core_def ring_ok_ticket_upd fun_upd_live_None)

lemma core_record_terminal:
  assumes inv: "core n s" and t: "live s t = None" and room: "gs_terminal_seq s + card (dom (live s)) + 1 \<le> n"
  shows "core n (record_terminal_ticket t reason s)"
proof -
  note D = coreD [OF inv]
  have "gs_terminal_seq s < u64_max" using room D(10) by simp
  note R = record_terminal_ring [OF D(3) this, of t reason]
  have L: "live (record_terminal_ticket t reason s) = live s" by (simp add: fun_upd_live_None t)
  show ?thesis
    by (rule coreI) (use D R room in \<open>simp_all add: L del: live_record_terminal\<close>)
qed

section \<open>Promotion of one request\<close>

lemma core_promote_one:
  assumes co: "core n s" and eq: "remove_pending cl i s = (s1, Some r)"
    and led: "same_ledger (class_view s1 cl) cs" and sq: "same_queue (class_view s1 cl) cs"
    and s2: "s2 = s1\<lparr>gs_classes := fmupd cl cs (gs_classes s1),
        gs_tickets := fmdrop (pr_ticket r) (gs_tickets s1), gs_virtual_time := vt\<rparr>"
  shows "core n s2" and "gs_permits s2 = gs_permits s" and "live s2 = (live s)(pr_ticket r := None)"
    and "\<And>kp kq. occupants kp kq (gs_permits s2) (queues s2) =
      {(x, k) \<in> occupants kp kq (gs_permits s) (queues s). x \<noteq> Inr (pr_ticket r)}"
    and "fmlookup (gs_terminal_index s2) (pr_ticket r) = None"
    and "gs_terminal_seq s2 + card (dom (live s2)) + 1 \<le> n" and "distinct (pr_capabilities r)"
proof -
  note D = coreD [OF co] and deq = core_dequeue [OF co eq] and mem = dequeued_member [OF eq]
  have "core n s2 \<longleftrightarrow> core n (s1\<lparr>gs_tickets := fmdrop (pr_ticket r) (gs_tickets s1),
      gs_classes := fmupd cl cs (gs_classes s1)\<rparr>)" by (rule core_cong) (simp_all add: s2)
  then show "core n s2" using core_class_upd [OF deq(1), of cl cs] led sq by (simp add: class_view_def)
  show "gs_permits s2 = gs_permits s" and L: "live s2 = (live s)(pr_ticket r := None)"
    using mem by (simp_all add: s2)
  have q2: "queues s2 = queues s1"
    using sq unfolding s2 class_view_def by (simp add: queue_of_same_upd del: queue_of_upd)
  show "occupants kp kq (gs_permits s2) (queues s2) =
      {(x, k) \<in> occupants kp kq (gs_permits s) (queues s). x \<noteq> Inr (pr_ticket r)}" for kp kq
    using deq(5) [of kp kq] by (simp only: q2) (simp add: s2)
  show "fmlookup (gs_terminal_index s2) (pr_ticket r) = None"
    using ring_links_live [of _ "gs_terminal_index s"] D(3) deq(3) mem
    by (auto simp: s2 ring_ok_def)
  show "gs_terminal_seq s2 + card (dom (live s2)) + 1 \<le> n"
    using D(8) card_live_drop [OF finite_live, of "gs_tickets s" "pr_ticket r"] deq(3) mem
    unfolding L by (simp add: s2)
  obtain c0 where "fmlookup (gs_classes s) cl = Some c0" "r = cs_queue c0 ! i" "i < length (cs_queue c0)"
    using eq by (rule remove_pending_Some)
  then show "distinct (pr_capabilities r)"
    using D(6) unfolding queue_ok_def class_queue_ok_def by (metis fmget_Some nth_mem)
qed

lemma gov_inv_promote_one:
  assumes inv: "gov_inv n s" and eq: "remove_pending cl i s = (s1, Some r)"
    and upd: "same_ledger (class_view s1 cl) cs" "same_queue (class_view s1 cl) cs"
      "s2 = s1\<lparr>gs_classes := fmupd cl cs (gs_classes s1),
         gs_tickets := fmdrop (pr_ticket r) (gs_tickets s1), gs_virtual_time := vt\<rparr>"
    and g: "gr_permit_id g = pr_permit_id r" "gr_operation g = pr_operation r"
      "gr_root_operation_id g = pr_root_operation_id r" "gr_scope g = pr_scope r"
      "gr_target_stage g = pr_target_stage r" "gr_capabilities g = pr_capabilities r"
      "gr_pending_ticket g = Some (pr_ticket r)"
    and room: "fmsum one (gs_permits s) < u32_max"
  shows "gov_inv n (grant g s2)"
proof -
  have co: "core n s" and gi: "guard_inv s" using inv by (simp_all add: gov_inv_def)
  note D = coreD [OF co] and P = core_promote_one [OF co eq upd] and key = dequeued_key [OF co eq]
  have free: "k \<notin> Range (occupants kp kq (gs_permits s2) (queues s2))"
    if "exclusive (occupants kp kq (gs_permits s) (queues s))" "kq (untagged r) = Some k" for kp kq k
    unfolding P(4) Range_remove [OF that(1)] key using that(2) by simp
  have pid: "gr_permit_id g \<notin> Range (occupants pid_p pid_q (gs_permits s2) (queues s2))"
    by (rule free [OF D(7)]) (simp add: g pid_q_def)
  have core': "core n (grant g s2)"
  proof (rule core_grant [OF P(1) pid])
    have "exclusive (occupants ident_p ident_q (gs_permits s) (queues s))" using D(4) by (simp add: ident_ok_def)
    then show "(gr_root_operation_id g, gr_operation g) \<notin> Range (occupants ident_p ident_q (gs_permits s2) (queues s2))"
      by (rule free) (simp add: g ident_q_def)
  qed (use g P(2,3,5,6,7) room in auto)
  have q3: "queues (grant g s2) = queues s2"
    unfolding grant_fields(1) class_view_def by (rule queue_of_same_upd) (rule class_ledger_same_queue)
  have gk: "guard_p (granted_record g) = guard_q (untagged r)" by (simp add: guard_p_def guard_q_def g)
  have occ3: "occupants guard_p guard_q (gs_permits (grant g s2)) (queues (grant g s2)) =
      {(x, k) \<in> occupants guard_p guard_q (gs_permits s) (queues s). x \<noteq> Inr (pr_ticket r)}
        \<union> {(Inl (gr_permit_id g), k) |k. guard_q (untagged r) = Some k}"
    unfolding q3 grant_fields(2) occupants_grant [OF pid_fresh [OF P(1) pid]] gk P(4) ..
  have exg: "exclusive (occupants guard_p guard_q (gs_permits s) (queues s))" using gi by (simp add: guard_ok_def)
  have rec2: "gs_active_recursion s2 = gs_active_recursion s"
    using dequeued_member(3) [OF eq] upd(3) by simp
  have occupied: "guard_q (untagged r) = Some (root_id, st) \<Longrightarrow> st \<in> fmget (gs_active_recursion s) {} root_id" for root_id st
    using gi key [of "(root_id, st)" guard_p guard_q] unfolding guard_ok_def by (metis RangeI)
  have "st \<in> fmget (gs_active_recursion (grant g s2)) {} root_id \<longleftrightarrow> st \<in> fmget (gs_active_recursion s) {} root_id" for root_id st
    using occupied unfolding grant_recursion rec2 by (auto simp: g guard_q_def split: if_splits)
  with gi exclusive_transfer [OF exg key] have "guard_inv (grant g s2)"
    unfolding guard_ok_def occ3 by simp
  with core' show ?thesis by (simp only: gov_inv_def simp_thms)
qed

section \<open>Updates of a permit record\<close>

text \<open>The fields of a record the invariant reads, its ticket apart.\<close>

definition same_custody :: "PermitRecord \<Rightarrow> PermitRecord \<Rightarrow> bool" where
  "same_custody r r' \<longleftrightarrow>
     rec_permit_id r' = rec_permit_id r \<and> rec_class r' = rec_class r \<and> rec_operation r' = rec_operation r
     \<and> rec_root_operation_id r' = rec_root_operation_id r \<and> rec_scope r' = rec_scope r
     \<and> rec_target_stage r' = rec_target_stage r \<and> rec_capabilities r' = rec_capabilities r
     \<and> rec_phase r' = rec_phase r \<and> rec_lease_nonce r' = rec_lease_nonce r
     \<and> rec_cpu r' = rec_cpu r \<and> rec_mem r' = rec_mem r"

lemma acct_ok_permit_upd:
  assumes ok: "acct_ok cls ps cpu mem caps" and old: "fmlookup ps p = Some r" and same: "same_custody r r'"
  shows "acct_ok cls (fmupd p r' ps) cpu mem caps"
proof -
  note D = acct_okD [OF ok]
  have eq: "f r' = f r \<Longrightarrow> fmsum f (fmupd p r' ps) = fmsum f ps" for f using old by (rule fmsum_upd_same)
  show ?thesis
  proof (rule acct_okI)
    show "class_ok cl (fmget cls ClassState_default cl) (fmupd p r' ps)" for cl
      using D(3) [of cl] same by (simp add: class_ok_def eq owned_def same_custody_def)
    show "record_ok q x" if "fmlookup (fmupd p r' ps) q = Some x" for q x
      using that D(6) [OF old] D(6) [of q x] same
      by (auto simp: record_ok_def same_custody_def split: if_splits)
  qed (use D same in \<open>simp_all add: eq same_custody_def\<close>)
qed

lemma roots_ok_permit_upd:
  assumes "roots_ok roots ps" "fmlookup ps p = Some r" "same_custody r r'"
  shows "roots_ok roots (fmupd p r' ps)"
proof -
  have eq: "f r' = f r \<Longrightarrow> fmsum f (fmupd p r' ps) = fmsum f ps" for f using assms(2) by (rule fmsum_upd_same)
  have "guard_p r' = guard_p r" using assms(3) by (simp add: guard_p_def same_custody_def)
  then show ?thesis
    using assms root_stages_permit_upd [OF assms(2)]
    by (simp add: roots_ok_def root_ok_def eq attributed_def same_custody_def)
qed

lemma gov_inv_permit_upd:
  assumes inv: "gov_inv n s" and old: "fmlookup (gs_permits s) p = Some r" and same: "same_custody r r'"
    and tk: "ticket_ok (live_tickets ts) (fmupd p r' (gs_permits s)) (queues s)"
    and ring: "ring_ok (gs_terminal_order s) (gs_terminal_index s) (gs_terminal_seq s) ts"
    and card: "card (dom (live_tickets ts)) \<le> card (dom (live s))"
  shows "gov_inv n (s\<lparr>gs_permits := fmupd p r' (gs_permits s), gs_tickets := ts\<rparr>)"
proof -
  have co: "core n s" and g: "guard_inv s" using inv by (simp_all add: gov_inv_def)
  note D = coreD [OF co]
  have keys: "ident_p r' = ident_p r" "guard_p r' = guard_p r" "pid_p r' = pid_p r"
    using same by (simp_all add: same_custody_def ident_p_def guard_p_def pid_p_def)
  let ?s = "s\<lparr>gs_permits := fmupd p r' (gs_permits s), gs_tickets := ts\<rparr>"
  have "core n ?s"
  proof (rule coreI)
    show "acct_inv ?s" using acct_ok_permit_upd [OF D(1) old same] by simp
    show "ident_inv ?s" using ident_ok_permit_upd [OF D(4) old keys(1)] by simp
    show "roots_inv ?s" using roots_ok_permit_upd [OF D(5) old same] by simp
    show "exclusive (occupants pid_p pid_q (gs_permits ?s) (queues ?s))"
      using D(7) occupants_permit_upd [OF old, of pid_p r' pid_q "queues s"] keys(3) by simp
  qed (use D tk ring card in simp_all)
  then show ?thesis using guard_ok_permit_upd [OF g old keys(2)] by (simp add: gov_inv_def)
qed

lemma gov_inv_touch:
  assumes "gov_inv n s" "fmlookup (gs_permits s) p = Some r" "same_custody r r'"
    "rec_pending_ticket r' = rec_pending_ticket r"
  shows "gov_inv n (s\<lparr>gs_permits := fmupd p r' (gs_permits s)\<rparr>)"
proof -
  have "core n s" using assms(1) by (simp add: gov_inv_def)
  note D = coreD [OF this]
  have "gov_inv n (s\<lparr>gs_permits := fmupd p r' (gs_permits s), gs_tickets := gs_tickets s\<rparr>)"
    by (rule gov_inv_permit_upd [OF assms(1-3)])
       (use ticket_ok_permit_upd [OF D(2) assms(2,4)] D(3) in simp_all)
  then show ?thesis by simp
qed

lemma gov_inv_phase_update:
  assumes inv: "gov_inv n s" and old: "fmlookup (gs_permits s) p = Some r"
    and s': "s' = class_mut (rec_class r) (class_advance (rec_phase r) phase)
      (s\<lparr>gs_permits := fmupd p r' (gs_permits s)\<rparr>)"
    and acct: "acct_inv s'" and r': "r' = r\<lparr>rec_phase := phase, rec_lease_nonce := nonce\<rparr>"
  shows "gov_inv n s'"
proof -
  have co: "core n s" and g: "guard_inv s" using inv by (simp_all add: gov_inv_def)
  note D = coreD [OF co]
  have sq: "same_queue (fmget (gs_classes s) ClassState_default (rec_class r))
      (class_advance (rec_phase r) phase (fmget (gs_classes s) ClassState_default (rec_class r)))"
    by (rule class_ledger_same_queue)
  have q: "queues s' = queues s" by (simp add: s' class_view_def queue_of_same_upd [OF sq] del: queue_of_upd)
  have keys: "ident_p r' = ident_p r" "guard_p r' = guard_p r" "pid_p r' = pid_p r"
    "rec_pending_ticket r' = rec_pending_ticket r" "rec_cpu r' = rec_cpu r" "rec_mem r' = rec_mem r"
    by (simp_all add: r' ident_p_def guard_p_def pid_p_def)
  have at: "f r' = f r \<Longrightarrow> attributed root f r' = attributed root f r" for root f
    by (simp add: attributed_def r')
  have "core n s'"
  proof (rule coreI)
    show "ticket_inv s'" using ticket_ok_permit_upd [OF D(2) old keys(4)] unfolding q by (simp add: s')
    show "ident_inv s'" using ident_ok_permit_upd [OF D(4) old keys(1)] unfolding q by (simp add: s')
    show "roots_inv s'" using D(5) root_stages_permit_upd [OF old keys(2)] keys
      by (simp add: s' roots_ok_def root_ok_def fmsum_upd_same [OF old] at)
    show "queue_inv s'" using queue_ok_same_upd [OF D(6) sq] by (simp add: s' class_view_def)
    show "exclusive (occupants pid_p pid_q (gs_permits s') (queues s'))"
      using D(7) occupants_permit_upd [OF old keys(3)] unfolding q by (simp add: s')
  qed (use acct D in \<open>simp_all add: s'\<close>)
  moreover have "guard_inv s'" using guard_ok_permit_upd [OF g old keys(2)] unfolding q by (simp add: s')
  ultimately show ?thesis by (simp add: gov_inv_def)
qed

lemma gov_inv_advance_phase:
  assumes inv: "gov_inv n s" and eq: "advance_phase p phase s k = ((s', k'), out)"
  shows "gov_inv n s'"
proof -
  have "core n s" using inv by (simp add: gov_inv_def)
  note acct = acct_inv_advance_phase [OF coreD(1) [OF this] eq]
  show ?thesis
  proof (cases rule: advance_phase_cases [of s p phase k])
    case (leased r)
    then show ?thesis using eq by (intro gov_inv_phase_update [OF inv leased(1) _ acct refl]) simp
  next
    case (advanced r m)
    have same: "r\<lparr>rec_phase := phase\<rparr> = r\<lparr>rec_phase := phase, rec_lease_nonce := rec_lease_nonce r\<rparr>" by simp
    show ?thesis
      by (rule gov_inv_phase_update [OF inv advanced(1) _ acct same]) (use advanced eq in simp)
  qed (use inv eq in auto)
qed

section \<open>The debug assertion holds\<close>

lemma length_filter_sum: "length (filter P xs) = sum_list (map (\<lambda>x. of_bool (P x)) xs)"
  by (induction xs) simp_all

lemma class_count_eq: "class_count s cl = fmsum (owned cl one) (gs_permits s)"
  by (simp add: class_count_def length_filter_sum fmsum_bt owned_def [abs_def] of_bool_def del: One_nat_def)

lemma count_list_distinct: "distinct xs \<Longrightarrow> count_list xs x = of_bool (x \<in> set xs)"
  by (induction xs) auto

lemma pool_count_eq:
  assumes "\<And>p r. fmlookup (gs_permits s) p = Some r \<Longrightarrow> distinct (rec_capabilities r)"
  shows "pool_count s i = fmsum (uses i) (gs_permits s)"
proof -
  have "map (\<lambda>r. count_list (rec_capabilities r) i) (bt_values (gs_permits s)) = map (uses i) (bt_values (gs_permits s))"
    by (rule map_cong) (use assms in \<open>auto simp: set_bt_values count_list_distinct\<close>)
  then show ?thesis by (simp only: pool_count_def fmsum_bt)
qed

lemma class_totals:
  assumes acct: "acct_inv s" and f: "\<And>cl. f (class_view s cl) = fmsum (owned cl w) (gs_permits s)"
  shows "sum_list (map f (bt_values (gs_classes s))) = fmsum w (gs_permits s)"
proof -
  let ?C = "fset (fmdom (gs_classes s))"
  have "sum_list (map f (bt_values (gs_classes s))) = (\<Sum>cl \<in> ?C. f (class_view s cl))"
    unfolding fmsum_bt [symmetric] fmsum_def
    by (rule sum.cong) (auto simp: class_view_def fmget_def fmlookup_dom_iff)
  also have "\<dots> = (\<Sum>cl \<in> ?C. fmsum (\<lambda>r. if rec_class r = cl then w r else 0) (gs_permits s))"
    by (simp add: f owned_def [abs_def])
  also have "\<dots> = fmsum w (gs_permits s)"
    by (rule fmsum_partition) (use acct_inv_present_class [OF acct] in \<open>auto simp: fmlookup_dom_iff\<close>)
  finally show ?thesis .
qed

lemma phase_sum:
  assumes "class_ok cl cs ps"
  shows "cs_inflight cs = cs_dispatch_reserved cs + cs_accepted cs + cs_running cs + cs_cleanup_pending cs"
proof -
  have slots: "cs_dispatch_reserved cs = fmsum (owned cl (in_phase DispatchReserved)) ps"
    "cs_accepted cs = fmsum (owned cl (in_phase Accepted)) ps"
    "cs_running cs = fmsum (owned cl (in_phase Running)) ps"
    "cs_cleanup_pending cs = fmsum (owned cl (in_phase CleanupPending)) ps"
    using assms unfolding class_ok_def by (metis phase_slot.simps)+
  have "owned cl one r = owned cl (in_phase DispatchReserved) r + owned cl (in_phase Accepted) r
      + owned cl (in_phase Running) r + owned cl (in_phase CleanupPending) r" for r
    by (cases "rec_phase r") (simp_all add: owned_def)
  then have "fmsum (owned cl one) ps = fmsum (\<lambda>r. owned cl (in_phase DispatchReserved) r
      + owned cl (in_phase Accepted) r + owned cl (in_phase Running) r + owned cl (in_phase CleanupPending) r) ps"
    by (intro fmsum_cong) simp
  then show ?thesis using assms by (simp only: fmsum_add slots class_ok_def)
qed

lemma gov_inv_consistent:
  assumes "gov_inv n s"
  shows "assert_consistent s"
proof -
  have co: "core n s" using assms by (simp add: gov_inv_def)
  note acct = coreD(1) [OF co] and tick = ticket_okD(1) [OF coreD(2) [OF co]]
  note D = acct_okD [OF acct]
  have view: "class_ok cl (class_view s cl) (gs_permits s)" for cl using D(3) by (simp add: class_view_def)
  have present: "class_ok cl cs (gs_permits s)" if "fmlookup (gs_classes s) cl = Some cs" for cl cs
    using view [of cl] that by (simp add: class_view_def fmget_def)
  have pool: "pool_count s i = fmsum (uses i) (gs_permits s)" for i
    by (rule pool_count_eq) (use D(6) in \<open>simp add: record_ok_def\<close>)
  show ?thesis
    unfolding assert_consistent_def
  proof (intro conjI)
    show "sum_list (map cs_cpu_units_held (bt_values (gs_classes s))) = gs_cpu_units_held s"
      unfolding D(1) by (rule class_totals [OF acct]) (use view in \<open>simp add: class_ok_def\<close>)
    show "sum_list (map cs_memory_units_held (bt_values (gs_classes s))) = gs_memory_units_held s"
      unfolding D(2) by (rule class_totals [OF acct]) (use view in \<open>simp add: class_ok_def\<close>)
    show "sum_list (map rec_cpu (bt_values (gs_permits s))) = gs_cpu_units_held s"
      "sum_list (map rec_mem (bt_values (gs_permits s))) = gs_memory_units_held s"
      by (simp_all only: fmsum_bt [symmetric] D(1,2))
    show "list_all (\<lambda>(cl, cs). cs_inflight cs = class_count s cl
        \<and> cs_inflight cs = cs_dispatch_reserved cs + cs_accepted cs + cs_running cs + cs_cleanup_pending cs
        \<and> cs_admitted_total cs = cs_inflight cs + cs_terminated_total cs) (bt_entries (gs_classes s))"
      unfolding list_all_iff class_count_eq
    proof clarify
      fix cl cs assume "(cl, cs) \<in> set (bt_entries (gs_classes s))"
      then have "class_ok cl cs (gs_permits s)" by (intro present) (simp add: set_bt_entries)
      from phase_sum [OF this] this
      show "cs_inflight cs = fmsum (owned cl one) (gs_permits s)
          \<and> cs_inflight cs = cs_dispatch_reserved cs + cs_accepted cs + cs_running cs + cs_cleanup_pending cs
          \<and> cs_admitted_total cs = cs_inflight cs + cs_terminated_total cs"
        unfolding class_ok_def by blast
    qed
    show "list_all (\<lambda>(i, n). n = pool_count s i) (bt_entries (gs_capability_in_use s))"
      unfolding list_all_iff pool
    proof clarify
      fix i k assume "(i, k) \<in> set (bt_entries (gs_capability_in_use s))"
      then have "fmget (gs_capability_in_use s) 0 i = k" by (simp add: set_bt_entries fmget_Some)
      then show "k = fmsum (uses i) (gs_permits s)" using D(4) [of i] by (simp only:)
    qed
    show "list_all (\<lambda>(t, ts). case ts of TGranted p \<Rightarrow> fmlookup (gs_permits s) p \<noteq> None
        | TClaiming p \<Rightarrow> fmlookup (gs_permits s) p \<noteq> None | _ \<Rightarrow> True) (bt_entries (gs_tickets s))"
      unfolding list_all_iff
    proof clarify
      fix t ts assume "(t, ts) \<in> set (bt_entries (gs_tickets s))"
      then show "case ts of TGranted p \<Rightarrow> fmlookup (gs_permits s) p \<noteq> None
          | TClaiming p \<Rightarrow> fmlookup (gs_permits s) p \<noteq> None | _ \<Rightarrow> True"
        using tick [of t] by (cases ts) (auto simp: set_bt_entries live_tickets_def)
    qed
    show "list_all (\<lambda>r. rec_lease_nonce r \<noteq> None \<longleftrightarrow> rec_phase r \<noteq> DispatchReserved) (bt_values (gs_permits s))"
      unfolding list_all_iff Ball_def set_bt_values using D(6) unfolding record_ok_def by blast
  qed
qed

end
