(* ===== verification/TM_Pending.thy ===== *)
theory TM_Pending
  imports TM_Invariant
begin

text \<open>
  \<^verbatim>\<open>features/composite/mod.rs\<close>, \<^verbatim>\<open>features/composite/reduce.rs\<close> and \<^verbatim>\<open>features/admission/pending.rs\<close>:
  the recursion rule, the reduce contract, and the one capacity resolver that intake, promotion and
  diagnostics share. \<open>chain_walk\<close> is the loop of \<open>cycle_witness\<close>; it ends because every iteration
  marks a live permit it had not visited.
\<close>

section \<open>Composite rules\<close>

definition target_stage :: "TaskSpec \<Rightarrow> TaskStage" where
  "target_stage spec =
     (case spec_scope spec of
        Child parent st aw \<Rightarrow> st
      | Root \<Rightarrow> (case spec_stages spec of [] \<Rightarrow> spec_class spec | d # _ \<Rightarrow> sd_stage d))"

definition is_recursive :: "GovernedState \<Rightarrow> TaskSpec \<Rightarrow> bool" where
  "is_recursive s spec =
     (case spec_scope spec of
        Root \<Rightarrow> False
      | Child parent st aw \<Rightarrow>
          (case fmlookup (gs_active_recursion s) (spec_root_operation_id spec) of
             None \<Rightarrow> False | Some stages \<Rightarrow> st \<in> stages))"

definition reduce_validate_policy :: "DeterministicReducePolicy \<Rightarrow> (GovernorError, unit) result" where
  "reduce_validate_policy p =
     (if trim (stable_sort_key p) = [] then Inl (PolicyViolation ReduceKeyEmpty) else Inr ())"

fun reduce_validate_stages :: "StageDescriptor list \<Rightarrow> (GovernorError, unit) result" where
  "reduce_validate_stages [] = Inr ()"
| "reduce_validate_stages (d # rest) =
     (if fan_out d
      then (case reduce_policy d of
              None \<Rightarrow> Inl (PolicyViolation (ParallelStageNeedsReduce (sd_stage d)))
            | Some p \<Rightarrow> and_then (reduce_validate_policy p) (\<lambda>_. reduce_validate_stages rest))
      else reduce_validate_stages rest)"

definition validate_reduce :: "TaskSpec \<Rightarrow> (GovernorError, unit) result" where
  "validate_reduce spec = reduce_validate_stages (spec_stages spec)"

lemma reduce_validate_stages_iff:
  "reduce_validate_stages ds = Inr () \<longleftrightarrow>
     (\<forall>d \<in> set ds. fan_out d \<longrightarrow>
        (\<exists>p. reduce_policy d = Some p \<and> trim (stable_sort_key p) \<noteq> []))"
  by (induction ds)
     (auto simp: reduce_validate_policy_def result_simps split: option.splits if_splits)

section \<open>Blockers\<close>

record BlockerSet =
  bl_class_inflight :: bool
  bl_capabilities :: "CapabilityId list"
  bl_cpu :: bool
  bl_memory :: bool
  bl_queued_behind :: bool
  bl_accounting_fault :: bool

definition no_blockers :: BlockerSet where
  "no_blockers = \<lparr>bl_class_inflight = False, bl_capabilities = [], bl_cpu = False, bl_memory = False,
     bl_queued_behind = False, bl_accounting_fault = False\<rparr>"

definition blockers_empty :: "BlockerSet \<Rightarrow> bool" where
  "blockers_empty b \<longleftrightarrow> \<not> bl_class_inflight b \<and> bl_capabilities b = [] \<and> \<not> bl_cpu b \<and> \<not> bl_memory b
     \<and> \<not> bl_queued_behind b \<and> \<not> bl_accounting_fault b"

definition blockers_primary :: "BlockerSet \<Rightarrow> CapacityBlock" where
  "blockers_primary b =
     (if bl_accounting_fault b then BlockAccountingFault
      else if bl_class_inflight b then BlockInflight
      else if bl_capabilities b \<noteq> [] then BlockCapability
      else if bl_cpu b then BlockCpu
      else if bl_memory b then BlockMemory
      else if bl_queued_behind b then BlockQueuedBehind
      else BlockOk)"

record CycleWitness =
  cw_parent_operation_id :: str
  cw_held :: "HeldCapacity list"

datatype CapacityAssessment =
    Runnable
  | ReversiblyBlocked BlockerSet
  | WaitCycle CycleWitness

fun assessment_blockers :: "CapacityAssessment \<Rightarrow> BlockerSet option" where
  "assessment_blockers Runnable = None"
| "assessment_blockers (WaitCycle w) = None"
| "assessment_blockers (ReversiblyBlocked b) = Some b"

definition block_capability :: "GovernedState \<Rightarrow> PolicySet \<Rightarrow> CapabilityId \<Rightarrow> BlockerSet \<Rightarrow> BlockerSet" where
  "block_capability s ps i b =
     (case capability_record ps i of
        None \<Rightarrow> b\<lparr>bl_accounting_fault := True\<rparr>
      | Some c \<Rightarrow>
          let limit = capacity_limit (cap_capacity c) in
          if limit \<noteq> 0 \<and> limit \<le> capability_in_use s i
          then b\<lparr>bl_capabilities := bl_capabilities b @ [i]\<rparr> else b)"

definition exceeds :: "nat \<Rightarrow> nat \<Rightarrow> nat \<Rightarrow> bool" where
  "exceeds held cost budget =
     (case checked_add u128_max held cost of None \<Rightarrow> True | Some n \<Rightarrow> budget < n)"

definition blockers_for ::
  "GovernedState \<Rightarrow> PolicySet \<Rightarrow> TaskClass \<Rightarrow> nat \<Rightarrow> ResolvedCost \<Rightarrow> CapabilityRequirementSet \<Rightarrow> BlockerSet" where
  "blockers_for s ps cl max_inf cost caps =
     (let b = (if gs_accounting_fault s \<noteq> None then no_blockers\<lparr>bl_accounting_fault := True\<rparr> else no_blockers);
          b = b\<lparr>bl_class_inflight := max_inf \<le> inflight s cl\<rparr>;
          b = fold (block_capability s ps) caps b;
          budget = ps_resources ps;
          b = (if max_cpu_units budget \<noteq> 0
               then b\<lparr>bl_cpu := exceeds (gs_cpu_units_held s) (rc_cpu_units cost) (max_cpu_units budget)\<rparr> else b);
          b = (if max_memory_units budget \<noteq> 0
               then b\<lparr>bl_memory := exceeds (gs_memory_units_held s) (rc_memory_units cost) (max_memory_units budget)\<rparr>
               else b)
      in b)"

section \<open>Wait cycles\<close>

record ChainUse =
  ch_in_class :: nat
  ch_cpu :: nat
  ch_memory :: nat
  ch_capabilities :: "(CapabilityId, nat) fmap"

definition no_chain :: ChainUse where
  "no_chain = \<lparr>ch_in_class = 0, ch_cpu = 0, ch_memory = 0, ch_capabilities = fmempty\<rparr>"

definition chain_add :: "TaskClass \<Rightarrow> PermitRecord \<Rightarrow> ChainUse \<Rightarrow> ChainUse" where
  "chain_add cl r u =
     \<lparr>ch_in_class = ch_in_class u + (if rec_class r = cl then 1 else 0),
      ch_cpu = ch_cpu u + pl_cpu_units (rec_ledger r),
      ch_memory = ch_memory u + pl_effective_units (rec_ledger r),
      ch_capabilities = fold (\<lambda>i m. fmupd i (fmget m 0 i + 1) m) (rec_capabilities r) (ch_capabilities u)\<rparr>"

function chain_walk ::
  "GovernedState \<Rightarrow> TaskClass \<Rightarrow> PermitId \<Rightarrow> PermitId set \<Rightarrow> bool \<Rightarrow> ChainUse \<Rightarrow> ChainUse option" where
  "chain_walk s cl ancestor visited observed u =
     (if ancestor \<in> visited then Some u
      else case fmlookup (gs_permits s) ancestor of
        None \<Rightarrow> if observed then Some u else None
      | Some r \<Rightarrow>
          let u' = chain_add cl r u in
          if is_awaited_child (rec_scope r)
          then (case rec_parent_permit_id r of
                  None \<Rightarrow> Some u'
                | Some nxt \<Rightarrow> chain_walk s cl nxt (insert ancestor visited) True u')
          else Some u')"
  by pat_completeness auto

termination
proof (relation "measure (\<lambda>(s, cl, a, v, ob, u). card (fset (fmdom (gs_permits s)) - v))", goal_cases)
  case (2 s cl ancestor visited observed u r u' nxt)
  then have "ancestor \<in> fset (fmdom (gs_permits s)) - visited" by (simp add: fmdomI)
  then have "fset (fmdom (gs_permits s)) - insert ancestor visited \<subset> fset (fmdom (gs_permits s)) - visited"
    by blast
  then show ?case by (simp add: psubset_card_mono)
qed simp

declare chain_walk.simps [simp del]

definition wait_chain_exclusively_holds :: "nat \<Rightarrow> nat \<Rightarrow> bool" where
  "wait_chain_exclusively_holds held by_chain \<longleftrightarrow> 0 < by_chain \<and> held = by_chain"

text \<open>The pools of the blocked capabilities the chain holds alone; a capability the policy does not
  register ends the search without a witness (the operator \<open>?\<close> of the source).\<close>

fun held_pools :: "GovernedState \<Rightarrow> PolicySet \<Rightarrow> ChainUse \<Rightarrow> CapabilityId list \<Rightarrow> HeldCapacity list option" where
  "held_pools s ps u [] = Some []"
| "held_pools s ps u (i # rest) =
     (if wait_chain_exclusively_holds (capability_in_use s i) (fmget (ch_capabilities u) 0 i)
      then (case capability_record ps i of
              None \<Rightarrow> None
            | Some c \<Rightarrow> map_option (\<lambda>hs. CapabilityPool (cap_name c) # hs) (held_pools s ps u rest))
      else held_pools s ps u rest)"

definition cycle_witness ::
  "GovernedState \<Rightarrow> PolicySet \<Rightarrow> str \<Rightarrow> TaskScope \<Rightarrow> PermitId option \<Rightarrow> TaskClass \<Rightarrow> BlockerSet
     \<Rightarrow> CycleWitness option" where
  "cycle_witness s ps root_id scope parent cl b =
     (case scope of
        Child parent_op st True \<Rightarrow>
          Option.bind (case parent of Some p \<Rightarrow> Some p | None \<Rightarrow> parent_permit_for_scope s root_id scope) (\<lambda>a.
          Option.bind (chain_walk s cl a {} False no_chain) (\<lambda>u.
          Option.bind (held_pools s ps u (bl_capabilities b)) (\<lambda>pools.
            let held = (if bl_class_inflight b \<and> wait_chain_exclusively_holds (inflight s cl) (ch_in_class u)
                        then [ClassInflight cl] else [])
                  @ pools
                  @ (if bl_cpu b \<and> wait_chain_exclusively_holds (gs_cpu_units_held s) (ch_cpu u)
                     then [CpuBudget] else [])
                  @ (if bl_memory b \<and> wait_chain_exclusively_holds (gs_memory_units_held s) (ch_memory u)
                     then [MemoryBudget] else [])
            in if held \<noteq> [] then Some \<lparr>cw_parent_operation_id = parent_op, cw_held = held\<rparr> else None)))
      | _ \<Rightarrow> None)"

section \<open>The resolver\<close>

definition assess_scope ::
  "GovernedState \<Rightarrow> PolicySet \<Rightarrow> str \<Rightarrow> TaskScope \<Rightarrow> PermitId option \<Rightarrow> TaskClass \<Rightarrow> nat \<Rightarrow> ResolvedCost
     \<Rightarrow> CapabilityRequirementSet \<Rightarrow> bool \<Rightarrow> CapacityAssessment" where
  "assess_scope s ps root_id scope parent cl max_inf cost caps queued_behind =
     (let b = (blockers_for s ps cl max_inf cost caps)\<lparr>bl_queued_behind := queued_behind\<rparr> in
      if blockers_empty b then Runnable
      else case cycle_witness s ps root_id scope parent cl b of
             Some w \<Rightarrow> WaitCycle w
           | None \<Rightarrow> ReversiblyBlocked b)"

definition assess ::
  "GovernedState \<Rightarrow> PolicySet \<Rightarrow> TaskSpec \<Rightarrow> TaskClass \<Rightarrow> nat \<Rightarrow> ResolvedCost \<Rightarrow> CapabilityRequirementSet
     \<Rightarrow> bool \<Rightarrow> CapacityAssessment" where
  "assess s ps spec cl max_inf cost caps queued_behind =
     assess_scope s ps (spec_root_operation_id spec) (spec_scope spec) None cl max_inf cost caps queued_behind"

definition assess_pending ::
  "GovernedState \<Rightarrow> PolicySet \<Rightarrow> PendingRequest \<Rightarrow> nat \<Rightarrow> bool \<Rightarrow> CapacityAssessment" where
  "assess_pending s ps r max_inf queued_behind =
     assess_scope s ps (pr_root_operation_id r) (pr_scope r) (pr_parent_permit_id r) (pr_class r) max_inf
       (pr_cost r) (pr_capabilities r) queued_behind"

section \<open>What a runnable request may take\<close>

definition capability_free :: "GovernedState \<Rightarrow> PolicySet \<Rightarrow> CapabilityId \<Rightarrow> bool" where
  "capability_free s ps i \<longleftrightarrow>
     (\<exists>c. capability_record ps i = Some c
        \<and> (capacity_limit (cap_capacity c) = 0 \<or> capability_in_use s i < capacity_limit (cap_capacity c)))"

definition fits :: "GovernedState \<Rightarrow> PolicySet \<Rightarrow> TaskClass \<Rightarrow> nat \<Rightarrow> ResolvedCost \<Rightarrow> CapabilityRequirementSet \<Rightarrow> bool" where
  "fits s ps cl max_inf cost caps \<longleftrightarrow>
     gs_accounting_fault s = None \<and> inflight s cl < max_inf \<and> (\<forall>i \<in> set caps. capability_free s ps i)
     \<and> (max_cpu_units (ps_resources ps) \<noteq> 0 \<longrightarrow>
          gs_cpu_units_held s + rc_cpu_units cost \<le> min u128_max (max_cpu_units (ps_resources ps)))
     \<and> (max_memory_units (ps_resources ps) \<noteq> 0 \<longrightarrow>
          gs_memory_units_held s + rc_memory_units cost \<le> min u128_max (max_memory_units (ps_resources ps)))"

lemma exceeds_iff: "exceeds held cost budget \<longleftrightarrow> \<not> (held + cost \<le> min u128_max budget)"
  by (auto simp: exceeds_def split: option.splits)

lemma block_capability_fields [simp]:
  "bl_class_inflight (block_capability s ps i b) = bl_class_inflight b"
  "bl_cpu (block_capability s ps i b) = bl_cpu b"
  "bl_memory (block_capability s ps i b) = bl_memory b"
  "bl_queued_behind (block_capability s ps i b) = bl_queued_behind b"
  by (simp_all add: block_capability_def Let_def split: option.splits)

lemma fold_block_capability_fields [simp]:
  "bl_class_inflight (fold (block_capability s ps) caps b) = bl_class_inflight b"
  "bl_cpu (fold (block_capability s ps) caps b) = bl_cpu b"
  "bl_memory (fold (block_capability s ps) caps b) = bl_memory b"
  "bl_queued_behind (fold (block_capability s ps) caps b) = bl_queued_behind b"
  by (induction caps arbitrary: b) simp_all

lemma block_capability_clear:
  "bl_capabilities (block_capability s ps i b) = [] \<and> \<not> bl_accounting_fault (block_capability s ps i b)
     \<longleftrightarrow> bl_capabilities b = [] \<and> \<not> bl_accounting_fault b \<and> capability_free s ps i"
  by (auto simp: block_capability_def capability_free_def Let_def split: option.splits)

lemma fold_block_capability_clear:
  "bl_capabilities (fold (block_capability s ps) caps b) = []
     \<and> \<not> bl_accounting_fault (fold (block_capability s ps) caps b)
     \<longleftrightarrow> bl_capabilities b = [] \<and> \<not> bl_accounting_fault b \<and> (\<forall>i \<in> set caps. capability_free s ps i)"
proof (induction caps arbitrary: b)
  case (Cons i caps)
  show ?case using Cons.IH [of "block_capability s ps i b"] block_capability_clear [of s ps i b] by simp blast
qed simp

lemma blockers_empty_iff:
  "blockers_empty ((blockers_for s ps cl max_inf cost caps)\<lparr>bl_queued_behind := qb\<rparr>)
     \<longleftrightarrow> \<not> qb \<and> fits s ps cl max_inf cost caps"
proof -
  let ?b = "(if gs_accounting_fault s \<noteq> None then no_blockers\<lparr>bl_accounting_fault := True\<rparr> else no_blockers)
    \<lparr>bl_class_inflight := max_inf \<le> inflight s cl\<rparr>"
  let ?f = "fold (block_capability s ps) caps ?b"
  have "blockers_empty ((blockers_for s ps cl max_inf cost caps)\<lparr>bl_queued_behind := qb\<rparr>) \<longleftrightarrow>
      \<not> qb \<and> inflight s cl < max_inf \<and> (bl_capabilities ?f = [] \<and> \<not> bl_accounting_fault ?f)
      \<and> (max_cpu_units (ps_resources ps) \<noteq> 0 \<longrightarrow>
           \<not> exceeds (gs_cpu_units_held s) (rc_cpu_units cost) (max_cpu_units (ps_resources ps)))
      \<and> (max_memory_units (ps_resources ps) \<noteq> 0 \<longrightarrow>
           \<not> exceeds (gs_memory_units_held s) (rc_memory_units cost) (max_memory_units (ps_resources ps)))"
    by (auto simp: blockers_empty_def blockers_for_def Let_def no_blockers_def)
  also have "\<dots> \<longleftrightarrow> \<not> qb \<and> fits s ps cl max_inf cost caps"
    unfolding fold_block_capability_clear exceeds_iff
    by (auto simp: fits_def no_blockers_def)
  finally show ?thesis .
qed

lemma assess_scope_Runnable:
  "assess_scope s ps root_id scope parent cl max_inf cost caps qb = Runnable
     \<longleftrightarrow> \<not> qb \<and> fits s ps cl max_inf cost caps"
  by (simp add: assess_scope_def Let_def blockers_empty_iff split: option.splits)

lemma assess_Runnable:
  "assess s ps spec cl max_inf cost caps qb = Runnable \<longleftrightarrow> \<not> qb \<and> fits s ps cl max_inf cost caps"
  by (simp add: assess_def assess_scope_Runnable)

lemma assess_pending_Runnable:
  "assess_pending s ps r max_inf qb = Runnable
     \<longleftrightarrow> \<not> qb \<and> fits s ps (pr_class r) max_inf (pr_cost r) (pr_capabilities r)"
  by (simp add: assess_pending_def assess_scope_Runnable)

lemma primary_Ok: "blockers_primary b = BlockOk \<longleftrightarrow> blockers_empty b"
  by (simp add: blockers_primary_def blockers_empty_def)

lemma assess_scope_blocked_primary:
  assumes "assess_scope s ps root_id scope parent cl max_inf cost caps qb = ReversiblyBlocked b"
  shows "blockers_primary b \<noteq> BlockOk"
  using assms by (auto simp: assess_scope_def Let_def primary_Ok split: if_splits option.splits)

section \<open>A wait cycle is held by the waiting chain alone\<close>

text \<open>The awaited ancestors of a child: its parent, and from an awaited child on to that child's parent.\<close>

inductive awaited_ancestor :: "GovernedState \<Rightarrow> PermitId \<Rightarrow> PermitId \<Rightarrow> bool" for s a where
  parent: "fmlookup (gs_permits s) a = Some r \<Longrightarrow> awaited_ancestor s a a"
| ancestor: "awaited_ancestor s a p \<Longrightarrow> fmlookup (gs_permits s) p = Some r \<Longrightarrow>
    is_awaited_child (rec_scope r) \<Longrightarrow> rec_parent_permit_id r = Some q \<Longrightarrow>
    fmlookup (gs_permits s) q = Some r' \<Longrightarrow> awaited_ancestor s a q"

definition psum :: "(PermitRecord \<Rightarrow> nat) \<Rightarrow> GovernedState \<Rightarrow> PermitId set \<Rightarrow> nat" where
  "psum f s P = (\<Sum>p \<in> P. f (the (fmlookup (gs_permits s) p)))"

definition chain_is :: "TaskClass \<Rightarrow> GovernedState \<Rightarrow> PermitId set \<Rightarrow> ChainUse \<Rightarrow> bool" where
  "chain_is cl s P u \<longleftrightarrow>
     ch_in_class u = psum (owned cl one) s P \<and> ch_cpu u = psum rec_cpu s P \<and> ch_memory u = psum rec_mem s P
     \<and> (\<forall>i. fmget (ch_capabilities u) 0 i = psum (uses i) s P)"

lemma chain_capabilities_fold:
  fixes m :: "(CapabilityId, nat) fmap"
  shows "distinct is \<Longrightarrow>
    fmget (fold (\<lambda>i m. fmupd i (Suc (fmget m 0 i)) m) is m) 0 j = fmget m 0 j + of_bool (j \<in> set is)"
  by (induction "is" arbitrary: m) auto

lemma psum_insert:
  "finite P \<Longrightarrow> a \<notin> P \<Longrightarrow> fmlookup (gs_permits s) a = Some r \<Longrightarrow> psum f s (insert a P) = f r + psum f s P"
  by (simp add: psum_def)

lemma chain_is_add:
  assumes "chain_is cl s P u" "finite P" "a \<notin> P" "fmlookup (gs_permits s) a = Some r"
    "distinct (rec_capabilities r)"
  shows "chain_is cl s (insert a P) (chain_add cl r u)"
  using assms
  by (simp add: chain_is_def chain_add_def psum_insert [OF assms(2-4)] owned_def chain_capabilities_fold)

lemma chain_walk_sound:
  assumes "chain_walk s cl a visited observed u = Some u'"
    "acct_inv s" "chain_is cl s visited u" "finite visited"
    "\<forall>p \<in> visited. awaited_ancestor s a0 p \<and> fmlookup (gs_permits s) p \<noteq> None"
    "fmlookup (gs_permits s) a = None \<or> awaited_ancestor s a0 a"
  shows "\<exists>P. chain_is cl s P u' \<and> finite P \<and> (\<forall>p \<in> P. awaited_ancestor s a0 p \<and> fmlookup (gs_permits s) p \<noteq> None)"
  using assms
proof (induction s cl a visited observed u arbitrary: rule: chain_walk.induct)
  case (1 s cl a visited observed u)
  show ?case
  proof (cases "a \<in> visited \<or> fmlookup (gs_permits s) a = None")
    case True
    then have "u' = u" using "1.prems"(1) by (subst (asm) chain_walk.simps) (auto split: if_splits)
    then show ?thesis using "1.prems" by blast
  next
    case False
    then obtain r where r: "a \<notin> visited" "fmlookup (gs_permits s) a = Some r" by auto
    have anc: "awaited_ancestor s a0 a" using "1.prems"(6) r by simp
    have dist: "distinct (rec_capabilities r)"
      using acct_okD(6) [OF "1.prems"(2) r(2)] by (simp add: record_ok_def)
    have ci: "chain_is cl s (insert a visited) (chain_add cl r u)"
      by (rule chain_is_add [OF "1.prems"(3,4) r dist])
    have all: "\<forall>p \<in> insert a visited. awaited_ancestor s a0 p \<and> fmlookup (gs_permits s) p \<noteq> None"
      using "1.prems"(5) anc r by simp
    show ?thesis
    proof (cases "is_awaited_child (rec_scope r) \<and> rec_parent_permit_id r \<noteq> None")
      case False
      then have "u' = chain_add cl r u"
        using "1.prems"(1) r by (subst (asm) chain_walk.simps) (auto simp: Let_def split: if_splits option.splits)
      then show ?thesis using ci all "1.prems"(4) by blast
    next
      case True
      then obtain q where q: "is_awaited_child (rec_scope r)" "rec_parent_permit_id r = Some q" by auto
      have step: "chain_walk s cl q (insert a visited) True (chain_add cl r u) = Some u'"
        using "1.prems"(1) r q by (subst (asm) chain_walk.simps) (simp add: Let_def)
      have nxt: "fmlookup (gs_permits s) q = None \<or> awaited_ancestor s a0 q"
        using awaited_ancestor.ancestor [OF anc r(2) q] by (cases "fmlookup (gs_permits s) q") auto
      show ?thesis
        by (rule "1.IH" [OF r refl q step "1.prems"(2) ci _ all nxt]) (use "1.prems"(4) in simp)
    qed
  qed
qed

lemma psum_all:
  assumes P: "\<forall>p \<in> P. fmlookup (gs_permits s) p \<noteq> None" and eq: "fmsum f (gs_permits s) = psum f s P"
    and r: "fmlookup (gs_permits s) p = Some r" "f r \<noteq> 0"
  shows "p \<in> P"
proof (rule ccontr)
  assume p: "p \<notin> P"
  let ?D = "fset (fmdom (gs_permits s))"
  have sub: "P \<subseteq> ?D" using P by (auto simp: fmlookup_dom_iff)
  have "p \<in> ?D - P" using p r by (simp add: fmdomI)
  then have "\<exists>q \<in> ?D - P. f (the (fmlookup (gs_permits s) q)) \<noteq> 0" using r by (intro bexI [of _ p]) simp_all
  then have "(\<Sum>q \<in> ?D - P. f (the (fmlookup (gs_permits s) q))) \<noteq> 0" by simp
  moreover have "fmsum f (gs_permits s) = psum f s P + (\<Sum>q \<in> ?D - P. f (the (fmlookup (gs_permits s) q)))"
    unfolding fmsum_def psum_def by (subst sum.subset_diff [OF sub]) (simp_all add: add.commute)
  ultimately show False using eq by simp
qed

text \<open>\<open>ancestors_hold s cl caps a h\<close>: every live permit that holds some of the capacity \<open>h\<close> is an awaited
  ancestor, starting at \<open>a\<close>.\<close>

fun ancestors_hold :: "GovernedState \<Rightarrow> TaskClass \<Rightarrow> CapabilityRequirementSet \<Rightarrow> PermitId \<Rightarrow> HeldCapacity \<Rightarrow> bool" where
  "ancestors_hold s cl caps a (ClassInflight cl') \<longleftrightarrow>
     cl' = cl \<and> (\<forall>p r. fmlookup (gs_permits s) p = Some r \<longrightarrow> rec_class r = cl \<longrightarrow> awaited_ancestor s a p)"
| "ancestors_hold s cl caps a (CapabilityPool pool) \<longleftrightarrow>
     (\<exists>i \<in> set caps. capability_id_name i = pool \<and>
        (\<forall>p r. fmlookup (gs_permits s) p = Some r \<longrightarrow> i \<in> set (rec_capabilities r) \<longrightarrow> awaited_ancestor s a p))"
| "ancestors_hold s cl caps a CpuBudget \<longleftrightarrow>
     (\<forall>p r. fmlookup (gs_permits s) p = Some r \<longrightarrow> rec_cpu r \<noteq> 0 \<longrightarrow> awaited_ancestor s a p)"
| "ancestors_hold s cl caps a MemoryBudget \<longleftrightarrow>
     (\<forall>p r. fmlookup (gs_permits s) p = Some r \<longrightarrow> rec_mem r \<noteq> 0 \<longrightarrow> awaited_ancestor s a p)"

definition capabilities_named :: "PolicySet \<Rightarrow> bool" where
  "capabilities_named ps \<longleftrightarrow> (\<forall>i c. capability_record ps i = Some c \<longrightarrow> cap_id c = i)"

lemma held_pools_sound:
  assumes "held_pools s ps u is = Some hs" "h \<in> set hs" "capabilities_named ps"
  shows "\<exists>i \<in> set is. h = CapabilityPool (capability_id_name i)
    \<and> wait_chain_exclusively_holds (capability_in_use s i) (fmget (ch_capabilities u) 0 i)"
  using assms
  by (induction "is" arbitrary: hs)
     (fastforce simp: capabilities_named_def cap_name_def split: if_splits option.splits)+

lemma block_capability_subset:
  "set (bl_capabilities (fold (block_capability s ps) caps b)) \<subseteq> set caps \<union> set (bl_capabilities b)"
proof (induction caps arbitrary: b)
  case (Cons i caps)
  have "set (bl_capabilities (block_capability s ps i b)) \<subseteq> insert i (set (bl_capabilities b))"
    by (auto simp: block_capability_def Let_def split: option.splits)
  with Cons.IH [of "block_capability s ps i b"] show ?case by auto
qed simp

lemma blockers_for_capabilities: "set (bl_capabilities (blockers_for s ps cl max_inf cost caps)) \<subseteq> set caps"
  using block_capability_subset [of s ps caps "(if gs_accounting_fault s \<noteq> None
      then no_blockers\<lparr>bl_accounting_fault := True\<rparr> else no_blockers)\<lparr>bl_class_inflight := max_inf \<le> inflight s cl\<rparr>"]
  by (auto simp: blockers_for_def Let_def no_blockers_def)

lemma cycle_witness_cases:
  assumes "cycle_witness s ps root_id scope parent cl b = Some w" "h \<in> set (cw_held w)" "capabilities_named ps"
  obtains a u where
    "(case parent of Some p \<Rightarrow> Some p | None \<Rightarrow> parent_permit_for_scope s root_id scope) = Some a"
    "is_awaited_child scope" "chain_walk s cl a {} False no_chain = Some u"
    "case h of
       ClassInflight c \<Rightarrow> c = cl \<and> wait_chain_exclusively_holds (inflight s cl) (ch_in_class u)
     | CapabilityPool pool \<Rightarrow> (\<exists>i \<in> set (bl_capabilities b). pool = capability_id_name i
         \<and> wait_chain_exclusively_holds (capability_in_use s i) (fmget (ch_capabilities u) 0 i))
     | CpuBudget \<Rightarrow> wait_chain_exclusively_holds (gs_cpu_units_held s) (ch_cpu u)
     | MemoryBudget \<Rightarrow> wait_chain_exclusively_holds (gs_memory_units_held s) (ch_memory u)"
proof -
  obtain parent_op st where sc: "scope = Child parent_op st True"
    using assms(1) by (auto simp: cycle_witness_def split: TaskScope.splits bool.splits)
  obtain a where a: "(case parent of Some p \<Rightarrow> Some p | None \<Rightarrow> parent_permit_for_scope s root_id scope) = Some a"
    using assms(1) sc by (auto simp: cycle_witness_def bind_eq_Some_conv)
  obtain u where u: "chain_walk s cl a {} False no_chain = Some u"
    using assms(1) sc a by (auto simp: cycle_witness_def bind_eq_Some_conv)
  obtain pools where pools: "held_pools s ps u (bl_capabilities b) = Some pools"
    using assms(1) sc a u by (auto simp: cycle_witness_def bind_eq_Some_conv)
  have "h \<in> set ((if bl_class_inflight b \<and> wait_chain_exclusively_holds (inflight s cl) (ch_in_class u)
        then [ClassInflight cl] else []) @ pools
      @ (if bl_cpu b \<and> wait_chain_exclusively_holds (gs_cpu_units_held s) (ch_cpu u) then [CpuBudget] else [])
      @ (if bl_memory b \<and> wait_chain_exclusively_holds (gs_memory_units_held s) (ch_memory u) then [MemoryBudget] else []))"
    using assms(1,2) a u pools unfolding cycle_witness_def sc by (auto simp: Let_def split: if_splits)
  with held_pools_sound [OF pools _ assms(3), of h] show thesis
    by (intro that [OF a _ u]) (auto simp: sc split: if_splits, blast)
qed

lemma wait_cycle_held:
  assumes inv: "acct_inv s" and named: "capabilities_named ps"
    and w: "assess_scope s ps root_id scope parent cl max_inf cost caps qb = WaitCycle w"
    and h: "h \<in> set (cw_held w)"
  shows "\<exists>a. (case parent of Some p \<Rightarrow> Some p | None \<Rightarrow> parent_permit_for_scope s root_id scope) = Some a
    \<and> is_awaited_child scope \<and> ancestors_hold s cl caps a h"
proof -
  let ?b = "(blockers_for s ps cl max_inf cost caps)\<lparr>bl_queued_behind := qb\<rparr>"
  note D = acct_okD [OF inv]
  have "cycle_witness s ps root_id scope parent cl ?b = Some w"
    using w by (auto simp: assess_scope_def Let_def split: if_splits option.splits)
  then obtain a u where a: "(case parent of Some p \<Rightarrow> Some p | None \<Rightarrow> parent_permit_for_scope s root_id scope) = Some a"
    and sc: "is_awaited_child scope" and u: "chain_walk s cl a {} False no_chain = Some u"
    and case_h: "case h of
       ClassInflight c \<Rightarrow> c = cl \<and> wait_chain_exclusively_holds (inflight s cl) (ch_in_class u)
     | CapabilityPool pool \<Rightarrow> (\<exists>i \<in> set (bl_capabilities ?b). pool = capability_id_name i
         \<and> wait_chain_exclusively_holds (capability_in_use s i) (fmget (ch_capabilities u) 0 i))
     | CpuBudget \<Rightarrow> wait_chain_exclusively_holds (gs_cpu_units_held s) (ch_cpu u)
     | MemoryBudget \<Rightarrow> wait_chain_exclusively_holds (gs_memory_units_held s) (ch_memory u)"
    using h named by (rule cycle_witness_cases)
  have "chain_is cl s {} no_chain" by (simp add: chain_is_def no_chain_def psum_def)
  moreover have "fmlookup (gs_permits s) a = None \<or> awaited_ancestor s a a"
    using awaited_ancestor.parent by (cases "fmlookup (gs_permits s) a") auto
  ultimately obtain P where P: "chain_is cl s P u"
    "\<forall>p \<in> P. awaited_ancestor s a p \<and> fmlookup (gs_permits s) p \<noteq> None"
    using chain_walk_sound [OF u inv, of a] by auto
  have all: "awaited_ancestor s a p"
    if "fmsum f (gs_permits s) = psum f s P" "fmlookup (gs_permits s) p = Some r" "f r \<noteq> 0" for f p r
    using psum_all [OF _ that] P(2) by blast
  have inf: "inflight s cl = fmsum (owned cl one) (gs_permits s)"
    using D(3) [of cl] by (auto simp: class_ok_def inflight_def fmget_def ClassState_default_def split: option.splits)
  have "ancestors_hold s cl caps a h"
  proof (cases h)
    case (ClassInflight c)
    then show ?thesis using case_h inf P(1) all [of "owned cl one"]
      by (auto simp: wait_chain_exclusively_holds_def chain_is_def owned_def)
  next
    case (CapabilityPool pool)
    then obtain i where "i \<in> set caps" "pool = capability_id_name i"
      "fmget (gs_capability_in_use s) 0 i = fmget (ch_capabilities u) 0 i"
      using case_h blockers_for_capabilities [of s ps cl max_inf cost caps]
      by (auto simp: wait_chain_exclusively_holds_def capability_in_use_def)
    then show ?thesis using CapabilityPool D(4) [of i] P(1) all [of "uses i"] by (auto simp: chain_is_def)
  qed (use case_h D(1,2) P(1) all [of rec_cpu] all [of rec_mem] in
      \<open>auto simp: wait_chain_exclusively_holds_def chain_is_def\<close>)
  with a sc show ?thesis by blast
qed

end
