(* ===== verification/TM_Fairness.thy ===== *)
theory TM_Fairness
  imports TM_Pending "HOL-Library.Product_Lexorder"
begin

text \<open>
  \<^verbatim>\<open>features/fairness/scheduler.rs\<close> and \<^verbatim>\<open>retry_after.rs\<close>: scheduling tags, re-pricing, the choice of the
  next class under each discipline, and the retry-after hint. The test-only counter
  \<open>wfq_reprice_visits\<close> is not part of the state.
\<close>

section \<open>Retry-after hints\<close>

definition ADAPTIVE_BASE_MS :: nat where "ADAPTIVE_BASE_MS = 50"
definition ADAPTIVE_QUEUE_STEP_MS :: nat where "ADAPTIVE_QUEUE_STEP_MS = 10"
definition ADAPTIVE_INFLIGHT_STEP_MS :: nat where "ADAPTIVE_INFLIGHT_STEP_MS = 5"
definition WEIGHT_RELIEF_MS :: nat where "WEIGHT_RELIEF_MS = 2"
definition SLACK_DIVISOR :: nat where "SLACK_DIVISOR = 10"
definition SCAVENGER_PENALTY_MS :: nat where "SCAVENGER_PENALTY_MS = 200"

fun apply_fairness :: "nat \<Rightarrow> FairnessPolicy \<Rightarrow> nat" where
  "apply_fairness base Fifo = base"
| "apply_fairness base (WeightedFairQueue w b) =
     saturating_sub base (saturating_mul u64_max w WEIGHT_RELIEF_MS)"
| "apply_fairness base (DeficitRoundRobin q) = base + q"
| "apply_fairness base (DeadlineAware slack) = base + slack div SLACK_DIVISOR"
| "apply_fairness base BestEffortScavenger = base + SCAVENGER_PENALTY_MS"

fun retry_after :: "RetryAfterPolicy \<Rightarrow> FairnessPolicy \<Rightarrow> nat \<Rightarrow> nat \<Rightarrow> nat option" where
  "retry_after RetryNone f depth infl = None"
| "retry_after (FixedMs v) f depth infl = Some v"
| "retry_after Adaptive f depth infl =
     Some (apply_fairness (ADAPTIVE_BASE_MS + depth * ADAPTIVE_QUEUE_STEP_MS
        + infl * ADAPTIVE_INFLIGHT_STEP_MS) f)"

section \<open>Weighted-fair tags\<close>

definition WFQ_SCALE :: nat where
  "WFQ_SCALE = 2 ^ 64"

definition wfq_increment :: "nat \<Rightarrow> nat \<Rightarrow> nat" where
  "wfq_increment cost weight = (max cost 1 * WFQ_SCALE) div (max weight 1)"

definition rebase_request :: "nat \<Rightarrow> PendingRequest \<Rightarrow> PendingRequest" where
  "rebase_request origin r =
     r\<lparr>pr_finish_tag := saturating_sub (pr_finish_tag r) origin,
       pr_wfq_arrival_tag := saturating_sub (pr_wfq_arrival_tag r) origin\<rparr>"

definition rebase_class :: "nat \<Rightarrow> ClassState \<Rightarrow> ClassState" where
  "rebase_class origin cs =
     cs\<lparr>cs_last_finish_tag := saturating_sub (cs_last_finish_tag cs) origin,
        cs_last_served_finish_tag := saturating_sub (cs_last_served_finish_tag cs) origin,
        cs_queue := map (rebase_request origin) (cs_queue cs)\<rparr>"

definition rebase_virtual_time :: "GovernedState \<Rightarrow> GovernedState" where
  "rebase_virtual_time s =
     s\<lparr>gs_virtual_time := 0, gs_classes := fmmap (rebase_class (gs_virtual_time s)) (gs_classes s)\<rparr>"

definition enqueue_tags ::
  "TaskClass \<Rightarrow> ClassPolicy \<Rightarrow> nat \<Rightarrow> nat \<Rightarrow> GovernedState \<Rightarrow> GovernedState \<times> nat \<times> nat \<times> nat" where
  "enqueue_tags cl policy cost enqueued_at_ms s =
     (let (s, finish_tag, arrival_tag) =
        (case fairness policy of
           WeightedFairQueue weight burst \<Rightarrow>
             let increment = wfq_increment cost weight;
                 arrival = gs_virtual_time s;
                 base = max (cs_last_finish_tag (class_view s cl)) (gs_virtual_time s);
                 s = class_mut cl (\<lambda>cs. cs) s;
                 (s, tag, arrival) =
                   (case checked_add u128_max base increment of
                      Some tag \<Rightarrow> (s, tag, arrival)
                    | None \<Rightarrow>
                        let s = rebase_virtual_time s
                        in (s, saturating_add u128_max
                                 (max (cs_last_finish_tag (class_view s cl)) (gs_virtual_time s)) increment,
                            gs_virtual_time s))
             in (class_mut cl (\<lambda>cs. cs\<lparr>cs_last_finish_tag := tag\<rparr>) s, tag, arrival)
         | _ \<Rightarrow> (s, 0, 0));
          deadline_ms = (case fairness policy of
             DeadlineAware slack \<Rightarrow> saturating_add u64_max enqueued_at_ms slack
           | _ \<Rightarrow> u64_max)
      in (s, finish_tag, arrival_tag, deadline_ms))"

fun rebuild_tags :: "nat \<Rightarrow> nat \<Rightarrow> PendingRequest list \<Rightarrow> PendingRequest list \<times> nat" where
  "rebuild_tags weight cursor [] = ([], cursor)"
| "rebuild_tags weight cursor (r # rs) =
     (let start = max cursor (pr_wfq_arrival_tag r);
          tag = saturating_add u128_max start (wfq_increment (rc_cpu_units (pr_cost r)) weight);
          (rs', cursor') = rebuild_tags weight tag rs
      in (r\<lparr>pr_finish_tag := tag\<rparr> # rs', cursor'))"

definition rebuild_wfq_queue :: "nat \<Rightarrow> nat \<Rightarrow> ClassState \<Rightarrow> ClassState" where
  "rebuild_wfq_queue weight virtual_time cs =
     (let (q, cursor) = rebuild_tags weight (cs_last_served_finish_tag cs) (cs_queue cs)
      in cs\<lparr>cs_queue := q, cs_last_finish_tag := max cursor virtual_time\<rparr>)"

definition drained :: "nat \<Rightarrow> ClassState \<Rightarrow> ClassState" where
  "drained virtual_time cs =
     cs\<lparr>cs_last_finish_tag := virtual_time, cs_last_served_finish_tag := virtual_time, cs_deficit := 0\<rparr>"

definition class_unserved_removed :: "ClassPolicy \<Rightarrow> nat \<Rightarrow> ClassState \<Rightarrow> ClassState" where
  "class_unserved_removed policy virtual_time cs =
     (if cs_queue cs = [] then drained virtual_time cs
      else case fairness policy of
        WeightedFairQueue weight burst \<Rightarrow> rebuild_wfq_queue weight virtual_time cs
      | _ \<Rightarrow> cs\<lparr>cs_last_finish_tag := max (Max (pr_finish_tag ` set (cs_queue cs))) virtual_time\<rparr>)"

definition on_unserved_removed :: "TaskClass \<Rightarrow> ClassPolicy \<Rightarrow> GovernedState \<Rightarrow> GovernedState" where
  "on_unserved_removed cl policy s = class_mut cl (class_unserved_removed policy (gs_virtual_time s)) s"

definition class_request_served :: "ClassPolicy \<Rightarrow> nat \<Rightarrow> nat \<Rightarrow> nat \<Rightarrow> ClassState \<Rightarrow> ClassState" where
  "class_request_served policy virtual_time queue_index service_finish_tag cs =
     (if cs_queue cs = [] then drained virtual_time cs
      else
        let cs = cs\<lparr>cs_last_served_finish_tag := max (cs_last_served_finish_tag cs) service_finish_tag\<rparr>
        in if 0 < queue_index
           then (case fairness policy of
                   WeightedFairQueue weight burst \<Rightarrow> rebuild_wfq_queue weight virtual_time cs
                 | _ \<Rightarrow> cs)
           else cs)"

definition on_request_served :: "TaskClass \<Rightarrow> ClassPolicy \<Rightarrow> nat \<Rightarrow> nat \<Rightarrow> GovernedState \<Rightarrow> GovernedState" where
  "on_request_served cl policy queue_index service_finish_tag s =
     class_mut cl (class_request_served policy (gs_virtual_time s) queue_index service_finish_tag) s"

section \<open>Candidates\<close>

record Candidate =
  cand_class :: TaskClass
  cand_queue_index :: nat
  cand_fairness :: FairnessPolicy
  cand_best_effort :: bool
  cand_head_queue_order :: nat
  cand_head_finish_tag :: nat
  cand_head_deadline_ms :: nat
  cand_head_cost_cpu :: nat

record Selection =
  sel_class :: TaskClass
  sel_queue_index :: nat
  sel_service_finish_tag :: nat

definition runnable_request :: "GovernedState \<Rightarrow> PolicySet \<Rightarrow> ClassState \<Rightarrow> ClassPolicy \<Rightarrow> PendingRequest \<Rightarrow> bool" where
  "runnable_request s ps cs policy r \<longleftrightarrow>
     \<not> has_queued_predecessor cs r \<and> assess_pending s ps r (max_inflight policy) False = Runnable"

definition service_tag :: "ClassPolicy \<Rightarrow> ClassState \<Rightarrow> nat \<Rightarrow> PendingRequest \<Rightarrow> nat" where
  "service_tag policy cs queue_index head =
     (case fairness policy of
        WeightedFairQueue weight burst \<Rightarrow>
          if queue_index = 0 then pr_finish_tag head
          else saturating_add u128_max (max (cs_last_served_finish_tag cs) (pr_wfq_arrival_tag head))
                 (wfq_increment (rc_cpu_units (pr_cost head)) weight)
      | _ \<Rightarrow> pr_finish_tag head)"

definition class_candidate :: "GovernedState \<Rightarrow> PolicySet \<Rightarrow> TaskClass \<times> ClassState \<Rightarrow> Candidate option" where
  "class_candidate s ps = (\<lambda>(cl, cs).
     case policy_class ps cl of
       None \<Rightarrow> None
     | Some policy \<Rightarrow>
         (case find_index (runnable_request s ps cs policy) (cs_queue cs) of
            None \<Rightarrow> None
          | Some i \<Rightarrow>
              let head = cs_queue cs ! i in
              Some \<lparr>cand_class = cl, cand_queue_index = i, cand_fairness = fairness policy,
                    cand_best_effort = best_effort policy, cand_head_queue_order = pr_queue_order head,
                    cand_head_finish_tag = service_tag policy cs i head,
                    cand_head_deadline_ms = pr_deadline_ms head,
                    cand_head_cost_cpu = rc_cpu_units (pr_cost head)\<rparr>))"

definition runnable_candidates :: "GovernedState \<Rightarrow> PolicySet \<Rightarrow> Candidate list" where
  "runnable_candidates s ps = List.map_filter (class_candidate s ps) (bt_entries (gs_classes s))"

definition has_runnable :: "GovernedState \<Rightarrow> PolicySet \<Rightarrow> bool" where
  "has_runnable s ps \<longleftrightarrow> runnable_candidates s ps \<noteq> []"

text \<open>\<open>Iterator::min_by\<close>: the first of the least elements.\<close>

fun min_by :: "('a \<Rightarrow> 'k::linorder) \<Rightarrow> 'a list \<Rightarrow> 'a option" where
  "min_by key [] = None"
| "min_by key (x # xs) =
     (case min_by key xs of None \<Rightarrow> Some x | Some y \<Rightarrow> if key y < key x then Some y else Some x)"

definition pick_min :: "(Candidate \<Rightarrow> 'k::linorder) \<Rightarrow> Candidate list \<Rightarrow> TaskClass option" where
  "pick_min key pool = map_option cand_class (min_by key pool)"

section \<open>Deficit round robin\<close>

fun drr_quantum :: "FairnessPolicy \<Rightarrow> nat" where
  "drr_quantum (DeficitRoundRobin q) = q"
| "drr_quantum _ = 1"

record PlannedVisit =
  pv_class :: TaskClass
  pv_quantum :: nat
  pv_cost :: nat
  pv_offset :: nat
  pv_visit_pos :: nat

text \<open>A quantum of zero never gets here: validation refuses it (\<open>ZeroQuantum\<close>). Division by it, a panic of the source, is total
  in the model.\<close>

definition visits_needed :: "nat \<Rightarrow> nat \<Rightarrow> nat \<Rightarrow> nat" where
  "visits_needed deficit cost quantum = (if cost \<le> deficit then 1 else div_ceil (cost - deficit) quantum)"

definition class_deficit :: "GovernedState \<Rightarrow> TaskClass \<Rightarrow> nat" where
  "class_deficit s cl = (case fmlookup (gs_classes s) cl of None \<Rightarrow> 0 | Some cs \<Rightarrow> cs_deficit cs)"

definition planned_visit :: "GovernedState \<Rightarrow> nat \<Rightarrow> nat \<Rightarrow> nat \<times> Candidate \<Rightarrow> PlannedVisit" where
  "planned_visit s ring_size start = (\<lambda>(index, c).
     let offset = (index + ring_size - start) mod ring_size;
         quantum = drr_quantum (cand_fairness c);
         cost = max (cand_head_cost_cpu c) 1
     in \<lparr>pv_class = cand_class c, pv_quantum = quantum, pv_cost = cost, pv_offset = offset,
         pv_visit_pos = offset + (visits_needed (class_deficit s (cand_class c)) cost quantum - 1) * ring_size\<rparr>)"

definition credit_visit :: "nat \<Rightarrow> nat \<Rightarrow> PlannedVisit \<Rightarrow> GovernedState \<Rightarrow> GovernedState" where
  "credit_visit ring_size winning_pos v s =
     (if winning_pos < pv_offset v then s
      else
        let visits = (winning_pos - pv_offset v) div ring_size + 1;
            credit = saturating_mul u128_max visits (pv_quantum v)
        in class_mut (pv_class v) (\<lambda>cs. cs\<lparr>cs_deficit := saturating_add u128_max (cs_deficit cs) credit\<rparr>) s)"

definition drr_start :: "TaskClass option \<Rightarrow> Candidate list \<Rightarrow> nat" where
  "drr_start cursor pool =
     (case cursor of
        None \<Rightarrow> 0
      | Some cur \<Rightarrow> (case find_index (\<lambda>c. cur < cand_class c) pool of None \<Rightarrow> 0 | Some i \<Rightarrow> i))"

definition drr_commit :: "nat \<Rightarrow> PlannedVisit list \<Rightarrow> GovernedState \<Rightarrow> GovernedState \<times> TaskClass option" where
  "drr_commit ring_size plan s =
     (if plan = [] then (s, None)
      else
        let winning_pos = Min (pv_visit_pos ` set plan) in
        case List.find (\<lambda>v. pv_visit_pos v = winning_pos) plan of
          None \<Rightarrow> (s, None)
        | Some w \<Rightarrow>
            let s = fold (credit_visit ring_size winning_pos) plan s;
                s = class_mut (pv_class w)
                      (\<lambda>cs. cs\<lparr>cs_deficit := saturating_sub (cs_deficit cs) (pv_cost w)\<rparr>) s
            in (s\<lparr>gs_drr_cursor := Some (pv_class w)\<rparr>, Some (pv_class w)))"

definition drr_walk :: "GovernedState \<Rightarrow> Candidate list \<Rightarrow> GovernedState \<times> TaskClass option" where
  "drr_walk s pool =
     (let ring_size = length pool;
          start = drr_start (gs_drr_cursor s) pool;
          s = s\<lparr>gs_drr_ring_visits := saturating_add u64_max (gs_drr_ring_visits s) (length pool)\<rparr>;
          plan = map (planned_visit s ring_size start) (enumerate 0 pool)
      in drr_commit ring_size plan s)"

definition drr_select :: "GovernedState \<Rightarrow> Candidate list \<Rightarrow> GovernedState \<times> TaskClass option" where
  "drr_select s pool =
     (if pool = [] then (s, None)
      else case Option.bind (gs_drr_cursor s) (\<lambda>cur. List.find (\<lambda>c. cand_class c = cur) pool) of
        Some c \<Rightarrow>
          let cost = max (cand_head_cost_cpu c) 1 in
          if cost \<le> class_deficit s (cand_class c)
          then (class_mut (cand_class c) (\<lambda>cs. cs\<lparr>cs_deficit := cs_deficit cs - cost\<rparr>) s, Some (cand_class c))
          else drr_walk s pool
      | None \<Rightarrow> drr_walk s pool)"

section \<open>Selection\<close>

definition choose_class :: "GovernedState \<Rightarrow> FairnessPolicy \<Rightarrow> Candidate list \<Rightarrow> GovernedState \<times> TaskClass option" where
  "choose_class s discipline pool =
     (case discipline of
        WeightedFairQueue w b \<Rightarrow> (s, pick_min (\<lambda>c. (cand_head_finish_tag c, cand_head_queue_order c)) pool)
      | DeadlineAware slack \<Rightarrow> (s, pick_min (\<lambda>c. (cand_head_deadline_ms c, cand_head_queue_order c)) pool)
      | DeficitRoundRobin q \<Rightarrow> drr_select s pool
      | _ \<Rightarrow> (s, pick_min cand_head_queue_order pool))"

definition contended_pool :: "Candidate list \<Rightarrow> Candidate list" where
  "contended_pool candidates =
     (let has_primary = (\<exists>c \<in> set candidates. \<not> cand_best_effort c)
      in filter (\<lambda>c. cand_best_effort c \<noteq> has_primary) candidates)"

definition select :: "GovernedState \<Rightarrow> PolicySet \<Rightarrow> GovernedState \<times> Selection option" where
  "select s ps =
     (let candidates = runnable_candidates s ps in
      case contended_pool candidates of
        [] \<Rightarrow> (s, None)
      | first # rest \<Rightarrow>
          let pool = first # rest;
              discipline = cand_fairness first;
              (s, chosen_class) = choose_class s discipline pool
          in case chosen_class of
               None \<Rightarrow> (s, None)
             | Some cl \<Rightarrow>
                 let s = (case discipline of
                            WeightedFairQueue w b \<Rightarrow>
                              (case List.find (\<lambda>c. cand_class c = cl) pool of
                                 Some c \<Rightarrow> s\<lparr>gs_virtual_time := max (gs_virtual_time s) (cand_head_finish_tag c)\<rparr>
                               | None \<Rightarrow> s)
                          | _ \<Rightarrow> s)
                 in (case List.find (\<lambda>c. cand_class c = cl) candidates of
                       None \<Rightarrow> (s, None)
                     | Some c \<Rightarrow>
                         (s, Some \<lparr>sel_class = cl, sel_queue_index = cand_queue_index c,
                                   sel_service_finish_tag = cand_head_finish_tag c\<rparr>)))"

section \<open>Scheduling never touches custody\<close>

text \<open>\<open>sched_eq\<close>: the states differ in scheduling data only.\<close>

definition sched_eq :: "GovernedState \<Rightarrow> GovernedState \<Rightarrow> bool" where
  "sched_eq s s' \<longleftrightarrow>
     gs_permits s' = gs_permits s \<and> gs_operation_permits s' = gs_operation_permits s
     \<and> gs_queued_operation_identities s' = gs_queued_operation_identities s
     \<and> gs_next_queue_order s' = gs_next_queue_order s \<and> gs_roots s' = gs_roots s
     \<and> gs_active_recursion s' = gs_active_recursion s \<and> gs_tickets s' = gs_tickets s
     \<and> gs_terminal_order s' = gs_terminal_order s \<and> gs_terminal_index s' = gs_terminal_index s
     \<and> gs_terminal_seq s' = gs_terminal_seq s \<and> gs_cpu_units_held s' = gs_cpu_units_held s
     \<and> gs_memory_units_held s' = gs_memory_units_held s \<and> gs_capability_in_use s' = gs_capability_in_use s
     \<and> gs_accounting_fault s' = gs_accounting_fault s \<and> gs_admission_closed s' = gs_admission_closed s
     \<and> (\<forall>cl. same_ledger (class_view s cl) (class_view s' cl) \<and> same_queue (class_view s cl) (class_view s' cl))"

lemma same_ledger_refl [simp]: "same_ledger cs cs"
  by (simp add: same_ledger_def)

lemma same_ledger_trans: "same_ledger a b \<Longrightarrow> same_ledger b c \<Longrightarrow> same_ledger a c"
  by (simp add: same_ledger_def)

lemma sched_eq_refl [simp]: "sched_eq s s"
  by (simp add: sched_eq_def)

lemma sched_eq_trans: "sched_eq a b \<Longrightarrow> sched_eq b c \<Longrightarrow> sched_eq a c"
  unfolding sched_eq_def by (auto intro: same_ledger_trans same_queue_trans)

lemma sched_eq_queues: "sched_eq s s' \<Longrightarrow> queues s' = queues s"
  by (simp add: sched_eq_def class_view_def queue_of_def same_queue_def fun_eq_iff)

lemma gov_inv_sched:
  assumes inv: "gov_inv n s" and eq: "sched_eq s s'"
  shows "gov_inv n s'"
proof -
  have led: "same_ledger (fmget (gs_classes s) ClassState_default cl) (fmget (gs_classes s') ClassState_default cl)"
    and sq: "same_queue (fmget (gs_classes s) ClassState_default cl) (fmget (gs_classes s') ClassState_default cl)" for cl
    using eq by (simp_all add: sched_eq_def class_view_def)
  have acct: "acct_ok (gs_classes s') ps cpu mem caps \<longleftrightarrow> acct_ok (gs_classes s) ps cpu mem caps" for ps cpu mem caps
    using class_ok_same_ledger [OF led] by (simp add: acct_ok_def)
  note q = sched_eq_queues [OF eq]
  have qi: "queue_ok (gs_classes s') k \<longleftrightarrow> queue_ok (gs_classes s) k" for k
    using class_queue_ok_same [OF sq] by (simp add: queue_ok_def)
  show ?thesis using inv eq by (simp add: gov_inv_def core_def acct q qi sched_eq_def)
qed

lemma sched_eq_class_mut:
  assumes "\<And>cs. same_ledger cs (f cs)" "\<And>cs. same_queue cs (f cs)"
  shows "sched_eq s (class_mut cl f s)"
  using assms by (simp add: sched_eq_def class_view_def)

lemma sched_eq_fields:
  "sched_eq s (s\<lparr>gs_virtual_time := v\<rparr>)" "sched_eq s (s\<lparr>gs_drr_cursor := c\<rparr>)"
  "sched_eq s (s\<lparr>gs_drr_ring_visits := n\<rparr>)"
  by (simp_all add: sched_eq_def class_view_def)

lemma deficit_sched: "same_ledger cs (cs\<lparr>cs_deficit := d\<rparr>)" "same_queue cs (cs\<lparr>cs_deficit := d\<rparr>)"
  by (simp_all add: same_ledger_def same_queue_def)

lemma drained_sched: "same_ledger cs (drained v cs)" "same_queue cs (drained v cs)"
  by (simp_all add: drained_def same_ledger_def same_queue_def)

lemma rebuild_tags_untagged: "map untagged (fst (rebuild_tags w c rs)) = map untagged rs"
proof (induction rs arbitrary: c)
  case (Cons r rs)
  have "untagged (r\<lparr>pr_finish_tag := t\<rparr>) = untagged r" for t by (simp add: untagged_def)
  with Cons show ?case by (simp add: Let_def case_prod_unfold)
qed simp

lemma rebuild_wfq_sched:
  "same_ledger cs (rebuild_wfq_queue w v cs)" "same_queue cs (rebuild_wfq_queue w v cs)"
  by (simp_all add: rebuild_wfq_queue_def case_prod_unfold Let_def same_ledger_def same_queue_def rebuild_tags_untagged)

lemma class_unserved_removed_sched:
  "same_ledger cs (class_unserved_removed policy v cs)" "same_queue cs (class_unserved_removed policy v cs)"
proof -
  have "same_ledger cs (cs\<lparr>cs_last_finish_tag := t\<rparr>)" "same_queue cs (cs\<lparr>cs_last_finish_tag := t\<rparr>)" for t
    by (simp_all add: same_ledger_def same_queue_def)
  then show "same_ledger cs (class_unserved_removed policy v cs)" "same_queue cs (class_unserved_removed policy v cs)"
    unfolding class_unserved_removed_def
    by (simp_all add: drained_sched rebuild_wfq_sched split: FairnessPolicy.splits)
qed

lemma class_request_served_sched:
  "same_ledger cs (class_request_served policy v i t cs)" "same_queue cs (class_request_served policy v i t cs)"
proof -
  let ?c = "cs\<lparr>cs_last_served_finish_tag := max (cs_last_served_finish_tag cs) t\<rparr>"
  have c: "same_ledger cs ?c" "same_queue cs ?c" by (simp_all add: same_ledger_def same_queue_def)
  have r: "same_ledger cs (rebuild_wfq_queue w v ?c)" "same_queue cs (rebuild_wfq_queue w v ?c)" for w
    by (rule same_ledger_trans [OF c(1) rebuild_wfq_sched(1)]) (rule same_queue_trans [OF c(2) rebuild_wfq_sched(2)])
  show "same_ledger cs (class_request_served policy v i t cs)" "same_queue cs (class_request_served policy v i t cs)"
    unfolding class_request_served_def Let_def
    by (simp_all add: drained_sched c r split: FairnessPolicy.splits)
qed

lemma sched_eq_on_unserved_removed: "sched_eq s (on_unserved_removed cl policy s)"
  unfolding on_unserved_removed_def by (rule sched_eq_class_mut) (rule class_unserved_removed_sched)+

lemma sched_eq_on_request_served: "sched_eq s (on_request_served cl policy i t s)"
  unfolding on_request_served_def by (rule sched_eq_class_mut) (rule class_request_served_sched)+

lemma rebase_class_sched: "same_ledger cs (rebase_class origin cs)" "same_queue cs (rebase_class origin cs)"
proof -
  have "untagged (rebase_request origin r) = untagged r" for r by (simp add: untagged_def rebase_request_def)
  then show "same_ledger cs (rebase_class origin cs)" "same_queue cs (rebase_class origin cs)"
    by (simp_all add: rebase_class_def same_ledger_def same_queue_def)
qed

lemma rebase_class_default: "rebase_class origin ClassState_default = ClassState_default"
  by (simp add: rebase_class_def ClassState_default_def)

lemma sched_eq_rebase: "sched_eq s (rebase_virtual_time s)"
proof -
  have "class_view (rebase_virtual_time s) cl = rebase_class (gs_virtual_time s) (class_view s cl)" for cl
    by (simp add: class_view_def rebase_virtual_time_def fmget_def rebase_class_default split: option.splits)
  then show ?thesis by (simp add: sched_eq_def rebase_class_sched) (simp add: rebase_virtual_time_def)
qed

lemma sched_eq_enqueue_tags:
  assumes "enqueue_tags cl policy cost now s = (s', ft, wt, dl)"
  shows "sched_eq s s'"
proof -
  have id: "sched_eq s (class_mut cl (\<lambda>cs. cs) s)" by (rule sched_eq_class_mut) simp_all
  have tag: "sched_eq x (class_mut cl (\<lambda>cs. cs\<lparr>cs_last_finish_tag := t\<rparr>) x)" for x t
    by (rule sched_eq_class_mut) (simp_all add: same_ledger_def same_queue_def)
  show ?thesis
  proof (cases "fairness policy")
    case (WeightedFairQueue w b)
    let ?s = "class_mut cl (\<lambda>cs. cs) s"
    have "\<exists>t. s' = class_mut cl (\<lambda>cs. cs\<lparr>cs_last_finish_tag := t\<rparr>) ?s
        \<or> s' = class_mut cl (\<lambda>cs. cs\<lparr>cs_last_finish_tag := t\<rparr>) (rebase_virtual_time ?s)"
      using assms WeightedFairQueue by (auto simp: enqueue_tags_def Let_def split: option.splits)
    then show ?thesis using sched_eq_trans id tag sched_eq_rebase by metis
  qed (use assms in \<open>auto simp: enqueue_tags_def Let_def\<close>)
qed

lemma sched_eq_credit: "sched_eq s (credit_visit k w v s)"
  unfolding credit_visit_def Let_def
  by (simp add: sched_eq_class_mut deficit_sched)

lemma sched_eq_fold_credit: "sched_eq s (fold (credit_visit k w) plan s)"
  by (induction plan arbitrary: s) (auto intro: sched_eq_trans [OF sched_eq_credit])

lemma sched_eq_drr_commit: "sched_eq s (fst (drr_commit k plan s))"
proof -
  have "sched_eq s ((class_mut c (\<lambda>cs. cs\<lparr>cs_deficit := saturating_sub (cs_deficit cs) m\<rparr>)
      (fold (credit_visit k w) plan s))\<lparr>gs_drr_cursor := x\<rparr>)" for c m w x
    by (rule sched_eq_trans [OF sched_eq_fold_credit],
        rule sched_eq_trans [OF sched_eq_class_mut sched_eq_fields(2)]) (rule deficit_sched)+
  then show ?thesis by (simp add: drr_commit_def Let_def split: option.splits)
qed

lemma sched_eq_drr_walk: "sched_eq s (fst (drr_walk s pool))"
  unfolding drr_walk_def Let_def by (rule sched_eq_trans [OF sched_eq_fields(3) sched_eq_drr_commit])

lemma sched_eq_drr_select: "sched_eq s (fst (drr_select s pool))"
  unfolding drr_select_def Let_def
  by (auto split: option.splits simp: sched_eq_drr_walk intro!: sched_eq_class_mut deficit_sched)

lemma sched_eq_choose_class: "sched_eq s (fst (choose_class s d pool))"
  by (simp add: choose_class_def sched_eq_drr_select split: FairnessPolicy.splits)

lemma sched_eq_select:
  assumes "select s ps = (s', out)"
  shows "sched_eq s s'"
proof (cases "contended_pool (runnable_candidates s ps)")
  case (Cons c rest)
  obtain s1 ch where ch: "choose_class s (cand_fairness c) (c # rest) = (s1, ch)" by force
  have "sched_eq s s1" using sched_eq_choose_class [of s "cand_fairness c" "c # rest"] ch by simp
  moreover have "sched_eq s1 s'"
    using assms Cons ch sched_eq_fields(1) [of s1]
    by (auto simp: select_def Let_def split: option.splits FairnessPolicy.splits)
  ultimately show ?thesis by (rule sched_eq_trans)
qed (use assms in \<open>simp add: select_def\<close>)

lemma gov_inv_record_fault: "gov_inv n s \<Longrightarrow> gov_inv n (record_accounting_fault what s)"
  by (simp add: record_accounting_fault_def gov_inv_cong [of "s\<lparr>gs_accounting_fault := x\<rparr>" s for x])

end
