(* ===== verification/TM_Selection.thy ===== *)
theory TM_Selection
  imports TM_Fairness
begin

text \<open>
  What the scheduler's choice guarantees: it selects exactly when something is runnable, it selects a
  request that fits and that no earlier conflicting request precedes, best effort yields to every other
  class, and each discipline serves the least key. The arithmetic deficit round robin is shown equal to
  the plain ring walk it replaces.
\<close>

section \<open>Candidates are the runnable heads\<close>

lemma class_candidate_Some:
  assumes "class_candidate s ps (cl, cs) = Some c"
  obtains policy where "policy_class ps cl = Some policy" "cand_class c = cl"
    "cand_queue_index c < length (cs_queue cs)"
    "runnable_request s ps cs policy (cs_queue cs ! cand_queue_index c)"
    "\<And>j. j < cand_queue_index c \<Longrightarrow> \<not> runnable_request s ps cs policy (cs_queue cs ! j)"
    "cand_best_effort c = best_effort policy" "cand_fairness c = fairness policy"
    "cand_head_queue_order c = pr_queue_order (cs_queue cs ! cand_queue_index c)"
    "cand_head_finish_tag c = service_tag policy cs (cand_queue_index c) (cs_queue cs ! cand_queue_index c)"
    "cand_head_deadline_ms c = pr_deadline_ms (cs_queue cs ! cand_queue_index c)"
    "cand_head_cost_cpu c = rc_cpu_units (pr_cost (cs_queue cs ! cand_queue_index c))"
  using assms
  by (auto simp: class_candidate_def find_index_Some Let_def split: option.splits)

lemma class_candidate_None:
  "class_candidate s ps (cl, cs) = None \<longleftrightarrow>
     (\<forall>policy. policy_class ps cl = Some policy \<longrightarrow> (\<forall>r \<in> set (cs_queue cs). \<not> runnable_request s ps cs policy r))"
proof (cases "policy_class ps cl")
  case (Some policy)
  show ?thesis
  proof (cases "find_index (runnable_request s ps cs policy) (cs_queue cs)")
    case (Some i)
    then have "cs_queue cs ! i \<in> set (cs_queue cs)" "runnable_request s ps cs policy (cs_queue cs ! i)"
      by (auto simp: find_index_Some)
    with Some \<open>policy_class ps cl = Some policy\<close> show ?thesis by (auto simp: class_candidate_def Let_def)
  next
    case None
    then have "\<forall>r \<in> set (cs_queue cs). \<not> runnable_request s ps cs policy r" by (simp add: find_index_None)
    with None \<open>policy_class ps cl = Some policy\<close> show ?thesis by (simp add: class_candidate_def)
  qed
qed (simp add: class_candidate_def)

lemma set_map_filter_iff: "y \<in> set (List.map_filter f xs) \<longleftrightarrow> (\<exists>x \<in> set xs. f x = Some y)"
  by (force simp: List.map_filter_def)

lemma runnable_candidates_iff:
  "c \<in> set (runnable_candidates s ps) \<longleftrightarrow>
     (\<exists>cl cs. fmlookup (gs_classes s) cl = Some cs \<and> class_candidate s ps (cl, cs) = Some c)"
  by (force simp: runnable_candidates_def set_map_filter_iff set_bt_entries)

lemma map_filter_fst:
  assumes "\<And>x y. f x = Some y \<Longrightarrow> g y = h x"
  shows "map g (List.map_filter f xs) = map h (filter (\<lambda>x. f x \<noteq> None) xs)"
  using assms by (induction xs) (auto simp: List.map_filter_def)

lemma runnable_candidates_classes:
  "map cand_class (runnable_candidates s ps) =
     map fst (filter (\<lambda>e. class_candidate s ps e \<noteq> None) (bt_entries (gs_classes s)))"
  unfolding runnable_candidates_def
  by (rule map_filter_fst) (auto elim: class_candidate_Some)

lemma distinct_candidates: "distinct (map cand_class (runnable_candidates s ps))"
proof -
  have "distinct (map fst (bt_entries (gs_classes s)))" by simp
  then show ?thesis unfolding runnable_candidates_classes by (rule distinct_map_filter)
qed

section \<open>The least key\<close>

lemma min_by_Some:
  "xs \<noteq> [] \<Longrightarrow> \<exists>x. min_by key xs = Some x \<and> x \<in> set xs \<and> (\<forall>y \<in> set xs. key x \<le> key y)"
proof (induction xs)
  case (Cons a xs)
  show ?case
  proof (cases "xs = []")
    case False
    then obtain x where "min_by key xs = Some x" "x \<in> set xs" "\<forall>y \<in> set xs. key x \<le> key y"
      using Cons.IH by blast
    then show ?thesis by (auto intro: order_trans less_imp_le)
  qed simp
qed simp

lemma pick_min_Some:
  assumes "pool \<noteq> []"
  obtains c where "pick_min key pool = Some (cand_class c)" "c \<in> set pool" "\<forall>d \<in> set pool. key c \<le> key d"
  using min_by_Some [OF assms, of key] by (auto simp: pick_min_def)

lemma drr_commit_Some:
  assumes "plan \<noteq> []"
  obtains w where "snd (drr_commit k plan s) = Some (pv_class w)" "w \<in> set plan"
    "\<forall>v \<in> set plan. pv_visit_pos w \<le> pv_visit_pos v"
proof -
  let ?m = "Min (pv_visit_pos ` set plan)"
  have "?m \<in> pv_visit_pos ` set plan" using assms by (intro Min_in) auto
  then have "List.find (\<lambda>v. pv_visit_pos v = ?m) plan \<noteq> None" by (auto simp: find_None_iff)
  then obtain w where w: "List.find (\<lambda>v. pv_visit_pos v = ?m) plan = Some w" by auto
  then have "w \<in> set plan" "pv_visit_pos w = ?m" by (auto simp: find_Some_iff in_set_conv_nth)
  with w assms show thesis by (intro that [of w]) (simp_all add: drr_commit_def Let_def)
qed

lemma drr_walk_Some:
  assumes "pool \<noteq> []"
  shows "\<exists>c \<in> set pool. snd (drr_walk s pool) = Some (cand_class c)"
proof -
  let ?s = "s\<lparr>gs_drr_ring_visits := saturating_add u64_max (gs_drr_ring_visits s) (length pool)\<rparr>"
  let ?plan = "map (planned_visit ?s (length pool) (drr_start (gs_drr_cursor s) pool)) (enumerate 0 pool)"
  have "?plan \<noteq> []" using assms by (cases pool) simp_all
  then obtain w where w: "snd (drr_commit (length pool) ?plan ?s) = Some (pv_class w)" "w \<in> set ?plan"
    by (rule drr_commit_Some)
  then obtain i c where "(i, c) \<in> set (enumerate 0 pool)" "pv_class w = cand_class c"
    by (auto simp: planned_visit_def Let_def)
  moreover have "c \<in> set pool" using calculation(1) by (metis set_zip_rightD enumerate_eq_zip)
  ultimately show ?thesis using w by (auto simp: drr_walk_def Let_def)
qed

lemma drr_select_Some:
  assumes "pool \<noteq> []"
  shows "\<exists>c \<in> set pool. snd (drr_select s pool) = Some (cand_class c)"
proof -
  have "List.find P pool = Some c \<Longrightarrow> c \<in> set pool" for P c
    by (auto simp: find_Some_iff in_set_conv_nth)
  with drr_walk_Some [OF assms, of s] assms show ?thesis
    by (auto simp: drr_select_def Let_def bind_eq_Some_conv split: option.splits)
qed

lemma choose_class_Some:
  assumes "pool \<noteq> []"
  shows "\<exists>c \<in> set pool. snd (choose_class s d pool) = Some (cand_class c)"
proof -
  have p: "\<exists>c \<in> set pool. pick_min key pool = Some (cand_class c)" for key :: "Candidate \<Rightarrow> 'k::linorder"
    using assms by (rule pick_min_Some [of pool key]) blast
  show ?thesis
    by (cases d) (simp_all add: choose_class_def drr_select_Some [OF assms] p)
qed

section \<open>Selection\<close>

lemma contended_pool_subset: "set (contended_pool cs) \<subseteq> set cs"
  by (auto simp: contended_pool_def Let_def)

lemma contended_pool_Nil: "contended_pool cs = [] \<longleftrightarrow> cs = []"
proof (cases "\<exists>c \<in> set cs. \<not> cand_best_effort c")
  case True
  then show ?thesis by (auto simp: contended_pool_def Let_def filter_empty_conv)
next
  case False
  then show ?thesis by (auto simp: contended_pool_def Let_def filter_empty_conv)
qed

lemma select_Some_intro:
  assumes "runnable_candidates s ps \<noteq> []"
  obtains s' c where "c \<in> set (contended_pool (runnable_candidates s ps))"
    "select s ps = (s', Some \<lparr>sel_class = cand_class c, sel_queue_index = cand_queue_index c,
       sel_service_finish_tag = cand_head_finish_tag c\<rparr>)"
    "snd (choose_class s (cand_fairness (hd (contended_pool (runnable_candidates s ps))))
       (contended_pool (runnable_candidates s ps))) = Some (cand_class c)"
proof -
  let ?cands = "runnable_candidates s ps"
  have ne: "contended_pool ?cands \<noteq> []" using assms by (simp add: contended_pool_Nil)
  then obtain f rest where pool: "contended_pool ?cands = f # rest" by (cases "contended_pool ?cands") auto
  obtain c where c: "c \<in> set (f # rest)" "snd (choose_class s (cand_fairness f) (f # rest)) = Some (cand_class c)"
    using choose_class_Some [of "f # rest" s "cand_fairness f"] by auto
  then obtain s1 where s1: "choose_class s (cand_fairness f) (f # rest) = (s1, Some (cand_class c))"
    by (metis prod.collapse)
  have mem: "c \<in> set ?cands" using c pool contended_pool_subset [of ?cands] by auto
  have same: "d = c" if "List.find (\<lambda>d. cand_class d = cand_class c) ?cands = Some d" for d
  proof -
    have "d \<in> set ?cands" "cand_class d = cand_class c" using that by (auto simp: find_Some_iff in_set_conv_nth)
    then show ?thesis using mem distinct_candidates [of s ps] by (auto simp: distinct_map dest: inj_onD)
  qed
  have "List.find (\<lambda>d. cand_class d = cand_class c) ?cands \<noteq> None" using mem by (auto simp: find_None_iff)
  then have find: "List.find (\<lambda>d. cand_class d = cand_class c) ?cands = Some c" using same by auto
  let ?s = "case cand_fairness f of
      WeightedFairQueue w b \<Rightarrow> (case List.find (\<lambda>d. cand_class d = cand_class c) (f # rest) of
          Some d \<Rightarrow> s1\<lparr>gs_virtual_time := max (gs_virtual_time s1) (cand_head_finish_tag d)\<rparr> | None \<Rightarrow> s1)
    | _ \<Rightarrow> s1"
  have "select s ps = (?s, Some \<lparr>sel_class = cand_class c, sel_queue_index = cand_queue_index c,
       sel_service_finish_tag = cand_head_finish_tag c\<rparr>)"
    unfolding select_def Let_def pool list.case s1 prod.case option.case find ..
  with c pool show thesis by (intro that [of c]) auto
qed

lemma select_None_iff: "snd (select s ps) = None \<longleftrightarrow> \<not> has_runnable s ps"
proof (cases "runnable_candidates s ps = []")
  case True
  then show ?thesis by (simp add: select_def has_runnable_def contended_pool_def)
next
  case False
  then show ?thesis by (rule select_Some_intro) (simp add: has_runnable_def False)
qed

lemma has_runnable_iff:
  "has_runnable s ps \<longleftrightarrow>
     (\<exists>cl cs policy. fmlookup (gs_classes s) cl = Some cs \<and> policy_class ps cl = Some policy
        \<and> (\<exists>r \<in> set (cs_queue cs). runnable_request s ps cs policy r))"
proof -
  have "has_runnable s ps \<longleftrightarrow> (\<exists>c. c \<in> set (runnable_candidates s ps))"
    by (cases "runnable_candidates s ps") (auto simp: has_runnable_def)
  also have "\<dots> \<longleftrightarrow> (\<exists>cl cs. fmlookup (gs_classes s) cl = Some cs \<and> class_candidate s ps (cl, cs) \<noteq> None)"
    by (auto simp: runnable_candidates_iff)
  finally show ?thesis unfolding class_candidate_None by blast
qed

lemma runnable_request_iff:
  "runnable_request s ps cs policy r \<longleftrightarrow>
     \<not> has_queued_predecessor cs r \<and> fits s ps (pr_class r) (max_inflight policy) (pr_cost r) (pr_capabilities r)"
  by (simp add: runnable_request_def assess_pending_Runnable)

text \<open>The two facts the engine's drain loop relies on, as one contract of a scheduling routine: it
  answers exactly when something is runnable, and it answers with a runnable queue position.\<close>

locale class_scheduler =
  fixes pick :: "GovernedState \<Rightarrow> PolicySet \<Rightarrow> GovernedState \<times> Selection option"
  assumes pick_some: "has_runnable s ps \<Longrightarrow> snd (pick s ps) \<noteq> None"
    and pick_runnable: "pick s ps = (s', Some sel) \<Longrightarrow>
      \<exists>cs policy. fmlookup (gs_classes s) (sel_class sel) = Some cs \<and> policy_class ps (sel_class sel) = Some policy
        \<and> sel_queue_index sel < length (cs_queue cs)
        \<and> runnable_request s ps cs policy (cs_queue cs ! sel_queue_index sel)"
    and pick_sched: "pick s ps = (s', out) \<Longrightarrow> sched_eq s s'"
begin

lemma pick_iff: "snd (pick s ps) \<noteq> None \<longleftrightarrow> has_runnable s ps"
proof
  assume "snd (pick s ps) \<noteq> None"
  then obtain s' sel where "pick s ps = (s', Some sel)" by (cases "pick s ps") auto
  from pick_runnable [OF this] show "has_runnable s ps" unfolding has_runnable_iff by (meson nth_mem)
qed (rule pick_some)

lemma pick_queue:
  assumes "pick s ps = (s', Some sel)"
  obtains cs' policy where "fmlookup (gs_classes s) (sel_class sel) \<noteq> None" "policy_class ps (sel_class sel) = Some policy"
    "untagged (cs_queue (class_view s' (sel_class sel)) ! sel_queue_index sel)
       = untagged (cs_queue (class_view s (sel_class sel)) ! sel_queue_index sel)"
    "sel_queue_index sel < length (cs_queue (class_view s' (sel_class sel)))"
proof -
  from pick_runnable [OF assms] obtain cs policy where c: "fmlookup (gs_classes s) (sel_class sel) = Some cs"
    "policy_class ps (sel_class sel) = Some policy" "sel_queue_index sel < length (cs_queue cs)" by blast
  have v: "class_view s (sel_class sel) = cs" using c by (simp add: class_view_def fmget_def)
  have "map untagged (cs_queue (class_view s' (sel_class sel))) = map untagged (cs_queue cs)"
    using pick_sched [OF assms] v by (auto simp: sched_eq_def same_queue_def)
  moreover from this have "length (cs_queue (class_view s' (sel_class sel))) = length (cs_queue cs)"
    by (rule map_eq_imp_length_eq)
  ultimately show thesis using c v by (intro that) (simp_all add: list_eq_iff_nth_eq)
qed

end

lemma select_runnable:
  assumes "select s ps = (s', Some sel)"
  shows "\<exists>cs policy. fmlookup (gs_classes s) (sel_class sel) = Some cs \<and> policy_class ps (sel_class sel) = Some policy
        \<and> sel_queue_index sel < length (cs_queue cs)
        \<and> runnable_request s ps cs policy (cs_queue cs ! sel_queue_index sel)
        \<and> (\<forall>j < sel_queue_index sel. \<not> runnable_request s ps cs policy (cs_queue cs ! j))
        \<and> (best_effort policy \<longrightarrow>
             (\<forall>c \<in> set (runnable_candidates s ps). cand_best_effort c))"
proof -
  have "runnable_candidates s ps \<noteq> []" using select_None_iff [of s ps] assms by (simp add: has_runnable_def)
  then obtain c where c: "c \<in> set (contended_pool (runnable_candidates s ps))"
    and sel: "sel_class sel = cand_class c" "sel_queue_index sel = cand_queue_index c"
    by (rule select_Some_intro) (use assms in auto)
  then obtain cl cs where l: "fmlookup (gs_classes s) cl = Some cs" and cc: "class_candidate s ps (cl, cs) = Some c"
    using contended_pool_subset runnable_candidates_iff by blast
  have be: "cand_best_effort c \<Longrightarrow> \<forall>d \<in> set (runnable_candidates s ps). cand_best_effort d"
    using c by (auto simp: contended_pool_def Let_def)
  from cc show ?thesis
    by (rule class_candidate_Some) (use l sel be in auto)
qed

interpretation ready: class_scheduler select
proof unfold_locales
  show "has_runnable s ps \<Longrightarrow> snd (select s ps) \<noteq> None" for s ps by (simp add: select_None_iff)
  show "select s ps = (s', out) \<Longrightarrow> sched_eq s s'" for s ps s' out by (rule sched_eq_select)
qed (blast dest: select_runnable)

section \<open>The least key\<close>

text \<open>The key each discipline serves by; deficit round robin has none.\<close>

fun discipline_key :: "FairnessPolicy \<Rightarrow> Candidate \<Rightarrow> (nat \<times> nat) option" where
  "discipline_key (WeightedFairQueue w b) c = Some (cand_head_finish_tag c, cand_head_queue_order c)"
| "discipline_key (DeadlineAware slack) c = Some (cand_head_deadline_ms c, cand_head_queue_order c)"
| "discipline_key (DeficitRoundRobin q) c = None"
| "discipline_key Fifo c = Some (0, cand_head_queue_order c)"
| "discipline_key BestEffortScavenger c = Some (0, cand_head_queue_order c)"

lemma choose_class_least:
  assumes "snd (choose_class s d pool) = Some cl" "pool \<noteq> []" "c' \<in> set pool"
    "discipline_key d c' = Some k'"
  shows "\<exists>c k. c \<in> set pool \<and> cand_class c = cl \<and> discipline_key d c = Some k \<and> k \<le> k'"
proof -
  have p: "\<exists>c \<in> set pool. cand_class c = cl \<and> (\<forall>e \<in> set pool. key c \<le> key e)"
    if "pick_min key pool = Some cl" for key :: "Candidate \<Rightarrow> 'k::linorder"
    using pick_min_Some [OF assms(2), of key] that by (metis option.inject)
  show ?thesis
    by (cases d) (use assms p in \<open>fastforce simp: choose_class_def\<close>)+
qed

lemma weighted_fair_increment_gap:
  fixes c v w :: nat
  assumes "0 < c" "0 < v" "v < w" "w < 2 ^ 32"
  shows "(c * 2 ^ 64) div w < (c * 2 ^ 64) div v"
proof -
  have "w * v < 2 ^ 32 * 2 ^ 32" using assms by (intro mult_strict_mono) auto
  then have wv: "w * v < 2 ^ 64" by simp
  let ?x = "c * 2 ^ 64"
  have "w * v \<le> 1 * 2 ^ 64" using wv by simp
  also have "\<dots> \<le> ?x" using assms by (intro mult_le_mono) auto
  also have "\<dots> = ?x * 1" by simp
  also have "\<dots> \<le> ?x * (w - v)" using assms by (intro mult_le_mono) auto
  also have "\<dots> = ?x * w - ?x * v" by (rule diff_mult_distrib2)
  finally have gap: "w * v \<le> ?x * w - ?x * v" .
  have "(?x div w + 1) * v * w = (?x div w) * w * v + w * v" by (simp add: algebra_simps)
  also have "\<dots> \<le> ?x * v + w * v" by (intro add_right_mono mult_right_mono) simp_all
  also have "\<dots> \<le> ?x * v + (?x * w - ?x * v)" using gap by simp
  also have "\<dots> = ?x * w" using assms by simp
  finally have "(?x div w + 1) * v \<le> ?x" using assms by simp
  then have "?x div w + 1 \<le> ?x div v" using assms by (simp add: less_eq_div_iff_mult_less_eq)
  then show ?thesis by simp
qed

section \<open>Deficit round robin against the plain ring walk\<close>

text \<open>The round robin the arithmetic replaces: visit the ring one position at a time, credit the visited
  class its quantum, and serve it as soon as its deficit covers the cost of its head. Running out of
  fuel is \<open>None\<close>.\<close>

fun ring_walk :: "nat \<Rightarrow> nat \<Rightarrow> Candidate list \<Rightarrow> (TaskClass \<Rightarrow> nat) \<Rightarrow> ((TaskClass \<Rightarrow> nat) \<times> TaskClass) option" where
  "ring_walk 0 pos ring deficits = None"
| "ring_walk (Suc fuel) pos ring deficits =
     (let c = ring ! (pos mod length ring);
          cost = max (cand_head_cost_cpu c) 1;
          d = deficits (cand_class c) + drr_quantum (cand_fairness c)
      in if cost \<le> d then Some (deficits(cand_class c := d - cost), cand_class c)
         else ring_walk fuel (pos + 1) ring (deficits(cand_class c := d)))"

text \<open>How often ring offset \<open>j\<close> of a ring of \<open>r\<close> is visited by the positions below \<open>k\<close>.\<close>

definition visits_below :: "nat \<Rightarrow> nat \<Rightarrow> nat \<Rightarrow> nat" where
  "visits_below r j k = (k + (r - 1 - j)) div r"

lemma visits_below_split:
  fixes k r x :: nat
  assumes "0 < r"
  shows "(k + x) div r = k div r + (k mod r + x) div r"
proof -
  have "k + x = k div r * r + (k mod r + x)" using div_mult_mod_eq [of k r] by linarith
  then have "(k + x) div r = (k div r * r + (k mod r + x)) div r" by (rule arg_cong)
  with assms show ?thesis by (simp only: div_mult_self3 less_numeral_extra neq0_conv)
qed

lemma visits_below_Suc:
  assumes "j < r"
  shows "visits_below r j (Suc k) = visits_below r j k + (if k mod r = j then 1 else 0)"
proof -
  let ?q = "k div r" and ?m = "k mod r"
  have m: "?m < r" and r: "0 < r" using assms by simp_all
  have a: "visits_below r j k = ?q + (?m + (r - 1 - j)) div r"
    unfolding visits_below_def by (rule visits_below_split [OF r])
  have "visits_below r j (Suc k) = (k + Suc (r - 1 - j)) div r" by (simp add: visits_below_def)
  then have b: "visits_below r j (Suc k) = ?q + (?m + Suc (r - 1 - j)) div r"
    by (simp only: visits_below_split [OF r, of k])
  have c: "(?m + (r - 1 - j)) div r = (if j < ?m then 1 else 0)"
    using m assms by (cases "j < ?m") (auto intro!: div_nat_eqI simp del: mod_less_divisor)
  have d: "(?m + Suc (r - 1 - j)) div r = (if j \<le> ?m then 1 else 0)"
    using m assms by (cases "j \<le> ?m") (auto intro!: div_nat_eqI simp del: mod_less_divisor)
  show ?thesis unfolding a b c d by auto
qed

lemma visits_below_at:
  assumes "0 < r"
  shows "visits_below r (k mod r) k = k div r"
proof -
  have "k mod r + (r - 1 - k mod r) = r - 1" using mod_less_divisor [OF assms, of k] by linarith
  then show ?thesis
    using assms unfolding visits_below_def visits_below_split [OF assms, of k] by simp
qed

lemma visits_below_credit:
  assumes "j < r"
  shows "visits_below r j (Suc w) = (if w < j then 0 else (w - j) div r + 1)"
proof (cases "w < j")
  case True
  then show ?thesis using assms by (simp add: visits_below_def)
next
  case False
  then have "Suc w + (r - 1 - j) = (w - j) + r" using assms by simp
  then have "visits_below r j (Suc w) = ((w - j) + r) div r" unfolding visits_below_def by (rule arg_cong)
  then show ?thesis using False assms by (simp only: div_add_self2 if_False)
qed

lemma visits_needed_iff:
  assumes "0 < q" "0 < v"
  shows "cost \<le> d + v * q \<longleftrightarrow> visits_needed d cost q \<le> v"
proof (cases "cost \<le> d")
  case False
  then have "visits_needed d cost q \<le> v \<longleftrightarrow> cost - d \<le> v * q"
    using assms by (simp add: visits_needed_def div_ceil_le_iff)
  then show ?thesis using False by linarith
qed (use assms in \<open>simp add: visits_needed_def\<close>)

lemma visits_needed_pos: "0 < q \<Longrightarrow> 0 < visits_needed d cost q"
  using visits_needed_iff [of q 1 cost d] div_ceil_le_iff [of q "cost - d" 0]
  by (cases "cost \<le> d") (auto simp: visits_needed_def intro: gr0I)

definition ring_cost :: "Candidate \<Rightarrow> nat" where
  "ring_cost c = max (cand_head_cost_cpu c) 1"

definition ring_quantum :: "Candidate \<Rightarrow> nat" where
  "ring_quantum c = drr_quantum (cand_fairness c)"

text \<open>The position at which ring offset \<open>j\<close> is first able to pay.\<close>

definition ring_pos :: "(TaskClass \<Rightarrow> nat) \<Rightarrow> Candidate list \<Rightarrow> nat \<Rightarrow> nat" where
  "ring_pos ds ring j =
     j + (visits_needed (ds (cand_class (ring ! j))) (ring_cost (ring ! j)) (ring_quantum (ring ! j)) - 1) * length ring"

definition ring_credited :: "(TaskClass \<Rightarrow> nat) \<Rightarrow> Candidate list \<Rightarrow> nat \<Rightarrow> (TaskClass \<Rightarrow> nat) \<Rightarrow> bool" where
  "ring_credited ds ring k ds' \<longleftrightarrow> (\<forall>j < length ring. ds' (cand_class (ring ! j)) =
     ds (cand_class (ring ! j)) + visits_below (length ring) j k * ring_quantum (ring ! j))"

lemma ring_pays_iff:
  fixes k :: nat
  assumes "ring \<noteq> []" "\<forall>c \<in> set ring. 0 < ring_quantum c"
  defines "j \<equiv> k mod length ring"
  shows "ring_cost (ring ! j) \<le> ds (cand_class (ring ! j)) + (k div length ring + 1) * ring_quantum (ring ! j)
     \<longleftrightarrow> ring_pos ds ring j \<le> k"
proof -
  let ?r = "length ring"
  have j: "j < ?r" using assms by simp
  then have q: "0 < ring_quantum (ring ! j)" using assms by simp
  let ?n = "visits_needed (ds (cand_class (ring ! j))) (ring_cost (ring ! j)) (ring_quantum (ring ! j))"
  have "ring_cost (ring ! j) \<le> ds (cand_class (ring ! j)) + (k div ?r + 1) * ring_quantum (ring ! j)
      \<longleftrightarrow> ?n \<le> k div ?r + 1" using q by (intro visits_needed_iff) simp_all
  also have "\<dots> \<longleftrightarrow> ?n - 1 \<le> k div ?r" by linarith
  also have "\<dots> \<longleftrightarrow> (?n - 1) * ?r \<le> (k div ?r) * ?r" using j by (subst mult_le_cancel2) auto
  also have "\<dots> \<longleftrightarrow> ring_pos ds ring j \<le> k"
    unfolding ring_pos_def j_def using div_mult_mod_eq [of k ?r] by linarith
  finally show ?thesis .
qed

lemma ring_walk_pays_iff:
  fixes k :: nat
  assumes "ring \<noteq> []" "\<forall>c \<in> set ring. 0 < ring_quantum c" "ring_credited ds ring k ds'"
  defines "j \<equiv> k mod length ring"
  shows "ring_cost (ring ! j) \<le> ds' (cand_class (ring ! j)) + ring_quantum (ring ! j) \<longleftrightarrow> ring_pos ds ring j \<le> k"
proof -
  have "j < length ring" using assms by simp
  then have "ds' (cand_class (ring ! j)) = ds (cand_class (ring ! j)) + (k div length ring) * ring_quantum (ring ! j)"
    using assms visits_below_at [of "length ring" k] by (simp add: ring_credited_def)
  then show ?thesis using ring_pays_iff [OF assms(1,2), of k ds] by (simp add: j_def ac_simps)
qed

lemma ring_credited_step:
  assumes "distinct (map cand_class ring)" "ring_credited ds ring k ds'" "j = k mod length ring" "ring \<noteq> []"
  shows "ring_credited ds ring (Suc k)
     (ds'(cand_class (ring ! j) := ds' (cand_class (ring ! j)) + ring_quantum (ring ! j)))"
  unfolding ring_credited_def
proof (intro allI impI)
  fix i assume i: "i < length ring"
  have j: "j < length ring" using assms by simp
  have eq: "cand_class (ring ! i) = cand_class (ring ! j) \<longleftrightarrow> i = j"
    using assms(1) i j by (simp add: distinct_conv_nth) metis
  show "(ds'(cand_class (ring ! j) := ds' (cand_class (ring ! j)) + ring_quantum (ring ! j))) (cand_class (ring ! i))
      = ds (cand_class (ring ! i)) + visits_below (length ring) i (Suc k) * ring_quantum (ring ! i)"
    using assms(2) i eq by (cases "i = j") (simp_all add: visits_below_Suc ring_credited_def flip: assms(3))
qed

lemma ring_pos_mod: "j < length ring \<Longrightarrow> ring_pos ds ring j mod length ring = j"
  by (simp add: ring_pos_def)

lemma ring_walk_winner:
  assumes ne: "ring \<noteq> []" and d: "distinct (map cand_class ring)" and q: "\<forall>c \<in> set ring. 0 < ring_quantum c"
    and w: "w < length ring" "\<forall>j < length ring. ring_pos ds ring w \<le> ring_pos ds ring j"
  shows "k \<le> ring_pos ds ring w \<Longrightarrow> ring_credited ds ring k ds' \<Longrightarrow> ring_pos ds ring w - k < fuel \<Longrightarrow>
    \<exists>ds''. ring_credited ds ring (Suc (ring_pos ds ring w)) ds''
      \<and> ring_walk fuel k ring ds' = Some (ds''(cand_class (ring ! w) := ds'' (cand_class (ring ! w)) - ring_cost (ring ! w)),
           cand_class (ring ! w))"
proof (induction "ring_pos ds ring w - k" arbitrary: k ds' fuel)
  case 0
  then have k: "k = ring_pos ds ring w" by simp
  have km: "k mod length ring = w" using k w by (simp add: ring_pos_mod)
  obtain f where f: "fuel = Suc f" using 0 by (cases fuel) auto
  let ?d = "ds'(cand_class (ring ! w) := ds' (cand_class (ring ! w)) + ring_quantum (ring ! w))"
  have "ring_cost (ring ! w) \<le> ds' (cand_class (ring ! w)) + ring_quantum (ring ! w)"
    using ring_walk_pays_iff [OF ne q 0(3)] k unfolding km by simp
  moreover have cr: "ring_credited ds ring (Suc k) ?d"
    using ring_credited_step [OF d 0(3) _ ne, of w] km by simp
  ultimately have "ring_walk fuel k ring ds' =
      Some (?d(cand_class (ring ! w) := ?d (cand_class (ring ! w)) - ring_cost (ring ! w)), cand_class (ring ! w))"
    unfolding f ring_walk.simps Let_def km ring_cost_def ring_quantum_def by simp
  with cr show ?case unfolding k [symmetric] by blast
next
  case (Suc m)
  let ?j = "k mod length ring"
  obtain f where f: "fuel = Suc f" using Suc by (cases fuel) auto
  have j: "?j < length ring" using ne by simp
  have "k < ring_pos ds ring w" using Suc(2) by simp
  then have "k < ring_pos ds ring ?j" using w(2) j less_le_trans by blast
  then have no: "\<not> ring_cost (ring ! ?j) \<le> ds' (cand_class (ring ! ?j)) + ring_quantum (ring ! ?j)"
    using ring_walk_pays_iff [OF ne q Suc(4)] by simp
  let ?d = "ds'(cand_class (ring ! ?j) := ds' (cand_class (ring ! ?j)) + ring_quantum (ring ! ?j))"
  have "\<exists>ds''. ring_credited ds ring (Suc (ring_pos ds ring w)) ds''
      \<and> ring_walk f (Suc k) ring ?d = Some (ds''(cand_class (ring ! w) := ds'' (cand_class (ring ! w)) - ring_cost (ring ! w)),
           cand_class (ring ! w))"
    using Suc(2,3,5) f by (intro Suc(1) ring_credited_step [OF d Suc(4) refl ne]) simp_all
  moreover have "ring_walk fuel k ring ds' = ring_walk f (Suc k) ring ?d"
    using no by (simp only: f ring_walk.simps Let_def ring_cost_def ring_quantum_def if_False) simp
  ultimately show ?case by simp
qed

text \<open>The planned visits are the ring offsets, each with the position at which it can pay.\<close>

definition ring_visit :: "(TaskClass \<Rightarrow> nat) \<Rightarrow> Candidate list \<Rightarrow> nat \<Rightarrow> PlannedVisit" where
  "ring_visit ds ring j =
     \<lparr>pv_class = cand_class (ring ! j), pv_quantum = ring_quantum (ring ! j), pv_cost = ring_cost (ring ! j),
      pv_offset = j, pv_visit_pos = ring_pos ds ring j\<rparr>"

lemma planned_visit_ring:
  assumes "i < length pool" "start < length pool"
  shows "planned_visit s (length pool) start (i, pool ! i) =
     ring_visit (class_deficit s) (rotate start pool) ((i + length pool - start) mod length pool)"
proof -
  let ?r = "length pool" and ?j = "(i + length pool - start) mod length pool"
  have "(start + ?j) mod ?r = (start + (i + ?r - start)) mod ?r" by (simp add: mod_add_right_eq)
  also have "\<dots> = i" using assms by simp
  finally have i: "(start + ?j) mod ?r = i" .
  have "?j < ?r" using assms by (intro mod_less_divisor) linarith
  then have "rotate start pool ! ?j = pool ! i" by (simp only: nth_rotate i)
  then show ?thesis
    by (simp add: planned_visit_def ring_visit_def ring_pos_def ring_cost_def ring_quantum_def Let_def)
qed

lemma enumerate_nth: "enumerate 0 xs = map (\<lambda>i. (i, xs ! i)) [0..<length xs]"
  by (rule nth_equalityI) (simp_all add: nth_enumerate_eq)

lemma ring_offsets_onto:
  fixes start r :: nat
  assumes "start < r"
  shows "(\<lambda>i. (i + r - start) mod r) ` {..<r} = {..<r}"
proof (rule endo_inj_surj)
  show "inj_on (\<lambda>i. (i + r - start) mod r) {..<r}"
  proof (rule inj_on_inverseI [of _ "\<lambda>j. (start + j) mod r"])
    fix i assume "i \<in> {..<r}"
    then show "(start + (i + r - start) mod r) mod r = i" using assms by (simp add: mod_add_right_eq)
  qed
  show "(\<lambda>i. (i + r - start) mod r) ` {..<r} \<subseteq> {..<r}" using assms by (auto intro!: mod_less_divisor)
qed simp

lemma planned_visits_set:
  assumes "start < length pool"
  shows "set (map (planned_visit s (length pool) start) (enumerate 0 pool)) =
     ring_visit (class_deficit s) (rotate start pool) ` {..<length pool}"
proof -
  let ?r = "length pool" and ?f = "\<lambda>i. (i + length pool - start) mod length pool"
  let ?v = "ring_visit (class_deficit s) (rotate start pool)"
  have "set (map (planned_visit s ?r start) (enumerate 0 pool)) =
      (\<lambda>i. planned_visit s ?r start (i, pool ! i)) ` {..<?r}"
    by (simp only: enumerate_nth set_map set_upt image_image atLeast0LessThan)
  also have "\<dots> = (\<lambda>i. ?v (?f i)) ` {..<?r}"
    by (rule image_cong [OF refl]) (simp only: planned_visit_ring [OF _ assms] lessThan_iff)
  also have "\<dots> = ?v ` (?f ` {..<?r})" by (simp only: image_image)
  also have "\<dots> = ?v ` {..<?r}" by (simp only: ring_offsets_onto [OF assms])
  finally show ?thesis .
qed

lemma class_deficit_view: "class_deficit s cl = cs_deficit (class_view s cl)"
  by (simp add: class_deficit_def class_view_def fmget_def ClassState_default_def split: option.splits)

lemma class_view_class_mut: "class_view (class_mut cl f s) c = (if c = cl then f (class_view s cl) else class_view s c)"
  by (simp add: class_view_def)

lemma credit_visit_other: "pv_class v \<noteq> cl \<Longrightarrow> class_deficit (credit_visit k w v s) cl = class_deficit s cl"
  by (simp add: credit_visit_def class_deficit_view class_view_class_mut Let_def)

lemma fold_credit_other: "cl \<notin> pv_class ` set plan \<Longrightarrow> class_deficit (fold (credit_visit k w) plan s) cl = class_deficit s cl"
  by (induction plan arbitrary: s) (auto simp: credit_visit_other)

lemma fold_credit_deficit:
  assumes "distinct (map pv_class plan)" "v \<in> set plan"
  shows "class_deficit (fold (credit_visit k w) plan s) (pv_class v) = class_deficit (credit_visit k w v s) (pv_class v)"
  using assms
proof (induction plan arbitrary: s)
  case (Cons p plan)
  show ?case
  proof (cases "v = p")
    case True
    then show ?thesis using Cons by (simp add: fold_credit_other)
  next
    case False
    then have "pv_class p \<noteq> pv_class v" "v \<in> set plan" using Cons by auto
    moreover have "class_deficit (credit_visit k w v (credit_visit k w p s)) (pv_class v)
        = class_deficit (credit_visit k w v s) (pv_class v)"
      using credit_visit_other [OF calculation(1), of k w s]
      by (simp add: credit_visit_def [of k w v] class_deficit_view class_view_class_mut Let_def)
    ultimately show ?thesis using Cons by simp
  qed
qed simp

lemma drr_start_less: "pool \<noteq> [] \<Longrightarrow> drr_start cursor pool < length pool"
  by (auto simp: drr_start_def find_index_Some split: option.splits)

lemma drr_commit_eq:
  assumes "v \<in> set plan" "\<forall>u \<in> set plan. pv_visit_pos v \<le> pv_visit_pos u"
    "\<forall>u \<in> set plan. pv_visit_pos u = pv_visit_pos v \<longrightarrow> u = v"
  shows "drr_commit k plan s =
    ((class_mut (pv_class v) (\<lambda>cs. cs\<lparr>cs_deficit := saturating_sub (cs_deficit cs) (pv_cost v)\<rparr>)
        (fold (credit_visit k (pv_visit_pos v)) plan s))\<lparr>gs_drr_cursor := Some (pv_class v)\<rparr>, Some (pv_class v))"
proof -
  have "Min (pv_visit_pos ` set plan) = pv_visit_pos v"
    using assms by (intro Min_eqI) auto
  moreover have "List.find (\<lambda>u. pv_visit_pos u = pv_visit_pos v) plan = Some v"
  proof -
    have "List.find (\<lambda>u. pv_visit_pos u = pv_visit_pos v) plan \<noteq> None" using assms by (auto simp: find_None_iff)
    then obtain u where u: "List.find (\<lambda>u. pv_visit_pos u = pv_visit_pos v) plan = Some u" by auto
    then have "u \<in> set plan" "pv_visit_pos u = pv_visit_pos v" by (auto simp: find_Some_iff in_set_conv_nth)
    then show ?thesis using u assms(3) by auto
  qed
  ultimately show ?thesis using assms(1) by (auto simp: drr_commit_def Let_def)
qed

text \<open>The widths the code keeps: a quantum and a cost are \<open>u32\<close> (a zero quantum is refused by the policy
  validation), and a deficit is far below the width of its \<open>u128\<close>.\<close>

definition drr_widths :: "GovernedState \<Rightarrow> Candidate list \<Rightarrow> bool" where
  "drr_widths s pool \<longleftrightarrow> (\<forall>c \<in> set pool. 0 < ring_quantum c \<and> ring_quantum c \<le> u32_max
     \<and> cand_head_cost_cpu c \<le> u32_max \<and> class_deficit s (cand_class c) \<le> 2 ^ 127)"

lemma visits_needed_le_cost: "0 < q \<Longrightarrow> 0 < cost \<Longrightarrow> visits_needed d cost q \<le> cost"
  using visits_needed_iff [of q cost cost d] by (metis le_add2 mult_le_mono2 le_trans mult_1_right Suc_leI One_nat_def)

lemma ring_pos_bound:
  assumes "j < length ring" "0 < ring_quantum (ring ! j)" "cand_head_cost_cpu (ring ! j) \<le> u32_max"
  shows "ring_pos ds ring j div length ring < 2 ^ 32"
proof -
  let ?c = "ring_cost (ring ! j)"
  let ?n = "visits_needed (ds (cand_class (ring ! j))) ?c (ring_quantum (ring ! j))"
  have "?n \<le> ?c" using assms by (intro visits_needed_le_cost) (simp_all add: ring_cost_def)
  moreover have "?c \<le> u32_max" using assms by (simp add: ring_cost_def u32_max_def)
  ultimately have "?n - 1 < 2 ^ 32" by (simp add: u32_max_def)
  moreover have "ring_pos ds ring j div length ring = ?n - 1"
    unfolding ring_pos_def using assms(1) div_mult_self1 [of "length ring" j "?n - 1"] by fastforce
  ultimately show ?thesis by simp
qed

lemma credit_visit_ring:
  assumes j: "j < length ring" and q: "ring_quantum (ring ! j) \<le> u32_max"
    and w: "w div length ring < 2 ^ 32" and d: "class_deficit s (cand_class (ring ! j)) \<le> 2 ^ 127"
  shows "class_deficit (credit_visit (length ring) w (ring_visit ds ring j) s) (cand_class (ring ! j)) =
     class_deficit s (cand_class (ring ! j)) + visits_below (length ring) j (Suc w) * ring_quantum (ring ! j)"
proof (cases "w < j")
  case True
  then show ?thesis using j by (simp add: credit_visit_def ring_visit_def visits_below_credit)
next
  case False
  let ?v = "(w - j) div length ring + 1" and ?q = "ring_quantum (ring ! j)"
  have "(w - j) div length ring \<le> w div length ring" by (intro div_le_mono) simp
  then have "?v \<le> 2 ^ 32" using w by linarith
  then have "?v * ?q \<le> 2 ^ 32 * 2 ^ 32" using q by (intro mult_le_mono) (simp_all add: u32_max_def)
  then have p: "?v * ?q \<le> 2 ^ 64" by simp
  then have "saturating_mul u128_max ?v ?q = ?v * ?q" by (simp add: saturating_mul_def u128_max_def)
  moreover have "saturating_add u128_max (class_deficit s (cand_class (ring ! j))) (?v * ?q)
      = class_deficit s (cand_class (ring ! j)) + ?v * ?q"
    using p d by (simp add: saturating_add_def u128_max_def)
  ultimately show ?thesis using False j
    by (simp add: credit_visit_def ring_visit_def visits_below_credit class_deficit_view class_view_class_mut Let_def)
qed

text \<open>What a commit of the winning offset \<open>w\<close> does: credit every visit up to the winning position, charge
  the winner, and move the cursor.\<close>

definition ring_served :: "(TaskClass \<Rightarrow> nat) \<Rightarrow> Candidate list \<Rightarrow> nat \<Rightarrow> PlannedVisit list \<Rightarrow> GovernedState \<Rightarrow> GovernedState" where
  "ring_served ds ring w plan s =
     (class_mut (cand_class (ring ! w)) (\<lambda>cs. cs\<lparr>cs_deficit := saturating_sub (cs_deficit cs) (ring_cost (ring ! w))\<rparr>)
        (fold (credit_visit (length ring) (ring_pos ds ring w)) plan s))\<lparr>gs_drr_cursor := Some (cand_class (ring ! w))\<rparr>"

lemma drr_walk_served:
  fixes s :: GovernedState
  assumes ne: "pool \<noteq> []" and dist: "distinct (map cand_class pool)"
  defines "ring \<equiv> rotate (drr_start (gs_drr_cursor s) pool) pool" and "ds \<equiv> class_deficit s"
  obtains w plan v where "w < length ring" "\<forall>j < length ring. ring_pos ds ring w \<le> ring_pos ds ring j"
    "distinct (map pv_class plan)" "set plan = ring_visit ds ring ` {..<length ring}"
    "drr_walk s pool = (ring_served ds ring w plan (s\<lparr>gs_drr_ring_visits := v\<rparr>), Some (cand_class (ring ! w)))"
proof -
  let ?R = "length pool" and ?start = "drr_start (gs_drr_cursor s) pool"
  let ?s = "s\<lparr>gs_drr_ring_visits := saturating_add u64_max (gs_drr_ring_visits s) ?R\<rparr>"
  let ?plan = "map (planned_visit ?s ?R ?start) (enumerate 0 pool)"
  have len: "length ring = ?R" by (simp add: ring_def)
  have "class_deficit ?s = ds" by (simp add: fun_eq_iff class_deficit_def ds_def)
  then have plan: "set ?plan = ring_visit ds ring ` {..<?R}"
    using planned_visits_set [OF drr_start_less [OF ne], of ?s "gs_drr_cursor s"] by (simp add: ring_def)
  have "map pv_class ?plan = map cand_class pool"
    by (rule nth_equalityI) (simp_all add: nth_enumerate_eq planned_visit_def Let_def)
  then have dp: "distinct (map pv_class ?plan)" using dist by simp
  have fin: "finite {..<?R}" "{..<?R} \<noteq> {}" using ne by (auto simp: lessThan_empty_iff)
  then obtain w where w: "w < ?R" and min: "\<forall>j < ?R. ring_pos ds ring w \<le> ring_pos ds ring j"
    using arg_min_if_finite(1) [OF fin] arg_min_least [OF fin] by (metis lessThan_iff)
  have uniq: "j = w" if "j < ?R" "ring_pos ds ring j = ring_pos ds ring w" for j
    using that w ring_pos_mod [of j ring ds] ring_pos_mod [of w ring ds] by (simp add: len)
  let ?v = "ring_visit ds ring w"
  have "drr_walk s pool =
    ((class_mut (pv_class ?v) (\<lambda>cs. cs\<lparr>cs_deficit := saturating_sub (cs_deficit cs) (pv_cost ?v)\<rparr>)
        (fold (credit_visit ?R (pv_visit_pos ?v)) ?plan ?s))\<lparr>gs_drr_cursor := Some (pv_class ?v)\<rparr>, Some (pv_class ?v))"
    unfolding drr_walk_def Let_def
    by (rule drr_commit_eq) (use w min uniq in \<open>auto simp: plan ring_visit_def simp del: set_map\<close>)
  then show thesis
    using w min dp plan len by (intro that [of w ?plan]) (simp_all add: ring_served_def ring_visit_def)
qed

lemma ring_served_deficit:
  assumes dp: "distinct (map pv_class plan)" and plan: "set plan = ring_visit ds ring ` {..<length ring}"
    and dist: "distinct (map cand_class ring)" and wd: "drr_widths s ring"
    and w: "w < length ring" and j: "j < length ring"
  shows "class_deficit (ring_served ds ring w plan s) (cand_class (ring ! j)) =
     class_deficit s (cand_class (ring ! j))
       + visits_below (length ring) j (Suc (ring_pos ds ring w)) * ring_quantum (ring ! j)
       - (if j = w then ring_cost (ring ! w) else 0)"
proof -
  let ?R = "length ring" and ?W = "ring_pos ds ring w" and ?v = "ring_visit ds ring j"
  let ?S = "fold (credit_visit ?R ?W) plan s"
  have bound: "?W div ?R < 2 ^ 32" using ring_pos_bound [OF w] wd w by (simp add: drr_widths_def)
  have "?v \<in> set plan" using plan j by blast
  then have "class_deficit ?S (pv_class ?v) = class_deficit (credit_visit ?R ?W ?v s) (pv_class ?v)"
    by (rule fold_credit_deficit [OF dp])
  also have "\<dots> = class_deficit s (cand_class (ring ! j)) + visits_below ?R j (Suc ?W) * ring_quantum (ring ! j)"
    using credit_visit_ring [OF j _ bound, of s ds] wd j by (simp add: drr_widths_def ring_visit_def)
  finally have credit: "class_deficit ?S (cand_class (ring ! j)) =
      class_deficit s (cand_class (ring ! j)) + visits_below ?R j (Suc ?W) * ring_quantum (ring ! j)"
    by (simp add: ring_visit_def)
  have eq: "cand_class (ring ! j) = cand_class (ring ! w) \<longleftrightarrow> j = w"
    using dist j w by (simp add: distinct_conv_nth) metis
  have "class_deficit (ring_served ds ring w plan s) (cand_class (ring ! j)) =
      class_deficit ?S (cand_class (ring ! j)) - (if j = w then ring_cost (ring ! w) else 0)"
    unfolding ring_served_def using eq
    by (simp add: class_deficit_view class_view_class_mut saturating_sub_def) (simp add: class_view_def)
  then show ?thesis by (simp add: credit)
qed

text \<open>C26: deficit round robin skips its empty rounds arithmetically. Its one pass over the classes elects
  the same class, and leaves the same deficits, as the plain ring walk that visits one class at a time;
  the walk itself returns within \<open>2 ^ 32\<close> rounds.\<close>

theorem drr_walk_equals_ring_walk:
  assumes "pool \<noteq> []" "distinct (map cand_class pool)" "drr_widths s pool" "length pool * 2 ^ 32 \<le> fuel"
  shows "\<exists>ds cl. ring_walk fuel 0 (rotate (drr_start (gs_drr_cursor s) pool) pool) (class_deficit s) = Some (ds, cl)
    \<and> snd (drr_walk s pool) = Some cl
    \<and> (\<forall>c \<in> set pool. class_deficit (fst (drr_walk s pool)) (cand_class c) = ds (cand_class c))"
proof -
  let ?ring = "rotate (drr_start (gs_drr_cursor s) pool) pool" and ?ds = "class_deficit s"
  obtain w plan v where w: "w < length ?ring" "\<forall>j < length ?ring. ring_pos ?ds ?ring w \<le> ring_pos ?ds ?ring j"
    and plan: "distinct (map pv_class plan)" "set plan = ring_visit ?ds ?ring ` {..<length ?ring}"
    and walk: "drr_walk s pool = (ring_served ?ds ?ring w plan (s\<lparr>gs_drr_ring_visits := v\<rparr>), Some (cand_class (?ring ! w)))"
    using drr_walk_served [OF assms(1,2), of s] .
  let ?W = "ring_pos ?ds ?ring w"
  have dist: "distinct (map cand_class ?ring)" using assms(2) by (simp add: rotate_map [symmetric])
  have wd: "drr_widths s ?ring" "drr_widths (s\<lparr>gs_drr_ring_visits := v\<rparr>) ?ring"
    using assms(3) by (simp_all add: drr_widths_def class_deficit_def)
  have "?W div length ?ring < 2 ^ 32"
    using ring_pos_bound [OF w(1), of ?ds] wd(1) nth_mem [OF w(1)] by (simp add: drr_widths_def)
  then have "?W < length ?ring * 2 ^ 32" by (simp add: div_less_iff_less_mult mult.commute w(1) assms(1))
  then have fuel: "?W - 0 < fuel" using assms(4) by simp
  have q: "\<forall>c \<in> set ?ring. 0 < ring_quantum c" using wd(1) by (simp add: drr_widths_def)
  have "ring_credited ?ds ?ring 0 ?ds" by (simp add: ring_credited_def visits_below_def)
  with ring_walk_winner [OF _ dist q w, of 0 ?ds fuel] fuel assms(1)
  obtain ds' where ds': "ring_credited ?ds ?ring (Suc ?W) ds'"
    "ring_walk fuel 0 ?ring ?ds = Some (ds'(cand_class (?ring ! w) := ds' (cand_class (?ring ! w)) - ring_cost (?ring ! w)),
       cand_class (?ring ! w))" by auto
  have "class_deficit (fst (drr_walk s pool)) (cand_class (?ring ! j)) =
      (ds'(cand_class (?ring ! w) := ds' (cand_class (?ring ! w)) - ring_cost (?ring ! w))) (cand_class (?ring ! j))"
    if j: "j < length ?ring" for j
  proof -
    have "cand_class (?ring ! j) = cand_class (?ring ! w) \<longleftrightarrow> j = w"
      using dist j w by (simp add: distinct_conv_nth) metis
    moreover have "class_deficit (s\<lparr>gs_drr_ring_visits := v\<rparr>) = ?ds" by (simp add: fun_eq_iff class_deficit_def)
    ultimately show ?thesis using ring_served_deficit [OF plan dist wd(2) w(1) j] ds'(1) j
      by (simp add: walk ring_credited_def)
  qed
  moreover have "set pool = (!) ?ring ` {..<length ?ring}" by (metis set_rotate list.set_map map_nth set_upt atLeast0LessThan)
  ultimately show ?thesis using ds'(2) walk by auto
qed

section \<open>What the scheduler promises\<close>

text \<open>C23: The scheduler is work conserving: it selects nothing only when no queued request of any configured
  class both fits the free capacity and has no earlier conflicting request.\<close>

theorem select_work_conserving:
  "snd (select s ps) \<noteq> None \<longleftrightarrow>
     (\<exists>cl cs policy r. fmlookup (gs_classes s) cl = Some cs \<and> policy_class ps cl = Some policy
        \<and> r \<in> set (cs_queue cs) \<and> \<not> has_queued_predecessor cs r
        \<and> fits s ps (pr_class r) (max_inflight policy) (pr_cost r) (pr_capabilities r))"
  unfolding ready.pick_iff has_runnable_iff runnable_request_iff by blast

text \<open>C24: What the scheduler selects is runnable (it fits and nothing earlier that conflicts is queued), is
  the first runnable request of its class, and is best-effort work only when no other class has runnable
  work. The choice leaves the custody part of the state as it was.\<close>

theorem select_sound:
  assumes "select s ps = (s', Some sel)"
  shows "\<exists>cs policy. fmlookup (gs_classes s) (sel_class sel) = Some cs \<and> policy_class ps (sel_class sel) = Some policy
        \<and> sel_queue_index sel < length (cs_queue cs)
        \<and> runnable_request s ps cs policy (cs_queue cs ! sel_queue_index sel)
        \<and> (\<forall>j < sel_queue_index sel. \<not> runnable_request s ps cs policy (cs_queue cs ! j))
        \<and> (best_effort policy \<longrightarrow> (\<forall>c \<in> set (runnable_candidates s ps). cand_best_effort c))
        \<and> sched_eq s s'"
  using select_runnable [OF assms] sched_eq_select [OF assms] by blast

text \<open>C25: Under every discipline with a key, the selected class carries the least key of the contended pool
  of runnable classes: arrival order, then virtual finish tag, or deadline.\<close>

theorem select_least_key:
  assumes "select s ps = (s', Some sel)"
    and "c' \<in> set (contended_pool (runnable_candidates s ps))"
    and "discipline_key (cand_fairness (hd (contended_pool (runnable_candidates s ps)))) c' = Some k'"
  shows "\<exists>c k. c \<in> set (contended_pool (runnable_candidates s ps)) \<and> cand_class c = sel_class sel
    \<and> discipline_key (cand_fairness (hd (contended_pool (runnable_candidates s ps)))) c = Some k \<and> k \<le> k'"
proof -
  have "runnable_candidates s ps \<noteq> []" using select_None_iff [of s ps] assms(1) by (simp add: has_runnable_def)
  then have "snd (choose_class s (cand_fairness (hd (contended_pool (runnable_candidates s ps))))
      (contended_pool (runnable_candidates s ps))) = Some (sel_class sel)"
    by (rule select_Some_intro) (use assms(1) in auto)
  then show ?thesis using assms(2,3) by (intro choose_class_least) auto
qed

text \<open>Every accepted weight counts: the virtual-time increment is positive, and a larger weight always has
  a strictly smaller increment, so no two weights up to \<open>u32::MAX\<close> are ever equalised by the division.\<close>

theorem wfq_increment_separates_weights:
  assumes "0 < v" "v < w" "w \<le> u32_max"
  shows "0 < wfq_increment cost w \<and> wfq_increment cost w < wfq_increment cost v"
proof -
  have "0 < (max cost 1 * 2 ^ 64) div w"
  proof -
    have "w \<le> 1 * 2 ^ 64" using assms by (simp add: u32_max_def)
    also have "\<dots> \<le> max cost 1 * 2 ^ 64" by (intro mult_le_mono) simp_all
    finally show ?thesis using assms by (simp add: div_greater_zero_iff)
  qed
  moreover have "(max cost 1 * 2 ^ 64) div w < (max cost 1 * 2 ^ 64) div v"
    using assms by (intro weighted_fair_increment_gap) (simp_all add: u32_max_def)
  ultimately show ?thesis using assms by (simp add: wfq_increment_def WFQ_SCALE_def max_def)
qed

theorem wfq_increment_separates_weights_witness:
  "0 < wfq_increment 1 u32_max \<and> wfq_increment 1 u32_max < wfq_increment 1 (u32_max - 1)"
  by (rule wfq_increment_separates_weights) (simp_all add: u32_max_def)

section \<open>A concrete state\<close>

definition sample_policies :: "FairnessPolicy \<Rightarrow> PolicySet" where
  "sample_policies f =
     \<lparr>ps_resources = \<lparr>max_cpu_units = 4, max_memory_units = 0, per_request_max_cpu_units = 2,
        per_request_max_memory_units = 0, memory_unit_scale = MemoryUnitScale_default\<rparr>,
      ps_classes = fmap_of_list
        [(lit ''api'', ClassPolicy_default\<lparr>max_inflight := 2, max_queue_depth := 4, fairness := f,
            overflow_policy := QueueWithinDepth\<rparr>),
         (lit ''web'', ClassPolicy_default\<lparr>max_inflight := 2, max_queue_depth := 4, fairness := f,
            overflow_policy := QueueWithinDepth\<rparr>)],
      ps_substrates = fmempty,
      ps_capabilities = fmap_of_list [(CapabilityId (lit ''gpu'') 0, \<lparr>cap_id = CapabilityId (lit ''gpu'') 0, cap_capacity = Bounded 1\<rparr>)],
      ps_capability_authority = 0\<rparr>"

definition sample_state :: GovernedState where
  "sample_state = GovernedState_default\<lparr>gs_classes := fmap_of_list
     [(lit ''api'', class_push (sample_pending 4 (lit ''api'') []) ClassState_default), (lit ''web'', sample_class)]\<rparr>"

abbreviation sample_selection :: Selection where
  "sample_selection \<equiv> \<lparr>sel_class = lit ''web'', sel_queue_index = 0, sel_service_finish_tag = 0\<rparr>"

definition sample_pool :: "Candidate list" where
  "sample_pool = contended_pool (runnable_candidates sample_state (sample_policies Fifo))"

lemma sample_select:
  obtains s' where "select sample_state (sample_policies Fifo) = (s', Some sample_selection)"
proof -
  have "snd (select sample_state (sample_policies Fifo)) = Some sample_selection" by code_simp
  then have "select sample_state (sample_policies Fifo) =
      (fst (select sample_state (sample_policies Fifo)), Some sample_selection)"
    by (simp only: prod_eq_iff fst_conv snd_conv)
  then show thesis by (rule that)
qed

theorem select_sound_witness:
  "\<exists>s' cs policy. select sample_state (sample_policies Fifo) = (s', Some sample_selection)
     \<and> fmlookup (gs_classes sample_state) (lit ''web'') = Some cs
     \<and> runnable_request sample_state (sample_policies Fifo) cs policy (cs_queue cs ! 0)
     \<and> sched_eq sample_state s'"
proof -
  obtain s' where s': "select sample_state (sample_policies Fifo) = (s', Some sample_selection)" by (rule sample_select)
  from select_sound [OF this] show ?thesis using s' by auto
qed

theorem select_least_key_witness:
  "\<exists>s' c k. select sample_state (sample_policies Fifo) = (s', Some sample_selection)
     \<and> c \<in> set sample_pool \<and> cand_class c = lit ''web'' \<and> discipline_key Fifo c = Some k \<and> k \<le> (0, 4)"
proof -
  obtain s' where s': "select sample_state (sample_policies Fifo) = (s', Some sample_selection)" by (rule sample_select)
  have hd: "cand_fairness (hd sample_pool) = Fifo" by code_simp
  have "sample_pool ! 0 \<in> set sample_pool \<and> discipline_key Fifo (sample_pool ! 0) = Some (0, 4)" by code_simp
  with select_least_key [OF s', of "sample_pool ! 0" "(0, 4)"] s' hd show ?thesis unfolding sample_pool_def by auto
qed

theorem drr_walk_equals_ring_walk_witness:
  "\<exists>ds cl. ring_walk (length sample_pool * 2 ^ 32) 0
        (rotate (drr_start (gs_drr_cursor sample_state) sample_pool) sample_pool) (class_deficit sample_state) = Some (ds, cl)
    \<and> snd (drr_walk sample_state sample_pool) = Some cl
    \<and> (\<forall>c \<in> set sample_pool. class_deficit (fst (drr_walk sample_state sample_pool)) (cand_class c) = ds (cand_class c))"
proof (rule drr_walk_equals_ring_walk)
  show "sample_pool \<noteq> []" "distinct (map cand_class sample_pool)" "drr_widths sample_state sample_pool" by code_simp+
qed simp

end
