(* ===== verification/TM_Admission.thy ===== *)
theory TM_Admission
  imports TM_Selection
begin

text \<open>
  \<^verbatim>\<open>features/admission/mod.rs\<close>: the decision that turns a task into an admitted permit, a queued ticket or
  a refusal, inside one critical section. The effect list carries the host wakers the caller retires
  outside the lock. A degrade to the fallback class happens at most once, which is the termination
  measure of \<open>admit_class\<close>.
\<close>

section \<open>Pure rules\<close>

definition resolve_cost :: "ClassPolicy \<Rightarrow> ResolvedCost" where
  "resolve_cost policy =
     \<lparr>rc_cpu_units = pc_cpu_units (permit_cost policy), rc_memory_units = pc_memory_units (permit_cost policy)\<rparr>"

fun verdict_for_block :: "CapacityBlock \<Rightarrow> nat option \<Rightarrow> AdmissionVerdict" where
  "verdict_for_block BlockMemory r = MemorySaturated r"
| "verdict_for_block BlockCapability r = SubstrateSaturated r"
| "verdict_for_block BlockAccountingFault r = RuntimeUnavailable"
| "verdict_for_block BlockInflight r = CpuSaturated r"
| "verdict_for_block BlockCpu r = CpuSaturated r"
| "verdict_for_block BlockQueuedBehind r = CpuSaturated r"
| "verdict_for_block BlockOk r = CpuSaturated r"

record Ids =
  ids_permit_id :: PermitId
  ids_ticket :: Ticket
  ids_seq_no :: Seq

record AdmissionRequest =
  req_spec :: TaskSpec
  req_capabilities :: CapabilityRequirementSet

definition class_can_queue :: "ClassPolicy \<Rightarrow> bool" where
  "class_can_queue policy \<longleftrightarrow>
     is_queueable (overflow_policy policy) \<or> memory_overcommit_policy policy = MemQueue"

definition admission_retry :: "ClassPolicy \<Rightarrow> GovernedState \<Rightarrow> TaskClass \<Rightarrow> nat option" where
  "admission_retry policy s cl =
     retry_after (retry_after_policy policy) (fairness policy) (queued s cl) (inflight s cl)"

section \<open>The admission transition\<close>

type_synonym admission = "(GovernedState \<times> TransitionEffects) \<times> AdmissionDecision"

definition refuse :: "waker option \<Rightarrow> AdmissionVerdict \<Rightarrow> GovernedState \<Rightarrow> TransitionEffects \<Rightarrow> admission" where
  "refuse w verdict s e = ((s, retire w e), DecRejected verdict)"

definition enqueue_or_full ::
  "ClassPolicy \<Rightarrow> TaskClass \<Rightarrow> AdmissionRequest \<Rightarrow> waker option \<Rightarrow> Ids \<Rightarrow> nat \<Rightarrow> CapacityBlock
     \<Rightarrow> GovernedState \<Rightarrow> TransitionEffects \<Rightarrow> admission" where
  "enqueue_or_full policy cl req w ids now_ms blocked_on s e =
     (let spec = req_spec req in
      if max_queue_depth policy \<le> queued s cl
      then
        let r = admission_retry policy s cl in
        refuse w (case blocked_on of
                    BlockMemory \<Rightarrow> MemorySaturated r
                  | BlockCapability \<Rightarrow> SubstrateSaturated r
                  | _ \<Rightarrow> QueueFull r) s e
      else
        let cost = resolve_cost policy;
            stage = target_stage spec;
            parent = parent_permit_for_scope s (spec_root_operation_id spec) (spec_scope spec);
            (s, finish_tag, arrival_tag, deadline_ms) = enqueue_tags cl policy (rc_cpu_units cost) now_ms s;
            s = enqueue
              \<lparr>pr_permit_id = ids_permit_id ids, pr_ticket = ids_ticket ids, pr_seq_no = ids_seq_no ids,
               pr_queue_order = 0, pr_class = cl, pr_request_key = spec_root_operation_id spec,
               pr_operation = spec_operation spec, pr_root_operation_id = spec_root_operation_id spec,
               pr_scope = spec_scope spec, pr_parent_permit_id = parent, pr_target_stage = stage,
               pr_provenance = Provenance_of spec, pr_cost = cost, pr_capabilities = req_capabilities req,
               pr_enqueued_at_ms = now_ms, pr_deadline_ms = deadline_ms, pr_finish_tag = finish_tag,
               pr_wfq_arrival_tag = arrival_tag, pr_blocked_on = blocked_on, pr_waker = w\<rparr> s;
            s = s\<lparr>gs_tickets := fmupd (ids_ticket ids) (TQueued cl) (gs_tickets s)\<rparr>;
            s = (if is_child (spec_scope spec)
                 then occupy_recursion_guard (spec_root_operation_id spec) stage s else s)
        in ((s, e), DecQueued (ids_ticket ids)))"

definition admission_grant :: "TaskClass \<Rightarrow> AdmissionRequest \<Rightarrow> ResolvedCost \<Rightarrow> Ids \<Rightarrow> nat \<Rightarrow> GovernedState \<Rightarrow> GrantRequest" where
  "admission_grant cl req cost ids now_ms s =
     (let spec = req_spec req in
      \<lparr>gr_permit_id = ids_permit_id ids, gr_class = cl, gr_operation = spec_operation spec,
       gr_root_operation_id = spec_root_operation_id spec, gr_scope = spec_scope spec,
       gr_parent_permit_id = parent_permit_for_scope s (spec_root_operation_id spec) (spec_scope spec),
       gr_target_stage = target_stage spec, gr_provenance = Provenance_of spec,
       gr_capabilities = req_capabilities req, gr_cost = cost, gr_reserved_units = rc_memory_units cost,
       gr_now_ms = now_ms, gr_pending_ticket = None, gr_claim_waker = None\<rparr>)"

definition queued_ahead :: "GovernedState \<Rightarrow> ClassPolicy \<Rightarrow> TaskClass \<Rightarrow> CapabilityRequirementSet \<Rightarrow> bool" where
  "queued_ahead s policy cl caps \<longleftrightarrow>
     (case fmlookup (gs_classes s) cl of None \<Rightarrow> False | Some cs \<Rightarrow> has_queued_domain cs caps)
     \<or> (gs_promotion_pending s \<and> class_can_queue policy \<and> queued s cl = 0)"

definition accounting_fault_text :: string where
  "accounting_fault_text = ''capacity aggregate is not representable''"

function admit_class ::
  "PolicySet \<Rightarrow> nat \<Rightarrow> AdmissionRequest \<Rightarrow> TaskClass \<Rightarrow> waker option \<Rightarrow> Ids \<Rightarrow> bool
     \<Rightarrow> GovernedState \<Rightarrow> TransitionEffects \<Rightarrow> admission" where
  "admit_class ps now_ms req cl w ids degrade_allowed s e =
     (let spec = req_spec req in
      case policy_class ps cl of
        None \<Rightarrow> refuse w (UnknownClass cl) s e
      | Some policy \<Rightarrow>
          if is_disabled policy then refuse w ClassDisabled s e
          else if has_operation_identity s (spec_root_operation_id spec) (spec_operation spec)
          then refuse w RecursiveAdmission s e
          else if is_recursive s spec then refuse w RecursiveAdmission s e
          else
            let cost = resolve_cost policy;
                queued_behind = queued_ahead s policy cl (req_capabilities req);
                memory_fallback = (case memory_overcommit_policy policy of
                   DegradeToLight fallback \<Rightarrow> if degrade_allowed then Some fallback else None
                 | _ \<Rightarrow> None)
            in case assess s ps spec cl (max_inflight policy) cost (req_capabilities req) queued_behind of
                 Runnable \<Rightarrow>
                   ((grant (admission_grant cl req cost ids now_ms s) s, retire w e),
                    DecAdmitted (ids_permit_id ids))
               | WaitCycle witness \<Rightarrow>
                   (case (if MemoryBudget \<in> set (cw_held witness) then memory_fallback else None) of
                      Some fallback \<Rightarrow> admit_class ps now_ms req fallback w ids False s e
                    | None \<Rightarrow> refuse w (NestedWaitCycle (hd (cw_held witness))) s e)
               | ReversiblyBlocked blockers \<Rightarrow>
                   let block = blockers_primary blockers in
                   (case block of
                      BlockOk \<Rightarrow>
                        ((grant (admission_grant cl req cost ids now_ms s) s, retire w e),
                         DecAdmitted (ids_permit_id ids))
                    | BlockAccountingFault \<Rightarrow>
                        refuse w RuntimeUnavailable (record_accounting_fault accounting_fault_text s) e
                    | BlockQueuedBehind \<Rightarrow> enqueue_or_full policy cl req w ids now_ms block s e
                    | BlockMemory \<Rightarrow>
                        (case memory_fallback of
                           Some fallback \<Rightarrow> admit_class ps now_ms req fallback w ids False s e
                         | None \<Rightarrow>
                             if memory_overcommit_policy policy = MemQueue
                             then enqueue_or_full policy cl req w ids now_ms block s e
                             else refuse w (MemorySaturated (admission_retry policy s cl)) s e)
                    | _ \<Rightarrow>
                        if is_queueable (overflow_policy policy)
                        then enqueue_or_full policy cl req w ids now_ms block s e
                        else refuse w (verdict_for_block block (admission_retry policy s cl)) s e))"
  by pat_completeness auto

termination
  by (relation "measure (\<lambda>(ps, now, req, cl, w, ids, degrade, s, e). of_bool degrade)")
     (auto split: MemoryOvercommitPolicy.splits if_splits)

declare admit_class.simps [simp del]

definition admit ::
  "PolicySet \<Rightarrow> nat \<Rightarrow> AdmissionRequest \<Rightarrow> waker option \<Rightarrow> Ids \<Rightarrow> GovernedState \<Rightarrow> TransitionEffects \<Rightarrow> admission" where
  "admit ps now_ms req w ids s e =
     (if gs_admission_closed s then refuse w RuntimeUnavailable s e
      else admit_class ps now_ms req (spec_class (req_spec req)) w ids True s e)"

section \<open>The three outcomes\<close>

text \<open>Every admission refuses (and touches at most the sticky accounting fault), grants in a class where the
  request fits and nothing conflicting is queued, or queues within the depth of a class.\<close>

definition may_enter :: "PolicySet \<Rightarrow> AdmissionRequest \<Rightarrow> TaskClass \<Rightarrow> ClassPolicy \<Rightarrow> GovernedState \<Rightarrow> bool" where
  "may_enter ps req cl policy s \<longleftrightarrow>
     policy_class ps cl = Some policy \<and> \<not> is_disabled policy
     \<and> \<not> has_operation_identity s (spec_root_operation_id (req_spec req)) (spec_operation (req_spec req))
     \<and> \<not> is_recursive s (req_spec req)"

definition admission_refused :: "waker option \<Rightarrow> GovernedState \<Rightarrow> TransitionEffects \<Rightarrow> admission \<Rightarrow> bool" where
  "admission_refused w s e out \<longleftrightarrow>
     (\<exists>v. out = ((s, retire w e), DecRejected v)
        \<or> out = ((record_accounting_fault accounting_fault_text s, retire w e), DecRejected v))"

definition admission_granted ::
  "PolicySet \<Rightarrow> nat \<Rightarrow> AdmissionRequest \<Rightarrow> waker option \<Rightarrow> Ids \<Rightarrow> GovernedState \<Rightarrow> TransitionEffects \<Rightarrow> admission \<Rightarrow> bool" where
  "admission_granted ps now_ms req w ids s e out \<longleftrightarrow>
     (\<exists>cl policy. may_enter ps req cl policy s
        \<and> fits s ps cl (max_inflight policy) (resolve_cost policy) (req_capabilities req)
        \<and> \<not> queued_ahead s policy cl (req_capabilities req)
        \<and> out = ((grant (admission_grant cl req (resolve_cost policy) ids now_ms s) s, retire w e),
                 DecAdmitted (ids_permit_id ids)))"

definition admission_queued ::
  "PolicySet \<Rightarrow> nat \<Rightarrow> AdmissionRequest \<Rightarrow> waker option \<Rightarrow> Ids \<Rightarrow> GovernedState \<Rightarrow> TransitionEffects \<Rightarrow> admission \<Rightarrow> bool" where
  "admission_queued ps now_ms req w ids s e out \<longleftrightarrow>
     (\<exists>cl policy b. may_enter ps req cl policy s \<and> queued s cl < max_queue_depth policy
        \<and> \<not> (fits s ps cl (max_inflight policy) (resolve_cost policy) (req_capabilities req)
             \<and> \<not> queued_ahead s policy cl (req_capabilities req))
        \<and> out = enqueue_or_full policy cl req w ids now_ms b s e)"

definition admission_outcome ::
  "PolicySet \<Rightarrow> nat \<Rightarrow> AdmissionRequest \<Rightarrow> waker option \<Rightarrow> Ids \<Rightarrow> GovernedState \<Rightarrow> TransitionEffects \<Rightarrow> admission \<Rightarrow> bool" where
  "admission_outcome ps now_ms req w ids s e out \<longleftrightarrow>
     admission_refused w s e out \<or> admission_granted ps now_ms req w ids s e out
     \<or> admission_queued ps now_ms req w ids s e out"

lemma blockers_primary_not_ok: "\<not> blockers_empty b \<Longrightarrow> blockers_primary b \<noteq> BlockOk"
  by (auto simp: blockers_empty_def blockers_primary_def)

lemma assess_blocked:
  assumes "assess s ps spec cl m cost caps qb = ReversiblyBlocked b"
  shows "blockers_primary b \<noteq> BlockOk" and "\<not> (fits s ps cl m cost caps \<and> \<not> qb)"
proof -
  have "\<not> blockers_empty b" using assms
    by (auto simp: assess_def assess_scope_def Let_def split: if_splits option.splits)
  then show "blockers_primary b \<noteq> BlockOk" by (rule blockers_primary_not_ok)
  show "\<not> (fits s ps cl m cost caps \<and> \<not> qb)" using assess_Runnable [of s ps spec cl m cost caps qb] assms by auto
qed

text \<open>The \<open>expect\<close> on the witness of a wait cycle never fails.\<close>

lemma assess_cycle_held:
  assumes "assess s ps spec cl m cost caps qb = WaitCycle w"
  shows "cw_held w \<noteq> []"
proof -
  have "\<exists>b. cycle_witness s ps (spec_root_operation_id spec) (spec_scope spec) None cl b = Some w"
    using assms by (auto simp: assess_def assess_scope_def Let_def split: if_splits option.splits)
  then obtain b where c: "cycle_witness s ps (spec_root_operation_id spec) (spec_scope spec) None cl b = Some w" by blast
  have held: "(let held = H in if held \<noteq> [] then Some \<lparr>cw_parent_operation_id = p, cw_held = held\<rparr> else None) = Some w
      \<Longrightarrow> cw_held w \<noteq> []" for H p
    by (auto simp: Let_def split: if_splits)
  show ?thesis using c unfolding cycle_witness_def
    by (auto simp only: bind_eq_Some_conv held split: TaskScope.splits bool.splits dest!: held)
qed

lemma refuse_outcome [simp]:
  "admission_outcome ps now_ms req w ids s e (refuse w v s e)"
  "admission_outcome ps now_ms req w ids s e (refuse w v (record_accounting_fault accounting_fault_text s) e)"
  by (auto simp: admission_outcome_def admission_refused_def refuse_def)

lemma enqueue_or_full_outcome:
  assumes "may_enter ps req cl policy s"
    and "\<not> (fits s ps cl (max_inflight policy) (resolve_cost policy) (req_capabilities req)
      \<and> \<not> queued_ahead s policy cl (req_capabilities req))"
  shows "admission_outcome ps now_ms req w ids s e (enqueue_or_full policy cl req w ids now_ms b s e)"
proof (cases "max_queue_depth policy \<le> queued s cl")
  case True
  then show ?thesis by (simp add: enqueue_or_full_def Let_def)
next
  case False
  then show ?thesis using assms unfolding admission_outcome_def admission_queued_def by fastforce
qed

lemma admit_class_entered:
  assumes "may_enter ps req cl policy s"
  shows "admit_class ps now_ms req cl w ids dg s e =
    (let cost = resolve_cost policy;
         fallback = (case memory_overcommit_policy policy of
             DegradeToLight fb \<Rightarrow> if dg then Some fb else None | _ \<Rightarrow> None)
     in case assess s ps (req_spec req) cl (max_inflight policy) cost (req_capabilities req)
            (queued_ahead s policy cl (req_capabilities req)) of
          Runnable \<Rightarrow> ((grant (admission_grant cl req cost ids now_ms s) s, retire w e), DecAdmitted (ids_permit_id ids))
        | WaitCycle c \<Rightarrow>
            (case (if MemoryBudget \<in> set (cw_held c) then fallback else None) of
               Some fb \<Rightarrow> admit_class ps now_ms req fb w ids False s e
             | None \<Rightarrow> refuse w (NestedWaitCycle (hd (cw_held c))) s e)
        | ReversiblyBlocked b \<Rightarrow>
            (case blockers_primary b of
               BlockOk \<Rightarrow>
                 ((grant (admission_grant cl req cost ids now_ms s) s, retire w e), DecAdmitted (ids_permit_id ids))
             | BlockAccountingFault \<Rightarrow> refuse w RuntimeUnavailable (record_accounting_fault accounting_fault_text s) e
             | BlockQueuedBehind \<Rightarrow> enqueue_or_full policy cl req w ids now_ms BlockQueuedBehind s e
             | BlockMemory \<Rightarrow>
                 (case fallback of
                    Some fb \<Rightarrow> admit_class ps now_ms req fb w ids False s e
                  | None \<Rightarrow> if memory_overcommit_policy policy = MemQueue
                            then enqueue_or_full policy cl req w ids now_ms BlockMemory s e
                            else refuse w (MemorySaturated (admission_retry policy s cl)) s e)
             | block \<Rightarrow>
                 if is_queueable (overflow_policy policy)
                 then enqueue_or_full policy cl req w ids now_ms block s e
                 else refuse w (verdict_for_block block (admission_retry policy s cl)) s e))"
  using assms unfolding may_enter_def
  by (subst admit_class.simps) (simp add: Let_def split: CapacityBlock.split CapacityAssessment.split)

lemma admit_class_outside:
  assumes "\<nexists>policy. may_enter ps req cl policy s"
  shows "admission_outcome ps now_ms req w ids s e (admit_class ps now_ms req cl w ids dg s e)"
  using assms by (subst admit_class.simps) (auto simp: may_enter_def Let_def split: option.splits)

lemma admit_class_outcome:
  "admission_outcome ps now_ms req w ids s e (admit_class ps now_ms req cl w ids dg s e)"
  (is "?P cl dg")
proof (induction "of_bool dg :: nat" arbitrary: cl dg rule: less_induct)
  case less
  have IH: "?P fb False" if "dg" for fb using less [of False fb] that by simp
  let ?A = "admit_class ps now_ms req cl w ids dg s e"
  show ?case
  proof (cases "\<exists>policy. may_enter ps req cl policy s")
    case False
    then show ?thesis using admit_class_outside by blast
  next
    case True
    then obtain policy where me: "may_enter ps req cl policy s" by blast
    note A = admit_class_entered [OF me, of now_ms w ids dg e, unfolded Let_def]
    note enq = enqueue_or_full_outcome [OF me]
    let ?qb = "queued_ahead s policy cl (req_capabilities req)"
    let ?fb = "case memory_overcommit_policy policy of DegradeToLight fb \<Rightarrow> if dg then Some fb else None | _ \<Rightarrow> None"
    have fb: "?fb = Some x \<Longrightarrow> ?P x False" for x using IH by (simp split: MemoryOvercommitPolicy.splits if_splits)
    show ?thesis
    proof (cases "assess s ps (req_spec req) cl (max_inflight policy) (resolve_cost policy) (req_capabilities req) ?qb")
      case Runnable
      then have "fits s ps cl (max_inflight policy) (resolve_cost policy) (req_capabilities req)" "\<not> ?qb"
        by (simp_all add: assess_Runnable)
      then have "admission_granted ps now_ms req w ids s e ?A"
        unfolding admission_granted_def A using me Runnable by fastforce
      then show ?thesis by (simp add: admission_outcome_def)
    next
      case (WaitCycle c)
      show ?thesis
      proof (cases "if MemoryBudget \<in> set (cw_held c) then ?fb else None")
        case None
        then show ?thesis unfolding A WaitCycle CapacityAssessment.case None option.case by simp
      next
        case (Some x)
        then have "?P x False" using fb by (metis option.distinct(1))
        then show ?thesis unfolding A WaitCycle CapacityAssessment.case Some option.case .
      qed
    next
      case (ReversiblyBlocked b)
      note nb = assess_blocked [OF ReversiblyBlocked]
      show ?thesis unfolding A ReversiblyBlocked CapacityAssessment.case
        using nb(1) enq [OF nb(2)] fb by (cases "blockers_primary b") (simp_all split: option.split)
    qed
  qed
qed

section \<open>Admission keeps the invariant\<close>

definition ids_fresh :: "Ids \<Rightarrow> GovernedState \<Rightarrow> bool" where
  "ids_fresh ids s \<longleftrightarrow>
     ids_permit_id ids \<notin> Range (occupants pid_p pid_q (gs_permits s) (queues s))
     \<and> fmlookup (gs_tickets s) (ids_ticket ids) = None
     \<and> (\<forall>cl. \<forall>r \<in> set (queues s cl). pr_seq_no r \<noteq> ids_seq_no ids)"

lemma target_stage_child: "is_child (spec_scope spec) \<Longrightarrow> \<exists>p aw. spec_scope spec = Child p (target_stage spec) aw"
  by (cases "spec_scope spec") (simp_all add: target_stage_def)

lemma may_enter_free:
  assumes inv: "gov_inv n s" and me: "may_enter ps req cl policy s"
  shows "(spec_root_operation_id (req_spec req), spec_operation (req_spec req))
      \<notin> Range (occupants ident_p ident_q (gs_permits s) (queues s))"
    and "is_child (spec_scope (req_spec req)) \<Longrightarrow>
      (spec_root_operation_id (req_spec req), target_stage (req_spec req))
        \<notin> Range (occupants guard_p guard_q (gs_permits s) (queues s))"
proof -
  have co: "core n s" and g: "guard_inv s" using inv by (simp_all add: gov_inv_def)
  show "(spec_root_operation_id (req_spec req), spec_operation (req_spec req))
      \<notin> Range (occupants ident_p ident_q (gs_permits s) (queues s))"
    using has_operation_identity_iff [OF coreD(4) [OF co]] me by (simp add: may_enter_def)
  assume "is_child (spec_scope (req_spec req))"
  then have "target_stage (req_spec req) \<notin> fmget (gs_active_recursion s) {} (spec_root_operation_id (req_spec req))"
    using target_stage_child me by (fastforce simp: may_enter_def is_recursive_def fmget_def split: option.splits)
  then show "(spec_root_operation_id (req_spec req), target_stage (req_spec req))
      \<notin> Range (occupants guard_p guard_q (gs_permits s) (queues s))"
    using g by (simp add: guard_ok_def)
qed

lemma gov_inv_admission_queued:
  assumes inv: "gov_inv n s" and n: "n + 1 < u64_max" and fresh: "ids_fresh ids s"
    and caps: "distinct (req_capabilities req)"
    and out: "admission_queued ps now_ms req w ids s e ((s', e'), d)"
  shows "gov_inv (n + 1) s' \<and> d = DecQueued (ids_ticket ids) \<and> e' = e"
proof -
  obtain cl policy b where me: "may_enter ps req cl policy s" and depth: "queued s cl < max_queue_depth policy"
    and eq: "enqueue_or_full policy cl req w ids now_ms b s e = ((s', e'), d)"
    using out by (auto simp: admission_queued_def)
  obtain s0 ft wt dl where tags: "enqueue_tags cl policy (rc_cpu_units (resolve_cost policy)) now_ms s = (s0, ft, wt, dl)"
    by (metis prod_cases4)
  note sq = sched_eq_enqueue_tags [OF tags]
  have inv0: "gov_inv n s0" by (rule gov_inv_sched [OF inv sq])
  have same: "gs_permits s0 = gs_permits s" "gs_tickets s0 = gs_tickets s" "queues s0 = queues s"
    using sq sched_eq_queues [OF sq] by (simp_all add: sched_eq_def)
  define r where "r = \<lparr>pr_permit_id = ids_permit_id ids, pr_ticket = ids_ticket ids, pr_seq_no = ids_seq_no ids,
      pr_queue_order = 0, pr_class = cl, pr_request_key = spec_root_operation_id (req_spec req),
      pr_operation = spec_operation (req_spec req), pr_root_operation_id = spec_root_operation_id (req_spec req),
      pr_scope = spec_scope (req_spec req),
      pr_parent_permit_id = parent_permit_for_scope s (spec_root_operation_id (req_spec req)) (spec_scope (req_spec req)),
      pr_target_stage = target_stage (req_spec req), pr_provenance = Provenance_of (req_spec req),
      pr_cost = resolve_cost policy, pr_capabilities = req_capabilities req,
      pr_enqueued_at_ms = now_ms, pr_deadline_ms = dl, pr_finish_tag = ft,
      pr_wfq_arrival_tag = wt, pr_blocked_on = b, pr_waker = w\<rparr>"
  define s1 where "s1 = (enqueue r s0)\<lparr>gs_tickets := fmupd (pr_ticket r) (TQueued (pr_class r)) (gs_tickets s0)\<rparr>"
  have res: "s' = (if is_child (pr_scope r)
      then occupy_recursion_guard (pr_root_operation_id r) (pr_target_stage r) s1 else s1)"
    "d = DecQueued (ids_ticket ids)" "e' = e"
    using eq depth by (auto simp: enqueue_or_full_def Let_def tags r_def s1_def split: if_splits)
  have "gov_inv (n + 1) s'" unfolding res(1)
  proof (rule gov_inv_enqueue [OF inv0 n _ _ _ _ _ _ s1_def])
    show "pr_permit_id r \<notin> Range (occupants pid_p pid_q (gs_permits s0) (queues s0))"
      "fmlookup (gs_tickets s0) (pr_ticket r) = None"
      "\<forall>x \<in> set (queues s0 (pr_class r)). pr_seq_no x \<noteq> pr_seq_no r"
      using fresh by (simp_all add: ids_fresh_def same r_def)
    show "(pr_root_operation_id r, pr_operation r) \<notin> Range (occupants ident_p ident_q (gs_permits s0) (queues s0))"
      using may_enter_free(1) [OF inv me] by (simp add: same r_def)
    show "is_child (pr_scope r) \<Longrightarrow> (pr_root_operation_id r, pr_target_stage r)
        \<notin> Range (occupants guard_p guard_q (gs_permits s0) (queues s0))"
      using may_enter_free(2) [OF inv me] by (simp add: same r_def)
  qed (simp add: r_def caps)
  with res show ?thesis by simp
qed

lemma gov_inv_admission_granted:
  assumes inv: "gov_inv n s" and fresh: "ids_fresh ids s" and caps: "distinct (req_capabilities req)"
    and room: "fmsum one (gs_permits s) < u32_max"
    and out: "admission_granted ps now_ms req w ids s e ((s', e'), d)"
  shows "gov_inv n s'"
proof -
  obtain cl policy where me: "may_enter ps req cl policy s"
    and s': "s' = grant (admission_grant cl req (resolve_cost policy) ids now_ms s) s"
    using out by (auto simp: admission_granted_def)
  show ?thesis unfolding s'
    by (rule gov_inv_grant [OF inv])
       (use fresh caps room may_enter_free [OF inv me] in \<open>auto simp: admission_grant_def Let_def ids_fresh_def\<close>)
qed

lemma admit_outcome: "admission_outcome ps now_ms req w ids s e (admit ps now_ms req w ids s e)"
  by (simp add: admit_def admit_class_outcome)

lemma gov_inv_admit:
  assumes inv: "gov_inv n s" and n: "n + 1 < u64_max" and fresh: "ids_fresh ids s"
    and caps: "distinct (req_capabilities req)" and room: "fmsum one (gs_permits s) < u32_max"
    and out: "admit ps now_ms req w ids s e = ((s', e'), d)"
  shows "gov_inv (n + 1) s'"
proof -
  note mono = gov_inv_mono [OF _ le_add1 n]
  from admit_outcome [of ps now_ms req w ids s e, unfolded out admission_outcome_def]
  consider "admission_refused w s e ((s', e'), d)" | "admission_granted ps now_ms req w ids s e ((s', e'), d)"
    | "admission_queued ps now_ms req w ids s e ((s', e'), d)" by blast
  then show ?thesis
  proof cases
    case 1
    then have "gov_inv n s'" using inv by (auto simp: admission_refused_def gov_inv_record_fault)
    then show ?thesis by (rule mono)
  next
    case 2
    then show ?thesis by (rule mono [OF gov_inv_admission_granted [OF inv fresh caps room]])
  next
    case 3
    then show ?thesis using gov_inv_admission_queued [OF inv n fresh caps] by blast
  qed
qed

end
