(* ===== verification/TM_Memory.thy ===== *)
theory TM_Memory
  imports TM_Fairness
begin

text \<open>
  \<^verbatim>\<open>features/memory/mod.rs\<close>: reconciling a permit's memory with a measured reading, releasing part of it at
  a stage boundary, and the sweep for leaked permits. A measurement sequence is the number it wraps. The
  signed difference of two \<open>u32\<close> holdings (an \<open>i64\<close>) is an integer.
\<close>

section \<open>Pure rules\<close>

definition DEFAULT_LEAK_STALE_MS :: nat where
  "DEFAULT_LEAK_STALE_MS = 60000"

type_synonym MeasurementSequence = nat

datatype ReconcileOutcome =
    Applied (held_units: nat)
  | ReconcileUnknownPermit
  | StaleEpoch nat
  | EpochExhausted nat
  | ConversionFailed ResourceConversionError

definition is_applied :: "ReconcileOutcome \<Rightarrow> bool" where
  "is_applied out \<longleftrightarrow> (case out of Applied _ \<Rightarrow> True | _ \<Rightarrow> False)"

definition checked_next :: "MeasurementSequence \<Rightarrow> (ReconcileOutcome, MeasurementSequence) result" where
  "checked_next sq = (case checked_add u64_max sq 1 of Some n \<Rightarrow> Inr n | None \<Rightarrow> Inl (EpochExhausted sq))"

fun effective_units ::
  "MemoryPermitMode \<Rightarrow> nat \<Rightarrow> nat \<Rightarrow> MemoryUnitScale \<Rightarrow> (ResourceConversionError, nat) result" where
  "effective_units Estimated remaining measured scale = Inr remaining"
| "effective_units Measured remaining measured scale = units_for scale measured"
| "effective_units Hybrid remaining measured scale =
     and_then (units_for scale measured) (\<lambda>u. Inr (max remaining u))"

definition is_stale :: "nat \<Rightarrow> nat \<Rightarrow> nat \<Rightarrow> bool" where
  "is_stale last_touched_ms now_ms stale_after_ms \<longleftrightarrow>
     saturating_add u64_max last_touched_ms stale_after_ms < now_ms"

fun stage_release_allowed :: "MemoryReleasePolicy \<Rightarrow> bool" where
  "stage_release_allowed OnTaskCompletion = False"
| "stage_release_allowed OnStageBoundary = True"
| "stage_release_allowed LeakDetecting = True"

section \<open>Applying a difference to every ledger\<close>

text \<open>The new holding and whether it would have underflowed.\<close>

definition shift_units :: "int \<Rightarrow> nat \<Rightarrow> nat \<times> bool" where
  "shift_units delta held =
     (if 0 \<le> delta then (held + nat delta, False)
      else case checked_sub held (nat (- delta)) of Some n \<Rightarrow> (n, False) | None \<Rightarrow> (held, True))"

definition shift_total :: "int \<Rightarrow> GovernedState \<Rightarrow> GovernedState \<times> bool" where
  "shift_total delta s =
     (let (m, u) = shift_units delta (gs_memory_units_held s) in (s\<lparr>gs_memory_units_held := m\<rparr>, u))"

definition shift_class :: "TaskClass \<Rightarrow> int \<Rightarrow> GovernedState \<Rightarrow> GovernedState \<times> bool" where
  "shift_class cl delta s =
     (case fmlookup (gs_classes s) cl of
        None \<Rightarrow> (s, False)
      | Some cs \<Rightarrow>
          let (m, u) = shift_units delta (cs_memory_units_held cs)
          in (s\<lparr>gs_classes := fmupd cl (cs\<lparr>cs_memory_units_held := m\<rparr>) (gs_classes s)\<rparr>, u))"

definition shift_root :: "str option \<Rightarrow> int \<Rightarrow> GovernedState \<Rightarrow> GovernedState \<times> bool" where
  "shift_root root_id delta s =
     (case Option.bind root_id (\<lambda>i. map_option (Pair i) (fmlookup (gs_roots s) i)) of
        None \<Rightarrow> (s, False)
      | Some (i, root) \<Rightarrow>
          let (m, u) = shift_units delta (root_memory_units root)
          in (s\<lparr>gs_roots := fmupd i (root\<lparr>root_memory_units := m\<rparr>) (gs_roots s)\<rparr>, u))"

definition memory_underflow_text :: string where
  "memory_underflow_text = ''memory release exceeds the units a ledger holds''"

definition apply_memory_delta :: "TaskClass \<Rightarrow> str option \<Rightarrow> int \<Rightarrow> GovernedState \<Rightarrow> GovernedState" where
  "apply_memory_delta cl root_id delta s =
     (let (s, u1) = shift_total delta s;
          (s, u2) = shift_class cl delta s;
          (s, u3) = shift_root root_id delta s
      in if u1 \<or> u2 \<or> u3 then record_accounting_fault memory_underflow_text s else s)"

definition attributed_root :: "PermitRecord \<Rightarrow> str option" where
  "attributed_root r = (if is_child (rec_scope r) then Some (rec_root_operation_id r) else None)"

section \<open>Transitions\<close>

definition memory_conversion_text :: string where
  "memory_conversion_text = ''measured memory exceeds the unit domain''"

definition reconcile ::
  "PermitId \<Rightarrow> nat \<Rightarrow> MeasurementSequence \<Rightarrow> MemoryPermitMode \<Rightarrow> MemoryUnitScale \<Rightarrow> nat \<Rightarrow> GovernedState
     \<Rightarrow> GovernedState \<times> ReconcileOutcome" where
  "reconcile p measured_bytes sq mode scale now_ms s =
     (case fmlookup (gs_permits s) p of
        None \<Rightarrow> (s, ReconcileUnknownPermit)
      | Some r \<Rightarrow>
          let l = rec_ledger r in
          if pl_measurement_sequence l = u64_max then (s, EpochExhausted u64_max)
          else if sq \<le> pl_measurement_sequence l then (s, StaleEpoch (pl_measurement_sequence l))
          else case effective_units mode (pl_remaining_reservation_units l) measured_bytes scale of
            Inl err \<Rightarrow> (record_accounting_fault memory_conversion_text s, ConversionFailed err)
          | Inr new_effective \<Rightarrow>
              let l' = l\<lparr>pl_measured_bytes := measured_bytes, pl_measurement_sequence := sq,
                         pl_effective_units := new_effective,
                         pl_last_touched_ms := max (pl_last_touched_ms l) now_ms\<rparr>;
                  s = s\<lparr>gs_permits := fmupd p (r\<lparr>rec_ledger := l'\<rparr>) (gs_permits s)\<rparr>;
                  s = apply_memory_delta (rec_class r) (attributed_root r)
                        (int new_effective - int (pl_effective_units l)) s
              in (s, Applied new_effective))"

definition release_stage_memory ::
  "PermitId \<Rightarrow> nat \<Rightarrow> MemoryReleasePolicy \<Rightarrow> nat option \<Rightarrow> nat \<Rightarrow> GovernedState
     \<Rightarrow> GovernedState \<times> StageReleaseOutcome" where
  "release_stage_memory p units policy sq now_ms s =
     (if \<not> stage_release_allowed policy then (s, PolicyForbids policy)
      else case fmlookup (gs_permits s) p of
        None \<Rightarrow> (s, StageUnknownPermit)
      | Some r \<Rightarrow>
          let l = rec_ledger r in
          if (case sq of None \<Rightarrow> False | Some q \<Rightarrow> q \<le> pl_stage_sequence l)
          then (s, StaleSequence (pl_stage_sequence l))
          else
            let freed = min units (pl_effective_units l);
                l' = l\<lparr>pl_stage_sequence := (case sq of None \<Rightarrow> pl_stage_sequence l | Some q \<Rightarrow> q),
                       pl_effective_units := pl_effective_units l - freed,
                       pl_remaining_reservation_units :=
                         saturating_sub (pl_remaining_reservation_units l) freed,
                       pl_last_touched_ms := max (pl_last_touched_ms l) now_ms\<rparr>;
                s = s\<lparr>gs_permits := fmupd p (r\<lparr>rec_ledger := l'\<rparr>) (gs_permits s)\<rparr>;
                s = apply_memory_delta (rec_class r) (attributed_root r) (- int freed) s
            in (s, StageReleased freed))"

definition leak_suspect :: "PolicySet \<Rightarrow> nat \<Rightarrow> nat \<Rightarrow> PermitRecord \<Rightarrow> bool" where
  "leak_suspect ps now_ms stale_after_ms r \<longleftrightarrow>
     (case policy_class ps (rec_class r) of None \<Rightarrow> False | Some p \<Rightarrow> memory_release_policy p = LeakDetecting)
     \<and> is_stale (pl_last_touched_ms (rec_ledger r)) now_ms stale_after_ms"

fun reap_each :: "PermitId list \<Rightarrow> GovernedState \<times> TransitionEffects \<Rightarrow> nat \<Rightarrow> (GovernedState \<times> TransitionEffects) \<times> nat" where
  "reap_each [] se n = (se, n)"
| "reap_each (p # ps) se n =
     (let (se', out) = unwind p Reclaimed (fst se) (snd se)
      in reap_each ps se' (if out = None then n else n + 1))"

definition reap_leaks ::
  "PolicySet \<Rightarrow> nat \<Rightarrow> nat \<Rightarrow> GovernedState \<Rightarrow> TransitionEffects \<Rightarrow> (GovernedState \<times> TransitionEffects) \<times> LeakSweepReport" where
  "reap_leaks ps now_ms stale_after_ms s effects =
     (let suspects = filter (leak_suspect ps now_ms stale_after_ms) (bt_values (gs_permits s));
          reclaimable = map rec_permit_id (filter (\<lambda>r. rec_phase r = DispatchReserved) suspects);
          retained = filter (\<lambda>r. rec_phase r \<noteq> DispatchReserved) suspects;
          (se, n) = reap_each reclaimable (s, effects) 0
      in (se, \<lparr>reclaimed_permits = n, suspected_leaks = min u32_max (length suspects),
               retained_active = min u32_max (length retained)\<rparr>))"

section \<open>The ledgers after a difference\<close>

text \<open>The record of a permit whose holding changes to \<open>m\<close>; every ledger moves by the same difference.\<close>

definition same_but_memory :: "PermitRecord \<Rightarrow> PermitRecord \<Rightarrow> bool" where
  "same_but_memory r r' \<longleftrightarrow>
     same_custody r (r'\<lparr>rec_ledger := (rec_ledger r')\<lparr>pl_effective_units := rec_mem r\<rparr>\<rparr>)
     \<and> rec_pending_ticket r' = rec_pending_ticket r"

lemma shift_units_known:
  assumes "a \<le> held"
  shows "shift_units (int b - int a) held = (held + b - a, False)"
  using assms by (auto simp: shift_units_def checked_sub_def nat_diff_distrib' split: option.splits)

lemma fmsum_shift:
  assumes "fmlookup ps p = Some r" "f r' = g r'" "f r = g r"
  shows "fmsum f (fmupd p r' ps) = fmsum f ps + g r' - g r"
  using fmsum_upd_old_eq [OF assms(1), of f r'] assms by simp

lemma known_class:
  assumes "acct_inv s" "fmlookup (gs_permits s) p = Some r"
  obtains cs where "fmlookup (gs_classes s) (rec_class r) = Some cs" "rec_mem r \<le> cs_memory_units_held cs"
proof -
  have ok: "class_ok (rec_class r) (fmget (gs_classes s) ClassState_default (rec_class r)) (gs_permits s)"
    using acct_okD(3) [OF assms(1)] .
  have "1 \<le> cs_inflight (fmget (gs_classes s) ClassState_default (rec_class r))"
    using ok fmsum_ge [OF assms(2), of "owned (rec_class r) one"] by (simp add: class_ok_def owned_def)
  then obtain cs where cs: "fmlookup (gs_classes s) (rec_class r) = Some cs"
    by (cases "fmlookup (gs_classes s) (rec_class r)") (auto simp: fmget_def ClassState_default_def)
  then show thesis
    using ok fmsum_ge [OF assms(2), of "owned (rec_class r) rec_mem"]
    by (intro that [OF cs]) (simp add: class_ok_def owned_def fmget_def)
qed

lemma known_root:
  assumes "roots_inv s" "fmlookup (gs_permits s) p = Some r" "is_child (rec_scope r)"
  obtains x where "fmlookup (gs_roots s) (rec_root_operation_id r) = Some x" "rec_mem r \<le> root_memory_units x"
proof -
  let ?i = "rec_root_operation_id r"
  have ok: "root_ok ?i (fmget (gs_roots s) RootExecutionState_default ?i) (gs_permits s)"
    using assms(1) by (simp add: roots_ok_def)
  have "1 \<le> root_child_inflight (fmget (gs_roots s) RootExecutionState_default ?i)"
    using ok fmsum_ge [OF assms(2), of "attributed ?i one"] assms(3) by (simp add: root_ok_def attributed_def)
  then obtain x where x: "fmlookup (gs_roots s) ?i = Some x"
    by (cases "fmlookup (gs_roots s) ?i") (auto simp: fmget_def RootExecutionState_default_def)
  then show thesis
    using ok fmsum_ge [OF assms(2), of "attributed ?i rec_mem"] assms(3)
    by (intro that [OF x]) (simp add: root_ok_def attributed_def fmget_def)
qed

definition root_shifted :: "PermitRecord \<Rightarrow> nat \<Rightarrow> (str, RootExecutionState) fmap \<Rightarrow> (str, RootExecutionState) fmap" where
  "root_shifted r m roots =
     (if is_child (rec_scope r)
      then let x = fmget roots RootExecutionState_default (rec_root_operation_id r)
           in fmupd (rec_root_operation_id r) (x\<lparr>root_memory_units := root_memory_units x + m - rec_mem r\<rparr>) roots
      else roots)"

definition class_shifted :: "PermitRecord \<Rightarrow> nat \<Rightarrow> ClassState \<Rightarrow> ClassState" where
  "class_shifted r m cs = cs\<lparr>cs_memory_units_held := cs_memory_units_held cs + m - rec_mem r\<rparr>"

definition memory_shifted :: "PermitId \<Rightarrow> PermitRecord \<Rightarrow> PermitRecord \<Rightarrow> GovernedState \<Rightarrow> GovernedState" where
  "memory_shifted p r r' s =
     s\<lparr>gs_permits := fmupd p r' (gs_permits s),
       gs_memory_units_held := gs_memory_units_held s + rec_mem r' - rec_mem r,
       gs_classes := fmupd (rec_class r) (class_shifted r (rec_mem r') (class_view s (rec_class r))) (gs_classes s),
       gs_roots := root_shifted r (rec_mem r') (gs_roots s)\<rparr>"

text \<open>Under the invariant a difference never underflows a ledger, so no accounting fault is recorded.\<close>

lemma apply_memory_delta_known:
  assumes "acct_inv s" "roots_inv s" "fmlookup (gs_permits s) p = Some r"
  shows "apply_memory_delta (rec_class r) (attributed_root r) (int (rec_mem r') - int (rec_mem r))
      (s\<lparr>gs_permits := fmupd p r' (gs_permits s)\<rparr>) = memory_shifted p r r' s"
proof -
  obtain cs where cs: "fmlookup (gs_classes s) (rec_class r) = Some cs" "rec_mem r \<le> cs_memory_units_held cs"
    using known_class [OF assms(1,3)] .
  have mem: "rec_mem r \<le> gs_memory_units_held s"
    using acct_okD(2) [OF assms(1)] fmsum_ge [OF assms(3), of rec_mem] by simp
  note sh = shift_units_known [OF cs(2), of "rec_mem r'"] shift_units_known [OF mem, of "rec_mem r'"]
  show ?thesis
  proof (cases "is_child (rec_scope r)")
    case True
    obtain x where x: "fmlookup (gs_roots s) (rec_root_operation_id r) = Some x" "rec_mem r \<le> root_memory_units x"
      using known_root [OF assms(2,3) True] .
    show ?thesis
      using cs x sh shift_units_known [OF x(2), of "rec_mem r'"] True
      by (simp add: apply_memory_delta_def shift_total_def shift_class_def shift_root_def attributed_root_def
          memory_shifted_def root_shifted_def class_shifted_def class_view_def fmget_def Let_def)
  next
    case False
    then show ?thesis
      using cs sh
      by (simp add: apply_memory_delta_def shift_total_def shift_class_def shift_root_def attributed_root_def
          memory_shifted_def root_shifted_def class_shifted_def class_view_def fmget_def Let_def)
  qed
qed

lemma same_but_memory_keys:
  assumes "same_but_memory r r'"
  shows "ident_p r' = ident_p r" "guard_p r' = guard_p r" "pid_p r' = pid_p r" "rec_class r' = rec_class r"
    "rec_cpu r' = rec_cpu r" "rec_capabilities r' = rec_capabilities r" "rec_phase r' = rec_phase r"
    "rec_lease_nonce r' = rec_lease_nonce r" "rec_permit_id r' = rec_permit_id r"
    "rec_scope r' = rec_scope r" "rec_root_operation_id r' = rec_root_operation_id r"
    "rec_pending_ticket r' = rec_pending_ticket r"
  using assms by (simp_all add: same_but_memory_def same_custody_def ident_p_def guard_p_def pid_p_def)

lemma acct_inv_memory_shifted:
  assumes inv: "acct_inv s" and old: "fmlookup (gs_permits s) p = Some r" and same: "same_but_memory r r'"
  shows "acct_inv (memory_shifted p r r' s)"
proof -
  note D = acct_okD [OF inv] and K = same_but_memory_keys [OF same]
  have eq: "f r' = f r \<Longrightarrow> fmsum f (fmupd p r' (gs_permits s)) = fmsum f (gs_permits s)" for f
    using old by (rule fmsum_upd_same)
  have mem: "fmsum f (fmupd p r' (gs_permits s)) = fmsum f (gs_permits s) + f r' - f r" for f
    using old by (rule fmsum_upd_old_eq)
  show ?thesis
  proof (rule acct_okI)
    show "gs_memory_units_held (memory_shifted p r r' s) = fmsum rec_mem (gs_permits (memory_shifted p r r' s))"
      using D(2) by (simp add: memory_shifted_def mem)
    show "record_ok q x" if "fmlookup (gs_permits (memory_shifted p r r' s)) q = Some x" for q x
      using that D(6) [OF old] D(6) [of q x] K by (auto simp: memory_shifted_def record_ok_def split: if_splits)
    show "class_ok cl (fmget (gs_classes (memory_shifted p r r' s)) ClassState_default cl)
        (gs_permits (memory_shifted p r r' s))" for cl
    proof -
      let ?cs = "fmget (gs_classes s) ClassState_default cl"
      have slot: "phase_slot q (class_shifted r m cs) = phase_slot q cs" for q m cs
        by (cases q) (simp_all add: class_shifted_def)
      have o: "fmsum (owned cl one) (fmupd p r' (gs_permits s)) = fmsum (owned cl one) (gs_permits s)"
        "fmsum (owned cl rec_cpu) (fmupd p r' (gs_permits s)) = fmsum (owned cl rec_cpu) (gs_permits s)"
        "\<And>q. fmsum (owned cl (in_phase q)) (fmupd p r' (gs_permits s)) = fmsum (owned cl (in_phase q)) (gs_permits s)"
        "fmsum (owned cl started) (fmupd p r' (gs_permits s)) = fmsum (owned cl started) (gs_permits s)"
        "fmsum (owned cl rec_mem) (fmupd p r' (gs_permits s)) = fmsum (owned cl rec_mem) (gs_permits s)
           + (if cl = rec_class r then rec_mem r' else 0) - (if cl = rec_class r then rec_mem r else 0)"
        using K by (simp_all add: eq owned_def mem [of "owned cl rec_mem"])
      let ?x = "if cl = rec_class r then class_shifted r (rec_mem r') ?cs else ?cs"
      have x: "cs_inflight ?x = cs_inflight ?cs" "cs_cpu_units_held ?x = cs_cpu_units_held ?cs"
        "\<And>q. phase_slot q ?x = phase_slot q ?cs" "cs_admitted_total ?x = cs_admitted_total ?cs"
        "cs_terminated_total ?x = cs_terminated_total ?cs" "cs_started_total ?x = cs_started_total ?cs"
        "cs_memory_units_held ?x = cs_memory_units_held ?cs
           + (if cl = rec_class r then rec_mem r' else 0) - (if cl = rec_class r then rec_mem r else 0)"
        by (simp_all add: slot) (simp_all add: class_shifted_def)
      have "class_ok cl ?x (fmupd p r' (gs_permits s))"
        using D(3) [of cl] unfolding class_ok_def x o by simp
      then show ?thesis by (auto simp: memory_shifted_def class_view_def split: if_splits)
    qed
  qed (use D K in \<open>simp_all add: memory_shifted_def eq\<close>)
qed

lemma roots_inv_memory_shifted:
  assumes inv: "roots_inv s" and old: "fmlookup (gs_permits s) p = Some r" and same: "same_but_memory r r'"
  shows "roots_inv (memory_shifted p r r' s)"
proof -
  note K = same_but_memory_keys [OF same]
  let ?P = "fmupd p r' (gs_permits s)" and ?R = "root_shifted r (rec_mem r') (gs_roots s)"
  have eq: "f r' = f r \<Longrightarrow> fmsum f ?P = fmsum f (gs_permits s)" for f using old by (rule fmsum_upd_same)
  have st: "root_stages ?P i = root_stages (gs_permits s) i" for i
    using root_stages_permit_upd [OF old K(2)] by simp
  have ok: "root_ok i (fmget (gs_roots s) RootExecutionState_default i) (gs_permits s)" for i
    using inv by (simp add: roots_ok_def)
  have "root_ok i (fmget ?R RootExecutionState_default i) ?P" for i
  proof -
    let ?c = "is_child (rec_scope r) \<and> rec_root_operation_id r = i"
    have o: "fmsum (attributed i one) ?P = fmsum (attributed i one) (gs_permits s)"
      "fmsum (attributed i rec_cpu) ?P = fmsum (attributed i rec_cpu) (gs_permits s)"
      "fmsum (attributed i rec_mem) ?P = fmsum (attributed i rec_mem) (gs_permits s)
         + (if ?c then rec_mem r' else 0) - (if ?c then rec_mem r else 0)"
      using K by (simp_all add: eq attributed_def fmsum_upd_old_eq [OF old, of "attributed i rec_mem"])
    have x: "root_child_inflight (fmget ?R RootExecutionState_default i) = root_child_inflight (fmget (gs_roots s) RootExecutionState_default i)"
      "root_cpu_units (fmget ?R RootExecutionState_default i) = root_cpu_units (fmget (gs_roots s) RootExecutionState_default i)"
      "root_active_stages (fmget ?R RootExecutionState_default i) = root_active_stages (fmget (gs_roots s) RootExecutionState_default i)"
      "root_memory_units (fmget ?R RootExecutionState_default i) = root_memory_units (fmget (gs_roots s) RootExecutionState_default i)
         + (if ?c then rec_mem r' else 0) - (if ?c then rec_mem r else 0)"
      by (simp_all add: root_shifted_def Let_def)
    show ?thesis using ok [of i] unfolding root_ok_def x o st by simp
  qed
  moreover have "root_child_inflight x \<noteq> 0" if l: "fmlookup ?R i = Some x" for i x
  proof (cases "is_child (rec_scope r) \<and> i = rec_root_operation_id r")
    case True
    obtain y where y: "fmlookup (gs_roots s) i = Some y"
      using known_root [OF inv old] True by metis
    then have "root_child_inflight y \<noteq> 0" using inv by (simp add: roots_ok_def)
    then show ?thesis using l y True by (auto simp: root_shifted_def Let_def fmget_def)
  next
    case False
    then have "fmlookup (gs_roots s) i = Some x" using l by (auto simp: root_shifted_def Let_def split: if_splits)
    then show ?thesis using inv by (simp add: roots_ok_def)
  qed
  ultimately show ?thesis by (simp add: roots_ok_def memory_shifted_def)
qed

lemma gov_inv_memory_shifted:
  assumes inv: "gov_inv n s" and old: "fmlookup (gs_permits s) p = Some r" and same: "same_but_memory r r'"
  shows "gov_inv n (memory_shifted p r r' s)"
proof -
  have co: "core n s" and g: "guard_inv s" using inv by (simp_all add: gov_inv_def)
  note D = coreD [OF co] and K = same_but_memory_keys [OF same]
  let ?s = "memory_shifted p r r' s"
  have sq: "same_queue (fmget (gs_classes s) ClassState_default (rec_class r)) (class_shifted r m (class_view s (rec_class r)))" for m
    by (simp add: same_queue_def class_shifted_def class_view_def)
  have q: "queues ?s = queues s" by (simp add: memory_shifted_def queue_of_same_upd [OF sq] del: queue_of_upd)
  have f: "gs_tickets ?s = gs_tickets s" "gs_permits ?s = fmupd p r' (gs_permits s)"
    "gs_active_recursion ?s = gs_active_recursion s" by (simp_all add: memory_shifted_def)
  have "core n ?s"
  proof (rule coreI)
    show "acct_inv ?s" by (rule acct_inv_memory_shifted [OF D(1) old same])
    show "roots_inv ?s" by (rule roots_inv_memory_shifted [OF D(5) old same])
    show "ticket_inv ?s" using ticket_ok_permit_upd [OF D(2) old K(12)] by (simp only: q f)
    show "ident_inv ?s" using ident_ok_permit_upd [OF D(4) old K(1)] unfolding q f by (simp add: memory_shifted_def)
    show "queue_inv ?s" using queue_ok_same_upd [OF D(6) sq] by (simp add: memory_shifted_def)
    show "exclusive (occupants pid_p pid_q (gs_permits ?s) (queues ?s))"
      unfolding q f using D(7) occupants_permit_upd [OF old K(3), of pid_q "queues s"] by simp
  qed (use D in \<open>simp_all add: memory_shifted_def\<close>)
  moreover have "guard_inv ?s" unfolding q f using guard_ok_permit_upd [OF g old K(2)] by simp
  ultimately show ?thesis by (simp add: gov_inv_def)
qed

lemma gov_inv_apply_memory_delta:
  assumes inv: "gov_inv n s" and old: "fmlookup (gs_permits s) p = Some r" and same: "same_but_memory r r'"
    and s': "s' = apply_memory_delta (rec_class r) (attributed_root r) (int (rec_mem r') - int (rec_mem r))
      (s\<lparr>gs_permits := fmupd p r' (gs_permits s)\<rparr>)"
  shows "gov_inv n s'" and "s' = memory_shifted p r r' s"
proof -
  have co: "core n s" using inv by (simp add: gov_inv_def)
  show "s' = memory_shifted p r r' s"
    unfolding s' by (rule apply_memory_delta_known [OF coreD(1) [OF co] coreD(5) [OF co] old])
  then show "gov_inv n s'" using gov_inv_memory_shifted [OF inv old same] by simp
qed

section \<open>What the transitions keep\<close>

lemma reconcile_applied:
  assumes "reconcile p bytes sq mode scale now_ms s = (s', Applied m)"
  obtains r l' where "fmlookup (gs_permits s) p = Some r" "pl_measurement_sequence (rec_ledger r) < sq"
    "effective_units mode (pl_remaining_reservation_units (rec_ledger r)) bytes scale = Inr m"
    "same_but_memory r (r\<lparr>rec_ledger := l'\<rparr>)" "pl_effective_units l' = m" "pl_measurement_sequence l' = sq"
    "pl_last_touched_ms l' = max (pl_last_touched_ms (rec_ledger r)) now_ms"
    "s' = apply_memory_delta (rec_class r) (attributed_root r)
       (int (rec_mem (r\<lparr>rec_ledger := l'\<rparr>)) - int (rec_mem r))
       (s\<lparr>gs_permits := fmupd p (r\<lparr>rec_ledger := l'\<rparr>) (gs_permits s)\<rparr>)"
proof -
  obtain r where r: "fmlookup (gs_permits s) p = Some r"
    using assms by (auto simp: reconcile_def split: option.splits)
  let ?l = "(rec_ledger r)\<lparr>pl_measured_bytes := bytes, pl_measurement_sequence := sq, pl_effective_units := m,
     pl_last_touched_ms := max (pl_last_touched_ms (rec_ledger r)) now_ms\<rparr>"
  show thesis
    by (rule that [OF r, of ?l])
       (use assms r in \<open>auto simp: reconcile_def Let_def same_but_memory_def same_custody_def split: if_splits sum.splits\<close>)
qed

lemma reconcile_not_applied:
  assumes "reconcile p bytes sq mode scale now_ms s = (s', out)" "\<not> is_applied out"
  shows "s' = s \<or> (\<exists>err. out = ConversionFailed err \<and> s' = record_accounting_fault memory_conversion_text s)"
  using assms by (auto simp: reconcile_def Let_def is_applied_def split: option.splits if_splits sum.splits)

lemma gov_inv_reconcile:
  assumes inv: "gov_inv n s" and eq: "reconcile p bytes sq mode scale now_ms s = (s', out)"
  shows "gov_inv n s'"
proof (cases "is_applied out")
  case True
  then obtain m where m: "out = Applied m" by (cases out) (simp_all add: is_applied_def)
  from eq [unfolded m] show ?thesis
    by (rule reconcile_applied) (auto intro: gov_inv_apply_memory_delta(1) [OF inv])
next
  case False
  then show ?thesis using reconcile_not_applied [OF eq] inv gov_inv_record_fault by auto
qed

lemma stage_released:
  assumes "release_stage_memory p units policy sq now_ms s = (s', StageReleased freed)"
  obtains r l' where "fmlookup (gs_permits s) p = Some r" "stage_release_allowed policy"
    "freed = min units (rec_mem r)" "same_but_memory r (r\<lparr>rec_ledger := l'\<rparr>)"
    "pl_effective_units l' = rec_mem r - freed"
    "case sq of None \<Rightarrow> True | Some q \<Rightarrow> pl_stage_sequence (rec_ledger r) < q \<and> pl_stage_sequence l' = q"
    "s' = apply_memory_delta (rec_class r) (attributed_root r)
       (int (rec_mem (r\<lparr>rec_ledger := l'\<rparr>)) - int (rec_mem r))
       (s\<lparr>gs_permits := fmupd p (r\<lparr>rec_ledger := l'\<rparr>) (gs_permits s)\<rparr>)"
proof -
  obtain r where r: "fmlookup (gs_permits s) p = Some r"
    using assms by (auto simp: release_stage_memory_def split: option.splits if_splits)
  let ?l = "(rec_ledger r)\<lparr>pl_stage_sequence := (case sq of None \<Rightarrow> pl_stage_sequence (rec_ledger r) | Some q \<Rightarrow> q),
     pl_effective_units := rec_mem r - freed,
     pl_remaining_reservation_units := saturating_sub (pl_remaining_reservation_units (rec_ledger r)) freed,
     pl_last_touched_ms := max (pl_last_touched_ms (rec_ledger r)) now_ms\<rparr>"
  have f: "freed = min units (rec_mem r)"
    using assms r by (auto simp: release_stage_memory_def Let_def split: if_splits)
  then have "int (rec_mem r - freed) - int (rec_mem r) = - int freed" by simp
  then show thesis
    by (intro that [OF r, of ?l])
       (use assms r in \<open>auto simp: release_stage_memory_def Let_def same_but_memory_def same_custody_def f
          split: if_splits option.splits\<close>)
qed

lemma stage_not_released:
  assumes "release_stage_memory p units policy sq now_ms s = (s', out)" "\<And>f. out \<noteq> StageReleased f"
  shows "s' = s"
  using assms by (auto simp: release_stage_memory_def Let_def split: option.splits if_splits)

lemma gov_inv_release_stage:
  assumes inv: "gov_inv n s" and eq: "release_stage_memory p units policy sq now_ms s = (s', out)"
  shows "gov_inv n s'"
proof (cases "\<exists>f. out = StageReleased f")
  case True
  then obtain f where "out = StageReleased f" by blast
  from eq [unfolded this] show ?thesis
    by (rule stage_released) (auto intro: gov_inv_apply_memory_delta(1) [OF inv])
next
  case False
  then show ?thesis using stage_not_released [OF eq] inv by auto
qed

section \<open>The leak sweep\<close>

lemma unwind_permits: "gs_permits (fst (fst (unwind p reason s e))) = fmdrop p (gs_permits s)"
  by (cases "fmlookup (gs_permits s) p") (simp_all add: unwind_eq fmdrop_absent split: option.splits)

lemma reap_each_permits:
  "gs_permits (fst (fst (reap_each ps se n))) = fmfilter (\<lambda>q. q \<notin> set ps) (gs_permits (fst se))"
proof (induction ps arbitrary: se n)
  case Nil
  show ?case by (simp add: fmfilter_true)
next
  case (Cons p ps)
  obtain se' out where u: "unwind p Reclaimed (fst se) (snd se) = (se', out)" by (metis prod.collapse)
  have "gs_permits (fst se') = fmdrop p (gs_permits (fst se))"
    using unwind_permits [of p Reclaimed "fst se" "snd se"] u by simp
  with Cons.IH [of se'] show ?case
    by (simp add: u) (rule fmap_ext, auto)
qed

lemma gov_inv_reap_each:
  assumes "gov_inv n (fst se)" "reap_each ps se k = (se', k')"
  shows "gov_inv n (fst se')"
  using assms
proof (induction ps arbitrary: se k)
  case (Cons p ps)
  obtain s1 e1 out where u: "unwind p Reclaimed (fst se) (snd se) = ((s1, e1), out)" by (metis prod.collapse)
  have "gov_inv n s1" by (rule gov_inv_unwind [OF Cons.prems(1) u])
  then show ?case using Cons u by (auto simp: Let_def)
qed simp

lemma gov_inv_reap_leaks:
  assumes "gov_inv n s" "reap_leaks ps now_ms stale s e = ((s', e'), report)"
  shows "gov_inv n s'"
proof -
  let ?l = "map rec_permit_id (filter (\<lambda>r. rec_phase r = DispatchReserved)
    (filter (leak_suspect ps now_ms stale) (bt_values (gs_permits s))))"
  obtain se k where r: "reap_each ?l (s, e) 0 = (se, k)" by (metis prod.collapse)
  have "gov_inv n (fst se)" using gov_inv_reap_each [OF _ r] assms(1) by simp
  then show ?thesis using assms(2) r by (simp add: reap_leaks_def Let_def)
qed

text \<open>C29: The leak sweep removes exactly the stale undispatched permits of the leak-detecting classes: a permit
  that was ever leased to an executor stays charged, however stale it is.\<close>

theorem reap_leaks_exact:
  assumes "acct_inv s" "reap_leaks ps now_ms stale s e = ((s', e'), report)"
  shows "gs_permits s' = fmfilter (\<lambda>p. \<not> (\<exists>r. fmlookup (gs_permits s) p = Some r
      \<and> rec_phase r = DispatchReserved \<and> leak_suspect ps now_ms stale r)) (gs_permits s)"
proof -
  let ?l = "map rec_permit_id (filter (\<lambda>r. rec_phase r = DispatchReserved)
    (filter (leak_suspect ps now_ms stale) (bt_values (gs_permits s))))"
  have rec: "fmlookup (gs_permits s) p = Some r \<Longrightarrow> rec_permit_id r = p" for p r
    using acct_okD(6) [OF assms(1)] by (simp add: record_ok_def)
  have mem: "p \<in> set ?l \<longleftrightarrow> (\<exists>r. fmlookup (gs_permits s) p = Some r
      \<and> rec_phase r = DispatchReserved \<and> leak_suspect ps now_ms stale r)" for p
    using rec by (auto simp: set_bt_values image_iff)
  have "gs_permits s' = gs_permits (fst (fst (reap_each ?l (s, e) 0)))"
    using assms(2) by (auto simp: reap_leaks_def Let_def split: prod.splits)
  then show ?thesis unfolding reap_each_permits mem fst_conv .
qed

section \<open>Conservation of measured memory\<close>

text \<open>C28: An applied reading moves the global, class and root holdings by exactly the difference of the permit's
  old and new units, and no other ledger at all: every other class and root keeps its record, and so does the root's own
  record but for the memory it holds. It strictly advances the permit's epoch, records no accounting fault, and leaves a
  consistent state.\<close>

theorem reconcile_conserves:
  assumes "gov_inv n s" "reconcile p bytes sq mode scale now_ms s = (s', Applied m)"
  shows "\<exists>r r'. fmlookup (gs_permits s) p = Some r \<and> fmlookup (gs_permits s') p = Some r' \<and> rec_mem r' = m
    \<and> gs_memory_units_held s' + rec_mem r = gs_memory_units_held s + m
    \<and> cs_memory_units_held (class_view s' (rec_class r)) + rec_mem r = cs_memory_units_held (class_view s (rec_class r)) + m
    \<and> (\<forall>cl. cl \<noteq> rec_class r \<longrightarrow> fmlookup (gs_classes s') cl = fmlookup (gs_classes s) cl)
    \<and> (case attributed_root r of
         None \<Rightarrow> gs_roots s' = gs_roots s
       | Some root_id \<Rightarrow>
           (\<exists>x x'. fmlookup (gs_roots s) root_id = Some x \<and> fmlookup (gs_roots s') root_id = Some x'
              \<and> root_memory_units x' + rec_mem r = root_memory_units x + m
              \<and> x' = x\<lparr>root_memory_units := root_memory_units x'\<rparr>)
           \<and> (\<forall>i. i \<noteq> root_id \<longrightarrow> fmlookup (gs_roots s') i = fmlookup (gs_roots s) i))
    \<and> pl_measurement_sequence (rec_ledger r) < pl_measurement_sequence (rec_ledger r')
    \<and> gs_accounting_fault s' = gs_accounting_fault s \<and> assert_consistent s'"
proof -
  have co: "core n s" using assms(1) by (simp add: gov_inv_def)
  obtain r l' where r: "fmlookup (gs_permits s) p = Some r" "pl_measurement_sequence (rec_ledger r) < sq"
    "same_but_memory r (r\<lparr>rec_ledger := l'\<rparr>)" "pl_effective_units l' = m" "pl_measurement_sequence l' = sq"
    "s' = apply_memory_delta (rec_class r) (attributed_root r)
       (int (rec_mem (r\<lparr>rec_ledger := l'\<rparr>)) - int (rec_mem r))
       (s\<lparr>gs_permits := fmupd p (r\<lparr>rec_ledger := l'\<rparr>) (gs_permits s)\<rparr>)"
    using assms(2) by (rule reconcile_applied)
  note S = gov_inv_apply_memory_delta [OF assms(1) r(1,3,6)]
  obtain cs where cs: "fmlookup (gs_classes s) (rec_class r) = Some cs" "rec_mem r \<le> cs_memory_units_held cs"
    using known_class [OF coreD(1) [OF co] r(1)] .
  have "rec_mem r \<le> gs_memory_units_held s"
    using acct_okD(2) [OF coreD(1) [OF co]] fmsum_ge [OF r(1), of rec_mem] by simp
  then have tot: "gs_memory_units_held s' + rec_mem r = gs_memory_units_held s + m"
    "cs_memory_units_held (class_view s' (rec_class r)) + rec_mem r = cs_memory_units_held (class_view s (rec_class r)) + m"
    "fmlookup (gs_permits s') p = Some (r\<lparr>rec_ledger := l'\<rparr>)" "gs_accounting_fault s' = gs_accounting_fault s"
    "\<forall>cl. cl \<noteq> rec_class r \<longrightarrow> fmlookup (gs_classes s') cl = fmlookup (gs_classes s) cl"
    using cs r(4) by (simp_all add: S(2) memory_shifted_def class_shifted_def class_view_def fmget_def)
  have root: "case attributed_root r of
         None \<Rightarrow> gs_roots s' = gs_roots s
       | Some root_id \<Rightarrow>
           (\<exists>x x'. fmlookup (gs_roots s) root_id = Some x \<and> fmlookup (gs_roots s') root_id = Some x'
              \<and> root_memory_units x' + rec_mem r = root_memory_units x + m
              \<and> x' = x\<lparr>root_memory_units := root_memory_units x'\<rparr>)
           \<and> (\<forall>i. i \<noteq> root_id \<longrightarrow> fmlookup (gs_roots s') i = fmlookup (gs_roots s) i)"
  proof (cases "is_child (rec_scope r)")
    case True
    obtain x where x: "fmlookup (gs_roots s) (rec_root_operation_id r) = Some x" "rec_mem r \<le> root_memory_units x"
      using known_root [OF coreD(5) [OF co] r(1) True] .
    then show ?thesis using True r(4)
      by (simp add: S(2) memory_shifted_def root_shifted_def attributed_root_def fmget_def)
  qed (simp add: S(2) memory_shifted_def root_shifted_def attributed_root_def)
  show ?thesis
    by (rule exI [of _ r], rule exI [of _ "r\<lparr>rec_ledger := l'\<rparr>"])
       (use r(1,2,4,5) tot root S(1) [THEN gov_inv_consistent] in simp)
qed

text \<open>A stage release frees at most what was asked and at most what the permit holds, only under a policy
  that allows it and only for a later stage sequence; the global holding falls by exactly that amount, and
  every other outcome leaves the state as it was.\<close>

theorem release_stage_exact:
  assumes "gov_inv n s" "release_stage_memory p units policy sq now_ms s = (s', out)"
  shows "case out of
      StageReleased freed \<Rightarrow> stage_release_allowed policy \<and> freed \<le> units
        \<and> (\<exists>r. fmlookup (gs_permits s) p = Some r \<and> freed \<le> rec_mem r
            \<and> (\<forall>q. sq = Some q \<longrightarrow> pl_stage_sequence (rec_ledger r) < q))
        \<and> gs_memory_units_held s' + freed = gs_memory_units_held s
        \<and> gs_accounting_fault s' = gs_accounting_fault s \<and> assert_consistent s'
    | _ \<Rightarrow> s' = s"
proof (cases "\<exists>f. out = StageReleased f")
  case True
  then obtain freed where f: "out = StageReleased freed" by blast
  have co: "core n s" using assms(1) by (simp add: gov_inv_def)
  obtain r l' where r: "fmlookup (gs_permits s) p = Some r" "stage_release_allowed policy"
    "freed = min units (rec_mem r)" "same_but_memory r (r\<lparr>rec_ledger := l'\<rparr>)" "pl_effective_units l' = rec_mem r - freed"
    "case sq of None \<Rightarrow> True | Some q \<Rightarrow> pl_stage_sequence (rec_ledger r) < q \<and> pl_stage_sequence l' = q"
    "s' = apply_memory_delta (rec_class r) (attributed_root r)
       (int (rec_mem (r\<lparr>rec_ledger := l'\<rparr>)) - int (rec_mem r))
       (s\<lparr>gs_permits := fmupd p (r\<lparr>rec_ledger := l'\<rparr>) (gs_permits s)\<rparr>)"
    using assms(2) unfolding f by (rule stage_released)
  note S = gov_inv_apply_memory_delta [OF assms(1) r(1,4,7)]
  have "rec_mem r \<le> gs_memory_units_held s"
    using acct_okD(2) [OF coreD(1) [OF co]] fmsum_ge [OF r(1), of rec_mem] by simp
  then have "gs_memory_units_held s' + freed = gs_memory_units_held s"
    using r(3,5) by (simp add: S(2) memory_shifted_def)
  moreover have "gs_accounting_fault s' = gs_accounting_fault s" by (simp add: S(2) memory_shifted_def)
  moreover have "\<forall>q. sq = Some q \<longrightarrow> pl_stage_sequence (rec_ledger r) < q" using r(6) by auto
  ultimately show ?thesis using f r(1-3) S(1) [THEN gov_inv_consistent] by auto
next
  case False
  then show ?thesis using stage_not_released [OF assms(2)] by (auto split: StageReleaseOutcome.splits)
qed

section \<open>A concrete permit\<close>

definition sample_grant :: GrantRequest where
  "sample_grant =
     \<lparr>gr_permit_id = PermitId 0 1, gr_class = lit ''web'', gr_operation = lit ''op'', gr_root_operation_id = lit ''op'',
      gr_scope = Root, gr_parent_permit_id = None, gr_target_stage = lit ''main'',
      gr_provenance = \<lparr>prov_source = lit ''t'', prov_reason = ExplicitMapping\<rparr>, gr_capabilities = [],
      gr_cost = \<lparr>rc_cpu_units = 1, rc_memory_units = 5\<rparr>, gr_reserved_units = 5, gr_now_ms = 0,
      gr_pending_ticket = None, gr_claim_waker = None\<rparr>"

definition sample_live :: GovernedState where
  "sample_live = grant sample_grant GovernedState_default"

definition sample_scale :: MemoryUnitScale where
  "sample_scale = \<lparr>bytes_per_unit = 10\<rparr>"

lemma occupants_default: "occupants kp kq (gs_permits GovernedState_default) (queues GovernedState_default) = {}"
proof -
  have "queues GovernedState_default = (\<lambda>_. [])"
    by (rule ext) (simp add: queue_of_def ClassState_default_def GovernedState_default_def)
  moreover have "gs_permits GovernedState_default = fmempty" by (simp add: GovernedState_default_def)
  ultimately show ?thesis by (simp add: occupants_def)
qed

lemma sample_live_inv: "gov_inv 0 sample_live"
proof -
  have "fmsum one (gs_permits GovernedState_default) < u32_max"
    by (simp add: GovernedState_default_def u32_max_def)
  then show ?thesis unfolding sample_live_def
    by (intro gov_inv_grant gov_inv_default) (simp_all add: occupants_default sample_grant_def)
qed

text \<open>The same permit for an awaited child of the root \<open>op\<close>.\<close>

definition child_grant :: GrantRequest where
  "child_grant = sample_grant\<lparr>gr_operation := lit ''child'', gr_scope := Child (lit ''op'') (lit ''main'') True\<rparr>"

definition sample_child :: GovernedState where
  "sample_child = grant child_grant GovernedState_default"

lemma sample_child_inv: "gov_inv 0 sample_child"
proof -
  have "fmsum one (gs_permits GovernedState_default) < u32_max"
    by (simp add: GovernedState_default_def u32_max_def)
  then show ?thesis unfolding sample_child_def
    by (intro gov_inv_grant gov_inv_default) (simp_all add: occupants_default child_grant_def sample_grant_def)
qed

theorem reconcile_conserves_witness:
  "gov_inv 0 sample_child \<and> (\<exists>s'. reconcile (PermitId 0 1) 72 1 Measured sample_scale 3 sample_child = (s', Applied 8)
     \<and> gs_memory_units_held s' = gs_memory_units_held sample_child + 3
     \<and> (\<exists>x x'. fmlookup (gs_roots sample_child) (lit ''op'') = Some x \<and> fmlookup (gs_roots s') (lit ''op'') = Some x'
          \<and> root_memory_units x' = root_memory_units x + 3))"
proof -
  let ?out = "reconcile (PermitId 0 1) 72 1 Measured sample_scale 3 sample_child"
  have "snd ?out = Applied 8 \<and> (case fmlookup (gs_permits sample_child) (PermitId 0 1) of
      None \<Rightarrow> False | Some r \<Rightarrow> rec_mem r = 5 \<and> attributed_root r = Some (lit ''op''))" by code_simp
  then obtain r where eq: "?out = (fst ?out, Applied 8)"
    and r: "fmlookup (gs_permits sample_child) (PermitId 0 1) = Some r" "rec_mem r = 5" "attributed_root r = Some (lit ''op'')"
    by (cases "fmlookup (gs_permits sample_child) (PermitId 0 1)")
       (simp_all only: prod_eq_iff fst_conv snd_conv simp_thms option.case)
  from reconcile_conserves [OF sample_child_inv eq] r
  have "gs_memory_units_held (fst ?out) = gs_memory_units_held sample_child + 3
      \<and> (\<exists>x x'. fmlookup (gs_roots sample_child) (lit ''op'') = Some x \<and> fmlookup (gs_roots (fst ?out)) (lit ''op'') = Some x'
          \<and> root_memory_units x' = root_memory_units x + 3)"
    by (auto simp: add.commute)
  with eq sample_child_inv show ?thesis by blast
qed

theorem release_stage_exact_witness:
  "gov_inv 0 sample_live \<and> (\<exists>s'. release_stage_memory (PermitId 0 1) 3 OnStageBoundary (Some 1) 3 sample_live = (s', StageReleased 3)
     \<and> gs_memory_units_held s' + 3 = gs_memory_units_held sample_live)"
proof -
  let ?out = "release_stage_memory (PermitId 0 1) 3 OnStageBoundary (Some 1) 3 sample_live"
  have "snd ?out = StageReleased 3" by code_simp
  then have eq: "?out = (fst ?out, StageReleased 3)" by (simp only: prod_eq_iff fst_conv snd_conv)
  from release_stage_exact [OF sample_live_inv eq] have "gs_memory_units_held (fst ?out) + 3 = gs_memory_units_held sample_live"
    by simp
  with eq sample_live_inv show ?thesis by blast
qed

definition leak_policies :: PolicySet where
  "leak_policies =
     \<lparr>ps_resources = \<lparr>max_cpu_units = 0, max_memory_units = 0, per_request_max_cpu_units = 0,
        per_request_max_memory_units = 0, memory_unit_scale = sample_scale\<rparr>,
      ps_classes = fmap_of_list [(lit ''web'', ClassPolicy_default\<lparr>memory_release_policy := LeakDetecting\<rparr>)],
      ps_substrates = fmempty, ps_capabilities = fmempty, ps_capability_authority = 0\<rparr>"

theorem reap_leaks_exact_witness:
  "acct_inv sample_live \<and> (\<exists>s' e' report. reap_leaks leak_policies 100 10 sample_live no_effects = ((s', e'), report)
     \<and> reclaimed_permits report = 1 \<and> fmlookup (gs_permits s') (PermitId 0 1) = None)"
proof -
  have inv: "acct_inv sample_live" using sample_live_inv by (simp add: gov_inv_def core_def)
  let ?out = "reap_leaks leak_policies 100 10 sample_live no_effects"
  have eq: "?out = ((fst (fst ?out), snd (fst ?out)), snd ?out)" by simp
  have "reclaimed_permits (snd ?out) = 1 \<and> (case fmlookup (gs_permits sample_live) (PermitId 0 1) of
      None \<Rightarrow> False | Some r \<Rightarrow> rec_phase r = DispatchReserved \<and> leak_suspect leak_policies 100 10 r)" by code_simp
  with reap_leaks_exact [OF inv eq] show ?thesis
    by (intro conjI inv exI [of _ "fst (fst ?out)"] exI [of _ "snd (fst ?out)"] exI [of _ "snd ?out"] eq)
       (auto split: option.splits)
qed

end
