(* ===== verification/TM_Promotion.thy ===== *)
theory TM_Promotion
  imports TM_Admission TM_Memory
begin

text \<open>
  \<^verbatim>\<open>engine/governor.rs\<close>, the part that serves the queue: the removal of requests that can never run, one
  bounded promotion pass, the fail-stop of the queue after an accounting fault, and the drain loop that
  runs the continuation passes. A pass grants at most \<open>PROMOTION_BUDGET\<close> permits.

  The code unwraps the policy of a queued class with \<open>expect\<close>; \<open>queued_policy\<close> stands for it, and the
  class is configured wherever it is read (\<open>queued_classes_configured\<close>).
\<close>

section \<open>Definitions\<close>

definition PROMOTION_BUDGET :: nat where
  "PROMOTION_BUDGET = 64"

datatype CycleTerminalization = CycleRemoved | CycleNone

definition queued_policy :: "PolicySet \<Rightarrow> TaskClass \<Rightarrow> ClassPolicy" where
  "queued_policy ps cl = (case policy_class ps cl of Some p \<Rightarrow> p | None \<Rightarrow> ClassPolicy_default)"

text \<open>\<open>Iterator::find_map\<close>\<close>

fun find_map :: "('a \<Rightarrow> 'b option) \<Rightarrow> 'a list \<Rightarrow> 'b option" where
  "find_map f [] = None"
| "find_map f (x # xs) = (case f x of Some y \<Rightarrow> Some y | None \<Rightarrow> find_map f xs)"

definition cycle_in_class ::
  "GovernedState \<Rightarrow> PolicySet \<Rightarrow> TaskClass \<times> ClassState \<Rightarrow> (TaskClass \<times> nat \<times> CycleWitness) option" where
  "cycle_in_class s ps = (\<lambda>(cl, cs).
     if cs_queued_awaited_children cs = {} then None
     else case policy_class ps cl of
       None \<Rightarrow> None
     | Some policy \<Rightarrow>
         find_map (\<lambda>(index, request).
            if pr_seq_no request \<in> cs_queued_awaited_children cs
            then (case assess_pending s ps request (max_inflight policy) False of
                    WaitCycle witness \<Rightarrow> Some (cl, index, witness)
                  | _ \<Rightarrow> None)
            else None) (enumerate 0 (cs_queue cs)))"

definition terminalize_wait_cycle ::
  "PolicySet \<Rightarrow> GovernedState \<Rightarrow> TransitionEffects \<Rightarrow> (GovernedState \<times> TransitionEffects) \<times> CycleTerminalization" where
  "terminalize_wait_cycle ps s e =
     (case find_map (cycle_in_class s ps) (bt_entries (gs_classes s)) of
        None \<Rightarrow> ((s, e), CycleNone)
      | Some (cl, index, witness) \<Rightarrow>
          (case remove_pending cl index s of
             (s, None) \<Rightarrow> ((s, e), CycleNone)
           | (s, Some request) \<Rightarrow>
               let s = on_unserved_removed cl (queued_policy ps cl) s;
                   s = vacate_recursion_guard (pr_root_operation_id request) (pr_target_stage request) s;
                   s = record_terminal_ticket (pr_ticket request) (IrreversibleWaitCycle (hd (cw_held witness))) s
               in ((s, push_wake (pr_waker request) e), CycleRemoved)))"

definition promoted_grant :: "TaskClass \<Rightarrow> nat \<Rightarrow> PendingRequest \<Rightarrow> GovernedState \<Rightarrow> GrantRequest" where
  "promoted_grant cl now head s =
     \<lparr>gr_permit_id = pr_permit_id head, gr_class = cl, gr_operation = pr_operation head,
      gr_root_operation_id = pr_root_operation_id head, gr_scope = pr_scope head,
      gr_parent_permit_id = (case pr_parent_permit_id head of
          Some p \<Rightarrow> Some p
        | None \<Rightarrow> parent_permit_for_scope s (pr_root_operation_id head) (pr_scope head)),
      gr_target_stage = pr_target_stage head, gr_provenance = pr_provenance head,
      gr_capabilities = pr_capabilities head, gr_cost = pr_cost head,
      gr_reserved_units = rc_memory_units (pr_cost head), gr_now_ms = now,
      gr_pending_ticket = Some (pr_ticket head), gr_claim_waker = pr_waker head\<rparr>"

definition promote_one :: "PolicySet \<Rightarrow> nat \<Rightarrow> Selection \<Rightarrow> PendingRequest \<Rightarrow> GovernedState \<Rightarrow> GovernedState" where
  "promote_one ps now sel head s =
     (let cl = sel_class sel;
          s = on_request_served cl (queued_policy ps cl) (sel_queue_index sel) (sel_service_finish_tag sel) s;
          s = s\<lparr>gs_tickets := fmdrop (pr_ticket head) (gs_tickets s)\<rparr>
      in grant (promoted_grant cl now head s) s)"

text \<open>The grant loop: the slots left, and whether anything was granted; it answers with whether the slots ran
  out.\<close>

fun promote_loop ::
  "PolicySet \<Rightarrow> nat \<Rightarrow> nat \<Rightarrow> GovernedState \<Rightarrow> TransitionEffects \<Rightarrow> bool \<Rightarrow> (GovernedState \<times> TransitionEffects) \<times> bool \<times> bool" where
  "promote_loop ps now 0 s e changed = ((s, e), changed, True)"
| "promote_loop ps now (Suc slots) s e changed =
     (case select s ps of
        (s, None) \<Rightarrow> ((s, e), changed, False)
      | (s, Some sel) \<Rightarrow>
          (case remove_pending (sel_class sel) (sel_queue_index sel) s of
             (s, None) \<Rightarrow> ((s, e), changed, False)
           | (s, Some head) \<Rightarrow>
               promote_loop ps now slots (promote_one ps now sel head s) (push_wake (pr_waker head) e) True))"

definition promote :: "PolicySet \<Rightarrow> nat \<Rightarrow> GovernedState \<Rightarrow> GovernedState \<times> TransitionEffects" where
  "promote ps now s =
     (let ((s, e), removed) = terminalize_wait_cycle ps s no_effects;
          ((s, e), changed, budget_exhausted) = promote_loop ps now PROMOTION_BUDGET s e (removed = CycleRemoved);
          ((s, e), removed_after) =
            (if changed then terminalize_wait_cycle ps s e else ((s, e), CycleNone));
          more = (removed_after = CycleRemoved \<or> budget_exhausted \<and> has_runnable s ps)
      in (s\<lparr>gs_promotion_pending := more\<rparr>, e\<lparr>eff_more_runnable := more\<rparr>))"

text \<open>The inner \<open>while let Some(request) = state.remove_pending(&class, 0)\<close> removes the queue from its head.\<close>

fun fault_queue :: "TaskClass \<Rightarrow> nat \<Rightarrow> GovernedState \<Rightarrow> TransitionEffects \<Rightarrow> GovernedState \<times> TransitionEffects" where
  "fault_queue cl 0 s e = (s, e)"
| "fault_queue cl (Suc k) s e =
     (case remove_pending cl 0 s of
        (s, None) \<Rightarrow> (s, e)
      | (s, Some request) \<Rightarrow>
          let s = (if is_child (pr_scope request)
                   then vacate_recursion_guard (pr_root_operation_id request) (pr_target_stage request) s else s);
              s = s\<lparr>gs_tickets := fmupd (pr_ticket request) TFaulted (gs_tickets s)\<rparr>
          in fault_queue cl k s (push_wake (pr_waker request) e))"

definition fault_class :: "PolicySet \<Rightarrow> TaskClass \<Rightarrow> GovernedState \<times> TransitionEffects \<Rightarrow> GovernedState \<times> TransitionEffects" where
  "fault_class ps cl = (\<lambda>(s, e).
     let k = length (cs_queue (class_view s cl));
         (s, e) = fault_queue cl k s e
     in (if 0 < k then on_unserved_removed cl (queued_policy ps cl) s else s, e))"

definition terminalize_queued_for_accounting_fault ::
  "PolicySet \<Rightarrow> GovernedState \<Rightarrow> TransitionEffects \<Rightarrow> GovernedState \<times> TransitionEffects" where
  "terminalize_queued_for_accounting_fault ps s e =
     (let (s, e) = fold (fault_class ps) (bt_keys (gs_classes s)) (s, e)
      in (s\<lparr>gs_promotion_pending := False\<rparr>, e))"

section \<open>How many requests are queued\<close>

definition total_queued :: "GovernedState \<Rightarrow> nat" where
  "total_queued s = fmsum (\<lambda>cs. length (cs_queue cs)) (gs_classes s)"

lemma total_queued_sum:
  assumes "finite C" "fset (fmdom (gs_classes s)) \<subseteq> C"
  shows "total_queued s = (\<Sum>cl \<in> C. length (queues s cl))"
proof -
  have "total_queued s = (\<Sum>cl \<in> fset (fmdom (gs_classes s)). length (queues s cl))"
    unfolding total_queued_def fmsum_def
    by (rule sum.cong) (auto simp: queue_of_def fmget_def fmlookup_dom_iff)
  also have "\<dots> = (\<Sum>cl \<in> C. length (queues s cl))"
    using assms by (rule sum.mono_neutral_left)
      (auto simp: queue_of_def fmget_def ClassState_default_def fmdom_notD)
  finally show ?thesis .
qed

lemma total_queued_cong:
  assumes "queues s' = queues s"
  shows "total_queued s' = total_queued s"
proof -
  let ?C = "fset (fmdom (gs_classes s)) \<union> fset (fmdom (gs_classes s'))"
  have "total_queued s = (\<Sum>cl \<in> ?C. length (queues s cl))" "total_queued s' = (\<Sum>cl \<in> ?C. length (queues s' cl))"
    by (rule total_queued_sum; simp)+
  with assms show ?thesis by simp
qed

lemma total_queued_remove:
  assumes "queues s' = (queues s)(cl := remove_nth i (queues s cl))" "i < length (queues s cl)"
  shows "total_queued s' < total_queued s"
proof -
  let ?C = "fset (fmdom (gs_classes s)) \<union> fset (fmdom (gs_classes s')) \<union> {cl}"
  have sums: "total_queued s = (\<Sum>c \<in> ?C. length (queues s c))" "total_queued s' = (\<Sum>c \<in> ?C. length (queues s' c))"
    by (rule total_queued_sum; auto)+
  have "length (remove_nth i (queues s cl)) < length (queues s cl)" using assms(2) by (simp add: length_remove_nth)
  then show ?thesis unfolding sums assms(1) by (intro sum_strict_mono_ex1) auto
qed

lemma remove_pending_queues:
  assumes "remove_pending cl i s = (s', Some r)"
  shows "queues s' = (queues s)(cl := remove_nth i (queues s cl))" and "i < length (queues s cl)"
    and "untagged r = queues s cl ! i"
proof -
  obtain cs where cs: "fmlookup (gs_classes s) cl = Some cs" "i < length (queues s cl)" "untagged r = queues s cl ! i"
    and s': "s' = forget_queued_identity r (s\<lparr>gs_classes := fmupd cl (class_take i cs) (gs_classes s)\<rparr>)"
    using assms by (rule remove_pending_Some)
  show "queues s' = (queues s)(cl := remove_nth i (queues s cl))"
    unfolding s' using cs(1) by (auto simp: queue_of_def fmget_def class_take_def remove_nth_def fun_eq_iff take_map drop_map)
  show "i < length (queues s cl)" "untagged r = queues s cl ! i" using cs by simp_all
qed

lemma remove_pending_fewer: "remove_pending cl i s = (s', Some r) \<Longrightarrow> total_queued s' < total_queued s"
  by (rule total_queued_remove) (erule remove_pending_queues)+

section \<open>Taking a request out of the queue\<close>

text \<open>\<open>dequeued cl r s1 cs s2\<close>: \<open>s2\<close> is \<open>s1\<close> with the class re-scheduled, the ticket of \<open>r\<close> gone and the recursion
  guard of \<open>r\<close> vacated. The operations below differ in the order of these updates only.\<close>

definition dequeued :: "TaskClass \<Rightarrow> PendingRequest \<Rightarrow> GovernedState \<Rightarrow> ClassState \<Rightarrow> GovernedState \<Rightarrow> bool" where
  "dequeued cl r s1 cs s2 \<longleftrightarrow>
     same_ledger (class_view s1 cl) cs \<and> same_queue (class_view s1 cl) cs
     \<and> s2 = (if is_child (pr_scope r)
             then vacate_recursion_guard (pr_root_operation_id r) (pr_target_stage r) s1 else s1)
          \<lparr>gs_classes := fmupd cl cs (gs_classes s1), gs_tickets := fmdrop (pr_ticket r) (gs_tickets s1)\<rparr>"

lemma gov_inv_dequeued:
  assumes inv: "gov_inv n s" and eq: "remove_pending cl i s = (s1, Some r)" and d: "dequeued cl r s1 cs s2"
  shows "gov_inv n s2" and "live s2 = (live s)(pr_ticket r := None)"
    and "fmlookup (gs_terminal_index s2) (pr_ticket r) = None"
    and "gs_terminal_seq s2 + card (dom (live s2)) + 1 \<le> n" and "queues s2 = queues s1"
    and "gs_permits s2 = gs_permits s" and "live s (pr_ticket r) = Some (TQueued cl)"
proof -
  have co: "core n s" and g: "guard_inv s" using inv by (simp_all add: gov_inv_def)
  let ?s2 = "s1\<lparr>gs_classes := fmupd cl cs (gs_classes s1), gs_tickets := fmdrop (pr_ticket r) (gs_tickets s1),
    gs_virtual_time := gs_virtual_time s1\<rparr>"
  have s2: "same_ledger (class_view s1 cl) cs" "same_queue (class_view s1 cl) cs"
    "s2 = (if is_child (pr_scope r)
       then vacate_recursion_guard (pr_root_operation_id r) (pr_target_stage r) s1 else s1)
       \<lparr>gs_classes := fmupd cl cs (gs_classes s1), gs_tickets := fmdrop (pr_ticket r) (gs_tickets s1)\<rparr>"
    using d by (simp_all add: dequeued_def)
  note P = core_promote_one [where vt = "gs_virtual_time s1", OF co eq s2(1,2) refl]
  have same: "gs_permits s2 = gs_permits ?s2" "gs_tickets s2 = gs_tickets ?s2" "gs_terminal_index s2 = gs_terminal_index ?s2"
    "gs_terminal_seq s2 = gs_terminal_seq ?s2" "gs_classes s2 = gs_classes ?s2"
    unfolding s2(3) by (simp_all split: if_split)
  have "core n s2 \<longleftrightarrow> core n ?s2" by (rule core_cong) (simp_all add: s2(3) split: if_split)
  then have core2: "core n s2" using P(1) by simp
  show q: "queues s2 = queues s1"
    using s2(2) unfolding same(5) class_view_def by (simp add: queue_of_same_upd del: queue_of_upd)
  have "guard_inv s2"
  proof (rule guard_inv_dequeue [OF inv eq _ q])
    show "gs_permits s2 = gs_permits s1" unfolding same(1) by simp
    show "fmget (gs_active_recursion s2) {} root' =
        (if is_child (pr_scope r) \<and> root' = pr_root_operation_id r
         then fmget (gs_active_recursion s) {} root' - {pr_target_stage r}
         else fmget (gs_active_recursion s) {} root')" for root'
      using dequeued_member(3) [OF eq] by (simp add: s2(3) fmget_vacate_guard)
  qed
  with core2 show "gov_inv n s2" by (simp add: gov_inv_def)
  show "live s2 = (live s)(pr_ticket r := None)" "fmlookup (gs_terminal_index s2) (pr_ticket r) = None"
    "gs_terminal_seq s2 + card (dom (live s2)) + 1 \<le> n" "gs_permits s2 = gs_permits s"
    using P(2,3,5,6) unfolding same by simp_all
  show "live s (pr_ticket r) = Some (TQueued cl)" by (rule core_dequeue(3) [OF co eq])
qed

lemma record_terminal_drop:
  "record_terminal_ticket t reason (s\<lparr>gs_tickets := fmdrop t (gs_tickets s)\<rparr>) = record_terminal_ticket t reason s"
proof -
  have "fmupd t x (fmdrop t m) = fmupd t x m" for x :: TicketState and m by (rule fmap_ext) simp
  then show ?thesis by (simp add: record_terminal_ticket_def Let_def split: option.split)
qed

lemma gov_inv_record_terminal:
  assumes inv: "gov_inv n s" and t: "live s t = None" and room: "gs_terminal_seq s + card (dom (live s)) + 1 \<le> n"
  shows "gov_inv n (record_terminal_ticket t reason s)"
  using core_record_terminal [OF _ t room, of reason] inv by (simp add: gov_inv_def)

lemma gov_inv_faulted:
  assumes inv: "gov_inv n s" and t: "live s t = None" "fmlookup (gs_terminal_index s) t = None"
  shows "gov_inv n (s\<lparr>gs_tickets := fmupd t TFaulted (gs_tickets s)\<rparr>)"
  using core_settle [OF _ t refl] inv by (simp add: gov_inv_def)

section \<open>Nothing new comes into being\<close>

text \<open>What every transition but admission guarantees of custody: a ticket keeps its state, is settled, or goes
  forward from queued to granted to claiming, bound to one permit; no ticket, queued request or permit identity
  appears; the population of live permits and queued requests does not grow; closed admission stays closed.\<close>

definition population :: "GovernedState \<Rightarrow> nat" where
  "population s = fmsum one (gs_permits s) + total_queued s"

definition ticket_step :: "TicketState option \<Rightarrow> TicketState option \<Rightarrow> bool" where
  "ticket_step x y \<longleftrightarrow> y = x \<or> y = None
     \<or> (\<exists>cl p. x = Some (TQueued cl) \<and> (y = Some (TGranted p) \<or> y = Some (TClaiming p)))
     \<or> (\<exists>p. x = Some (TGranted p) \<and> y = Some (TClaiming p))"

abbreviation permit_ids :: "GovernedState \<Rightarrow> PermitId set" where
  "permit_ids s \<equiv> Range (occupants pid_p pid_q (gs_permits s) (queues s))"

definition evolves :: "GovernedState \<Rightarrow> GovernedState \<Rightarrow> bool" where
  "evolves s s' \<longleftrightarrow>
     (\<forall>t. ticket_step (live s t) (live s' t))
     \<and> fmdom (gs_tickets s') |\<subseteq>| fmdom (gs_tickets s)
     \<and> (\<forall>cl. set (queues s' cl) \<subseteq> set (queues s cl))
     \<and> permit_ids s' \<subseteq> permit_ids s
     \<and> population s' \<le> population s
     \<and> (gs_admission_closed s \<longrightarrow> gs_admission_closed s')"

lemma ticket_step_refl [simp]: "ticket_step x x"
  by (simp add: ticket_step_def)

lemma ticket_step_None [simp]: "ticket_step x None"
  by (simp add: ticket_step_def)

lemma ticket_step_trans: "ticket_step x y \<Longrightarrow> ticket_step y z \<Longrightarrow> ticket_step x z"
  by (auto simp: ticket_step_def)

lemma evolves_refl [simp]: "evolves s s"
  by (simp add: evolves_def)

lemma evolves_trans: "evolves a b \<Longrightarrow> evolves b c \<Longrightarrow> evolves a c"
  unfolding evolves_def by (meson ticket_step_trans order_trans)

lemma evolves_same_custody:
  assumes "gs_permits s' = gs_permits s" "queues s' = queues s" "gs_tickets s' = gs_tickets s"
    "gs_admission_closed s' = gs_admission_closed s"
  shows "evolves s s'"
  using assms total_queued_cong [OF assms(2)] by (simp add: evolves_def population_def)

lemma evolves_sched: "sched_eq s s' \<Longrightarrow> evolves s s'"
  by (rule evolves_same_custody) (simp_all add: sched_eq_queues, simp_all add: sched_eq_def)

lemma evolves_dequeued:
  assumes inv: "gov_inv n s" and eq: "remove_pending cl i s = (s1, Some r)" and d: "dequeued cl r s1 cs s2"
  shows "evolves s s2" and "population s2 < population s"
proof -
  have co: "core n s" using inv by (simp add: gov_inv_def)
  note D = gov_inv_dequeued [OF assms] and Q = remove_pending_queues [OF eq]
  have q: "queues s2 = (queues s)(cl := remove_nth i (queues s cl))" using D(5) Q(1) by simp
  have tq: "total_queued s2 < total_queued s" by (rule total_queued_remove [OF q Q(2)])
  have "permit_ids s2 \<subseteq> permit_ids s"
    using core_dequeue(5) [OF co eq, of pid_p pid_q] D(5,6) dequeued_member(2) [OF eq] by (auto simp: Range_iff)
  moreover have "gs_tickets s2 = fmdrop (pr_ticket r) (gs_tickets s)" "gs_admission_closed s2 = gs_admission_closed s"
    using d dequeued_member(6) [OF eq] eq
    by (auto simp: dequeued_def remove_pending_def Let_def split: option.splits if_splits)
  ultimately show "evolves s s2"
    using D(2,6) q tq set_remove_nth_subset [of i "queues s cl"]
    by (auto simp: evolves_def population_def)
  show "population s2 < population s" using tq D(6) by (simp add: population_def)
qed

section \<open>Wait cycles leave the queue\<close>

lemma find_map_Some: "find_map f xs = Some y \<Longrightarrow> \<exists>x \<in> set xs. f x = Some y"
  by (induction xs) (auto split: option.splits)

lemma find_map_None: "find_map f xs = None \<longleftrightarrow> (\<forall>x \<in> set xs. f x = None)"
  by (induction xs) (auto split: option.splits)

lemma cycle_in_class_Some:
  assumes "cycle_in_class s ps (cl, cs) = Some (c, i, witness)"
  obtains policy where "c = cl" "policy_class ps cl = Some policy" "i < length (cs_queue cs)"
    "assess_pending s ps (cs_queue cs ! i) (max_inflight policy) False = WaitCycle witness"
proof -
  obtain policy where p: "policy_class ps cl = Some policy"
    using assms by (auto simp: cycle_in_class_def split: if_splits option.splits)
  then obtain x where x: "x \<in> set (enumerate 0 (cs_queue cs))"
    "(\<lambda>(index, request). if pr_seq_no request \<in> cs_queued_awaited_children cs
        then (case assess_pending s ps request (max_inflight policy) False of
                WaitCycle witness \<Rightarrow> Some (cl, index, witness) | _ \<Rightarrow> None)
        else None) x = Some (c, i, witness)"
    using assms by (auto simp: cycle_in_class_def split: if_splits dest!: find_map_Some)
  then show thesis
    by (intro that [OF _ p]) (auto simp: in_set_enumerate_eq split: prod.splits if_splits CapacityAssessment.splits)
qed

lemma assess_pending_cycle_child:
  assumes "assess_pending s ps r m qb = WaitCycle w"
  shows "is_child (pr_scope r)"
proof -
  have "\<exists>b. cycle_witness s ps (pr_root_operation_id r) (pr_scope r) (pr_parent_permit_id r) (pr_class r) b = Some w"
    using assms by (auto simp: assess_pending_def assess_scope_def Let_def split: if_splits option.splits)
  then show ?thesis by (cases "pr_scope r") (auto simp: cycle_witness_def)
qed

lemma evict_terminal_dom: "fmdom (gs_tickets (evict_terminal s)) |\<subseteq>| fmdom (gs_tickets s)"
proof (induction s rule: evict_terminal.induct)
  case (1 s)
  have "fmdom (gs_tickets (drop_terminal sq t s)) |\<subseteq>| fmdom (gs_tickets s)" for sq t
    by (auto simp: drop_terminal_def Let_def split: option.splits TicketState.splits)
  with 1 show ?case by (subst evict_terminal.simps) (auto split: list.split, blast)
qed

lemma record_terminal_dom:
  "fmdom (gs_tickets (record_terminal_ticket t reason s)) |\<subseteq>| finsert t (fmdom (gs_tickets s))"
proof -
  have "\<exists>x. record_terminal_ticket t reason s = evict_terminal x
      \<and> gs_tickets x = fmupd t (TTerminal reason) (gs_tickets s)"
    unfolding record_terminal_ticket_def Let_def
    by (rule exI, rule conjI, rule refl) (simp split: option.split)
  then obtain x where "record_terminal_ticket t reason s = evict_terminal x"
    "gs_tickets x = fmupd t (TTerminal reason) (gs_tickets s)" by blast
  then show ?thesis using evict_terminal_dom [of x] by simp
qed

lemma live_dom: "live s t = Some x \<Longrightarrow> t |\<in>| fmdom (gs_tickets s)"
  by (auto simp: live_tickets_def split: option.splits if_splits intro: fmdomI)

lemma class_unserved_removed_dequeued:
  assumes "is_child (pr_scope r)"
  shows "dequeued cl r s1 (class_unserved_removed policy (gs_virtual_time s1) (class_view s1 cl))
    ((vacate_recursion_guard (pr_root_operation_id r) (pr_target_stage r) (on_unserved_removed cl policy s1))
      \<lparr>gs_tickets := fmdrop (pr_ticket r) (gs_tickets s1)\<rparr>)"
  using assms class_unserved_removed_sched
  by (simp add: dequeued_def on_unserved_removed_def class_mut_def vacate_recursion_guard_def Let_def split: option.split)

lemma terminalize_wait_cycle_cases:
  assumes "terminalize_wait_cycle ps s e = ((s', e'), out)"
  obtains "s' = s" "e' = e" "out = CycleNone"
  | cl cs i w s1 r policy where "fmlookup (gs_classes s) cl = Some cs" "policy_class ps cl = Some policy"
      "i < length (cs_queue cs)" "assess_pending s ps (cs_queue cs ! i) (max_inflight policy) False = WaitCycle w"
      "remove_pending cl i s = (s1, Some r)" "r = cs_queue cs ! i"
      "s' = record_terminal_ticket (pr_ticket r) (IrreversibleWaitCycle (hd (cw_held w)))
         (vacate_recursion_guard (pr_root_operation_id r) (pr_target_stage r) (on_unserved_removed cl policy s1))"
      "e' = push_wake (pr_waker r) e" "out = CycleRemoved"
proof (cases "find_map (cycle_in_class s ps) (bt_entries (gs_classes s))")
  case None
  then show thesis using assms by (intro that(1)) (simp_all add: terminalize_wait_cycle_def)
next
  case (Some x)
  obtain cl i w where x: "x = (cl, i, w)" by (cases x)
  obtain c cs where cs: "fmlookup (gs_classes s) c = Some cs" "cycle_in_class s ps (c, cs) = Some (cl, i, w)"
    using find_map_Some [OF Some] by (auto simp: x set_bt_entries)
  obtain policy where c: "c = cl" "policy_class ps cl = Some policy" "i < length (cs_queue cs)"
    "assess_pending s ps (cs_queue cs ! i) (max_inflight policy) False = WaitCycle w"
    using cs(2) by (rule cycle_in_class_Some) auto
  obtain s1 where r: "remove_pending cl i s = (s1, Some (cs_queue cs ! i))"
    using cs(1) c by (simp add: remove_pending_def Let_def)
  show thesis using assms Some x r c cs(1)
    by (intro that(2) [OF _ c(2-4) r refl]) (auto simp: terminalize_wait_cycle_def Let_def queued_policy_def)
qed

lemma terminalize_wait_cycle_keeps:
  assumes inv: "gov_inv n s" and eq: "terminalize_wait_cycle ps s e = ((s', e'), out)"
  shows "gov_inv n s'" and "evolves s s'" and "out = CycleRemoved \<Longrightarrow> population s' < population s"
    and "gs_permits s' = gs_permits s"
proof -
  have "gov_inv n s' \<and> evolves s s' \<and> (out = CycleRemoved \<longrightarrow> population s' < population s) \<and> gs_permits s' = gs_permits s"
    using eq
  proof (cases rule: terminalize_wait_cycle_cases)
    case (2 cl cs i w s1 r policy)
    let ?t = "pr_ticket r" and ?reason = "IrreversibleWaitCycle (hd (cw_held w))"
    let ?v = "vacate_recursion_guard (pr_root_operation_id r) (pr_target_stage r) (on_unserved_removed cl policy s1)"
    let ?d = "?v\<lparr>gs_tickets := fmdrop ?t (gs_tickets s1)\<rparr>"
    have ch: "is_child (pr_scope r)" using 2 assess_pending_cycle_child by metis
    note dq = class_unserved_removed_dequeued [OF ch, of cl s1 policy]
    note D = gov_inv_dequeued [OF inv 2(5) dq] and E = evolves_dequeued [OF inv 2(5) dq]
    have "gs_tickets ?v = gs_tickets s1" by (simp add: on_unserved_removed_def)
    then have s': "s' = record_terminal_ticket ?t ?reason ?d"
      using 2(7) record_terminal_drop [of ?t ?reason ?v] by simp
    have t: "live ?d ?t = None" using D(2) by simp
    have q: "queues s' = queues ?d" unfolding s' by simp
    have p: "gs_permits s' = gs_permits ?d" unfolding s' by simp
    have pop: "population s' = population ?d" using total_queued_cong [OF q] p by (simp add: population_def)
    have dom: "fmdom (gs_tickets s') |\<subseteq>| fmdom (gs_tickets s)"
      using record_terminal_dom [of ?t ?reason ?d] dequeued_member(6) [OF 2(5)] live_dom [OF D(7)]
      unfolding s' by (auto simp: fsubset_iff)
    have "evolves s s'"
      using E(1) dom D(2) unfolding evolves_def q p pop by (simp add: s')
    then show ?thesis using gov_inv_record_terminal [OF D(1) t D(4)] E(2) pop D(6) p by (simp add: s')
  qed (use inv in simp)
  then show "gov_inv n s'" "evolves s s'" "out = CycleRemoved \<Longrightarrow> population s' < population s"
    "gs_permits s' = gs_permits s" by auto
qed

section \<open>One promotion\<close>

lemma fmsum_one_upd_le: "fmsum one (fmupd p r m) \<le> fmsum one m + 1"
  by (cases "fmlookup m p") (simp_all add: fmsum_simps)

lemma queues_grant: "queues (grant g s) = queues s"
  unfolding grant_fields(1) class_view_def by (rule queue_of_same_upd) (rule class_ledger_same_queue)

text \<open>The state a promoted request is granted in.\<close>

definition promote_base :: "PolicySet \<Rightarrow> Selection \<Rightarrow> PendingRequest \<Rightarrow> GovernedState \<Rightarrow> GovernedState" where
  "promote_base ps sel r s =
     s\<lparr>gs_classes := fmupd (sel_class sel)
         (class_request_served (queued_policy ps (sel_class sel)) (gs_virtual_time s) (sel_queue_index sel)
            (sel_service_finish_tag sel) (class_view s (sel_class sel))) (gs_classes s),
       gs_tickets := fmdrop (pr_ticket r) (gs_tickets s), gs_virtual_time := gs_virtual_time s\<rparr>"

lemma promote_one_eq:
  "promote_one ps now sel r s = grant (promoted_grant (sel_class sel) now r (promote_base ps sel r s)) (promote_base ps sel r s)"
  by (simp add: promote_one_def on_request_served_def class_mut_def promote_base_def Let_def)

lemma promote_base_fields [simp]:
  "gs_permits (promote_base ps sel r s) = gs_permits s" "queues (promote_base ps sel r s) = queues s"
  "gs_tickets (promote_base ps sel r s) = fmdrop (pr_ticket r) (gs_tickets s)"
  "gs_admission_closed (promote_base ps sel r s) = gs_admission_closed s"
proof -
  show "queues (promote_base ps sel r s) = queues s"
    using class_request_served_sched(2) unfolding promote_base_def class_view_def
    by (simp add: queue_of_same_upd del: queue_of_upd)
qed (simp_all add: promote_base_def)

lemma promote_one_fields:
  "gs_permits (promote_one ps now sel r s) = fmupd (pr_permit_id r)
     (granted_record (promoted_grant (sel_class sel) now r (promote_base ps sel r s))) (gs_permits s)"
  "gs_tickets (promote_one ps now sel r s) = fmupd (pr_ticket r) (TGranted (pr_permit_id r)) (gs_tickets s)"
  "gs_admission_closed (promote_one ps now sel r s) = gs_admission_closed s"
  "queues (promote_one ps now sel r s) = queues s"
proof -
  have "fmupd t x (fmdrop t m) = fmupd t x m" for x :: TicketState and m :: "(Ticket, TicketState) fmap" and t
    by (rule fmap_ext) simp
  then show "gs_tickets (promote_one ps now sel r s) = fmupd (pr_ticket r) (TGranted (pr_permit_id r)) (gs_tickets s)"
    by (simp add: promote_one_eq promoted_grant_def)
  show "queues (promote_one ps now sel r s) = queues s" unfolding promote_one_eq queues_grant by simp
qed (simp_all add: promote_one_eq, simp add: promoted_grant_def)

lemma promote_one_keeps:
  assumes inv: "gov_inv n s" and rm: "remove_pending (sel_class sel) i s = (s1, Some r)"
    and pop: "population s \<le> u32_max"
  shows "gov_inv n (promote_one ps now sel r s1)" and "evolves s (promote_one ps now sel r s1)"
    and "total_queued (promote_one ps now sel r s1) < total_queued s"
proof -
  let ?cl = "sel_class sel" and ?s = "promote_one ps now sel r s1"
  have co: "core n s" using inv by (simp add: gov_inv_def)
  note Q = remove_pending_queues [OF rm] and M = dequeued_member [OF rm]
  have q: "queues ?s = (queues s)(?cl := remove_nth i (queues s ?cl))" using Q(1) by (simp add: promote_one_fields)
  show tq: "total_queued ?s < total_queued s" by (rule total_queued_remove [OF q Q(2)])
  then have room: "fmsum one (gs_permits s) < u32_max" using pop by (simp add: population_def)
  show "gov_inv n ?s" unfolding promote_one_eq
    by (rule gov_inv_promote_one [OF inv rm class_request_served_sched promote_base_def])
       (use room in \<open>simp_all add: promoted_grant_def\<close>)
  have live_t: "live s (pr_ticket r) = Some (TQueued ?cl)" by (rule core_dequeue(3) [OF co rm])
  have L: "live ?s = (live s)(pr_ticket r \<mapsto> TGranted (pr_permit_id r))"
    using M(6) by (simp add: promote_one_fields)
  have "permit_ids ?s \<subseteq> permit_ids s"
  proof
    fix p assume "p \<in> permit_ids ?s"
    moreover have "pr_permit_id r \<in> permit_ids s"
      using M(1) unfolding Range_occupants pid_q_def by (metis untagged_fields(1))
    moreover have "set (queues ?s cl) \<subseteq> set (queues s cl)" for cl
      using set_remove_nth_subset [of i "queues s ?cl"] by (simp add: q)
    moreover have "(\<exists>a x. fmlookup (gs_permits ?s) a = Some x \<and> pid_p x = Some p) \<Longrightarrow>
        p = pr_permit_id r \<or> (\<exists>a x. fmlookup (gs_permits s) a = Some x \<and> pid_p x = Some p)"
      by (auto simp: promote_one_fields(1) M(2) pid_p_def promoted_grant_def split: if_splits)
    ultimately show "p \<in> permit_ids s" unfolding Range_occupants by (metis subsetD)
  qed
  moreover have "fmdom (gs_tickets ?s) |\<subseteq>| fmdom (gs_tickets s)"
    using live_dom [OF live_t] M(6) by (simp add: promote_one_fields)
  moreover have "population ?s \<le> population s"
  proof -
    have "fmsum one (gs_permits ?s) \<le> fmsum one (gs_permits s) + 1"
      unfolding promote_one_fields(1) M(2) by (rule fmsum_one_upd_le)
    with tq show ?thesis unfolding population_def by linarith
  qed
  moreover have "gs_admission_closed ?s = gs_admission_closed s"
    using rm by (auto simp: promote_one_fields remove_pending_def Let_def split: option.splits if_splits)
  ultimately show "evolves s ?s"
    using L live_t q set_remove_nth_subset [of i "queues s ?cl"] by (auto simp: evolves_def ticket_step_def)
qed

lemma promote_loop_keeps:
  assumes "gov_inv n s" "population s \<le> u32_max" "promote_loop ps now k s e ch = ((s', e'), ch', ex)"
  shows "gov_inv n s' \<and> evolves s s'"
  using assms
proof (induction k arbitrary: s e ch)
  case 0
  then show ?case by auto
next
  case (Suc k)
  obtain s0 out where sel: "select s ps = (s0, out)" by force
  note sq = sched_eq_select [OF sel]
  have inv0: "gov_inv n s0" and ev0: "evolves s s0"
    using gov_inv_sched [OF Suc.prems(1) sq] evolves_sched [OF sq] by auto
  have pop0: "population s0 \<le> u32_max" using ev0 Suc.prems(2) by (simp add: evolves_def)
  show ?case
  proof (cases out)
    case None
    then show ?thesis using Suc.prems(3) sel inv0 ev0 by auto
  next
    case (Some x)
    obtain s1 ro where rm: "remove_pending (sel_class x) (sel_queue_index x) s0 = (s1, ro)" by force
    show ?thesis
    proof (cases ro)
      case None
      then have "s1 = s0" using rm by (auto simp: remove_pending_def Let_def split: option.splits if_splits)
      then show ?thesis using Suc.prems(3) sel Some rm None inv0 ev0 by auto
    next
      case (Some r)
      note P = promote_one_keeps [OF inv0 rm [unfolded Some] pop0, of ps now]
      have "population (promote_one ps now x r s1) \<le> u32_max" using P(2) pop0 by (simp add: evolves_def)
      from Suc.IH [OF P(1) this] Suc.prems(3) sel \<open>out = Some x\<close> rm Some
      have "gov_inv n s' \<and> evolves (promote_one ps now x r s1) s'" by auto
      then show ?thesis using P(2) ev0 by (auto intro: evolves_trans)
    qed
  qed
qed

section \<open>A promotion pass\<close>

lemma vacate_queues [simp]: "queues (vacate_recursion_guard root_id st s) = queues s"
  by (simp add: vacate_recursion_guard_def Let_def split: option.split)

lemma terminalize_wait_cycle_total:
  assumes "terminalize_wait_cycle ps s e = ((s', e'), out)"
  shows "total_queued s' \<le> total_queued s" and "out = CycleRemoved \<Longrightarrow> total_queued s' < total_queued s"
proof -
  have "total_queued s' \<le> total_queued s \<and> (out = CycleRemoved \<longrightarrow> total_queued s' < total_queued s)"
    using assms
  proof (cases rule: terminalize_wait_cycle_cases)
    case (2 cl cs i w s1 r policy)
    have "queues s' = queues s1" unfolding 2(7)
      using sched_eq_queues [OF sched_eq_on_unserved_removed, of cl policy s1] by simp
    then have "total_queued s' = total_queued s1" by (rule total_queued_cong)
    then show ?thesis using remove_pending_fewer [OF 2(5)] by simp
  qed simp
  then show "total_queued s' \<le> total_queued s" "out = CycleRemoved \<Longrightarrow> total_queued s' < total_queued s" by auto
qed

lemma select_total: "select s ps = (s', out) \<Longrightarrow> total_queued s' = total_queued s"
  by (rule total_queued_cong, rule sched_eq_queues, rule sched_eq_select)

lemma promote_loop_total:
  "promote_loop ps now k s e ch = ((s', e'), ch', ex) \<Longrightarrow>
     total_queued s' \<le> total_queued s \<and> (ex \<longrightarrow> 0 < k \<longrightarrow> total_queued s' < total_queued s)
     \<and> (ch' \<longrightarrow> ch \<or> total_queued s' < total_queued s)"
proof (induction k arbitrary: s e ch)
  case (Suc k)
  obtain s0 out where sel: "select s ps = (s0, out)" by force
  note tq0 = select_total [OF sel]
  show ?case
  proof (cases out)
    case None
    then show ?thesis using Suc.prems sel tq0 by auto
  next
    case (Some x)
    obtain s1 ro where rm: "remove_pending (sel_class x) (sel_queue_index x) s0 = (s1, ro)" by force
    show ?thesis
    proof (cases ro)
      case None
      then have "s1 = s0" using rm by (auto simp: remove_pending_def Let_def split: option.splits if_splits)
      then show ?thesis using Suc.prems sel Some rm None tq0 by auto
    next
      case (Some r)
      have "total_queued (promote_one ps now x r s1) = total_queued s1"
        by (rule total_queued_cong) (rule promote_one_fields(4))
      then have "total_queued (promote_one ps now x r s1) < total_queued s"
        using remove_pending_fewer [OF rm [unfolded Some]] tq0 by simp
      moreover have "promote_loop ps now k (promote_one ps now x r s1) (push_wake (pr_waker r) e) True = ((s', e'), ch', ex)"
        using Suc.prems sel \<open>out = Some x\<close> rm Some by simp
      ultimately show ?thesis using Suc.IH by fastforce
    qed
  qed
qed simp

lemma promote_parts:
  assumes "promote ps now s = (s', eff)"
  obtains s1 e1 rb s2 e2 ch ex s3 e3 ra where "terminalize_wait_cycle ps s no_effects = ((s1, e1), rb)"
    "promote_loop ps now PROMOTION_BUDGET s1 e1 (rb = CycleRemoved) = ((s2, e2), ch, ex)"
    "(if ch then terminalize_wait_cycle ps s2 e2 else ((s2, e2), CycleNone)) = ((s3, e3), ra)"
    "eff_more_runnable eff \<longleftrightarrow> ra = CycleRemoved \<or> ex \<and> has_runnable s3 ps"
    "s' = s3\<lparr>gs_promotion_pending := eff_more_runnable eff\<rparr>" "eff = e3\<lparr>eff_more_runnable := eff_more_runnable eff\<rparr>"
  using assms unfolding promote_def Let_def by (auto split: prod.splits)

lemma promote_total:
  assumes "promote ps now s = (s', eff)"
  shows "total_queued s' \<le> total_queued s" and "eff_more_runnable eff \<Longrightarrow> total_queued s' < total_queued s"
proof -
  from assms obtain s1 e1 rb s2 e2 ch ex s3 e3 ra where p: "terminalize_wait_cycle ps s no_effects = ((s1, e1), rb)"
    "promote_loop ps now PROMOTION_BUDGET s1 e1 (rb = CycleRemoved) = ((s2, e2), ch, ex)"
    "(if ch then terminalize_wait_cycle ps s2 e2 else ((s2, e2), CycleNone)) = ((s3, e3), ra)"
    "eff_more_runnable eff \<longleftrightarrow> ra = CycleRemoved \<or> ex \<and> has_runnable s3 ps"
    "s' = s3\<lparr>gs_promotion_pending := eff_more_runnable eff\<rparr>"
    by (rule promote_parts)
  have "total_queued s' = total_queued s3" by (simp add: p(5) total_queued_def)
  moreover have "total_queued s1 \<le> total_queued s" by (rule terminalize_wait_cycle_total(1) [OF p(1)])
  moreover note promote_loop_total [OF p(2)]
  moreover have "total_queued s3 \<le> total_queued s2 \<and> (ra = CycleRemoved \<longrightarrow> total_queued s3 < total_queued s2)"
    using p(3) terminalize_wait_cycle_total [of ps s2 e2] by (auto split: if_splits)
  ultimately show "total_queued s' \<le> total_queued s" "eff_more_runnable eff \<Longrightarrow> total_queued s' < total_queued s"
    using p(4) by (auto simp: PROMOTION_BUDGET_def)
qed

lemma promote_keeps:
  assumes inv: "gov_inv n s" and pop: "population s \<le> u32_max" and eq: "promote ps now s = (s', eff)"
  shows "gov_inv n s'" and "evolves s s'"
proof -
  from eq obtain s1 e1 rb s2 e2 ch ex s3 e3 ra where p: "terminalize_wait_cycle ps s no_effects = ((s1, e1), rb)"
    "promote_loop ps now PROMOTION_BUDGET s1 e1 (rb = CycleRemoved) = ((s2, e2), ch, ex)"
    "(if ch then terminalize_wait_cycle ps s2 e2 else ((s2, e2), CycleNone)) = ((s3, e3), ra)"
    "s' = s3\<lparr>gs_promotion_pending := eff_more_runnable eff\<rparr>"
    by (rule promote_parts)
  note A = terminalize_wait_cycle_keeps [OF inv p(1)]
  have "population s1 \<le> u32_max" using A(2) pop by (simp add: evolves_def)
  note B = promote_loop_keeps [OF A(1) this p(2)]
  have C: "gov_inv n s3" "evolves s2 s3"
    using B p(3) terminalize_wait_cycle_keeps(1,2) [of n s2 ps e2] by (auto split: if_splits)
  have "evolves s3 s'" unfolding p(4) by (rule evolves_same_custody) simp_all
  then show "evolves s s'" using A(2) B C(2) evolves_trans by blast
  show "gov_inv n s'" unfolding p(4) using C(1) by (subst gov_inv_cong [of _ s3]) simp_all
qed

section \<open>Draining\<close>

text \<open>\<open>drain_effects_captured\<close> with no other thread in between: it hands the collected wakers to the host and
  runs continuation passes until none is owed. The wakers are woken and retired in the order given; a
  host panic is contained and never cuts the loop short, so it does not appear.\<close>

function drain :: "PolicySet \<Rightarrow> nat \<Rightarrow> GovernedState \<Rightarrow> TransitionEffects \<Rightarrow> GovernedState \<times> waker list \<times> waker list" where
  "drain ps sampled s e =
     (if eff_more_runnable e
      then
        let (s1, now) = commit_time sampled s;
            (s2, e2) = promote ps now s1;
            (s3, woken, retired) = drain ps sampled s2 e2
        in (s3, eff_wake e @ woken, eff_retire e @ retired)
      else (s, eff_wake e, eff_retire e))"
  by pat_completeness auto

text \<open>A pass that owes a continuation has taken a request out of the queue, so the loop ends.\<close>

termination drain
proof (relation "measure (\<lambda>(ps, sampled, s, e). total_queued s + of_bool (eff_more_runnable e))", goal_cases)
  case (2 ps sampled s e x s1 now y s2 e2)
  then have p: "promote ps now s1 = (s2, e2)" and s1: "total_queued s1 = total_queued s"
    by (auto simp: commit_time_def Let_def total_queued_def)
  show ?case using 2(1) promote_total [OF p] s1 by (cases "eff_more_runnable e2") simp_all
qed simp

declare drain.simps [simp del]

lemma has_runnable_cong:
  assumes "gs_classes s' = gs_classes s" "gs_accounting_fault s' = gs_accounting_fault s"
    "gs_capability_in_use s' = gs_capability_in_use s" "gs_cpu_units_held s' = gs_cpu_units_held s"
    "gs_memory_units_held s' = gs_memory_units_held s"
  shows "has_runnable s' ps = has_runnable s ps"
  by (simp add: has_runnable_iff runnable_request_iff fits_def inflight_def capability_free_def
      capability_in_use_def assms)

lemma select_None: "select s ps = (s', None) \<Longrightarrow> s' = s \<and> \<not> has_runnable s ps"
proof -
  assume a: "select s ps = (s', None)"
  then have "\<not> has_runnable s ps" using select_None_iff [of s ps] by simp
  moreover from this have "runnable_candidates s ps = []" by (simp add: has_runnable_def)
  ultimately show ?thesis using a by (simp add: select_def contended_pool_def)
qed

lemma select_removes:
  assumes "select s ps = (s', Some sel)"
  shows "\<exists>s1 r. remove_pending (sel_class sel) (sel_queue_index sel) s' = (s1, Some r)"
  using assms
proof (rule ready.pick_queue)
  assume i: "sel_queue_index sel < length (cs_queue (class_view s' (sel_class sel)))"
  then show ?thesis
    by (auto simp: remove_pending_def Let_def class_view_def fmget_def ClassState_default_def split: option.splits)
qed

lemma promote_loop_rest:
  "promote_loop ps now k s e ch = ((s', e'), ch', ex) \<Longrightarrow>
     (ex \<or> \<not> has_runnable s' ps) \<and> (ch' \<or> \<not> ch \<and> (0 < k \<longrightarrow> s' = s))"
proof (induction k arbitrary: s e ch)
  case 0
  then show ?case by auto
next
  case (Suc k)
  obtain s0 out where sel: "select s ps = (s0, out)" by force
  show ?case
  proof (cases out)
    case None
    then show ?thesis using Suc.prems sel select_None [of s ps s0] by auto
  next
    case (Some x)
    obtain s1 r where rm: "remove_pending (sel_class x) (sel_queue_index x) s0 = (s1, Some r)"
      using select_removes sel Some by blast
    have "promote_loop ps now k (promote_one ps now x r s1) (push_wake (pr_waker r) e) True = ((s', e'), ch', ex)"
      using Suc.prems sel Some rm by simp
    from Suc.IH [OF this] show ?thesis by auto
  qed
qed

text \<open>A pass that owes no continuation leaves nothing runnable in the queue.\<close>

lemma promote_rest:
  assumes "promote ps now s = (s', eff)" "\<not> eff_more_runnable eff"
  shows "\<not> has_runnable s' ps" and "\<not> gs_promotion_pending s'"
proof -
  from assms(1) obtain s1 e1 rb s2 e2 ch ex s3 e3 ra where p: "terminalize_wait_cycle ps s no_effects = ((s1, e1), rb)"
    "promote_loop ps now PROMOTION_BUDGET s1 e1 (rb = CycleRemoved) = ((s2, e2), ch, ex)"
    "(if ch then terminalize_wait_cycle ps s2 e2 else ((s2, e2), CycleNone)) = ((s3, e3), ra)"
    "eff_more_runnable eff \<longleftrightarrow> ra = CycleRemoved \<or> ex \<and> has_runnable s3 ps"
    "s' = s3\<lparr>gs_promotion_pending := eff_more_runnable eff\<rparr>"
    by (rule promote_parts)
  have "s3 = s2"
    using p(3,4) assms(2) by (auto split: if_splits elim: terminalize_wait_cycle_cases)
  then have "\<not> has_runnable s3 ps" using promote_loop_rest [OF p(2)] p(4) assms(2) by auto
  then show "\<not> has_runnable s' ps" unfolding p(5) by (subst has_runnable_cong [of _ s3]) simp_all
  show "\<not> gs_promotion_pending s'" using assms(2) by (simp add: p(5))
qed

lemma drain_rest:
  "drain ps sampled s e = (s', woken, retired) \<Longrightarrow> (eff_more_runnable e \<longrightarrow> \<not> has_runnable s' ps \<and> \<not> gs_promotion_pending s')
     \<and> total_queued s' \<le> total_queued s"
proof (induction ps sampled s e arbitrary: s' woken retired rule: drain.induct)
  case (1 ps sampled s e)
  show ?case
  proof (cases "eff_more_runnable e")
    case True
    obtain s1 now where c: "commit_time sampled s = (s1, now)" by force
    obtain s2 e2 where p: "promote ps now s1 = (s2, e2)" by force
    obtain s3 a b where d: "drain ps sampled s2 e2 = (s3, a, b)" by (metis prod_cases3)
    have s': "s' = s3" using 1(2) True c p d by (subst (asm) drain.simps) simp
    have "total_queued s1 = total_queued s" using c by (auto simp: commit_time_def Let_def total_queued_def)
    moreover have "drain ps sampled s2 e2 = (s2, eff_wake e2, eff_retire e2)" if "\<not> eff_more_runnable e2"
      using that by (subst drain.simps) simp
    ultimately show ?thesis
      using 1(1) [OF True c [symmetric] refl p [symmetric] refl d] promote_rest [OF p] promote_total(1) [OF p] d s' by fastforce
  qed (use 1(2) in \<open>subst (asm) drain.simps, simp\<close>)
qed

section \<open>The queue after an accounting fault\<close>

lemma fmupd_fmdrop [simp]: "fmupd k v (fmdrop k m) = fmupd k v m"
  by (rule fmap_ext) simp

lemma fmupd_same: "fmlookup m k = Some v \<Longrightarrow> fmupd k v m = m"
  by (rule fmap_ext) auto

definition faulted :: "PendingRequest \<Rightarrow> GovernedState \<Rightarrow> GovernedState" where
  "faulted r s = (let s = (if is_child (pr_scope r)
       then vacate_recursion_guard (pr_root_operation_id r) (pr_target_stage r) s else s)
     in s\<lparr>gs_tickets := fmupd (pr_ticket r) TFaulted (gs_tickets s)\<rparr>)"

lemma faulted_keeps:
  assumes inv: "gov_inv n s" and rm: "remove_pending cl i s = (s1, Some r)"
  shows "gov_inv n (faulted r s1)" and "evolves s (faulted r s1)"
    and "queues (faulted r s1) = (queues s)(cl := remove_nth i (queues s cl))"
    and "gs_permits (faulted r s1) = gs_permits s"
proof -
  let ?v = "if is_child (pr_scope r)
    then vacate_recursion_guard (pr_root_operation_id r) (pr_target_stage r) s1 else s1"
  let ?d = "?v\<lparr>gs_classes := fmupd cl (class_view s1 cl) (gs_classes s1), gs_tickets := fmdrop (pr_ticket r) (gs_tickets s1)\<rparr>"
  have dq: "dequeued cl r s1 (class_view s1 cl) ?d" by (simp add: dequeued_def)
  obtain c0 where "s1 = forget_queued_identity r (s\<lparr>gs_classes := fmupd cl (class_take i c0) (gs_classes s)\<rparr>)"
    using rm by (rule remove_pending_Some)
  then have "fmlookup (gs_classes s1) cl = Some (class_view s1 cl)" by (simp add: class_view_def)
  then have "gs_classes s1 = fmupd cl (class_view s1 cl) (gs_classes s1)" by (simp add: fmupd_same)
  then have f: "faulted r s1 = ?d\<lparr>gs_tickets := fmupd (pr_ticket r) TFaulted (gs_tickets ?d)\<rparr>"
    by (cases "is_child (pr_scope r)") (simp_all add: faulted_def Let_def)
  note D = gov_inv_dequeued [OF inv rm dq] and E = evolves_dequeued [OF inv rm dq]
  have t: "live ?d (pr_ticket r) = None" using D(2) by simp
  show "gov_inv n (faulted r s1)" unfolding f by (rule gov_inv_faulted [OF D(1) t D(3)])
  have L: "live (faulted r s1) = live ?d" unfolding f using t by (simp add: fun_upd_live_None)
  have q: "queues (faulted r s1) = queues ?d" "gs_permits (faulted r s1) = gs_permits ?d" unfolding f by simp_all
  show "queues (faulted r s1) = (queues s)(cl := remove_nth i (queues s cl))"
    using q D(5) remove_pending_queues(1) [OF rm] by simp
  show "gs_permits (faulted r s1) = gs_permits s" using q D(6) by simp
  have "population (faulted r s1) = population ?d" using total_queued_cong [OF q(1)] q(2) by (simp add: population_def)
  moreover have "fmdom (gs_tickets (faulted r s1)) |\<subseteq>| fmdom (gs_tickets s)"
    using live_dom [OF D(7)] dequeued_member(6) [OF rm] by (auto simp: faulted_def Let_def)
  moreover have "gs_admission_closed (faulted r s1) = gs_admission_closed ?d" unfolding f by simp
  ultimately show "evolves s (faulted r s1)" using E(1) unfolding evolves_def L q by simp
qed

lemma fault_queue_Suc:
  "fault_queue cl (Suc k) s e = (case remove_pending cl 0 s of
     (s, None) \<Rightarrow> (s, e) | (s, Some r) \<Rightarrow> fault_queue cl k (faulted r s) (push_wake (pr_waker r) e))"
  by (simp add: faulted_def Let_def split: prod.split option.split)

lemma fault_queue_keeps:
  assumes "gov_inv n s" "fault_queue cl k s e = (s', e')"
  shows "gov_inv n s' \<and> evolves s s' \<and> queues s' = (queues s)(cl := drop k (queues s cl)) \<and> gs_permits s' = gs_permits s"
  using assms
proof (induction k arbitrary: s e)
  case (Suc k)
  show ?case
  proof (cases "queues s cl")
    case Nil
    then have "remove_pending cl 0 s = (s, None)"
      by (auto simp: remove_pending_def queue_of_def fmget_def split: option.split)
    then show ?thesis using Suc.prems Nil by (auto simp: fault_queue_Suc simp del: fault_queue.simps)
  next
    case (Cons x xs)
    then obtain s1 r where rm: "remove_pending cl 0 s = (s1, Some r)"
      by (auto simp: remove_pending_def queue_of_def fmget_def ClassState_default_def Let_def split: option.splits)
    note F = faulted_keeps [OF Suc.prems(1) rm]
    have "fault_queue cl k (faulted r s1) (push_wake (pr_waker r) e) = (s', e')"
      using Suc.prems(2) rm by (simp add: fault_queue_Suc del: fault_queue.simps)
    from Suc.IH [OF F(1) this] F(2-4) Cons show ?thesis by (auto intro: evolves_trans)
  qed
qed simp

lemma fault_class_keeps:
  assumes "gov_inv n s" "fault_class ps cl (s, e) = (s', e')"
  shows "gov_inv n s' \<and> evolves s s' \<and> queues s' = (queues s)(cl := []) \<and> gs_permits s' = gs_permits s"
proof -
  let ?k = "length (cs_queue (class_view s cl))"
  obtain s1 e1 where f: "fault_queue cl ?k s e = (s1, e1)" by force
  have "?k = length (queues s cl)" by (simp add: queue_of_def class_view_def)
  then have F: "gov_inv n s1" "evolves s s1" "queues s1 = (queues s)(cl := [])" "gs_permits s1 = gs_permits s"
    using fault_queue_keeps [OF assms(1) f] by simp_all
  have s': "s' = (if 0 < ?k then on_unserved_removed cl (queued_policy ps cl) s1 else s1)"
    using assms(2) f by (simp add: fault_class_def Let_def)
  have "sched_eq s1 s'" unfolding s' by (simp add: sched_eq_on_unserved_removed)
  note S = gov_inv_sched [OF F(1) this] evolves_sched [OF this] sched_eq_queues [OF this]
  moreover have "gs_permits s' = gs_permits s1" using \<open>sched_eq s1 s'\<close> by (simp add: sched_eq_def)
  ultimately show ?thesis using F by (auto intro: evolves_trans)
qed

lemma fault_fold_keeps:
  assumes "gov_inv n s" "fold (fault_class ps) cls (s, e) = (s', e')"
  shows "gov_inv n s' \<and> evolves s s' \<and> queues s' = (\<lambda>cl. if cl \<in> set cls then [] else queues s cl) \<and> gs_permits s' = gs_permits s"
  using assms
proof (induction cls arbitrary: s e)
  case (Cons cl cls)
  obtain s1 e1 where f: "fault_class ps cl (s, e) = (s1, e1)" by force
  note F = fault_class_keeps [OF Cons.prems(1) f]
  have "fold (fault_class ps) cls (s1, e1) = (s', e')" using Cons.prems(2) f by simp
  from Cons.IH [OF _ this] F show ?case by (auto simp: fun_eq_iff intro: evolves_trans)
qed simp

lemma fault_all_keeps:
  assumes "gov_inv n s" "terminalize_queued_for_accounting_fault ps s e = (s', e')"
  shows "gov_inv n s'" and "evolves s s'" and "queues s' = (\<lambda>cl. [])" and "gs_permits s' = gs_permits s"
proof -
  obtain s1 e1 where f: "fold (fault_class ps) (bt_keys (gs_classes s)) (s, e) = (s1, e1)" by force
  have s': "s' = s1\<lparr>gs_promotion_pending := False\<rparr>"
    using assms(2) f by (simp add: terminalize_queued_for_accounting_fault_def)
  note F = fault_fold_keeps [OF assms(1) f]
  have "queues s cl = []" if "cl \<notin> set (bt_keys (gs_classes s))" for cl
    using that by (simp add: queue_of_def fmget_def set_bt_keys fmdom_notD ClassState_default_def)
  with F show "queues s' = (\<lambda>cl. [])" by (auto simp: s' fun_eq_iff)
  show "gov_inv n s'" unfolding s' using F by (subst gov_inv_cong [of _ s1]) simp_all
  show "gs_permits s' = gs_permits s" using F by (simp add: s')
  have "evolves s1 s'" unfolding s' by (rule evolves_same_custody) simp_all
  then show "evolves s s'" using F evolves_trans by blast
qed

end
