(* ===== verification/TM_Governor.thy ===== *)
theory TM_Governor
  imports TM_Promotion
begin

text \<open>
  \<^verbatim>\<open>engine/governor.rs\<close> and \<^verbatim>\<open>engine/governor/memory_governance.rs\<close>: the public operations of the governor. Every
  lock of the mutex is one definition (a critical section: it ends in \<open>_section\<close>, \<open>_begin\<close>, \<open>_finish\<close> or
  \<open>_compensate\<close>), and an operation composes its sections the way the method does. The sampled clock reading
  is an argument. What the host does with the wakers outside the lock is a parameter \<open>panics\<close>: whether
  running them panics.
\<close>

section \<open>Identities\<close>

text \<open>The compare-exchange loops of \<open>take_sequence\<close> and \<open>take_process_authority\<close> are one atomic step.\<close>

definition take_sequence :: "nat \<Rightarrow> (nat \<times> nat) option" where
  "take_sequence counter = map_option (Pair counter) (checked_add u64_max counter 1)"

record Counters =
  next_permit :: nat
  next_ticket :: nat
  next_seq :: nat

definition Counters_new :: Counters where
  "Counters_new = \<lparr>next_permit = 1, next_ticket = 1, next_seq = 1\<rparr>"

definition fresh_ids :: "nat \<Rightarrow> Counters \<Rightarrow> Counters \<times> Ids option" where
  "fresh_ids authority c =
     (case take_sequence (next_permit c) of
        None \<Rightarrow> (c, None)
      | Some (permit, np) \<Rightarrow>
          let c = c\<lparr>next_permit := np\<rparr> in
          case take_sequence (next_ticket c) of
            None \<Rightarrow> (c, None)
          | Some (ticket, nt) \<Rightarrow>
              let c = c\<lparr>next_ticket := nt\<rparr> in
              case take_sequence (next_seq c) of
                None \<Rightarrow> (c, None)
              | Some (sq, ns) \<Rightarrow>
                  (c\<lparr>next_seq := ns\<rparr>,
                   Some \<lparr>ids_permit_id = PermitId authority permit, ids_ticket = Ticket authority ticket,
                         ids_seq_no = sq\<rparr>))"

section \<open>Outcomes of an operation that runs host code\<close>

datatype 'a delivery = Returned 'a | Panicked

text \<open>\<open>drop(waker)\<close> before a return.\<close>

definition dropping :: "(TransitionEffects \<Rightarrow> bool) \<Rightarrow> waker option \<Rightarrow> 'a \<Rightarrow> 'a delivery" where
  "dropping panics w out = (if panics (retire w no_effects) then Panicked else Returned out)"

section \<open>Admission\<close>

text \<open>The declared capabilities of a task: a hint whose pool the policy does not resolve (which construction
  excludes) or a requirement set over its bound is the error the code's \<open>expect\<close>s rule out.\<close>

fun result_list :: "('e, 'a) result list \<Rightarrow> ('e, 'a list) result" where
  "result_list [] = Inr []"
| "result_list (r # rs) = and_then r (\<lambda>x. and_then (result_list rs) (\<lambda>xs. Inr (x # xs)))"

definition declared_requirements :: "PolicySet \<Rightarrow> TaskSpec \<Rightarrow> (CapabilityResolutionError, CapabilityRequirementSet) result" where
  "declared_requirements ps spec =
     and_then (result_list (map (\<lambda>stage.
         case capability_pool (substrate_hint stage) of
           None \<Rightarrow> Inr Ungated
         | Some pool \<Rightarrow> resolve_capability ps pool) (spec_stages spec)))
       from_resolved"

definition admit_section ::
  "PolicySet \<Rightarrow> nat \<Rightarrow> AdmissionRequest \<Rightarrow> waker option \<Rightarrow> Ids \<Rightarrow> GovernedState \<Rightarrow> admission" where
  "admit_section ps sampled req w ids s =
     (let (s, now) = commit_time sampled s in admit ps now req w ids s no_effects)"

definition admit_compensate :: "PolicySet \<Rightarrow> nat \<Rightarrow> PermitId \<Rightarrow> GovernedState \<Rightarrow> GovernedState \<times> TransitionEffects" where
  "admit_compensate ps sampled p s =
     (let (s, now) = commit_time sampled s;
          ((s, e), out) = release_with_proof p None s no_effects
      in if out = ReleasedOk then let (s, pass) = promote ps now s in (s, absorb e pass) else (s, e))"

definition admit_inner ::
  "(TransitionEffects \<Rightarrow> bool) \<Rightarrow> PolicySet \<Rightarrow> nat \<Rightarrow> AdmissionRequest \<Rightarrow> waker option \<Rightarrow> nat \<Rightarrow> Counters \<Rightarrow> GovernedState
     \<Rightarrow> (GovernedState \<times> Counters) \<times> AdmissionDecision delivery" where
  "admit_inner panics ps sampled req w authority c s =
     (case fresh_ids authority c of
        (c, None) \<Rightarrow> ((s, c), dropping panics w (DecRejected IdentityExhausted))
      | (c, Some ids) \<Rightarrow>
          let ((s, e), decision) = admit_section ps sampled req w ids s in
          if panics e
          then
            (case decision of
               DecAdmitted p \<Rightarrow>
                 let (s, compensation) = admit_compensate ps sampled p s;
                     (s, _) = drain ps sampled s compensation
                 in ((s, c), Panicked)
             | _ \<Rightarrow> ((s, c), Panicked))
          else ((s, c), Returned decision))"

section \<open>Claiming a ticket\<close>

definition touch :: "nat \<Rightarrow> PermitRecord \<Rightarrow> PermitRecord" where
  "touch now r = r\<lparr>rec_ledger := (rec_ledger r)\<lparr>pl_last_touched_ms := max (pl_last_touched_ms (rec_ledger r)) now\<rparr>\<rparr>"

definition claim_begin ::
  "nat \<Rightarrow> Ticket \<Rightarrow> GovernedState \<Rightarrow> GovernedState \<times> (ClaimOutcome, PermitId \<times> TransitionEffects) result" where
  "claim_begin sampled t s =
     (let (s, now) = commit_time sampled s in
      case fmlookup (gs_tickets s) t of
        Some (TGranted p) \<Rightarrow>
          (case fmlookup (gs_permits s) p of
             None \<Rightarrow> (s, Inl (ClaimTerminal Released))
           | Some r \<Rightarrow>
               (s\<lparr>gs_permits := fmupd p ((touch now r)\<lparr>rec_claim_waker := None\<rparr>) (gs_permits s),
                  gs_tickets := fmupd t (TClaiming p) (gs_tickets s)\<rparr>,
                Inr (p, retire (rec_claim_waker r) no_effects)))
      | Some (TQueued _) \<Rightarrow> (s, Inl ClaimPending)
      | Some (TClaiming _) \<Rightarrow> (s, Inl ClaimPending)
      | Some (TTerminal reason) \<Rightarrow> (forget_terminal_ticket t s, Inl (ClaimTerminal reason))
      | Some TFaulted \<Rightarrow> (forget_terminal_ticket t s, Inl (ClaimTerminal AccountingFaultReason))
      | None \<Rightarrow> (s, Inl ClaimInvalid))"

definition claim_compensate ::
  "PolicySet \<Rightarrow> nat \<Rightarrow> Ticket \<Rightarrow> PermitId \<Rightarrow> GovernedState \<Rightarrow> GovernedState \<times> TransitionEffects" where
  "claim_compensate ps sampled t p s =
     (let (s, now) = commit_time sampled s in
      case fmlookup (gs_tickets s) t of
        Some (TClaiming _) \<Rightarrow>
          (case release_with_proof_reason p None ClaimDeliveryFailed s no_effects of
             ((s, e), ReleasedOk) \<Rightarrow> let (s, pass) = promote ps now s in (s, absorb e pass)
           | ((s, e), HeldByLease phase) \<Rightarrow>
               let s = (case fmlookup (gs_permits s) p of
                          None \<Rightarrow> s
                        | Some r \<Rightarrow> s\<lparr>gs_permits := fmupd p (r\<lparr>rec_pending_ticket := None\<rparr>) (gs_permits s)\<rparr>)
               in (record_terminal_ticket t ClaimDeliveryFailed s, e)
           | ((s, e), UnknownPermit) \<Rightarrow> (record_terminal_ticket t Released s, e))
      | _ \<Rightarrow> (s, no_effects))"

definition claim_finish :: "nat \<Rightarrow> Ticket \<Rightarrow> GovernedState \<Rightarrow> GovernedState \<times> ClaimOutcome" where
  "claim_finish sampled t s =
     (let (s, now) = commit_time sampled s in
      case fmlookup (gs_tickets s) t of
        Some (TClaiming p) \<Rightarrow>
          (case fmlookup (gs_permits s) p of
             None \<Rightarrow> (record_terminal_ticket t Released s, ClaimTerminal Released)
           | Some r \<Rightarrow>
               (s\<lparr>gs_permits := fmupd p (touch now (r\<lparr>rec_pending_ticket := None\<rparr>)) (gs_permits s),
                  gs_tickets := fmdrop t (gs_tickets s)\<rparr>,
                ClaimReady p))
      | Some (TTerminal reason) \<Rightarrow> (forget_terminal_ticket t s, ClaimTerminal reason)
      | Some TFaulted \<Rightarrow> (forget_terminal_ticket t s, ClaimTerminal AccountingFaultReason)
      | Some (TGranted _) \<Rightarrow> (s, ClaimPending)
      | Some (TQueued _) \<Rightarrow> (s, ClaimPending)
      | None \<Rightarrow> (s, ClaimInvalid))"

definition claim ::
  "(TransitionEffects \<Rightarrow> bool) \<Rightarrow> PolicySet \<Rightarrow> nat \<Rightarrow> Ticket \<Rightarrow> GovernedState \<Rightarrow> GovernedState \<times> ClaimOutcome delivery" where
  "claim panics ps sampled t s =
     (case claim_begin sampled t s of
        (s, Inl out) \<Rightarrow> (s, Returned out)
      | (s, Inr (p, e)) \<Rightarrow>
          if panics e
          then
            let (s, compensation) = claim_compensate ps sampled t p s;
                (s, _) = drain ps sampled s compensation
            in (s, Panicked)
          else let (s, out) = claim_finish sampled t s in (s, Returned out))"

definition ticket_status :: "GovernedState \<Rightarrow> Ticket \<Rightarrow> ClaimOutcome" where
  "ticket_status s t =
     (case fmlookup (gs_tickets s) t of
        Some (TGranted p) \<Rightarrow> ClaimReady p
      | Some (TQueued _) \<Rightarrow> ClaimPending
      | Some (TClaiming _) \<Rightarrow> ClaimPending
      | Some (TTerminal reason) \<Rightarrow> ClaimTerminal reason
      | Some TFaulted \<Rightarrow> ClaimTerminal AccountingFaultReason
      | None \<Rightarrow> ClaimInvalid)"

section \<open>Abandoning a ticket\<close>

definition abandon_queued ::
  "PolicySet \<Rightarrow> nat \<Rightarrow> TaskClass \<Rightarrow> Ticket \<Rightarrow> GovernedState \<Rightarrow> GovernedState \<times> TransitionEffects" where
  "abandon_queued ps now cl t s =
     (let position = Option.bind (fmlookup (gs_classes s) cl) (\<lambda>cs. find_index (\<lambda>r. pr_ticket r = t) (cs_queue cs));
          (s, removed) = (case position of None \<Rightarrow> (s, None) | Some pos \<Rightarrow> remove_pending cl pos s);
          e = retire (Option.bind removed pr_waker) no_effects;
          s = s\<lparr>gs_tickets := fmdrop t (gs_tickets s)\<rparr>;
          s = (case removed of
                 None \<Rightarrow> s
               | Some r \<Rightarrow> if is_child (pr_scope r)
                          then vacate_recursion_guard (pr_root_operation_id r) (pr_target_stage r) s else s);
          s = on_unserved_removed cl (queued_policy ps cl) s;
          (s, pass) = promote ps now s
      in (s, absorb e pass))"

definition abandon_section ::
  "PolicySet \<Rightarrow> nat \<Rightarrow> Ticket \<Rightarrow> GovernedState \<Rightarrow> (GovernedState \<times> TransitionEffects) \<times> AbandonOutcome" where
  "abandon_section ps sampled t s =
     (let (s, now) = commit_time sampled s;
          held = (\<lambda>p.
            case release_with_proof_reason p None Abandoned s no_effects of
              ((s, e), ReleasedOk) \<Rightarrow>
                let s = forget_terminal_ticket t s;
                    (s, pass) = promote ps now s
                in ((s, absorb e pass), AbandonedOk)
            | ((s, e), HeldByLease phase) \<Rightarrow> ((s, e), AbandonHeldByLease phase)
            | ((s, e), UnknownPermit) \<Rightarrow>
                ((s\<lparr>gs_tickets := fmdrop t (gs_tickets s)\<rparr>, e), AbandonInvalid))
      in case fmlookup (gs_tickets s) t of
           Some (TGranted p) \<Rightarrow> held p
         | Some (TClaiming p) \<Rightarrow> held p
         | Some (TQueued cl) \<Rightarrow> (abandon_queued ps now cl t s, AbandonedOk)
         | Some (TTerminal _) \<Rightarrow> ((forget_terminal_ticket t s, no_effects), TerminalDiscarded)
         | Some TFaulted \<Rightarrow> ((forget_terminal_ticket t s, no_effects), TerminalDiscarded)
         | None \<Rightarrow> ((s, no_effects), AbandonInvalid))"

definition abandon :: "PolicySet \<Rightarrow> nat \<Rightarrow> Ticket \<Rightarrow> GovernedState \<Rightarrow> GovernedState \<times> AbandonOutcome" where
  "abandon ps sampled t s =
     (let ((s, e), out) = abandon_section ps sampled t s;
          (s, _) = drain ps sampled s e
      in (s, out))"

section \<open>Permit lifecycle\<close>

definition release_section ::
  "PolicySet \<Rightarrow> nat \<Rightarrow> PermitId \<Rightarrow> nat option \<Rightarrow> GovernedState \<Rightarrow> (GovernedState \<times> TransitionEffects) \<times> ReleaseOutcome" where
  "release_section ps sampled p proof s =
     (let (s, now) = commit_time sampled s;
          ((s, e), out) = release_with_proof p proof s no_effects
      in if out = ReleasedOk then let (s, pass) = promote ps now s in ((s, absorb e pass), out) else ((s, e), out))"

definition governor_release_with_proof ::
  "PolicySet \<Rightarrow> nat \<Rightarrow> PermitId \<Rightarrow> nat option \<Rightarrow> GovernedState \<Rightarrow> GovernedState \<times> ReleaseOutcome" where
  "governor_release_with_proof ps sampled p proof s =
     (let ((s, e), out) = release_section ps sampled p proof s;
          (s, _) = drain ps sampled s e
      in (s, out))"

definition release :: "PolicySet \<Rightarrow> nat \<Rightarrow> PermitId \<Rightarrow> GovernedState \<Rightarrow> GovernedState \<times> ReleaseOutcome" where
  "release ps sampled p s = governor_release_with_proof ps sampled p None s"

definition release_leased :: "PolicySet \<Rightarrow> nat \<Rightarrow> LeaseToken \<Rightarrow> GovernedState \<Rightarrow> GovernedState \<times> ReleaseOutcome" where
  "release_leased ps sampled token s =
     governor_release_with_proof ps sampled (token_permit_id token) (Some (token_nonce token)) s"

definition phase_of :: "GovernedState \<Rightarrow> PermitId \<Rightarrow> ExecutionPhase option" where
  "phase_of s p = map_option rec_phase (fmlookup (gs_permits s) p)"

section \<open>Memory governance\<close>

definition reconcile_section ::
  "PolicySet \<Rightarrow> nat \<Rightarrow> PermitId \<Rightarrow> nat \<Rightarrow> nat option \<Rightarrow> GovernedState
     \<Rightarrow> (GovernedState \<times> TransitionEffects) \<times> ReconcileOutcome" where
  "reconcile_section ps sampled p measured_bytes epoch s =
     (let (s, now) = commit_time sampled s in
      case fmlookup (gs_permits s) p of
        None \<Rightarrow> ((s, no_effects), ReconcileUnknownPermit)
      | Some r \<Rightarrow>
          (case policy_class ps (rec_class r) of
             None \<Rightarrow> ((s, no_effects), ReconcileUnknownPermit)
           | Some policy \<Rightarrow>
               (case (case epoch of
                        Some n \<Rightarrow> Inr n
                      | None \<Rightarrow> checked_next (pl_measurement_sequence (rec_ledger r))) of
                  Inl out \<Rightarrow> ((s, no_effects), out)
                | Inr sq \<Rightarrow>
                    let (s, out) = reconcile p measured_bytes sq (memory_permit_mode policy)
                          (memory_unit_scale (ps_resources ps)) now s
                    in (case out of
                          ConversionFailed err \<Rightarrow>
                            (terminalize_queued_for_accounting_fault ps s no_effects, out)
                        | Applied units \<Rightarrow>
                            (let (s, pass) = promote ps now s in (s, absorb no_effects pass), out)
                        | _ \<Rightarrow> ((s, no_effects), out)))))"

definition reconcile_memory_inner ::
  "PolicySet \<Rightarrow> nat \<Rightarrow> PermitId \<Rightarrow> nat \<Rightarrow> nat option \<Rightarrow> GovernedState \<Rightarrow> GovernedState \<times> ReconcileOutcome" where
  "reconcile_memory_inner ps sampled p measured_bytes epoch s =
     (let ((s, e), out) = reconcile_section ps sampled p measured_bytes epoch s;
          (s, _) = drain ps sampled s e
      in (s, out))"

definition stage_section ::
  "PolicySet \<Rightarrow> nat \<Rightarrow> PermitId \<Rightarrow> nat \<Rightarrow> nat option \<Rightarrow> GovernedState
     \<Rightarrow> (GovernedState \<times> TransitionEffects) \<times> StageReleaseOutcome" where
  "stage_section ps sampled p units sq s =
     (let (s, now) = commit_time sampled s in
      case fmlookup (gs_permits s) p of
        None \<Rightarrow> ((s, no_effects), StageUnknownPermit)
      | Some r \<Rightarrow>
          (case policy_class ps (rec_class r) of
             None \<Rightarrow> ((s, no_effects), StageUnknownPermit)
           | Some policy \<Rightarrow>
               let (s, out) = release_stage_memory p units (memory_release_policy policy) sq now s;
                   (s, pass) = promote ps now s
               in ((s, absorb no_effects pass), out)))"

definition release_stage_memory_inner ::
  "PolicySet \<Rightarrow> nat \<Rightarrow> PermitId \<Rightarrow> nat \<Rightarrow> nat option \<Rightarrow> GovernedState \<Rightarrow> GovernedState \<times> StageReleaseOutcome" where
  "release_stage_memory_inner ps sampled p units sq s =
     (let ((s, e), out) = stage_section ps sampled p units sq s;
          (s, _) = drain ps sampled s e
      in (s, out))"

definition reap_section ::
  "PolicySet \<Rightarrow> nat \<Rightarrow> nat \<Rightarrow> GovernedState \<Rightarrow> (GovernedState \<times> TransitionEffects) \<times> LeakSweepReport" where
  "reap_section ps sampled stale_after_ms s =
     (let (s, now) = commit_time sampled s;
          ((s, e), report) = reap_leaks ps now stale_after_ms s no_effects;
          (s, pass) = promote ps now s
      in ((s, absorb e pass), report))"

definition reap_leaks_with ::
  "PolicySet \<Rightarrow> nat \<Rightarrow> nat \<Rightarrow> GovernedState \<Rightarrow> GovernedState \<times> LeakSweepReport" where
  "reap_leaks_with ps sampled stale_after_ms s =
     (let ((s, e), report) = reap_section ps sampled stale_after_ms s;
          (s, _) = drain ps sampled s e
      in (s, report))"

end
