(* ===== verification/TM_Validation.thy ===== *)
theory TM_Validation
  imports TM_Governor
begin

text \<open>
  \<^verbatim>\<open>engine/governor/validation.rs\<close>: the rules a policy must obey before a governor is built from it.
  Validation is characterised by a declarative predicate, from which the \<open>expect\<close>s on the admission path follow.
\<close>

section \<open>Validation of the inventory\<close>

fun for_each :: "('a \<Rightarrow> ('e, unit) result) \<Rightarrow> 'a list \<Rightarrow> ('e, unit) result" where
  "for_each f [] = Inr ()"
| "for_each f (x # xs) = and_then (f x) (\<lambda>_. for_each f xs)"

lemma for_each_ok_iff: "for_each f xs = Inr () \<longleftrightarrow> (\<forall>x \<in> set xs. f x = Inr ())"
  by (induction xs) (auto simp: result_simps)

lemma and_then_unit: "and_then r (\<lambda>_::unit. q) = Inr () \<longleftrightarrow> r = Inr () \<and> q = Inr ()"
  by (auto simp: and_then_Inr_iff)

lemma entries_Ball: "(\<forall>x \<in> set (bt_entries m). P x) \<longleftrightarrow> (\<forall>k v. fmlookup m k = Some v \<longrightarrow> P (k, v))"
  by (auto simp: set_bt_entries)

abbreviation violation :: "PolicyMessage \<Rightarrow> GovernorError" where
  "violation \<equiv> PolicyViolation"

definition validate_registry_entry :: "str \<times> SubstrateRecord \<Rightarrow> (GovernorError, unit) result" where
  "validate_registry_entry = (\<lambda>(key, record).
     and_then (validate_record record) (\<lambda>_.
       ensure (key = sub_name record) (violation (RegistryKeyMismatch key (sub_name record)))))"

definition validate_builtin :: "Registry \<Rightarrow> SubstrateRecord \<Rightarrow> (GovernorError, unit) result" where
  "validate_builtin registry expected =
     (case fmlookup registry (sub_name expected) of
        None \<Rightarrow> Inl (violation (MissingBuiltin (sub_name expected)))
      | Some found \<Rightarrow>
          ensure (\<not> (sub_kind found \<noteq> sub_kind expected \<or> sub_capability_pool found \<noteq> sub_capability_pool expected))
            (violation (NonCanonicalBuiltin (sub_name expected))))"

definition validate_capability_bound :: "Registry \<Rightarrow> CapabilityRecord \<Rightarrow> (GovernorError, unit) result" where
  "validate_capability_bound registry capability =
     ensure (\<exists>record \<in> set (bt_values registry). provides_capability record (cap_name capability))
       (violation (CapabilityWithoutSubstrate (cap_name capability)))"

definition validate_substrate_authority :: "PolicySet \<Rightarrow> SubstrateRecord \<Rightarrow> (GovernorError, unit) result" where
  "validate_substrate_authority policy record =
     (if sub_kind record = AuthorityOnly then Inr ()
      else case sub_capability_pool record of
             None \<Rightarrow> Inr ()
           | Some pool \<Rightarrow>
               (case resolve_capability policy pool of
                  Inl _ \<Rightarrow> Inl (violation (SubstrateWithoutCapability (sub_name record) pool))
                | Inr _ \<Rightarrow> Inr ()))"

definition validate_inventory :: "PolicySet \<Rightarrow> (GovernorError, unit) result" where
  "validate_inventory policy =
     (let registry = ps_substrates policy in
      and_then (for_each validate_registry_entry (bt_entries registry)) (\<lambda>_.
      and_then (for_each (validate_builtin registry) builtin_records) (\<lambda>_.
      and_then (for_each (validate_capability_bound registry) (bt_values (ps_capabilities policy))) (\<lambda>_.
      for_each (validate_substrate_authority policy) (bt_values registry)))))"

section \<open>Validation of the policy\<close>

definition validate_degrade :: "PolicySet \<Rightarrow> TaskClass \<Rightarrow> ClassPolicy \<Rightarrow> (GovernorError, unit) result" where
  "validate_degrade policy cl p =
     (case memory_overcommit_policy p of
        DegradeToLight fallback_class \<Rightarrow>
          and_then (ensure (fallback_class \<noteq> cl) (violation (DegradesToItself cl))) (\<lambda>_.
            case fmlookup (ps_classes policy) fallback_class of
              None \<Rightarrow> Inl (violation (DegradesToUnknown cl fallback_class))
            | Some fallback \<Rightarrow>
                and_then (ensure (\<not> is_disabled fallback) (violation (DegradesToDisabled cl fallback_class))) (\<lambda>_.
                ensure (case memory_overcommit_policy fallback of DegradeToLight _ \<Rightarrow> False | _ \<Rightarrow> True)
                  (violation (DegradeChains cl fallback_class))))
      | _ \<Rightarrow> Inr ())"

definition validate_class :: "PolicySet \<Rightarrow> TaskClass \<times> ClassPolicy \<Rightarrow> (GovernorError, unit) result" where
  "validate_class policy = (\<lambda>(cl, p).
     let budget = ps_resources policy;
         cost = permit_cost p
     in and_then (case validate_identifier ClassField cl of
                    Inl e \<Rightarrow> Inl (violation (InvalidPolicyClass cl e))
                  | Inr u \<Rightarrow> Inr u) (\<lambda>_.
        and_then (ensure (\<not> (per_request_max_cpu_units budget \<noteq> 0 \<and> per_request_max_cpu_units budget < pc_cpu_units cost))
                    (violation (ExceedsPerRequestCpu cl))) (\<lambda>_.
        and_then (ensure (\<not> (per_request_max_memory_units budget \<noteq> 0
                       \<and> per_request_max_memory_units budget < pc_memory_units cost))
                    (violation (ExceedsPerRequestMemory cl))) (\<lambda>_.
        and_then (ensure (\<not> (max_cpu_units budget \<noteq> 0 \<and> max_cpu_units budget < pc_cpu_units cost))
                    (violation (ExceedsGlobalCpu cl))) (\<lambda>_.
        and_then (ensure (\<not> (max_memory_units budget \<noteq> 0 \<and> max_memory_units budget < pc_memory_units cost))
                    (violation (ExceedsGlobalMemory cl))) (\<lambda>_.
        and_then (ensure (\<not> (memory_permit_mode p \<in> {Measured, Hybrid} \<and> bytes_per_unit (memory_unit_scale budget) = 0))
                    (violation (MeasuredNeedsScale cl))) (\<lambda>_.
        and_then (ensure (\<not> (overflow_policy p = QueueWithinDepth \<and> max_queue_depth p = 0))
                    (violation (QueueableWithoutDepth cl))) (\<lambda>_.
        and_then (ensure (\<not> (fairness p = BestEffortScavenger \<and> \<not> best_effort p))
                    (violation (ScavengerNotBestEffort cl))) (\<lambda>_.
        and_then (ensure (case fairness p of WeightedFairQueue weight _ \<Rightarrow> weight \<noteq> 0 | _ \<Rightarrow> True)
                    (violation (ZeroWeight cl))) (\<lambda>_.
        and_then (ensure (fairness p \<noteq> DeficitRoundRobin 0) (violation (ZeroQuantum cl))) (\<lambda>_.
        and_then (ensure (\<not> (memory_overcommit_policy p = MemQueue \<and> max_queue_depth p = 0))
                    (violation (OvercommitQueueWithoutDepth cl))) (\<lambda>_.
        validate_degrade policy cl p))))))))))))"

text \<open>\<open>std::mem::discriminant\<close> of a fairness policy.\<close>

datatype FairnessKind = KindFifo | KindWfq | KindDrr | KindDeadline | KindScavenger

fun discriminant :: "FairnessPolicy \<Rightarrow> FairnessKind" where
  "discriminant Fifo = KindFifo"
| "discriminant (WeightedFairQueue _ _) = KindWfq"
| "discriminant (DeficitRoundRobin _) = KindDrr"
| "discriminant (DeadlineAware _) = KindDeadline"
| "discriminant BestEffortScavenger = KindScavenger"

fun validate_tiers ::
  "FairnessKind option \<Rightarrow> FairnessKind option \<Rightarrow> (TaskClass \<times> ClassPolicy) list \<Rightarrow> (GovernorError, unit) result" where
  "validate_tiers primary_kind best_effort_kind [] = Inr ()"
| "validate_tiers primary_kind best_effort_kind ((cl, p) # rest) =
     (if is_disabled p then validate_tiers primary_kind best_effort_kind rest
      else
        let kind = discriminant (fairness p);
            tier = (if best_effort p then best_effort_kind else primary_kind)
        in case tier of
             None \<Rightarrow> if best_effort p then validate_tiers primary_kind (Some kind) rest
                     else validate_tiers (Some kind) best_effort_kind rest
           | Some existing \<Rightarrow>
               if existing \<noteq> kind then Inl (violation (MixedDiscipline cl))
               else validate_tiers primary_kind best_effort_kind rest)"

definition validate_policy :: "PolicySet \<Rightarrow> (GovernorError, unit) result" where
  "validate_policy policy =
     and_then (validate_inventory policy) (\<lambda>_.
     and_then (for_each (validate_class policy) (bt_entries (ps_classes policy))) (\<lambda>_.
     validate_tiers None None (bt_entries (ps_classes policy))))"

section \<open>What a valid policy is\<close>

definition inventory_ok :: "PolicySet \<Rightarrow> bool" where
  "inventory_ok ps \<longleftrightarrow>
     (\<forall>key r. fmlookup (ps_substrates ps) key = Some r \<longrightarrow> sub_name r = key \<and> trim key \<noteq> []
        \<and> (sub_kind r \<noteq> AuthorityOnly \<longrightarrow>
             (\<exists>pool. sub_capability_pool r = Some pool \<and> trim pool \<noteq> [] \<and> capability_key ps pool \<noteq> None)))
     \<and> (\<forall>b \<in> set builtin_records. \<exists>r. fmlookup (ps_substrates ps) (sub_name b) = Some r
          \<and> sub_kind r = sub_kind b \<and> sub_capability_pool r = sub_capability_pool b)
     \<and> (\<forall>i c. fmlookup (ps_capabilities ps) i = Some c \<longrightarrow>
          (\<exists>key r. fmlookup (ps_substrates ps) key = Some r \<and> sub_kind r \<noteq> AuthorityOnly
             \<and> sub_capability_pool r = Some (cap_name c)))"

definition fits_alone :: "ResourceBudget \<Rightarrow> PermitCost \<Rightarrow> bool" where
  "fits_alone b c \<longleftrightarrow>
     (per_request_max_cpu_units b = 0 \<or> pc_cpu_units c \<le> per_request_max_cpu_units b)
     \<and> (per_request_max_memory_units b = 0 \<or> pc_memory_units c \<le> per_request_max_memory_units b)
     \<and> (max_cpu_units b = 0 \<or> pc_cpu_units c \<le> max_cpu_units b)
     \<and> (max_memory_units b = 0 \<or> pc_memory_units c \<le> max_memory_units b)"

definition class_policy_ok :: "PolicySet \<Rightarrow> TaskClass \<Rightarrow> ClassPolicy \<Rightarrow> bool" where
  "class_policy_ok ps cl p \<longleftrightarrow>
     canonical cl \<and> fits_alone (ps_resources ps) (permit_cost p)
     \<and> (memory_permit_mode p \<noteq> Estimated \<longrightarrow> bytes_per_unit (memory_unit_scale (ps_resources ps)) \<noteq> 0)
     \<and> (class_can_queue p \<longrightarrow> max_queue_depth p \<noteq> 0)
     \<and> (fairness p = BestEffortScavenger \<longrightarrow> best_effort p)
     \<and> (\<forall>burst. fairness p \<noteq> WeightedFairQueue 0 burst) \<and> fairness p \<noteq> DeficitRoundRobin 0
     \<and> (\<forall>fb. memory_overcommit_policy p = DegradeToLight fb \<longrightarrow>
          fb \<noteq> cl \<and> (\<exists>q. fmlookup (ps_classes ps) fb = Some q \<and> \<not> is_disabled q
            \<and> (\<forall>c. memory_overcommit_policy q \<noteq> DegradeToLight c)))"

definition one_discipline :: "(TaskClass, ClassPolicy) fmap \<Rightarrow> bool" where
  "one_discipline cls \<longleftrightarrow>
     (\<forall>cl p cl' p'. fmlookup cls cl = Some p \<longrightarrow> fmlookup cls cl' = Some p' \<longrightarrow> \<not> is_disabled p \<longrightarrow> \<not> is_disabled p' \<longrightarrow>
        best_effort p = best_effort p' \<longrightarrow> discriminant (fairness p) = discriminant (fairness p'))"

definition policy_ok :: "PolicySet \<Rightarrow> bool" where
  "policy_ok ps \<longleftrightarrow> inventory_ok ps
     \<and> (\<forall>cl p. fmlookup (ps_classes ps) cl = Some p \<longrightarrow> class_policy_ok ps cl p) \<and> one_discipline (ps_classes ps)"

lemma validate_record_ok:
  "validate_record r = Inr () \<longleftrightarrow>
     trim (sub_name r) \<noteq> [] \<and> (sub_kind r \<noteq> AuthorityOnly \<longrightarrow> (\<exists>pool. sub_capability_pool r = Some pool \<and> trim pool \<noteq> []))"
  by (auto simp: validate_record_def split: option.splits)

lemma validate_substrate_authority_ok:
  assumes "validate_record r = Inr ()"
  shows "validate_substrate_authority ps r = Inr () \<longleftrightarrow>
     (sub_kind r \<noteq> AuthorityOnly \<longrightarrow> (\<exists>pool. sub_capability_pool r = Some pool \<and> trim pool \<noteq> [] \<and> capability_key ps pool \<noteq> None))"
  using assms
  by (auto simp: validate_record_ok validate_substrate_authority_def resolve_capability_def split: option.splits sum.splits if_splits)

lemma validate_registry_entry_ok:
  "validate_registry_entry (key, r) = Inr () \<longleftrightarrow> validate_record r = Inr () \<and> key = sub_name r"
  by (auto simp: validate_registry_entry_def and_then_Inr_iff)

lemma validate_builtin_ok:
  "validate_builtin reg b = Inr () \<longleftrightarrow> (\<exists>r. fmlookup reg (sub_name b) = Some r
     \<and> sub_kind r = sub_kind b \<and> sub_capability_pool r = sub_capability_pool b)"
  by (auto simp: validate_builtin_def split: option.splits)

lemma provides_capability_iff: "provides_capability r c \<longleftrightarrow> sub_kind r \<noteq> AuthorityOnly \<and> sub_capability_pool r = Some c"
  by (cases "sub_kind r") (auto simp: provides_capability_def)

lemma validate_capability_bound_ok:
  "validate_capability_bound reg c = Inr () \<longleftrightarrow> (\<exists>key r. fmlookup reg key = Some r
     \<and> sub_kind r \<noteq> AuthorityOnly \<and> sub_capability_pool r = Some (cap_name c))"
  unfolding validate_capability_bound_def ensure_Inr_iff provides_capability_iff Bex_def set_bt_values by blast

lemma validate_inventory_parts:
  "validate_inventory ps = Inr () \<longleftrightarrow>
      (\<forall>key r. fmlookup (ps_substrates ps) key = Some r \<longrightarrow> validate_record r = Inr () \<and> key = sub_name r)
      \<and> (\<forall>b \<in> set builtin_records. validate_builtin (ps_substrates ps) b = Inr ())
      \<and> (\<forall>c \<in> set (bt_values (ps_capabilities ps)). validate_capability_bound (ps_substrates ps) c = Inr ())
      \<and> (\<forall>r \<in> set (bt_values (ps_substrates ps)). validate_substrate_authority ps r = Inr ())"
  by (simp only: validate_inventory_def Let_def and_then_unit for_each_ok_iff entries_Ball validate_registry_entry_ok)

lemma values_Ball: "(\<forall>x \<in> set (bt_values m). P x) \<longleftrightarrow> (\<forall>k v. fmlookup m k = Some v \<longrightarrow> P v)"
  by (auto simp: set_bt_values)

lemma registry_ok:
  "(\<forall>key r. fmlookup (ps_substrates ps) key = Some r \<longrightarrow> validate_record r = Inr () \<and> key = sub_name r)
     \<and> (\<forall>key r. fmlookup (ps_substrates ps) key = Some r \<longrightarrow> validate_substrate_authority ps r = Inr ())
   \<longleftrightarrow> (\<forall>key r. fmlookup (ps_substrates ps) key = Some r \<longrightarrow> sub_name r = key \<and> trim key \<noteq> []
        \<and> (sub_kind r \<noteq> AuthorityOnly \<longrightarrow>
             (\<exists>pool. sub_capability_pool r = Some pool \<and> trim pool \<noteq> [] \<and> capability_key ps pool \<noteq> None)))"
  (is "?l \<longleftrightarrow> ?r")
proof
  assume ?l
  then show ?r by (metis validate_record_ok validate_substrate_authority_ok)
next
  assume r: ?r
  then have "validate_record r = Inr () \<and> key = sub_name r" if "fmlookup (ps_substrates ps) key = Some r" for key r
    using that unfolding validate_record_ok by blast
  with r show ?l by (metis validate_substrate_authority_ok)
qed

lemma validate_inventory_ok: "validate_inventory ps = Inr () \<longleftrightarrow> inventory_ok ps"
  unfolding validate_inventory_parts inventory_ok_def values_Ball validate_builtin_ok validate_capability_bound_ok
    registry_ok [symmetric] by argo

lemma validate_degrade_ok:
  "validate_degrade ps cl p = Inr () \<longleftrightarrow>
     (\<forall>fb. memory_overcommit_policy p = DegradeToLight fb \<longrightarrow>
          fb \<noteq> cl \<and> (\<exists>q. fmlookup (ps_classes ps) fb = Some q \<and> \<not> is_disabled q
            \<and> (\<forall>c. memory_overcommit_policy q \<noteq> DegradeToLight c)))"
  by (auto simp: validate_degrade_def and_then_unit split: MemoryOvercommitPolicy.splits option.splits)

lemma validate_class_ok: "validate_class ps (cl, p) = Inr () \<longleftrightarrow> class_policy_ok ps cl p"
proof -
  have I: "(case validate_identifier ClassField cl of Inl e \<Rightarrow> Inl (violation (InvalidPolicyClass cl e)) | Inr u \<Rightarrow> Inr u) = Inr ()
      \<longleftrightarrow> canonical cl"
    using validate_identifier_ok_iff [of ClassField cl] by (cases "validate_identifier ClassField cl") auto
  have M: "memory_permit_mode p \<in> {Measured, Hybrid} \<longleftrightarrow> memory_permit_mode p \<noteq> Estimated"
    by (cases "memory_permit_mode p") auto
  have Q: "class_can_queue p \<longleftrightarrow> overflow_policy p = QueueWithinDepth \<or> memory_overcommit_policy p = MemQueue"
    by (cases "overflow_policy p") (auto simp: class_can_queue_def is_queueable_def)
  have W: "(case fairness p of WeightedFairQueue weight _ \<Rightarrow> weight \<noteq> 0 | _ \<Rightarrow> True) \<longleftrightarrow> (\<forall>b. fairness p \<noteq> WeightedFairQueue 0 b)"
    by (cases "fairness p") auto
  show ?thesis
    unfolding validate_class_def prod.case Let_def and_then_unit I validate_degrade_ok ensure_Inr_iff M W
      class_policy_ok_def fits_alone_def Q by (simp only: de_Morgan_conj not_not not_less) blast
qed

lemma validate_tiers_ok: "validate_tiers pk bk xs = Inr () \<longleftrightarrow>
   (\<exists>fp fb. (pk \<noteq> None \<longrightarrow> pk = Some fp) \<and> (bk \<noteq> None \<longrightarrow> bk = Some fb) \<and>
     (\<forall>(cl, p) \<in> set xs. \<not> is_disabled p \<longrightarrow> discriminant (fairness p) = (if best_effort p then fb else fp)))"
proof (induction xs arbitrary: pk bk)
  case Nil
  show ?case by (cases pk; cases bk) auto
next
  case (Cons x xs)
  obtain cl p where x: "x = (cl, p)" by fastforce
  show ?case
    by (cases "is_disabled p"; cases "best_effort p"; cases pk; cases bk) (auto simp: x Let_def Cons.IH)
qed

lemma validate_tiers_iff: "validate_tiers None None (bt_entries cls) = Inr () \<longleftrightarrow> one_discipline cls"
proof
  assume "validate_tiers None None (bt_entries cls) = Inr ()"
  then show "one_discipline cls"
    unfolding validate_tiers_ok one_discipline_def entries_Ball by auto
next
  assume o: "one_discipline cls"
  define f where "f b = (SOME k. \<forall>cl p. fmlookup cls cl = Some p \<longrightarrow> \<not> is_disabled p \<longrightarrow> best_effort p = b
     \<longrightarrow> discriminant (fairness p) = k)" for b
  have "discriminant (fairness p) = f (best_effort p)" if "fmlookup cls cl = Some p" "\<not> is_disabled p" for cl p
  proof -
    have "\<exists>k. \<forall>cl q. fmlookup cls cl = Some q \<longrightarrow> \<not> is_disabled q \<longrightarrow> best_effort q = best_effort p
       \<longrightarrow> discriminant (fairness q) = k" using o that unfolding one_discipline_def by blast
    from someI_ex [OF this] that show ?thesis unfolding f_def by blast
  qed
  then show "validate_tiers None None (bt_entries cls) = Inr ()"
    unfolding validate_tiers_ok entries_Ball by (intro exI [of _ "f False"] exI [of _ "f True"]) auto
qed

lemma policy_ok_validates: "validate_policy ps = Inr () \<longleftrightarrow> policy_ok ps"
  by (simp only: validate_policy_def and_then_unit validate_inventory_ok for_each_ok_iff entries_Ball validate_class_ok
      validate_tiers_iff policy_ok_def)

text \<open>C32: Construction accepts a policy exactly when it is coherent: every registered substrate is filed under its own name and
  every executing one has a capability authority, the built-in substrates are present with their canonical binding, every
  capability is provided by some substrate, every class fits the budgets alone, queues only with depth, measures memory only
  with a unit scale, degrades in one hop to an enabled class, and each scheduling tier has a single fairness discipline.\<close>

theorem validate_policy_iff: "validate_policy ps = Inr () \<longleftrightarrow> policy_ok ps"
  by (rule policy_ok_validates)

end
