(* ===== verification/TM_Sections.thy ===== *)
theory TM_Sections
  imports TM_Governor
begin

text \<open>
  What every critical section of the governor guarantees. The contract of a section is the locale
  \<open>custody_section\<close>; it is interpreted on the sections of the operations, and the reachability argument
  uses it once for all of them. The two sections outside it are admission (which brings new identities) and
  the start of a claim (which moves a granted ticket to claiming).
\<close>

section \<open>Elementary transitions\<close>

lemma evolves_commit_time: "evolves s (fst (commit_time sampled s))"
  by (rule evolves_same_custody) (simp_all add: commit_time_def Let_def)

lemma gov_inv_commit_time: "gov_inv n s \<Longrightarrow> gov_inv n (fst (commit_time sampled s))"
  by (subst gov_inv_cong [of _ s]) (simp_all add: commit_time_def Let_def)

lemma queues_unwind_ledger: "queues (unwind_ledger p r s) = queues s"
proof (cases "fmlookup (gs_classes s) (rec_class r)")
  case (Some cs)
  then have "same_queue (fmget (gs_classes s) ClassState_default (rec_class r)) (class_unwind r cs)"
    using class_ledger_same_queue(3) by (simp add: fmget_def)
  then show ?thesis using Some by (simp add: queue_of_same_upd del: queue_of_upd)
qed simp

lemma fmsum_one_drop_le: "fmsum one (fmdrop p m) \<le> fmsum one m"
  by (cases "fmlookup m p") (simp_all add: fmsum_simps fmdrop_absent)

lemma evolves_record_terminal:
  assumes "t |\<in>| fmdom (gs_tickets s)"
  shows "evolves s (record_terminal_ticket t reason s)"
proof -
  have "queues (record_terminal_ticket t reason s) = queues s" by simp
  from total_queued_cong [OF this] record_terminal_dom [of t reason s] assms show ?thesis
    by (auto simp: evolves_def population_def)
qed

lemma evolves_unwind:
  assumes inv: "gov_inv n s" and eq: "unwind p reason s e = ((s', e'), out)"
  shows "evolves s s'"
proof (cases "fmlookup (gs_permits s) p")
  case None
  with eq show ?thesis by (simp add: unwind_eq)
next
  case (Some r)
  have co: "core n s" using inv by (simp add: gov_inv_def)
  let ?u = "unwind_ledger p r s"
  have "evolves s ?u"
    unfolding evolves_def population_def queues_unwind_ledger
    using fmsum_one_drop_le [of p "gs_permits s"] total_queued_cong [OF queues_unwind_ledger, of p r s]
    by (simp add: occupants_unwind subset_iff Range_iff) blast
  moreover have "evolves ?u s'"
  proof (cases "rec_pending_ticket r")
    case None
    then show ?thesis using eq Some by (simp add: unwind_eq)
  next
    case t: (Some t)
    have "live s t \<noteq> None" using ticket_okD(2) [OF coreD(2) [OF co] Some t] by (auto simp: holds_ticket_def)
    then have "t |\<in>| fmdom (gs_tickets ?u)" using live_dom by auto
    then show ?thesis using eq Some t by (auto simp: unwind_eq intro: evolves_record_terminal)
  qed
  ultimately show ?thesis by (rule evolves_trans)
qed

lemma release_keeps:
  assumes inv: "gov_inv n s" and eq: "release_with_proof_reason p pf reason s e = ((s', e'), out)"
  shows "gov_inv n s'" and "evolves s s'"
proof -
  show "gov_inv n s'" by (rule gov_inv_release [OF inv eq])
  show "evolves s s'"
    using eq evolves_unwind [OF inv, of p reason e]
    by (auto simp: release_with_proof_reason_def split: option.splits if_splits prod.splits)
qed

lemma unwind_live:
  "fmlookup (gs_permits s) p = Some r \<Longrightarrow> snd (unwind p reason s e) = Some (r\<lparr>rec_pending_ticket := None, rec_claim_waker := None\<rparr>)"
  by (simp add: unwind_eq)

lemma release_live:
  "fmlookup (gs_permits s) p = Some r \<Longrightarrow> release_with_proof_reason p pf reason s e =
     (if rec_lease_nonce r \<noteq> pf then ((s, e), HeldByLease (rec_phase r)) else (fst (unwind p reason s e), ReleasedOk))"
  using unwind_live [of s p r reason e]
  by (cases "unwind p reason s e") (simp add: release_with_proof_reason_def)

lemma release_absent:
  "fmlookup (gs_permits s) p = None \<Longrightarrow> release_with_proof_reason p pf reason s e = ((s, e), UnknownPermit)"
  by (simp add: release_with_proof_reason_def)

lemma release_not_released:
  assumes "release_with_proof_reason p pf reason s e = ((s', e'), out)" "out \<noteq> ReleasedOk"
  shows "s' = s \<and> e' = e"
  using assms by (cases "fmlookup (gs_permits s) p") (simp_all add: release_live release_absent split: if_splits)

lemma forget_terminal_tickets:
  "gs_tickets (forget_terminal_ticket t s) = gs_tickets s
     \<or> gs_tickets (forget_terminal_ticket t s) = fmdrop t (gs_tickets s)"
  "gs_terminal_seq (forget_terminal_ticket t s) = gs_terminal_seq s"
  unfolding forget_terminal_ticket_def Let_def by (auto split: TicketState.split option.split)

lemma forget_terminal_keeps:
  assumes inv: "gov_inv n s"
  shows "gov_inv n (forget_terminal_ticket t s)" and "evolves s (forget_terminal_ticket t s)"
proof -
  have co: "core n s" and g: "guard_inv s" using inv by (simp_all add: gov_inv_def)
  note D = coreD [OF co]
  have "core n (forget_terminal_ticket t s)"
    by (rule coreI) (use D forget_terminal_ring [OF D(3)] in \<open>simp_all add: forget_terminal_tickets(2)\<close>)
  then show "gov_inv n (forget_terminal_ticket t s)" using g by (simp add: gov_inv_def)
  have "fmdom (gs_tickets (forget_terminal_ticket t s)) |\<subseteq>| fmdom (gs_tickets s)"
    using forget_terminal_tickets(1) [of t s] by (elim disjE) auto
  moreover have "queues (forget_terminal_ticket t s) = queues s" by simp
  ultimately show "evolves s (forget_terminal_ticket t s)"
    unfolding evolves_def population_def by (simp add: total_queued_cong [OF \<open>queues _ = queues s\<close>])
qed

section \<open>Load and leases\<close>

text \<open>\<open>within ps P\<close>: the live permits \<open>P\<close> are inside every configured limit.
  \<open>keeps_leases X P P'\<close>: every leased permit of \<open>P\<close> is in \<open>P'\<close> under the same lease and with the same charge,
  but for the (permit, nonce) pairs in \<open>X\<close>.\<close>

definition within :: "PolicySet \<Rightarrow> (PermitId, PermitRecord) fmap \<Rightarrow> bool" where
  "within ps P \<longleftrightarrow>
     (\<forall>cl policy. policy_class ps cl = Some policy \<longrightarrow> fmsum (owned cl one) P \<le> max_inflight policy)
     \<and> (max_cpu_units (ps_resources ps) \<noteq> 0 \<longrightarrow> fmsum rec_cpu P \<le> max_cpu_units (ps_resources ps))
     \<and> (\<forall>i c. capability_record ps i = Some c \<longrightarrow> capacity_limit (cap_capacity c) \<noteq> 0 \<longrightarrow>
          fmsum (uses i) P \<le> capacity_limit (cap_capacity c))"

definition same_charge :: "PermitRecord \<Rightarrow> PermitRecord \<Rightarrow> bool" where
  "same_charge r r' \<longleftrightarrow>
     rec_permit_id r' = rec_permit_id r \<and> rec_class r' = rec_class r \<and> rec_cpu r' = rec_cpu r
     \<and> rec_capabilities r' = rec_capabilities r"

definition keeps_leases ::
  "(PermitId \<times> nat) set \<Rightarrow> (PermitId, PermitRecord) fmap \<Rightarrow> (PermitId, PermitRecord) fmap \<Rightarrow> bool" where
  "keeps_leases X P P' \<longleftrightarrow>
     (\<forall>p r m. fmlookup P p = Some r \<longrightarrow> rec_lease_nonce r = Some m \<longrightarrow> (p, m) \<notin> X \<longrightarrow>
        (\<exists>r'. fmlookup P' p = Some r' \<and> rec_lease_nonce r' = Some m \<and> same_charge r r'))"

lemma same_charge_refl [simp]: "same_charge r r"
  by (simp add: same_charge_def)

lemma same_charge_trans: "same_charge a b \<Longrightarrow> same_charge b c \<Longrightarrow> same_charge a c"
  by (simp add: same_charge_def)

lemma within_drop: "within ps P \<Longrightarrow> within ps (fmdrop p P)"
proof -
  have "fmsum f (fmdrop p P) \<le> fmsum f P" for f
    by (cases "fmlookup P p") (simp_all add: fmsum_simps fmdrop_absent)
  then show "within ps P \<Longrightarrow> within ps (fmdrop p P)"
    unfolding within_def by (meson le_trans)
qed

lemma within_upd: "within ps P \<Longrightarrow> fmlookup P p = Some r \<Longrightarrow> same_charge r r' \<Longrightarrow> within ps (fmupd p r' P)"
  by (simp add: within_def same_charge_def owned_def fmsum_upd_same)

lemma keeps_leases_refl [simp]: "keeps_leases X P P"
  by (auto simp: keeps_leases_def)

lemma keeps_leases_trans:
  assumes "keeps_leases X P Q" "keeps_leases X Q R"
  shows "keeps_leases X P R"
  unfolding keeps_leases_def
proof (intro allI impI)
  fix p r m assume a: "fmlookup P p = Some r" "rec_lease_nonce r = Some m" "(p, m) \<notin> X"
  then obtain r' where b: "fmlookup Q p = Some r'" "rec_lease_nonce r' = Some m" "same_charge r r'"
    using assms(1) unfolding keeps_leases_def by blast
  with a(3) assms(2) obtain r'' where "fmlookup R p = Some r''" "rec_lease_nonce r'' = Some m" "same_charge r' r''"
    unfolding keeps_leases_def by blast
  with b(3) same_charge_trans show "\<exists>r'. fmlookup R p = Some r' \<and> rec_lease_nonce r' = Some m \<and> same_charge r r'"
    by blast
qed

lemma keeps_leases_mono: "keeps_leases X P Q \<Longrightarrow> X \<subseteq> Y \<Longrightarrow> keeps_leases Y P Q"
  unfolding keeps_leases_def by blast

lemma keeps_leases_new: "fmlookup P p = None \<Longrightarrow> keeps_leases X P (fmupd p r P)"
  by (auto simp: keeps_leases_def)

lemma keeps_leases_upd:
  "fmlookup P p = Some r \<Longrightarrow> same_charge r r' \<Longrightarrow> rec_lease_nonce r = None \<or> rec_lease_nonce r' = rec_lease_nonce r
     \<Longrightarrow> keeps_leases X P (fmupd p r' P)"
  by (auto simp: keeps_leases_def)

lemma keeps_leases_drop:
  "(\<And>r m. fmlookup P p = Some r \<Longrightarrow> rec_lease_nonce r = Some m \<Longrightarrow> (p, m) \<in> X) \<Longrightarrow> keeps_leases X P (fmdrop p P)"
  by (auto simp: keeps_leases_def)

section \<open>Sound transitions\<close>

definition sound :: "PolicySet \<Rightarrow> (PermitId \<times> nat) set \<Rightarrow> nat \<Rightarrow> GovernedState \<Rightarrow> GovernedState \<Rightarrow> bool" where
  "sound ps X n s s' \<longleftrightarrow>
     gov_inv n s' \<and> evolves s s' \<and> (within ps (gs_permits s) \<longrightarrow> within ps (gs_permits s'))
     \<and> keeps_leases X (gs_permits s) (gs_permits s')"

lemma sound_trans: "sound ps X n a b \<Longrightarrow> sound ps X n b c \<Longrightarrow> sound ps X n a c"
  unfolding sound_def by (meson evolves_trans keeps_leases_trans)

lemma sound_mono: "sound ps X n a b \<Longrightarrow> X \<subseteq> Y \<Longrightarrow> sound ps Y n a b"
  unfolding sound_def by (meson keeps_leases_mono)

lemma sound_refl: "gov_inv n s \<Longrightarrow> sound ps X n s s"
  by (simp add: sound_def)

lemma sound_population: "sound ps X n s s' \<Longrightarrow> population s \<le> u32_max \<Longrightarrow> population s' \<le> u32_max"
  by (simp add: sound_def evolves_def)

lemma sound_inv: "sound ps X n s s' \<Longrightarrow> gov_inv n s'"
  by (simp add: sound_def)

lemma sound_same: "gov_inv n s' \<Longrightarrow> evolves s s' \<Longrightarrow> gs_permits s' = gs_permits s \<Longrightarrow> sound ps X n s s'"
  by (simp add: sound_def)

lemma evolves_permit_upd:
  assumes old: "fmlookup (gs_permits s) p = Some r" "rec_permit_id r' = rec_permit_id r"
    and new: "gs_permits s' = fmupd p r' (gs_permits s)" "queues s' = queues s"
    and tick: "\<And>t. ticket_step (live s t) (live s' t)" "fmdom (gs_tickets s') |\<subseteq>| fmdom (gs_tickets s)"
    and cl: "gs_admission_closed s' = gs_admission_closed s"
  shows "evolves s s'"
proof -
  have "fmsum one (gs_permits s') = fmsum one (gs_permits s)" unfolding new by (rule fmsum_upd_same [OF old(1)]) simp
  moreover have "permit_ids s' = permit_ids s"
    unfolding new by (subst occupants_permit_upd [OF old(1)]) (simp_all add: pid_p_def old(2))
  ultimately show ?thesis
    using tick cl new(2) total_queued_cong [OF new(2)] by (simp add: evolves_def population_def)
qed

lemma sound_permit_upd:
  assumes "gov_inv n s'" "fmlookup (gs_permits s) p = Some r" "same_charge r r'"
    "rec_lease_nonce r = None \<or> rec_lease_nonce r' = rec_lease_nonce r"
    "gs_permits s' = fmupd p r' (gs_permits s)" "queues s' = queues s"
    "\<And>t. ticket_step (live s t) (live s' t)" "fmdom (gs_tickets s') |\<subseteq>| fmdom (gs_tickets s)"
    "gs_admission_closed s' = gs_admission_closed s"
  shows "sound ps X n s s'"
proof -
  have "evolves s s'"
    by (rule evolves_permit_upd [OF assms(2) _ assms(5-9)]) (use assms(3) in \<open>simp add: same_charge_def\<close>)
  with assms(1-5) show ?thesis
    by (simp add: sound_def within_upd keeps_leases_upd)
qed

section \<open>The pieces of a section\<close>

lemma sound_commit_time: "gov_inv n s \<Longrightarrow> sound ps X n s (fst (commit_time sampled s))"
  by (rule sound_same) (simp_all add: gov_inv_commit_time evolves_commit_time, simp add: commit_time_def Let_def)

lemma sound_unwind:
  assumes inv: "gov_inv n s" and eq: "unwind p reason s e = ((s', e'), out)"
    and spent: "\<And>r m. fmlookup (gs_permits s) p = Some r \<Longrightarrow> rec_lease_nonce r = Some m \<Longrightarrow> (p, m) \<in> X"
  shows "sound ps X n s s'"
proof -
  have P: "gs_permits s' = fmdrop p (gs_permits s)" using unwind_permits [of p reason s e] eq by simp
  have "keeps_leases X (gs_permits s) (fmdrop p (gs_permits s))" by (rule keeps_leases_drop) (rule spent)
  then show ?thesis unfolding sound_def P
    using gov_inv_unwind [OF inv eq] evolves_unwind [OF inv eq] within_drop by blast
qed

lemma sound_release:
  assumes inv: "gov_inv n s" and eq: "release_with_proof_reason p pf reason s e = ((s', e'), out)"
  shows "sound ps {(p, m) |m. pf = Some m} n s s'"
proof (cases "\<exists>r. fmlookup (gs_permits s) p = Some r \<and> rec_lease_nonce r = pf")
  case False
  then have "s' = s" using eq
    by (cases "fmlookup (gs_permits s) p") (simp_all add: release_live release_absent)
  then show ?thesis using sound_refl [OF inv] by simp
next
  case True
  then obtain r where r: "fmlookup (gs_permits s) p = Some r" "rec_lease_nonce r = pf" by blast
  obtain x where "unwind p reason s e = ((s', e'), x)"
    using eq r by (cases "unwind p reason s e") (simp add: release_live)
  then show ?thesis by (rule sound_unwind [OF inv]) (use r in auto)
qed

lemmas sound_release_undispatched = sound_release [of _ _ _ None, simplified]

lemma sound_forget: "gov_inv n s \<Longrightarrow> sound ps X n s (forget_terminal_ticket t s)"
  by (rule sound_same) (simp_all add: forget_terminal_keeps)

lemma sound_fault_all:
  assumes "gov_inv n s" "terminalize_queued_for_accounting_fault ps s e = (s', e')"
  shows "sound qs X n s s'"
  using fault_all_keeps [OF assms] by (intro sound_same) simp_all

lemma sound_record_fault: "gov_inv n s \<Longrightarrow> sound ps X n s (record_accounting_fault what s)"
  by (rule sound_same) (simp_all add: gov_inv_record_fault, simp_all add: record_accounting_fault_def evolves_same_custody)

lemma sound_memory_delta:
  assumes inv: "gov_inv n s" and old: "fmlookup (gs_permits s) p = Some r" and same: "same_but_memory r r'"
    and s': "s' = apply_memory_delta (rec_class r) (attributed_root r) (int (rec_mem r') - int (rec_mem r))
      (s\<lparr>gs_permits := fmupd p r' (gs_permits s)\<rparr>)"
  shows "sound ps X n s s'"
proof -
  note G = gov_inv_apply_memory_delta [OF inv old same s'] and K = same_but_memory_keys [OF same]
  have "same_queue (fmget (gs_classes s) ClassState_default (rec_class r))
      (class_shifted r (rec_mem r') (fmget (gs_classes s) ClassState_default (rec_class r)))"
    by (simp add: same_queue_def class_shifted_def)
  then have "queues s' = queues s"
    by (simp add: G(2) memory_shifted_def class_view_def queue_of_same_upd del: queue_of_upd)
  then show ?thesis
    by (intro sound_permit_upd [OF G(1) old]) (use K in \<open>simp_all add: G(2) memory_shifted_def same_charge_def\<close>)
qed

lemma sound_reconcile:
  assumes inv: "gov_inv n s" and eq: "reconcile p bytes sq mode scale now_ms s = (s', out)"
  shows "sound ps X n s s'"
proof (cases "is_applied out")
  case True
  then obtain m where m: "out = Applied m" by (cases out) (simp_all add: is_applied_def)
  from eq [unfolded m] show ?thesis by (rule reconcile_applied) (rule sound_memory_delta [OF inv])
next
  case False
  then show ?thesis using reconcile_not_applied [OF eq] sound_refl [OF inv] sound_record_fault [OF inv] by auto
qed

lemma sound_release_stage:
  assumes inv: "gov_inv n s" and eq: "release_stage_memory p units policy sq now_ms s = (s', out)"
  shows "sound ps X n s s'"
proof (cases "\<exists>f. out = StageReleased f")
  case True
  then obtain f where "out = StageReleased f" by blast
  from eq [unfolded this] show ?thesis by (rule stage_released) (rule sound_memory_delta [OF inv])
next
  case False
  then show ?thesis using stage_not_released [OF eq] sound_refl [OF inv] by auto
qed

text \<open>The sweep unwinds undispatched permits only, and those hold no lease.\<close>

lemma sound_reap_each:
  assumes "gov_inv n (fst se)" "reap_each ps se k = (se', k')"
    "\<And>p r. p \<in> set ps \<Longrightarrow> fmlookup (gs_permits (fst se)) p = Some r \<Longrightarrow> rec_lease_nonce r = None"
  shows "sound qs {} n (fst se) (fst se')"
  using assms
proof (induction ps arbitrary: se k)
  case (Cons p ps)
  obtain s1 e1 out where u: "unwind p Reclaimed (fst se) (snd se) = ((s1, e1), out)" by (metis prod.collapse)
  have a: "sound qs {} n (fst se) s1"
    by (rule sound_unwind [OF Cons.prems(1) u]) (use Cons.prems(3) [of p] in auto)
  have P: "gs_permits s1 = fmdrop p (gs_permits (fst se))"
    using unwind_permits [of p Reclaimed "fst se" "snd se"] u by simp
  obtain k2 where r: "reap_each ps (s1, e1) k2 = (se', k')" using Cons.prems(2) u by (auto simp: Let_def)
  have "sound qs {} n (fst (s1, e1)) (fst se')"
    by (rule Cons.IH [OF _ r]) (use sound_inv [OF a] Cons.prems(3) in \<open>auto simp: P split: if_splits\<close>)
  with a show ?case by (simp add: sound_trans)
qed (simp add: sound_refl)

lemma sound_reap_leaks:
  assumes inv: "gov_inv n s" and eq: "reap_leaks ps now_ms stale s e = ((s', e'), report)"
  shows "sound qs {} n s s'"
proof -
  let ?l = "map rec_permit_id (filter (\<lambda>r. rec_phase r = DispatchReserved)
    (filter (leak_suspect ps now_ms stale) (bt_values (gs_permits s))))"
  obtain se k where r: "reap_each ?l (s, e) 0 = (se, k)" by (metis prod.collapse)
  have co: "core n s" using inv by (simp add: gov_inv_def)
  have rec: "fmlookup (gs_permits s) p = Some r \<Longrightarrow> record_ok p r" for p r
    by (rule acct_okD(6) [OF coreD(1) [OF co]])
  have "sound qs {} n (fst (s, e)) (fst se)"
    by (rule sound_reap_each [OF _ r]) (use inv rec in \<open>fastforce simp: set_bt_values record_ok_def\<close>)+
  then show ?thesis using eq r by (simp add: reap_leaks_def Let_def)
qed

section \<open>Grants stay within the limits\<close>

lemma within_grant:
  assumes w: "within ps (gs_permits s)" and acct: "acct_inv s" and new: "fmlookup (gs_permits s) p = None"
    and f: "fits s ps (rec_class r) (max_inflight policy) cost (rec_capabilities r)" "rec_cpu r = rc_cpu_units cost"
    and pol: "policy_class ps (rec_class r) = Some policy"
  shows "within ps (fmupd p r (gs_permits s))"
proof -
  have new': "fmsum g (fmupd p r (gs_permits s)) = fmsum g (gs_permits s) + g r" for g
    by (rule fmsum_upd_new [OF new])
  have inf: "inflight s (rec_class r) = fmsum (owned (rec_class r) one) (gs_permits s)"
    using acct_okD(3) [OF acct, of "rec_class r"]
    by (simp add: class_ok_def inflight_def fmget_def ClassState_default_def split: option.splits)
  have use: "capability_in_use s i = fmsum (uses i) (gs_permits s)" for i
    using acct_okD(4) [OF acct] by (simp add: capability_in_use_def)
  have cpu: "gs_cpu_units_held s = fmsum rec_cpu (gs_permits s)" by (rule acct_okD(1) [OF acct])
  have a: "fmsum (owned cl one) (gs_permits s) + owned cl one r \<le> max_inflight q"
    if q: "policy_class ps cl = Some q" for cl q
  proof (cases "cl = rec_class r")
    case True
    then show ?thesis using q pol f(1) inf by (simp add: fits_def owned_def)
  next
    case False
    then show ?thesis using q w by (simp add: within_def owned_def)
  qed
  have b: "fmsum (uses i) (gs_permits s) + uses i r \<le> capacity_limit (cap_capacity c)"
    if c: "capability_record ps i = Some c" "capacity_limit (cap_capacity c) \<noteq> 0" for i c
  proof (cases "i \<in> set (rec_capabilities r)")
    case True
    then show ?thesis using c f(1) use by (auto simp: fits_def capability_free_def)
  next
    case False
    then show ?thesis using c w by (simp add: within_def)
  qed
  show ?thesis using a b f cpu unfolding within_def new' fits_def by auto
qed

lemma queued_permit_fresh:
  assumes co: "core n s" and q: "r \<in> set (queues s cl)"
  shows "fmlookup (gs_permits s) (pr_permit_id r) = None"
proof (rule ccontr)
  assume "fmlookup (gs_permits s) (pr_permit_id r) \<noteq> None"
  then obtain x where x: "fmlookup (gs_permits s) (pr_permit_id r) = Some x" by blast
  then have "pid_p x = Some (pr_permit_id r)"
    using acct_okD(6) [OF coreD(1) [OF co] x] by (simp add: record_ok_def pid_p_def)
  with x have "(Inl (pr_permit_id r), pr_permit_id r) \<in> occupants pid_p pid_q (gs_permits s) (queues s)" by simp
  moreover have "(Inr (pr_ticket r), pr_permit_id r) \<in> occupants pid_p pid_q (gs_permits s) (queues s)"
    using q by (auto simp: pid_q_def)
  ultimately show False using coreD(7) [OF co] unfolding exclusive_def by blast
qed

lemma sound_sched:
  assumes "gov_inv n s" "sched_eq s s'"
  shows "sound ps X n s s'"
  by (rule sound_same) (use assms in \<open>simp_all add: gov_inv_sched evolves_sched\<close>, simp add: sched_eq_def)

lemma fits_sched: "sched_eq s s' \<Longrightarrow> fits s' ps cl m cost caps = fits s ps cl m cost caps"
proof -
  assume "sched_eq s s'"
  moreover from this have "inflight s' cl = inflight s cl"
    by (auto simp: sched_eq_def same_ledger_def inflight_def class_view_def fmget_def ClassState_default_def
        split: option.splits) (metis option.case(1,2) option.exhaust)+
  ultimately show ?thesis by (simp add: sched_eq_def fits_def capability_free_def capability_in_use_def)
qed

section \<open>Promotion is sound\<close>

lemma sound_promote_one:
  assumes inv: "gov_inv n s" and pop: "population s \<le> u32_max" and sel: "select s ps = (s0, Some x)"
    and rm: "remove_pending (sel_class x) (sel_queue_index x) s0 = (s1, Some r)"
  shows "sound ps {} n s (promote_one ps now x r s1)"
proof -
  note sq = sched_eq_select [OF sel]
  have inv0: "gov_inv n s0" by (rule gov_inv_sched [OF inv sq])
  then have co0: "core n s0" by (simp add: gov_inv_def)
  have pop0: "population s0 \<le> u32_max" using evolves_sched [OF sq] pop by (simp add: evolves_def)
  note K = promote_one_keeps [OF inv0 rm pop0, of ps now] and M = dequeued_member [OF rm]
    and Q = remove_pending_queues [OF rm]
  obtain cs policy where c: "fmlookup (gs_classes s) (sel_class x) = Some cs" "policy_class ps (sel_class x) = Some policy"
    "sel_queue_index x < length (cs_queue cs)" "runnable_request s ps cs policy (cs_queue cs ! sel_queue_index x)"
    using ready.pick_runnable [OF sel] by blast
  have "queues s (sel_class x) ! sel_queue_index x = untagged (cs_queue cs ! sel_queue_index x)"
    using c(1,3) by (simp add: queue_of_def fmget_def)
  then have u: "untagged r = untagged (cs_queue cs ! sel_queue_index x)" using Q(3) sched_eq_queues [OF sq] by simp
  then have u': "pr_class (cs_queue cs ! sel_queue_index x) = pr_class r" "pr_cost (cs_queue cs ! sel_queue_index x) = pr_cost r"
    "pr_capabilities (cs_queue cs ! sel_queue_index x) = pr_capabilities r"
    by (metis untagged_fields)+
  have "pr_class r = sel_class x" by (rule core_dequeue(4) [OF co0 rm])
  then have f: "fits s0 ps (sel_class x) (max_inflight policy) (pr_cost r) (pr_capabilities r)"
    using c(4) by (simp add: runnable_request_iff u' fits_sched [OF sq])
  have new: "fmlookup (gs_permits s0) (pr_permit_id r) = None"
    using queued_permit_fresh [OF co0 M(1)] by simp
  let ?g = "granted_record (promoted_grant (sel_class x) now r (promote_base ps x r s1))"
  have P: "gs_permits (promote_one ps now x r s1) = fmupd (pr_permit_id r) ?g (gs_permits s0)"
    by (simp add: promote_one_fields(1) M(2))
  have "sound ps {} n s0 (promote_one ps now x r s1)"
    unfolding sound_def P using K(1,2) keeps_leases_new [OF new]
      within_grant [OF _ coreD(1) [OF co0] new, of ps ?g policy "pr_cost r"] f c(2) by (simp add: promoted_grant_def)
  then show ?thesis using sound_sched [OF inv sq] sound_trans by blast
qed

lemma sound_promote_loop:
  assumes "gov_inv n s" "population s \<le> u32_max" "promote_loop ps now k s e ch = ((s', e'), ch', ex)"
  shows "sound ps {} n s s'"
  using assms
proof (induction k arbitrary: s e ch)
  case 0
  then show ?case by (simp add: sound_refl)
next
  case (Suc k)
  obtain s0 out where sel: "select s ps = (s0, out)" by force
  show ?case
  proof (cases out)
    case None
    then have "s' = s0" using Suc.prems(3) sel by simp
    then show ?thesis using sound_sched [OF Suc.prems(1) sched_eq_select [OF sel]] by simp
  next
    case (Some x)
    obtain s1 r where rm: "remove_pending (sel_class x) (sel_queue_index x) s0 = (s1, Some r)"
      using select_removes sel Some by blast
    note one = sound_promote_one [OF Suc.prems(1,2) sel [unfolded Some] rm, of now]
    have "promote_loop ps now k (promote_one ps now x r s1) (push_wake (pr_waker r) e) True = ((s', e'), ch', ex)"
      using Suc.prems(3) sel Some rm by simp
    from Suc.IH [OF sound_inv [OF one] sound_population [OF one Suc.prems(2)] this] one show ?thesis
      by (rule sound_trans [rotated])
  qed
qed

lemma terminalize_permits:
  assumes "terminalize_wait_cycle ps s e = ((s', e'), out)"
  shows "gs_permits s' = gs_permits s"
  using assms
proof (cases rule: terminalize_wait_cycle_cases)
  case (2 cl cs i w s1 r policy)
  then show ?thesis using dequeued_member(2) [OF 2(5)] sched_eq_on_unserved_removed [of s1 cl policy]
    by (simp add: sched_eq_def)
qed simp

lemma sound_terminalize:
  "gov_inv n s \<Longrightarrow> terminalize_wait_cycle ps s e = ((s', e'), out) \<Longrightarrow> sound qs X n s s'"
  using terminalize_wait_cycle_keeps terminalize_permits by (intro sound_same) blast+

lemma sound_promote:
  assumes inv: "gov_inv n s" and pop: "population s \<le> u32_max"
  shows "sound ps {} n s (fst (promote ps now s))"
proof -
  obtain s' eff where eq: "promote ps now s = (s', eff)" by force
  then obtain s1 e1 rb s2 e2 ch ex s3 e3 ra where p: "terminalize_wait_cycle ps s no_effects = ((s1, e1), rb)"
    "promote_loop ps now PROMOTION_BUDGET s1 e1 (rb = CycleRemoved) = ((s2, e2), ch, ex)"
    "(if ch then terminalize_wait_cycle ps s2 e2 else ((s2, e2), CycleNone)) = ((s3, e3), ra)"
    "s' = s3\<lparr>gs_promotion_pending := eff_more_runnable eff\<rparr>"
    by (rule promote_parts)
  have a: "sound ps {} n s s1" by (rule sound_terminalize [OF inv p(1)])
  have b: "sound ps {} n s1 s2" by (rule sound_promote_loop [OF sound_inv [OF a] sound_population [OF a pop] p(2)])
  have c: "sound ps {} n s2 s3"
    using p(3) sound_terminalize [OF sound_inv [OF b], of ps e2 s3 e3 ra] sound_refl [OF sound_inv [OF b]]
    by (auto split: if_splits)
  have "gov_inv n s'" unfolding p(4) using sound_inv [OF c] by (subst gov_inv_cong [of _ s3]) simp_all
  then have "sound ps {} n s3 s'" by (rule sound_same) (simp_all add: p(4) evolves_same_custody)
  with a b c eq show ?thesis by (auto intro: sound_trans)
qed

lemma sound_drain:
  "gov_inv n s \<Longrightarrow> population s \<le> u32_max \<Longrightarrow> sound ps {} n s (fst (drain ps sampled s e))"
proof (induction ps sampled s e rule: drain.induct)
  case (1 ps sampled s e)
  show ?case
  proof (cases "eff_more_runnable e")
    case True
    obtain s1 now where c: "commit_time sampled s = (s1, now)" by force
    obtain s2 e2 where p: "promote ps now s1 = (s2, e2)" by force
    have a: "sound ps {} n s s1" using sound_commit_time [OF 1(2), of ps "{}" sampled] c by simp
    have b: "sound ps {} n s1 s2"
      using sound_promote [OF sound_inv [OF a] sound_population [OF a 1(3)], of ps now] p by simp
    note ab = sound_trans [OF a b]
    note IH = 1(1) [OF True c [symmetric] refl p [symmetric] refl sound_inv [OF ab] sound_population [OF ab 1(3)]]
    have "fst (drain ps sampled s e) = fst (drain ps sampled s2 e2)"
      using True c p by (subst drain.simps) (simp add: split_beta Let_def)
    then show ?thesis using sound_trans [OF ab IH] by simp
  qed (use sound_refl [OF 1(2)] in \<open>subst drain.simps, simp\<close>)
qed

section \<open>The contract of a critical section\<close>

text \<open>\<open>run\<close> is the state change of one critical section, \<open>spent\<close> the leases (permit and nonce) it may end.\<close>

locale custody_section =
  fixes run :: "GovernedState \<Rightarrow> GovernedState" and ps :: PolicySet and spent :: "(PermitId \<times> nat) set"
  assumes run_inv: "gov_inv n s \<Longrightarrow> population s \<le> u32_max \<Longrightarrow> gov_inv n (run s)"
    and run_evolves: "gov_inv n s \<Longrightarrow> population s \<le> u32_max \<Longrightarrow> evolves s (run s)"
    and run_within: "gov_inv n s \<Longrightarrow> population s \<le> u32_max \<Longrightarrow> within ps (gs_permits s) \<Longrightarrow>
      within ps (gs_permits (run s))"
    and run_leases: "gov_inv n s \<Longrightarrow> population s \<le> u32_max \<Longrightarrow>
      keeps_leases spent (gs_permits s) (gs_permits (run s))"
begin

lemma run_sound: "gov_inv n s \<Longrightarrow> population s \<le> u32_max \<Longrightarrow> sound ps spent n s (run s)"
  unfolding sound_def using run_inv run_evolves run_within run_leases by blast

lemma run_consistent: "gov_inv n s \<Longrightarrow> population s \<le> u32_max \<Longrightarrow> assert_consistent (run s)"
  by (rule gov_inv_consistent) (rule run_inv)

lemma unknown_ticket_stays:
  "gov_inv n s \<Longrightarrow> population s \<le> u32_max \<Longrightarrow> fmlookup (gs_tickets s) t = None \<Longrightarrow> fmlookup (gs_tickets (run s)) t = None"
  using run_evolves [of n s] unfolding evolves_def by (meson fmdom_notD fmdom_notI fsubsetD)

lemma leased_permit_stays:
  assumes "gov_inv n s" "population s \<le> u32_max" "fmlookup (gs_permits s) p = Some r" "rec_lease_nonce r = Some m"
    "(p, m) \<notin> spent"
  obtains r' where "fmlookup (gs_permits (run s)) p = Some r'" "rec_lease_nonce r' = Some m" "same_charge r r'"
  using run_leases [OF assms(1,2)] assms(3-5) unfolding keeps_leases_def by blast

end

lemma custody_sectionI:
  "(\<And>n s. gov_inv n s \<Longrightarrow> population s \<le> u32_max \<Longrightarrow> sound ps X n s (run s)) \<Longrightarrow> custody_section run ps X"
  unfolding sound_def by unfold_locales blast+

lemma custody_section_comp:
  assumes "custody_section f ps X" "custody_section g ps X"
  shows "custody_section (\<lambda>s. g (f s)) ps X"
proof (rule custody_sectionI)
  fix n s assume a: "gov_inv n s" "population s \<le> u32_max"
  have f: "sound ps X n s (f s)" by (rule custody_section.run_sound [OF assms(1) a])
  have "sound ps X n (f s) (g (f s))"
    by (rule custody_section.run_sound [OF assms(2) sound_inv [OF f] sound_population [OF f a(2)]])
  with f show "sound ps X n s (g (f s))" by (rule sound_trans)
qed

text \<open>An operation that ends with the drain loop is as safe as its section.\<close>

lemma custody_section_drain:
  assumes "custody_section f ps X"
  shows "custody_section (\<lambda>s. fst (drain ps sampled (f s) (e s))) ps X"
proof (rule custody_sectionI)
  fix n s assume a: "gov_inv n s" "population s \<le> u32_max"
  have f: "sound ps X n s (f s)" by (rule custody_section.run_sound [OF assms a])
  have "sound ps X n (f s) (fst (drain ps sampled (f s) (e s)))"
    by (rule sound_mono [OF sound_drain [OF sound_inv [OF f] sound_population [OF f a(2)]]]) simp
  with f show "sound ps X n s (fst (drain ps sampled (f s) (e s)))" by (rule sound_trans)
qed

text \<open>Most sections change the state and, when that freed capacity, run a promotion pass.\<close>

lemma sound_then_promote:
  assumes "gov_inv n s" "population s \<le> u32_max" "sound ps X n s s1"
  shows "sound ps X n s (fst (promote ps now s1))"
proof -
  have "sound ps X n s1 (fst (promote ps now s1))"
    by (rule sound_mono [OF sound_promote [OF sound_inv [OF assms(3)] sound_population [OF assms(3,2)]]]) simp
  with assms(3) show ?thesis by (rule sound_trans)
qed

lemma sound_after_commit:
  assumes "gov_inv n s" "population s \<le> u32_max"
    and "\<And>s. gov_inv n s \<Longrightarrow> population s \<le> u32_max \<Longrightarrow> sound ps X n s (f s)"
  shows "sound ps X n s (f (fst (commit_time sampled s)))"
proof -
  have a: "sound ps X n s (fst (commit_time sampled s))" by (rule sound_commit_time [OF assms(1)])
  with assms(3) [OF sound_inv [OF a] sound_population [OF a assms(2)]] show ?thesis by (rule sound_trans [rotated])
qed

end
