(* ===== verification/TM_Custody.thy ===== *)
theory TM_Custody
  imports TM_Sections
begin

text \<open>
  The critical sections of the governor meet the contract \<open>custody_section\<close>: releasing, abandoning, memory
  governance, the leak sweep, phase advances, closing admission, continuation passes and the compensation
  of a failed delivery. Only a release that presents the lease token of a permit may end that lease.
\<close>

section \<open>Releasing\<close>

lemma surjective_triple: "x = ((fst (fst x), snd (fst x)), snd x)"
  by simp

lemma custody_after_commit:
  assumes "\<And>n s now. gov_inv n s \<Longrightarrow> population s \<le> u32_max \<Longrightarrow> sound ps X n s (body s now)"
    and "\<And>s. run s = (case commit_time sampled s of (s, now) \<Rightarrow> body s now)"
  shows "custody_section run ps X"
proof (rule custody_sectionI)
  fix n s assume a: "gov_inv n s" "population s \<le> u32_max"
  obtain s1 now where c: "commit_time sampled s = (s1, now)" by force
  have s1: "sound ps X n s s1" using sound_commit_time [OF a(1), of ps X sampled] c by simp
  have "sound ps X n s1 (body s1 now)" by (rule assms(1) [OF sound_inv [OF s1] sound_population [OF s1 a(2)]])
  with s1 show "sound ps X n s (run s)" unfolding assms(2) c by (auto intro: sound_trans)
qed

lemma sound_release_promote:
  assumes "gov_inv n s" "population s \<le> u32_max" "release_with_proof_reason p pf reason s e = ((s1, e1), out)"
  shows "sound ps {(p, m) |m. pf = Some m} n s (fst (promote ps now s1))"
    and "sound ps {(p, m) |m. pf = Some m} n s s1"
proof -
  show a: "sound ps {(p, m) |m. pf = Some m} n s s1" by (rule sound_release [OF assms(1,3)])
  show "sound ps {(p, m) |m. pf = Some m} n s (fst (promote ps now s1))"
    by (rule sound_then_promote [OF assms(1,2) a])
qed

interpretation release_sec: custody_section "\<lambda>s. fst (fst (release_section ps sampled p pf s))" ps
  "{(p, m) |m. pf = Some m}" for ps sampled p pf
  by (rule custody_after_commit [where sampled = sampled and body = "\<lambda>s now. case release_with_proof p pf s no_effects of
        ((s, e), out) \<Rightarrow> if out = ReleasedOk then fst (promote ps now s) else s"])
     (auto simp: release_section_def release_with_proof_def Let_def sound_release_promote split: prod.split)

interpretation release_op: custody_section "\<lambda>s. fst (release ps sampled p s)" ps "{}" for ps sampled p
proof -
  have "(\<lambda>s. fst (release ps sampled p s)) =
      (\<lambda>s. fst (drain ps sampled (fst (fst (release_section ps sampled p None s)))
             (snd (fst (release_section ps sampled p None s)))))"
    by (auto simp: release_def governor_release_with_proof_def Let_def split: prod.split)
  then show "custody_section (\<lambda>s. fst (release ps sampled p s)) ps {}"
    using custody_section_drain [OF release_sec.custody_section_axioms [of ps sampled p None]] by simp
qed

section \<open>Abandoning\<close>

lemma queued_ticket_found:
  assumes inv: "gov_inv n s" and t: "live s t = Some (TQueued cl)"
  obtains pos s1 r where
    "Option.bind (fmlookup (gs_classes s) cl) (\<lambda>cs. find_index (\<lambda>r. pr_ticket r = t) (cs_queue cs)) = Some pos"
    "remove_pending cl pos s = (s1, Some r)" "pr_ticket r = t"
proof -
  have "ticket_inv s" using inv by (simp add: gov_inv_def core_def)
  from ticket_okD(4) [OF this t] obtain u where u: "u \<in> set (queues s cl)" "pr_ticket u = t" by blast
  then obtain cs where cs: "fmlookup (gs_classes s) cl = Some cs"
    by (cases "fmlookup (gs_classes s) cl") (auto simp: queue_of_def fmget_def ClassState_default_def)
  from u cs obtain v where v: "v \<in> set (cs_queue cs)" "pr_ticket v = t" by (auto simp: queue_of_def fmget_def)
  then obtain pos where pos: "find_index (\<lambda>r. pr_ticket r = t) (cs_queue cs) = Some pos"
    by (cases "find_index (\<lambda>r. pr_ticket r = t) (cs_queue cs)") (auto simp: find_index_None)
  then show thesis
    by (intro that [of pos]) (auto simp: cs find_index_Some remove_pending_def Let_def)
qed

lemma sound_dequeued:
  assumes "gov_inv n s" "remove_pending cl i s = (s1, Some r)" "dequeued cl r s1 cs s2"
  shows "sound ps X n s s2"
  using gov_inv_dequeued [OF assms] evolves_dequeued [OF assms] by (intro sound_same) simp_all

lemma abandon_queued_parts:
  assumes inv: "gov_inv n s" and t: "live s t = Some (TQueued cl)"
  obtains s2 where "sound ps {} n s s2" "fmlookup (gs_tickets s2) t = None"
    "fst (abandon_queued ps now cl t s) = fst (promote ps now s2)"
proof -
  obtain pos s1 r where pos:
    "Option.bind (fmlookup (gs_classes s) cl) (\<lambda>cs. find_index (\<lambda>r. pr_ticket r = t) (cs_queue cs)) = Some pos"
    and rm: "remove_pending cl pos s = (s1, Some r)" and r: "pr_ticket r = t"
    using queued_ticket_found [OF inv t] .
  let ?d = "s1\<lparr>gs_tickets := fmdrop t (gs_tickets s1)\<rparr>"
  let ?v = "if is_child (pr_scope r) then vacate_recursion_guard (pr_root_operation_id r) (pr_target_stage r) ?d else ?d"
  let ?s2 = "on_unserved_removed cl (queued_policy ps cl) ?v"
  have d: "dequeued cl r s1 (class_unserved_removed (queued_policy ps cl) (gs_virtual_time s1) (class_view s1 cl)) ?s2"
    unfolding dequeued_def using class_unserved_removed_sched [of "class_view s1 cl"] r
    by (simp add: on_unserved_removed_def class_mut_def vacate_recursion_guard_def class_view_def Let_def split: option.split)
  have "fst (abandon_queued ps now cl t s) = fst (promote ps now ?s2)"
    by (simp add: abandon_queued_def pos rm Let_def split: prod.split)
  moreover have "fmlookup (gs_tickets ?s2) t = None" using d r by (simp add: dequeued_def)
  ultimately show thesis using that sound_dequeued [OF inv rm d] by blast
qed

lemma sound_abandon_queued:
  assumes inv: "gov_inv n s" and pop: "population s \<le> u32_max" and t: "live s t = Some (TQueued cl)"
  shows "sound ps {} n s (fst (abandon_queued ps now cl t s))"
proof -
  obtain s2 where "sound ps {} n s s2" "fst (abandon_queued ps now cl t s) = fst (promote ps now s2)"
    by (rule abandon_queued_parts [OF inv t])
  then show ?thesis using sound_then_promote [OF inv pop] by simp
qed

text \<open>\<open>abandon\<close> after the clock is committed.\<close>

definition abandon_body :: "PolicySet \<Rightarrow> Ticket \<Rightarrow> GovernedState \<Rightarrow> nat \<Rightarrow> GovernedState" where
  "abandon_body ps t s now =
     (let held = (\<lambda>p. case release_with_proof_reason p None Abandoned s no_effects of
            ((s, e), ReleasedOk) \<Rightarrow> fst (promote ps now (forget_terminal_ticket t s))
          | ((s, e), HeldByLease phase) \<Rightarrow> s
          | ((s, e), UnknownPermit) \<Rightarrow> s\<lparr>gs_tickets := fmdrop t (gs_tickets s)\<rparr>)
      in case fmlookup (gs_tickets s) t of
           Some (TGranted p) \<Rightarrow> held p
         | Some (TClaiming p) \<Rightarrow> held p
         | Some (TQueued cl) \<Rightarrow> fst (abandon_queued ps now cl t s)
         | Some (TTerminal _) \<Rightarrow> forget_terminal_ticket t s
         | Some TFaulted \<Rightarrow> forget_terminal_ticket t s
         | None \<Rightarrow> s)"

lemma held_ticket_permit:
  assumes "gov_inv n s" "fmlookup (gs_tickets s) t = Some (TGranted p) \<or> fmlookup (gs_tickets s) t = Some (TClaiming p)"
  obtains r where "fmlookup (gs_permits s) p = Some r" "rec_pending_ticket r = Some t"
proof -
  have "ticket_inv s" using assms(1) by (simp add: gov_inv_def core_def)
  moreover have "holds_ticket (live s t) p" using assms(2) by (auto simp: live_tickets_def)
  ultimately show thesis using ticket_okD(1) that by blast
qed

lemma sound_abandon_held:
  assumes inv: "gov_inv n s" and pop: "population s \<le> u32_max"
    and t: "fmlookup (gs_tickets s) t = Some (TGranted p) \<or> fmlookup (gs_tickets s) t = Some (TClaiming p)"
  shows "sound ps {} n s (abandon_body ps t s now)"
proof -
  obtain r where r: "fmlookup (gs_permits s) p = Some r" by (rule held_ticket_permit [OF inv t])
  obtain s1 e1 out where eq: "release_with_proof_reason p None Abandoned s no_effects = ((s1, e1), out)"
    by (metis prod.collapse)
  have a: "sound ps {} n s s1" using sound_release [OF inv eq] by simp
  have b: "sound ps {} n s (forget_terminal_ticket t s1)"
    by (rule sound_trans [OF a sound_forget [OF sound_inv [OF a]]])
  have "out \<noteq> UnknownPermit" using eq r by (auto simp: release_live split: if_splits)
  then show ?thesis
    using t eq a sound_then_promote [OF inv pop b]
    by (cases out) (auto simp: abandon_body_def)
qed

interpretation abandon_sec: custody_section "\<lambda>s. fst (fst (abandon_section ps sampled t s))" ps "{}" for ps sampled t
proof (rule custody_after_commit [where sampled = sampled and body = "abandon_body ps t"])
  show "sound ps {} n s (abandon_body ps t s now)" if inv: "gov_inv n s" and pop: "population s \<le> u32_max" for n s now
  proof (cases "fmlookup (gs_tickets s) t")
    case None
    then show ?thesis using sound_refl [OF inv] by (simp add: abandon_body_def)
  next
    case (Some x)
    show ?thesis
    proof (cases x)
      case (TQueued cl)
      then have "live s t = Some (TQueued cl)" using Some by (simp add: live_tickets_def)
      then show ?thesis using sound_abandon_queued [OF inv pop] Some TQueued by (simp add: abandon_body_def)
    next
      case (TGranted p)
      then show ?thesis using sound_abandon_held [OF inv pop] Some by blast
    next
      case (TClaiming p)
      then show ?thesis using sound_abandon_held [OF inv pop] Some by blast
    qed (use Some sound_forget [OF inv] in \<open>simp_all add: abandon_body_def\<close>)
  qed
  show "fst (fst (abandon_section ps sampled t s)) = (case commit_time sampled s of (s, now) \<Rightarrow> abandon_body ps t s now)" for s
    by (simp add: abandon_section_def abandon_body_def Let_def split: prod.split option.split TicketState.split ReleaseOutcome.split)
qed

section \<open>Memory governance and the leak sweep\<close>

interpretation reap_sec: custody_section "\<lambda>s. fst (fst (reap_section ps sampled stale s))" ps "{}" for ps sampled stale
proof (rule custody_after_commit [where sampled = sampled and body = "\<lambda>s now.
      fst (promote ps now (fst (fst (reap_leaks ps now stale s no_effects))))"])
  show "sound ps {} n s (fst (promote ps now (fst (fst (reap_leaks ps now stale s no_effects)))))"
    if "gov_inv n s" "population s \<le> u32_max" for n s now
    by (rule sound_then_promote [OF that sound_reap_leaks [OF that(1)]]) (rule surjective_triple)
qed (simp add: reap_section_def Let_def split: prod.split)

definition stage_body ::
  "PolicySet \<Rightarrow> PermitId \<Rightarrow> nat \<Rightarrow> nat option \<Rightarrow> GovernedState \<Rightarrow> nat \<Rightarrow> GovernedState" where
  "stage_body ps p units sq s now =
     (case fmlookup (gs_permits s) p of
        None \<Rightarrow> s
      | Some r \<Rightarrow> (case policy_class ps (rec_class r) of
                    None \<Rightarrow> s
                  | Some policy \<Rightarrow> fst (promote ps now
                      (fst (release_stage_memory p units (memory_release_policy policy) sq now s)))))"

interpretation stage_sec: custody_section "\<lambda>s. fst (fst (stage_section ps sampled p units sq s))" ps "{}"
  for ps sampled p units sq
proof (rule custody_after_commit [where sampled = sampled and body = "stage_body ps p units sq"])
  show "sound ps {} n s (stage_body ps p units sq s now)" if a: "gov_inv n s" "population s \<le> u32_max" for n s now
  proof -
    have "sound ps {} n s (fst (promote ps now (fst (release_stage_memory p units policy sq now s))))" for policy
      by (rule sound_then_promote [OF a sound_release_stage [OF a(1)]]) (rule surjective_pairing)
    then show ?thesis by (simp add: stage_body_def sound_refl [OF a(1)] split: option.split)
  qed
qed (simp add: stage_section_def stage_body_def Let_def split: prod.split option.split)

definition reconcile_body ::
  "PolicySet \<Rightarrow> PermitId \<Rightarrow> nat \<Rightarrow> nat option \<Rightarrow> GovernedState \<Rightarrow> nat \<Rightarrow> GovernedState" where
  "reconcile_body ps p measured_bytes epoch s now =
     (case fmlookup (gs_permits s) p of
        None \<Rightarrow> s
      | Some r \<Rightarrow> (case policy_class ps (rec_class r) of
                    None \<Rightarrow> s
                  | Some policy \<Rightarrow>
                      (case (case epoch of Some n \<Rightarrow> Inr n | None \<Rightarrow> checked_next (pl_measurement_sequence (rec_ledger r))) of
                         Inl out \<Rightarrow> s
                       | Inr sq \<Rightarrow>
                           (case reconcile p measured_bytes sq (memory_permit_mode policy)
                                   (memory_unit_scale (ps_resources ps)) now s of
                              (s, ConversionFailed err) \<Rightarrow> fst (terminalize_queued_for_accounting_fault ps s no_effects)
                            | (s, Applied units) \<Rightarrow> fst (promote ps now s)
                            | (s, _) \<Rightarrow> s))))"

lemma sound_reconcile_body:
  assumes a: "gov_inv n s" "population s \<le> u32_max"
  shows "sound ps {} n s (reconcile_body ps p bytes epoch s now)"
proof -
  have "sound ps {} n s (case reconcile p bytes sq mode scale now s of
      (s, ConversionFailed err) \<Rightarrow> fst (terminalize_queued_for_accounting_fault ps s no_effects)
    | (s, Applied units) \<Rightarrow> fst (promote ps now s) | (s, _) \<Rightarrow> s)" for sq mode scale
  proof -
    obtain s1 out where eq: "reconcile p bytes sq mode scale now s = (s1, out)" by force
    have b: "sound ps {} n s s1" by (rule sound_reconcile [OF a(1) eq])
    obtain s2 e2 where f: "terminalize_queued_for_accounting_fault ps s1 no_effects = (s2, e2)" by force
    have "sound ps {} n s s2" by (rule sound_trans [OF b sound_fault_all [OF sound_inv [OF b] f]])
    with b f sound_then_promote [OF a b] show ?thesis by (simp add: eq split: ReconcileOutcome.split)
  qed
  then show ?thesis using sound_refl [OF a(1)] by (simp add: reconcile_body_def split: option.split sum.split)
qed

interpretation reconcile_sec: custody_section "\<lambda>s. fst (fst (reconcile_section ps sampled p bytes epoch s))" ps "{}"
  for ps sampled p bytes epoch
  by (rule custody_after_commit [where sampled = sampled and body = "reconcile_body ps p bytes epoch"],
      erule (1) sound_reconcile_body)
     (simp add: reconcile_section_def reconcile_body_def Let_def
        split: prod.split option.split sum.split ReconcileOutcome.split)

section \<open>Phases, closing, continuation passes\<close>

interpretation advance_sec: custody_section "\<lambda>s. fst (fst (advance_phase p phase s k))" ps "{}" for p phase k ps
proof (rule custody_sectionI)
  fix n s assume a: "gov_inv n s" "population s \<le> u32_max"
  have inv: "gov_inv n (fst (fst (advance_phase p phase s k)))"
    by (rule gov_inv_advance_phase [OF a(1), of p phase k]) (rule surjective_triple)
  have upd: "sound ps {} n s s'" if "fmlookup (gs_permits s) p = Some r" "same_charge r r'"
      "rec_lease_nonce r = None \<or> rec_lease_nonce r' = rec_lease_nonce r" "gov_inv n s'"
      and s': "s' = class_mut (rec_class r) (class_advance (rec_phase r) phase) (s\<lparr>gs_permits := fmupd p r' (gs_permits s)\<rparr>)"
    for r r' s'
  proof (rule sound_permit_upd [OF that(4,1,2,3)])
    show "queues s' = queues s" unfolding s'
      using class_ledger_same_queue(2) by (simp add: class_view_def queue_of_same_upd del: queue_of_upd)
  qed (simp_all add: s')
  show "sound ps {} n s (fst (fst (advance_phase p phase s k)))"
  proof (cases rule: advance_phase_cases [of s p phase k])
    case (leased r)
    then show ?thesis
      by (intro upd [where r = r and r' = "r\<lparr>rec_phase := phase, rec_lease_nonce := Some k\<rparr>"] inv)
         (simp_all add: same_charge_def)
  next
    case (advanced r m)
    then show ?thesis by (intro upd [where r = r and r' = "r\<lparr>rec_phase := phase\<rparr>"] inv) (simp_all add: same_charge_def)
  qed (simp_all add: sound_refl [OF a(1)])
qed

interpretation close_sec: custody_section close_admission ps "{}" for ps
proof (rule custody_sectionI)
  fix n s assume a: "gov_inv n s"
  have "gov_inv n (close_admission s)" using a by (subst gov_inv_cong [of _ s]) (simp_all add: close_admission_def)
  moreover have "queues (close_admission s) = queues s" by (simp add: close_admission_def)
  from total_queued_cong [OF this] have "evolves s (close_admission s)"
    by (simp add: evolves_def population_def) (simp add: close_admission_def)
  ultimately show "sound ps {} n s (close_admission s)" by (rule sound_same) (simp add: close_admission_def)
qed

definition continue_section :: "PolicySet \<Rightarrow> nat \<Rightarrow> GovernedState \<Rightarrow> GovernedState \<times> TransitionEffects" where
  "continue_section ps sampled s = (let (s, now) = commit_time sampled s in promote ps now s)"

interpretation continue_sec: custody_section "\<lambda>s. fst (continue_section ps sampled s)" ps "{}" for ps sampled
  by (rule custody_after_commit [where sampled = sampled and body = "\<lambda>s now. fst (promote ps now s)"])
     (simp_all add: sound_promote continue_section_def Let_def split: prod.split)

interpretation admit_compensate_sec: custody_section "\<lambda>s. fst (admit_compensate ps sampled p s)" ps "{}" for ps sampled p
  by (rule custody_after_commit [where sampled = sampled and body = "\<lambda>s now. case release_with_proof p None s no_effects of
        ((s, e), out) \<Rightarrow> if out = ReleasedOk then fst (promote ps now s) else s"])
     (auto simp: admit_compensate_def release_with_proof_def Let_def sound_release_promote [of _ _ _ None, simplified]
        split: prod.split)

section \<open>Claiming\<close>

lemma sound_claim_begin:
  assumes inv: "gov_inv n s" and t: "fmlookup (gs_tickets s) t = Some (TGranted p)"
    and r: "fmlookup (gs_permits s) p = Some r"
  shows "sound ps X n s (s\<lparr>gs_permits := fmupd p ((touch now r)\<lparr>rec_claim_waker := None\<rparr>) (gs_permits s),
    gs_tickets := fmupd t (TClaiming p) (gs_tickets s)\<rparr>)" (is "sound ps X n s ?s")
proof -
  have co: "core n s" using inv by (simp add: gov_inv_def)
  note D = coreD [OF co]
  have L: "live s t = Some (TGranted p)" using t by (simp add: live_tickets_def)
  let ?r = "(touch now r)\<lparr>rec_claim_waker := None\<rparr>"
  have same: "same_custody r ?r" "same_charge r ?r" "rec_pending_ticket ?r = rec_pending_ticket r"
    "rec_lease_nonce ?r = rec_lease_nonce r"
    by (simp_all add: same_custody_def same_charge_def touch_def)
  have "fmlookup (gs_terminal_index s) t = None"
    by (rule ring_links_live) (use D(3) L in \<open>auto simp: ring_ok_def\<close>)
  from ring_ok_ticket_upd [OF D(3) this] have ring:
    "ring_ok (gs_terminal_order s) (gs_terminal_index s) (gs_terminal_seq s) (fmupd t (TClaiming p) (gs_tickets s))" .
  have tk: "ticket_ok (live_tickets (fmupd t (TClaiming p) (gs_tickets s))) (fmupd p ?r (gs_permits s)) (queues s)"
    using ticket_ok_permit_upd [OF ticket_ok_claiming [OF D(2) L] r same(3)] by simp
  have "insert t (dom (live s)) = dom (live s)" using L by (auto simp: domIff)
  then have "gov_inv n ?s" by (intro gov_inv_permit_upd [OF inv r same(1) tk ring]) simp
  then show ?thesis
    by (rule sound_permit_upd [OF _ r same(2)])
       (use L same(4) live_dom [OF L] in \<open>auto simp: ticket_step_def\<close>)
qed

lemma sound_claim_detach:
  assumes inv: "gov_inv n s" and t: "fmlookup (gs_tickets s) t = Some (TClaiming p)"
    and r: "fmlookup (gs_permits s) p = Some r" and r': "same_custody r r'" "rec_pending_ticket r' = None"
    and s': "s' = s\<lparr>gs_permits := fmupd p r' (gs_permits s), gs_tickets := fmdrop t (gs_tickets s)\<rparr>"
  shows "sound ps X n s s'" and "live s' t = None" and "gs_terminal_seq s' + card (dom (live s')) + 1 \<le> n"
proof -
  have co: "core n s" using inv by (simp add: gov_inv_def)
  note D = coreD [OF co]
  have L: "live s t = Some (TClaiming p)" using t by (simp add: live_tickets_def)
  have same: "same_charge r r'" "rec_lease_nonce r' = rec_lease_nonce r"
    using r'(1) by (simp_all add: same_custody_def same_charge_def)
  have "fmlookup (gs_terminal_index s) t = None"
    by (rule ring_links_live) (use D(3) L in \<open>auto simp: ring_ok_def\<close>)
  from ring_ok_ticket_drop [OF D(3) this] have ring:
    "ring_ok (gs_terminal_order s) (gs_terminal_index s) (gs_terminal_seq s) (fmdrop t (gs_tickets s))" .
  have tk: "ticket_ok (live_tickets (fmdrop t (gs_tickets s))) (fmupd p r' (gs_permits s)) (queues s)"
    using ticket_ok_detach [OF D(2) _ r r'(2), of t] L by simp
  have card: "card (dom (live s')) + 1 = card (dom (live s))"
    using card_live_drop [OF finite_live, of "gs_tickets s" t] L by (simp add: s')
  then have "gov_inv n s'" unfolding s' by (intro gov_inv_permit_upd [OF inv r r'(1) tk ring]) simp
  then show "sound ps X n s s'"
    by (rule sound_permit_upd [OF _ r same(1)]) (use same(2) in \<open>auto simp: s'\<close>)
  show "live s' t = None" by (simp add: s')
  show "gs_terminal_seq s' + card (dom (live s')) + 1 \<le> n" using D(8) card by (simp add: s')
qed

text \<open>The first lock of \<open>claim\<close>, after the clock is committed.\<close>

definition claim_begin_body :: "Ticket \<Rightarrow> GovernedState \<Rightarrow> nat \<Rightarrow> GovernedState" where
  "claim_begin_body t s now =
     (case fmlookup (gs_tickets s) t of
        Some (TGranted p) \<Rightarrow>
          (case fmlookup (gs_permits s) p of
             None \<Rightarrow> s
           | Some r \<Rightarrow> s\<lparr>gs_permits := fmupd p ((touch now r)\<lparr>rec_claim_waker := None\<rparr>) (gs_permits s),
                        gs_tickets := fmupd t (TClaiming p) (gs_tickets s)\<rparr>)
      | Some (TTerminal reason) \<Rightarrow> forget_terminal_ticket t s
      | Some TFaulted \<Rightarrow> forget_terminal_ticket t s
      | _ \<Rightarrow> s)"

interpretation claim_begin_sec: custody_section "\<lambda>s. fst (claim_begin sampled t s)" ps "{}" for sampled t ps
proof (rule custody_after_commit [where sampled = sampled and body = "claim_begin_body t"])
  show "sound ps {} n s (claim_begin_body t s now)" if "gov_inv n s" for n s now
    using sound_refl [OF that] sound_forget [OF that] sound_claim_begin [OF that, of t]
    by (simp add: claim_begin_body_def split: option.split TicketState.split)
qed (simp add: claim_begin_def claim_begin_body_def Let_def split: prod.split option.split TicketState.split)

definition claim_finish_body :: "Ticket \<Rightarrow> GovernedState \<Rightarrow> nat \<Rightarrow> GovernedState" where
  "claim_finish_body t s now =
     (case fmlookup (gs_tickets s) t of
        Some (TClaiming p) \<Rightarrow>
          (case fmlookup (gs_permits s) p of
             None \<Rightarrow> record_terminal_ticket t Released s
           | Some r \<Rightarrow> s\<lparr>gs_permits := fmupd p (touch now (r\<lparr>rec_pending_ticket := None\<rparr>)) (gs_permits s),
                        gs_tickets := fmdrop t (gs_tickets s)\<rparr>)
      | Some (TTerminal reason) \<Rightarrow> forget_terminal_ticket t s
      | Some TFaulted \<Rightarrow> forget_terminal_ticket t s
      | _ \<Rightarrow> s)"

lemma sound_claim_finish:
  assumes inv: "gov_inv n s"
  shows "sound ps {} n s (claim_finish_body t s now)"
proof (cases "\<exists>p. fmlookup (gs_tickets s) t = Some (TClaiming p)")
  case True
  then obtain p where t: "fmlookup (gs_tickets s) t = Some (TClaiming p)" by blast
  obtain r where r: "fmlookup (gs_permits s) p = Some r" by (rule held_ticket_permit [OF inv]) (use t in auto)
  let ?r = "touch now (r\<lparr>rec_pending_ticket := None\<rparr>)"
  have "same_custody r ?r" "rec_pending_ticket ?r = None" by (simp_all add: same_custody_def touch_def)
  from sound_claim_detach(1) [OF inv t r this refl] show ?thesis by (simp add: claim_finish_body_def t r)
next
  case False
  then show ?thesis
    using sound_refl [OF inv] sound_forget [OF inv]
    by (auto simp: claim_finish_body_def split: option.split TicketState.split)
qed

interpretation claim_finish_sec: custody_section "\<lambda>s. fst (claim_finish sampled t s)" ps "{}" for sampled t ps
  by (rule custody_after_commit [where sampled = sampled and body = "claim_finish_body t"], erule sound_claim_finish)
     (simp add: claim_finish_def claim_finish_body_def Let_def split: prod.split option.split TicketState.split)

text \<open>A claim whose delivery failed gives back the permit it named: sound because a ticket in the claiming state is
  bound to that permit, which is what the claimant's own pair \<open>(t, p)\<close> has to guarantee.\<close>

definition claim_compensate_body :: "PolicySet \<Rightarrow> Ticket \<Rightarrow> PermitId \<Rightarrow> GovernedState \<Rightarrow> nat \<Rightarrow> GovernedState" where
  "claim_compensate_body ps t p s now =
     (case fmlookup (gs_tickets s) t of
        Some (TClaiming _) \<Rightarrow>
          (case release_with_proof_reason p None ClaimDeliveryFailed s no_effects of
             ((s, e), ReleasedOk) \<Rightarrow> fst (promote ps now s)
           | ((s, e), HeldByLease phase) \<Rightarrow>
               record_terminal_ticket t ClaimDeliveryFailed
                 (case fmlookup (gs_permits s) p of
                    None \<Rightarrow> s
                  | Some r \<Rightarrow> s\<lparr>gs_permits := fmupd p (r\<lparr>rec_pending_ticket := None\<rparr>) (gs_permits s)\<rparr>)
           | ((s, e), UnknownPermit) \<Rightarrow> record_terminal_ticket t Released s)
      | _ \<Rightarrow> s)"

lemma claim_compensate_eq:
  "fst (claim_compensate ps sampled t p s) =
     (case commit_time sampled s of (s, now) \<Rightarrow> claim_compensate_body ps t p s now)"
  by (simp add: claim_compensate_def claim_compensate_body_def Let_def
      split: prod.split option.split TicketState.split ReleaseOutcome.split)

lemma sound_claim_compensate_body:
  assumes inv: "gov_inv n s" and pop: "population s \<le> u32_max"
    and own: "\<And>q. fmlookup (gs_tickets s) t = Some (TClaiming q) \<Longrightarrow> q = p"
  shows "sound ps {} n s (claim_compensate_body ps t p s now)"
proof (cases "fmlookup (gs_tickets s) t = Some (TClaiming p)")
  case False
  then show ?thesis using own sound_refl [OF inv]
    by (auto simp: claim_compensate_body_def split: option.split TicketState.split)
next
  case t: True
  then obtain r where r: "fmlookup (gs_permits s) p = Some r" by (rule held_ticket_permit [OF inv disjI2])
  obtain s1 e1 out where eq: "release_with_proof_reason p None ClaimDeliveryFailed s no_effects = ((s1, e1), out)"
    by (metis prod.collapse)
  show ?thesis
  proof (cases "out = ReleasedOk")
    case True
    have "sound ps {} n s s1" using sound_release [OF inv eq] by simp
    from sound_then_promote [OF inv pop this] show ?thesis by (simp add: claim_compensate_body_def t eq True)
  next
    case False
    then have held: "s1 = s" "out = HeldByLease (rec_phase r)"
      using eq r by (simp_all add: release_live split: if_splits)
    let ?r = "r\<lparr>rec_pending_ticket := None\<rparr>"
    let ?p = "s\<lparr>gs_permits := fmupd p ?r (gs_permits s)\<rparr>"
    let ?d = "s\<lparr>gs_permits := fmupd p ?r (gs_permits s), gs_tickets := fmdrop t (gs_tickets s)\<rparr>"
    have same: "same_custody r ?r" "rec_pending_ticket ?r = None" by (simp_all add: same_custody_def)
    note d = sound_claim_detach [OF inv t r same refl]
    have "record_terminal_ticket t ClaimDeliveryFailed ?p = record_terminal_ticket t ClaimDeliveryFailed ?d"
      using record_terminal_drop [of t ClaimDeliveryFailed ?p] by simp
    then have eq': "claim_compensate_body ps t p s now = record_terminal_ticket t ClaimDeliveryFailed ?d"
      by (simp add: claim_compensate_body_def t eq held r)
    have inv': "gov_inv n (record_terminal_ticket t ClaimDeliveryFailed ?d)"
      by (rule gov_inv_record_terminal [OF sound_inv [OF d(1)] d(2,3)])
    have L: "live s t = Some (TClaiming p)" using t by (simp add: live_tickets_def)
    show ?thesis unfolding eq'
      by (rule sound_permit_upd [OF inv' r, of ?r])
         (use record_terminal_dom [of t ClaimDeliveryFailed ?d] live_dom [OF L] in \<open>auto simp: same_charge_def\<close>)
  qed
qed

lemma sound_claim_compensate:
  assumes inv: "gov_inv n s" and pop: "population s \<le> u32_max"
    and own: "\<And>q. fmlookup (gs_tickets s) t = Some (TClaiming q) \<Longrightarrow> q = p"
  shows "sound ps {} n s (fst (claim_compensate ps sampled t p s))"
proof -
  obtain s1 now where c: "commit_time sampled s = (s1, now)" by force
  have a: "sound ps {} n s s1" using sound_commit_time [OF inv, of ps "{}" sampled] c by simp
  have "gs_tickets s1 = gs_tickets s" using c by (auto simp: commit_time_def Let_def)
  then have "sound ps {} n s1 (claim_compensate_body ps t p s1 now)"
    using own by (intro sound_claim_compensate_body [OF sound_inv [OF a] sound_population [OF a pop]]) simp
  with a show ?thesis by (simp add: claim_compensate_eq c sound_trans)
qed

end
