(* ===== verification/TM_Identity.thy ===== *)
theory TM_Identity
  imports TM_Custody
begin

text \<open>
  Identities are handed out from counters before the lock is taken and come into use inside it. The locale
  \<open>id_space\<close> is the accounting of one counter: which identities are in use, which are reserved by an admission
  on its way to the lock, and that both lie below the counter and never meet. It is interpreted for permits,
  tickets and sequence numbers.
\<close>

section \<open>Taking a number\<close>

lemma take_sequence_Some: "take_sequence c = Some (k, c') \<longleftrightarrow> k = c \<and> c' = c + 1 \<and> c < u64_max"
  by (auto simp: take_sequence_def map_option_case split: option.splits)

lemma take_sequence_None: "take_sequence c = None \<longleftrightarrow> u64_max \<le> c"
  by (auto simp: take_sequence_def map_option_case split: option.splits)

lemma fresh_ids_Some:
  assumes "fresh_ids a c = (c', Some ids)"
  shows "ids_permit_id ids = PermitId a (next_permit c)" "ids_ticket ids = Ticket a (next_ticket c)"
    "ids_seq_no ids = next_seq c" "next_permit c' = next_permit c + 1" "next_ticket c' = next_ticket c + 1"
    "next_seq c' = next_seq c + 1" "next_ticket c' \<le> u64_max"
  using assms by (auto simp: fresh_ids_def Let_def take_sequence_Some take_sequence_None split: option.splits prod.splits)

lemma fresh_ids_None:
  assumes "fresh_ids a c = (c', None)"
  shows "next_permit c \<le> next_permit c'" "next_ticket c \<le> next_ticket c'" "next_seq c \<le> next_seq c'"
    "next_ticket c \<le> u64_max \<Longrightarrow> next_ticket c' \<le> u64_max"
    "u64_max \<le> next_permit c \<or> u64_max \<le> next_ticket c \<or> u64_max \<le> next_seq c"
  using assms by (auto simp: fresh_ids_def Let_def take_sequence_Some take_sequence_None split: option.splits prod.splits)

section \<open>The accounting of one counter\<close>

definition ids_below :: "(nat \<Rightarrow> 'a) \<Rightarrow> nat \<Rightarrow> 'a set \<Rightarrow> 'a set \<Rightarrow> bool" where
  "ids_below mk next used reserved \<longleftrightarrow> used \<union> reserved \<subseteq> mk ` {..<next} \<and> used \<inter> reserved = {}"

locale id_space =
  fixes mk :: "nat \<Rightarrow> 'a"
  assumes mk_inj: "inj mk"
begin

lemma fresh: "ids_below mk k U R \<Longrightarrow> mk k \<notin> U \<union> R"
proof -
  have "mk k \<notin> mk ` {..<k}" using mk_inj by (simp add: inj_image_mem_iff)
  then show "ids_below mk k U R \<Longrightarrow> mk k \<notin> U \<union> R" unfolding ids_below_def by blast
qed

lemma reserve: "ids_below mk k U R \<Longrightarrow> ids_below mk (k + 1) U (insert (mk k) R)"
  using fresh [of k U R] by (auto simp: ids_below_def lessThan_Suc)

lemma skip: "ids_below mk k U R \<Longrightarrow> k \<le> k' \<Longrightarrow> ids_below mk k' U R"
  unfolding ids_below_def by (meson image_mono lessThan_subset_iff order_trans)

lemma use: "ids_below mk k U R \<Longrightarrow> x \<in> R \<Longrightarrow> U' \<subseteq> insert x U \<Longrightarrow> ids_below mk k U' (R - {x})"
  by (auto simp: ids_below_def)

lemma settle: "ids_below mk k U R \<Longrightarrow> U' \<subseteq> U \<Longrightarrow> ids_below mk k U' R"
  by (auto simp: ids_below_def)

lemma start: "ids_below mk k {} {}"
  by (simp add: ids_below_def)

end

interpretation permit_space: id_space "PermitId a" for a
  by unfold_locales (simp add: inj_def)

interpretation ticket_space: id_space "Ticket a" for a
  by unfold_locales (simp add: inj_def)

interpretation seq_space: id_space "id :: nat \<Rightarrow> nat"
  by unfold_locales simp

section \<open>What an admission adds\<close>

text \<open>\<open>admits ids s s'\<close>: the transition brings in nothing but the identities of its request.\<close>

definition admits :: "Ids \<Rightarrow> GovernedState \<Rightarrow> GovernedState \<Rightarrow> bool" where
  "admits ids s s' \<longleftrightarrow>
     fmdom (gs_tickets s') |\<subseteq>| finsert (ids_ticket ids) (fmdom (gs_tickets s))
     \<and> (\<forall>t. t \<noteq> ids_ticket ids \<longrightarrow> live s' t = live s t)
     \<and> permit_ids s' \<subseteq> insert (ids_permit_id ids) (permit_ids s)
     \<and> (\<forall>cl. pr_seq_no ` set (queues s' cl) \<subseteq> insert (ids_seq_no ids) (pr_seq_no ` set (queues s cl)))
     \<and> population s' \<le> population s + 1
     \<and> fmdom (gs_permits s) |\<subseteq>| fmdom (gs_permits s')"

definition depth_ok :: "PolicySet \<Rightarrow> GovernedState \<Rightarrow> bool" where
  "depth_ok ps s \<longleftrightarrow>
     (\<forall>cl. length (queues s cl) \<le> (case policy_class ps cl of None \<Rightarrow> 0 | Some policy \<Rightarrow> max_queue_depth policy))"

lemma admits_same:
  assumes "gs_permits s' = gs_permits s" "queues s' = queues s" "gs_tickets s' = gs_tickets s"
  shows "admits ids s s'"
  using assms total_queued_cong [OF assms(2)] by (auto simp: admits_def population_def)

lemma queue_le_population: "length (queues s cl) \<le> population s"
proof (cases "cl |\<in>| fmdom (gs_classes s)")
  case True
  have "total_queued s = (\<Sum>c \<in> fset (fmdom (gs_classes s)). length (queues s c))" by (rule total_queued_sum) auto
  moreover have "length (queues s cl) \<le> (\<Sum>c \<in> fset (fmdom (gs_classes s)). length (queues s c))"
    using True by (intro member_le_sum) auto
  ultimately show ?thesis by (simp add: population_def)
qed (simp add: queue_of_def fmget_def fmdom_notD ClassState_default_def)

lemma queued_length: "population s \<le> u32_max \<Longrightarrow> queued s cl = length (queues s cl)"
  using queue_le_population [of s cl]
  by (cases "fmlookup (gs_classes s) cl") (simp_all add: queued_def cs_queued_def queue_of_def fmget_def ClassState_default_def)

lemma admission_granted_effect:
  assumes inv: "gov_inv n s" and fresh: "ids_fresh ids s"
    and out: "admission_granted ps now_ms req w ids s e ((s', e'), d)"
  shows "admits ids s s'" and "within ps (gs_permits s) \<Longrightarrow> within ps (gs_permits s')"
    and "keeps_leases {} (gs_permits s) (gs_permits s')" and "queues s' = queues s"
    and "gs_admission_closed s' = gs_admission_closed s"
proof -
  have co: "core n s" using inv by (simp add: gov_inv_def)
  obtain cl policy where me: "may_enter ps req cl policy s"
    and f: "fits s ps cl (max_inflight policy) (resolve_cost policy) (req_capabilities req)"
    and s': "s' = grant (admission_grant cl req (resolve_cost policy) ids now_ms s) s"
    using out by (auto simp: admission_granted_def)
  let ?g = "admission_grant cl req (resolve_cost policy) ids now_ms s"
  have g: "gr_permit_id ?g = ids_permit_id ids" "gr_class ?g = cl" "gr_capabilities ?g = req_capabilities req"
    "gr_cost ?g = resolve_cost policy" "gr_pending_ticket ?g = None" by (simp_all add: admission_grant_def Let_def)
  have new: "fmlookup (gs_permits s) (ids_permit_id ids) = None"
    by (rule pid_fresh [OF co]) (use fresh in \<open>simp add: ids_fresh_def\<close>)
  have P: "gs_permits s' = fmupd (ids_permit_id ids) (granted_record ?g) (gs_permits s)" by (simp add: s' g)
  show q: "queues s' = queues s" unfolding s' by (rule queues_grant)
  show "keeps_leases {} (gs_permits s) (gs_permits s')" unfolding P by (rule keeps_leases_new [OF new])
  show "within ps (gs_permits s')" if "within ps (gs_permits s)"
    unfolding P by (rule within_grant [OF that coreD(1) [OF co] new, where policy = policy and cost = "resolve_cost policy"])
      (use f me in \<open>simp_all add: g may_enter_def\<close>)
  show "gs_admission_closed s' = gs_admission_closed s" by (simp add: s')
  have "permit_ids s' = permit_ids s \<union> {k. pid_p (granted_record ?g) = Some k}"
    unfolding q P occupants_grant [OF new] by (rule Range_add)
  then have "permit_ids s' \<subseteq> insert (ids_permit_id ids) (permit_ids s)" by (auto simp: pid_p_def g)
  moreover have "gs_tickets s' = gs_tickets s" by (simp add: s' g)
  moreover have "fmsum one (gs_permits s') \<le> fmsum one (gs_permits s) + 1" unfolding P by (rule fmsum_one_upd_le)
  moreover have "fmdom (gs_permits s) |\<subseteq>| fmdom (gs_permits s')" unfolding P by auto
  ultimately show "admits ids s s'" using total_queued_cong [OF q] q by (auto simp: admits_def population_def)
qed

lemma total_queued_add:
  assumes "queues s' = (queues s)(cl := queues s cl @ [x])"
  shows "total_queued s' = total_queued s + 1"
proof -
  let ?C = "fset (fmdom (gs_classes s)) \<union> fset (fmdom (gs_classes s')) \<union> {cl}"
  have sums: "total_queued s = (\<Sum>c \<in> ?C. length (queues s c))" "total_queued s' = (\<Sum>c \<in> ?C. length (queues s' c))"
    by (rule total_queued_sum; auto)+
  have "(\<Sum>c \<in> ?C. length (queues s' c)) = (\<Sum>c \<in> ?C. length (queues s c) + (if c = cl then 1 else 0))"
    by (rule sum.cong) (simp_all add: assms)
  also have "\<dots> = (\<Sum>c \<in> ?C. length (queues s c)) + 1" by (simp add: sum.distrib sum.delta)
  finally show ?thesis unfolding sums .
qed

lemma admission_queued_effect:
  assumes out: "admission_queued ps now_ms req w ids s e ((s', e'), d)"
  obtains cl policy x where "policy_class ps cl = Some policy" "queued s cl < max_queue_depth policy"
    "queues s' = (queues s)(cl := queues s cl @ [x])" "pr_seq_no x = ids_seq_no ids" "pr_permit_id x = ids_permit_id ids"
    "gs_permits s' = gs_permits s" "gs_tickets s' = fmupd (ids_ticket ids) (TQueued cl) (gs_tickets s)"
    "gs_admission_closed s' = gs_admission_closed s"
proof -
  obtain cl policy b where me: "may_enter ps req cl policy s" and depth: "queued s cl < max_queue_depth policy"
    and eq: "enqueue_or_full policy cl req w ids now_ms b s e = ((s', e'), d)"
    using out by (auto simp: admission_queued_def)
  obtain s0 ft wt dl where tags: "enqueue_tags cl policy (rc_cpu_units (resolve_cost policy)) now_ms s = (s0, ft, wt, dl)"
    by (metis prod_cases4)
  note sq = sched_eq_enqueue_tags [OF tags]
  have same: "gs_permits s0 = gs_permits s" "gs_tickets s0 = gs_tickets s" "queues s0 = queues s"
    "gs_admission_closed s0 = gs_admission_closed s"
    using sq sched_eq_queues [OF sq] by (simp_all add: sched_eq_def)
  obtain r where r: "pr_class r = cl" "pr_seq_no r = ids_seq_no ids" "pr_permit_id r = ids_permit_id ids"
    and s': "s' = (let u = (enqueue r s0)\<lparr>gs_tickets := fmupd (ids_ticket ids) (TQueued cl) (gs_tickets s0)\<rparr>
       in if is_child (spec_scope (req_spec req))
          then occupy_recursion_guard (spec_root_operation_id (req_spec req)) (target_stage (req_spec req)) u else u)"
  proof -
    show thesis
      by (rule that [of "\<lparr>pr_permit_id = ids_permit_id ids, pr_ticket = ids_ticket ids, pr_seq_no = ids_seq_no ids,
      pr_queue_order = 0, pr_class = cl, pr_request_key = spec_root_operation_id (req_spec req),
      pr_operation = spec_operation (req_spec req), pr_root_operation_id = spec_root_operation_id (req_spec req),
      pr_scope = spec_scope (req_spec req),
      pr_parent_permit_id = parent_permit_for_scope s (spec_root_operation_id (req_spec req)) (spec_scope (req_spec req)),
      pr_target_stage = target_stage (req_spec req), pr_provenance = Provenance_of (req_spec req),
      pr_cost = resolve_cost policy, pr_capabilities = req_capabilities req,
      pr_enqueued_at_ms = now_ms, pr_deadline_ms = dl, pr_finish_tag = ft,
      pr_wfq_arrival_tag = wt, pr_blocked_on = b, pr_waker = w\<rparr>"])
         (use eq depth in \<open>auto simp: enqueue_or_full_def Let_def tags split: if_splits\<close>)
  qed
  have "queues s' = (queues s)(cl := queues s cl @ [enqueued r s0])"
    using queues_enqueue [of r s0] by (simp add: s' Let_def r same)
  then show thesis
    by (rule that [rotated 2])
       (use me depth in \<open>simp_all add: may_enter_def r enqueued_def s' Let_def same\<close>)
qed

lemma admits_queued:
  assumes q: "queues s' = (queues s)(cl := queues s cl @ [x])" "pr_seq_no x = ids_seq_no ids"
    "pr_permit_id x = ids_permit_id ids" and P: "gs_permits s' = gs_permits s"
    and T: "gs_tickets s' = fmupd (ids_ticket ids) (TQueued cl) (gs_tickets s)"
  shows "admits ids s s'"
proof -
  have "permit_ids s' \<subseteq> insert (ids_permit_id ids) (permit_ids s)"
    unfolding q(1) P occupants_enqueue Range_add by (auto simp: pid_q_def q(3))
  then show ?thesis
    using q T P total_queued_add [OF q(1)] by (auto simp: admits_def population_def)
qed

lemma admit_effect:
  assumes inv: "gov_inv n s" and n: "n + 1 < u64_max" and fresh: "ids_fresh ids s"
    and caps: "distinct (req_capabilities req)" and room: "population s < u32_max"
    and eq: "admit ps now_ms req w ids s e = ((s', e'), d)"
  shows "gov_inv (n + 1) s'" and "admits ids s s'" and "within ps (gs_permits s) \<Longrightarrow> within ps (gs_permits s')"
    and "keeps_leases {} (gs_permits s) (gs_permits s')" and "depth_ok ps s \<Longrightarrow> depth_ok ps s'"
    and "gs_admission_closed s' = gs_admission_closed s"
proof -
  show "gov_inv (n + 1) s'"
    by (rule gov_inv_admit [OF inv n fresh caps _ eq]) (use room in \<open>simp add: population_def\<close>)
  from admit_outcome [of ps now_ms req w ids s e, unfolded eq admission_outcome_def]
  consider "admission_refused w s e ((s', e'), d)" | "admission_granted ps now_ms req w ids s e ((s', e'), d)"
    | "admission_queued ps now_ms req w ids s e ((s', e'), d)" by blast
  then have "admits ids s s' \<and> (within ps (gs_permits s) \<longrightarrow> within ps (gs_permits s'))
      \<and> keeps_leases {} (gs_permits s) (gs_permits s') \<and> (depth_ok ps s \<longrightarrow> depth_ok ps s')
      \<and> gs_admission_closed s' = gs_admission_closed s"
  proof cases
    case 1
    then have same: "gs_permits s' = gs_permits s" "queues s' = queues s" "gs_tickets s' = gs_tickets s"
      "gs_admission_closed s' = gs_admission_closed s"
      by (auto simp: admission_refused_def record_accounting_fault_def split: if_splits)
    then show ?thesis using admits_same [OF same(1-3)] by (simp add: depth_ok_def)
  next
    case 2
    note G = admission_granted_effect [OF inv fresh 2]
    then show ?thesis by (simp add: depth_ok_def)
  next
    case 3
    then obtain cl policy x where Q: "policy_class ps cl = Some policy" "queued s cl < max_queue_depth policy"
      "queues s' = (queues s)(cl := queues s cl @ [x])" "pr_seq_no x = ids_seq_no ids" "pr_permit_id x = ids_permit_id ids"
      "gs_permits s' = gs_permits s" "gs_tickets s' = fmupd (ids_ticket ids) (TQueued cl) (gs_tickets s)"
      "gs_admission_closed s' = gs_admission_closed s"
      by (rule admission_queued_effect)
    have "queued s cl = length (queues s cl)" by (rule queued_length) (use room in simp)
    with Q show ?thesis using admits_queued [OF Q(3-7)] by (simp add: depth_ok_def Suc_le_eq)
  qed
  then show "admits ids s s'" "within ps (gs_permits s) \<Longrightarrow> within ps (gs_permits s')"
    "keeps_leases {} (gs_permits s) (gs_permits s')" "depth_ok ps s \<Longrightarrow> depth_ok ps s'"
    "gs_admission_closed s' = gs_admission_closed s" by blast+
qed

end
