(* ===== verification/TM_World.thy ===== *)
theory TM_World
  imports TM_Identity
begin

text \<open>
  The running governor. Any number of threads call its operations; every lock of the mutex is one atomic step, in
  any order, with any sampled clock, and between two locks of the same operation other threads may step. What a
  thread carries from one lock to the next is part of the world: identities taken from the counters before the
  lock of an admission, and the ticket and permit of a claim between its two locks.

  The step relation assumes what the source leaves to the size of the machine: fewer than \<open>2^32 - 1\<close> permits and
  queued requests are live when an admission enters (its counters of them are 32 bits wide and saturate).
\<close>

section \<open>Worlds and steps\<close>

record World =
  w_state :: GovernedState
  w_counters :: Counters
  w_reserved :: "Ids set"
  w_claims :: "(Ticket \<times> PermitId) set"
  w_nonces :: nat

definition World_init :: World where
  "World_init = \<lparr>w_state = GovernedState_default, w_counters = Counters_new, w_reserved = {}, w_claims = {}, w_nonces = 1\<rparr>"

datatype Event =
    EvReserve
  | EvAdmit Ids AdmissionDecision
  | EvAdmitCompensate PermitId
  | EvClaimBegin Ticket
  | EvClaimFinish Ticket ClaimOutcome
  | EvClaimCompensate Ticket
  | EvAbandon Ticket AbandonOutcome
  | EvRelease PermitId "nat option" ReleaseOutcome
  | EvAdvance PermitId AdvanceOutcome
  | EvMemory PermitId
  | EvReap
  | EvClose
  | EvContinue

inductive step :: "PolicySet \<Rightarrow> nat \<Rightarrow> World \<Rightarrow> Event \<Rightarrow> World \<Rightarrow> bool" for ps authority where
  reserve: "fresh_ids authority (w_counters w) = (c, Some ids) \<Longrightarrow>
    step ps authority w EvReserve (w\<lparr>w_counters := c, w_reserved := insert ids (w_reserved w)\<rparr>)"
| exhausted: "fresh_ids authority (w_counters w) = (c, None) \<Longrightarrow> step ps authority w EvReserve (w\<lparr>w_counters := c\<rparr>)"
| admit: "ids \<in> w_reserved w \<Longrightarrow> distinct (req_capabilities req) \<Longrightarrow> population (w_state w) < u32_max \<Longrightarrow>
    admit_section ps sampled req waker ids (w_state w) = ((s, e), d) \<Longrightarrow>
    step ps authority w (EvAdmit ids d) (w\<lparr>w_state := s, w_reserved := w_reserved w - {ids}\<rparr>)"
| admit_compensate:
    "step ps authority w (EvAdmitCompensate p) (w\<lparr>w_state := fst (admit_compensate ps sampled p (w_state w))\<rparr>)"
| claim_begin: "claim_begin sampled t (w_state w) = (s, Inr (p, e)) \<Longrightarrow>
    step ps authority w (EvClaimBegin t) (w\<lparr>w_state := s, w_claims := insert (t, p) (w_claims w)\<rparr>)"
| claim_answered: "claim_begin sampled t (w_state w) = (s, Inl out) \<Longrightarrow>
    step ps authority w (EvClaimFinish t out) (w\<lparr>w_state := s\<rparr>)"
| claim_finish: "(t, p) \<in> w_claims w \<Longrightarrow> claim_finish sampled t (w_state w) = (s, out) \<Longrightarrow>
    step ps authority w (EvClaimFinish t out) (w\<lparr>w_state := s, w_claims := w_claims w - {(t, p)}\<rparr>)"
| claim_compensate: "(t, p) \<in> w_claims w \<Longrightarrow>
    step ps authority w (EvClaimCompensate t)
      (w\<lparr>w_state := fst (claim_compensate ps sampled t p (w_state w)), w_claims := w_claims w - {(t, p)}\<rparr>)"
| abandon: "abandon_section ps sampled t (w_state w) = ((s, e), out) \<Longrightarrow>
    step ps authority w (EvAbandon t out) (w\<lparr>w_state := s\<rparr>)"
| release: "release_section ps sampled p pf (w_state w) = ((s, e), out) \<Longrightarrow>
    step ps authority w (EvRelease p pf out) (w\<lparr>w_state := s\<rparr>)"
| advance: "advance_phase p phase (w_state w) (w_nonces w) = ((s, k), out) \<Longrightarrow>
    step ps authority w (EvAdvance p out) (w\<lparr>w_state := s, w_nonces := k\<rparr>)"
| reconcile: "step ps authority w (EvMemory p)
    (w\<lparr>w_state := fst (fst (reconcile_section ps sampled p bytes epoch (w_state w)))\<rparr>)"
| stage: "step ps authority w (EvMemory p)
    (w\<lparr>w_state := fst (fst (stage_section ps sampled p units sq (w_state w)))\<rparr>)"
| reap: "step ps authority w EvReap (w\<lparr>w_state := fst (fst (reap_section ps sampled stale (w_state w)))\<rparr>)"
| close: "step ps authority w EvClose (w\<lparr>w_state := close_admission (w_state w)\<rparr>)"
| continue: "step ps authority w EvContinue (w\<lparr>w_state := fst (continue_section ps sampled (w_state w))\<rparr>)"

inductive reachable :: "PolicySet \<Rightarrow> nat \<Rightarrow> World \<Rightarrow> bool" for ps authority where
  start: "reachable ps authority World_init"
| next_step: "reachable ps authority w \<Longrightarrow> step ps authority w ev w' \<Longrightarrow> reachable ps authority w'"

inductive_cases step_releaseE: "step ps authority w (EvRelease p pf out) w'"
inductive_cases step_admitE: "step ps authority w (EvAdmit ids d) w'"
inductive_simps step_close_iff: "step ps authority w EvClose w'"

section \<open>The invariant of a world\<close>

text \<open>The number of admissions that have entered: tickets taken from the counter, less those still reserved.\<close>

definition entered :: "World \<Rightarrow> nat" where
  "entered w = next_ticket (w_counters w) - 1 - card (w_reserved w)"

definition used_seqs :: "GovernedState \<Rightarrow> nat set" where
  "used_seqs s = (\<Union>cl. pr_seq_no ` set (queues s cl))"

definition identities_ok :: "nat \<Rightarrow> World \<Rightarrow> bool" where
  "identities_ok authority w \<longleftrightarrow>
     finite (w_reserved w) \<and> card (w_reserved w) < next_ticket (w_counters w) \<and> next_ticket (w_counters w) \<le> u64_max
     \<and> inj_on ids_permit_id (w_reserved w) \<and> inj_on ids_ticket (w_reserved w) \<and> inj_on ids_seq_no (w_reserved w)
     \<and> ids_below (PermitId authority) (next_permit (w_counters w)) (permit_ids (w_state w)) (ids_permit_id ` w_reserved w)
     \<and> ids_below (Ticket authority) (next_ticket (w_counters w))
         (fset (fmdom (gs_tickets (w_state w))) \<union> fst ` w_claims w) (ids_ticket ` w_reserved w)
     \<and> ids_below id (next_seq (w_counters w)) (used_seqs (w_state w)) (ids_seq_no ` w_reserved w)"

lemma identities_okD:
  assumes "identities_ok authority w"
  shows "finite (w_reserved w)" "card (w_reserved w) < next_ticket (w_counters w)" "next_ticket (w_counters w) \<le> u64_max"
    "inj_on ids_permit_id (w_reserved w)" "inj_on ids_ticket (w_reserved w)" "inj_on ids_seq_no (w_reserved w)"
    "ids_below (PermitId authority) (next_permit (w_counters w)) (permit_ids (w_state w)) (ids_permit_id ` w_reserved w)"
    "ids_below (Ticket authority) (next_ticket (w_counters w))
       (fset (fmdom (gs_tickets (w_state w))) \<union> fst ` w_claims w) (ids_ticket ` w_reserved w)"
    "ids_below id (next_seq (w_counters w)) (used_seqs (w_state w)) (ids_seq_no ` w_reserved w)"
  using assms by (simp_all only: identities_ok_def)

definition claims_ok :: "World \<Rightarrow> bool" where
  "claims_ok w \<longleftrightarrow> (\<forall>(t, p) \<in> w_claims w. live (w_state w) t = None \<or> live (w_state w) t = Some (TClaiming p))"

definition world_inv :: "PolicySet \<Rightarrow> nat \<Rightarrow> World \<Rightarrow> bool" where
  "world_inv ps authority w \<longleftrightarrow>
     gov_inv (entered w) (w_state w) \<and> population (w_state w) \<le> u32_max \<and> within ps (gs_permits (w_state w))
     \<and> depth_ok ps (w_state w) \<and> identities_ok authority w \<and> claims_ok w"

lemma world_invI:
  assumes "gov_inv (entered w) (w_state w)" "population (w_state w) \<le> u32_max" "within ps (gs_permits (w_state w))"
    "depth_ok ps (w_state w)" "identities_ok authority w" "claims_ok w"
  shows "world_inv ps authority w"
  using assms by (simp add: world_inv_def)

lemma world_invD:
  assumes "world_inv ps authority w"
  shows "gov_inv (entered w) (w_state w)" "population (w_state w) \<le> u32_max" "within ps (gs_permits (w_state w))"
    "depth_ok ps (w_state w)" "identities_ok authority w" "claims_ok w"
  using assms by (simp_all add: world_inv_def)

lemma world_inv_init: "world_inv ps authority World_init"
proof (rule world_invI)
  have q: "queues GovernedState_default = (\<lambda>_. [])"
    by (rule ext) (simp add: queue_of_def ClassState_default_def GovernedState_default_def)
  have tq: "total_queued GovernedState_default = 0"
    by (simp add: total_queued_def GovernedState_default_def bt_values_def bt_keys_def)
  show "gov_inv (entered World_init) (w_state World_init)"
    by (simp add: World_init_def entered_def Counters_new_def gov_inv_default)
  show "population (w_state World_init) \<le> u32_max"
    by (simp add: World_init_def population_def tq) (simp add: GovernedState_default_def)
  show "within ps (gs_permits (w_state World_init))" by (simp add: World_init_def GovernedState_default_def within_def)
  show "depth_ok ps (w_state World_init)" by (simp add: World_init_def depth_ok_def q)
  show "claims_ok World_init" by (simp add: World_init_def claims_ok_def)
  have "permit_ids GovernedState_default = {}" unfolding q by (simp add: GovernedState_default_def occupants_empty)
  moreover have "gs_tickets GovernedState_default = fmempty" by (simp add: GovernedState_default_def)
  ultimately show "identities_ok authority World_init"
    by (simp add: identities_ok_def World_init_def Counters_new_def used_seqs_def q ids_below_def u64_max_def)
qed

section \<open>Sections keep the invariant\<close>

lemma queue_length_evolves:
  assumes "gov_inv n s'" "evolves s s'"
  shows "length (queues s' cl) \<le> length (queues s cl)"
proof -
  have "ticket_inv s'" using assms(1) by (simp add: gov_inv_def core_def)
  then have "distinct (queues s' cl)" using ticket_okD(5) distinct_map by blast
  then have "length (queues s' cl) = card (set (queues s' cl))" by (rule distinct_card [symmetric])
  also have "\<dots> \<le> card (set (queues s cl))" using assms(2) by (intro card_mono) (auto simp: evolves_def)
  also have "\<dots> \<le> length (queues s cl)" by (rule card_length)
  finally show ?thesis .
qed

lemma claims_evolve:
  assumes "claims_ok w" "evolves (w_state w) s'" "(t, p) \<in> w_claims w"
  shows "live s' t = None \<or> live s' t = Some (TClaiming p)"
proof -
  have "live (w_state w) t = None \<or> live (w_state w) t = Some (TClaiming p)" using assms(1,3) by (auto simp: claims_ok_def)
  moreover have "ticket_step (live (w_state w) t) (live s' t)" using assms(2) by (simp add: evolves_def)
  ultimately show ?thesis by (auto simp: ticket_step_def)
qed

lemma world_section:
  assumes inv: "world_inv ps authority w" and snd: "sound ps X (entered w) (w_state w) s'"
    and new: "\<And>t p. (t, p) \<in> C \<Longrightarrow> (t, p) \<in> w_claims w \<or> t |\<in>| fmdom (gs_tickets (w_state w)) \<and> live s' t = Some (TClaiming p)"
  shows "world_inv ps authority (w\<lparr>w_state := s', w_claims := C, w_nonces := k\<rparr>)"
proof (rule world_invI)
  note W = world_invD [OF inv] and ev = snd [unfolded sound_def]
  show "gov_inv (entered (w\<lparr>w_state := s', w_claims := C, w_nonces := k\<rparr>)) (w_state (w\<lparr>w_state := s', w_claims := C, w_nonces := k\<rparr>))"
    using ev by (simp add: entered_def)
  show "population (w_state (w\<lparr>w_state := s', w_claims := C, w_nonces := k\<rparr>)) \<le> u32_max"
    using sound_population [OF snd W(2)] by simp
  show "within ps (gs_permits (w_state (w\<lparr>w_state := s', w_claims := C, w_nonces := k\<rparr>)))" using ev W(3) by simp
  have "length (queues s' cl) \<le> length (queues (w_state w) cl)" for cl using ev queue_length_evolves by blast
  then show "depth_ok ps (w_state (w\<lparr>w_state := s', w_claims := C, w_nonces := k\<rparr>))"
    using W(4) unfolding depth_ok_def by (simp, meson le_trans)
  show "claims_ok (w\<lparr>w_state := s', w_claims := C, w_nonces := k\<rparr>)"
    using new claims_evolve [OF W(6)] ev by (fastforce simp: claims_ok_def)
  have "used_seqs s' \<subseteq> used_seqs (w_state w)"
    unfolding used_seqs_def using ev by (intro UN_mono image_mono) (simp_all add: evolves_def)
  moreover have "permit_ids s' \<subseteq> permit_ids (w_state w)"
    "fset (fmdom (gs_tickets s')) \<subseteq> fset (fmdom (gs_tickets (w_state w)))"
    using ev by (simp_all add: evolves_def less_eq_fset.rep_eq)
  moreover from this(2) new have "fset (fmdom (gs_tickets s')) \<union> fst ` C \<subseteq>
      fset (fmdom (gs_tickets (w_state w))) \<union> fst ` w_claims w" by fastforce
  moreover note I = identities_okD [OF W(5)]
  ultimately show "identities_ok authority (w\<lparr>w_state := s', w_claims := C, w_nonces := k\<rparr>)"
    by (simp add: identities_ok_def permit_space.settle [OF I(7)] ticket_space.settle [OF I(8)] seq_space.settle [OF I(9)])
qed

text \<open>Every step, admission included, moves the known tickets forward only, and never reopens or refills a closed
  governor.\<close>

definition forward :: "GovernedState \<Rightarrow> GovernedState \<Rightarrow> bool" where
  "forward s s' \<longleftrightarrow>
     (\<forall>t. t |\<in>| fmdom (gs_tickets s) \<longrightarrow> ticket_step (live s t) (live s' t))
     \<and> (gs_admission_closed s \<longrightarrow> gs_admission_closed s' \<and> population s' \<le> population s)"

lemma forward_refl [simp]: "forward s s"
  by (simp add: forward_def)

lemma sound_forward: "sound ps X n s s' \<Longrightarrow> forward s s'"
  by (simp add: sound_def evolves_def forward_def)

lemma world_section_same:
  "world_inv ps authority w \<Longrightarrow> sound ps X (entered w) (w_state w) s' \<Longrightarrow> world_inv ps authority (w\<lparr>w_state := s'\<rparr>)"
  using world_section [of ps authority w X s' "w_claims w" "w_nonces w"] by simp

lemma world_section_claims:
  "world_inv ps authority w \<Longrightarrow> sound ps X (entered w) (w_state w) s' \<Longrightarrow> C \<subseteq> w_claims w \<Longrightarrow>
     world_inv ps authority (w\<lparr>w_state := s', w_claims := C\<rparr>)"
  using world_section [of ps authority w X s' C "w_nonces w"] by auto

section \<open>Admission keeps the invariant\<close>

lemma entered_step:
  assumes "identities_ok authority w" "ids \<in> w_reserved w"
  shows "entered (w\<lparr>w_state := s, w_reserved := w_reserved w - {ids}\<rparr>) = entered w + 1" and "entered w + 1 < u64_max"
proof -
  have fin: "finite (w_reserved w)" "card (w_reserved w) < next_ticket (w_counters w)" "next_ticket (w_counters w) \<le> u64_max"
    using assms(1) by (simp_all add: identities_ok_def)
  have "0 < card (w_reserved w)" using fin(1) assms(2) by (auto simp: card_gt_0_iff)
  moreover have "card (w_reserved w - {ids}) = card (w_reserved w) - 1" by (rule card_Diff_singleton) (rule assms(2))
  ultimately show "entered (w\<lparr>w_state := s, w_reserved := w_reserved w - {ids}\<rparr>) = entered w + 1" "entered w + 1 < u64_max"
    using fin by (simp_all add: entered_def)
qed

lemma reserved_fresh:
  assumes "identities_ok authority w" "ids \<in> w_reserved w"
  shows "ids_fresh ids (w_state w)" and "ids_ticket ids \<notin> fst ` w_claims w"
proof -
  have disj: "permit_ids (w_state w) \<inter> ids_permit_id ` w_reserved w = {}"
    "(fset (fmdom (gs_tickets (w_state w))) \<union> fst ` w_claims w) \<inter> ids_ticket ` w_reserved w = {}"
    "used_seqs (w_state w) \<inter> ids_seq_no ` w_reserved w = {}"
    using assms(1) by (simp_all add: identities_ok_def ids_below_def)
  have "ids_permit_id ids \<notin> permit_ids (w_state w)" "ids_ticket ids |\<notin>| fmdom (gs_tickets (w_state w))"
    "ids_seq_no ids \<notin> used_seqs (w_state w)" "ids_ticket ids \<notin> fst ` w_claims w"
    using disj assms(2) by blast+
  then show "ids_fresh ids (w_state w)" "ids_ticket ids \<notin> fst ` w_claims w"
    by (auto simp: ids_fresh_def used_seqs_def fmdom_notD image_iff) metis
qed

lemma identities_admit:
  assumes ok: "identities_ok authority w" and ids: "ids \<in> w_reserved w" and adm: "admits ids (w_state w) s'"
  shows "identities_ok authority (w\<lparr>w_state := s', w_reserved := w_reserved w - {ids}\<rparr>)"
proof -
  have inj: "inj_on ids_permit_id (w_reserved w)" "inj_on ids_ticket (w_reserved w)" "inj_on ids_seq_no (w_reserved w)"
    using ok by (simp_all add: identities_ok_def)
  have img: "f ` (w_reserved w - {ids}) = f ` w_reserved w - {f ids}" if "inj_on f (w_reserved w)" for f :: "Ids \<Rightarrow> 'b"
    using inj_on_image_set_diff [OF that, of "w_reserved w" "{ids}"] ids by simp
  have sub: "permit_ids s' \<subseteq> insert (ids_permit_id ids) (permit_ids (w_state w))"
    "fset (fmdom (gs_tickets s')) \<union> fst ` w_claims w \<subseteq>
       insert (ids_ticket ids) (fset (fmdom (gs_tickets (w_state w))) \<union> fst ` w_claims w)"
    "used_seqs s' \<subseteq> insert (ids_seq_no ids) (used_seqs (w_state w))"
    using adm by (auto simp: admits_def used_seqs_def less_eq_fset.rep_eq) blast+
  note I = identities_okD [OF ok] and mem = imageI [OF ids]
  have "card (w_reserved w - {ids}) < next_ticket (w_counters w)" using card_Diff1_le [of "w_reserved w" ids] I(2) by simp
  with I(1,3) inj sub show ?thesis
    unfolding identities_ok_def
    by (simp add: img inj_on_diff permit_space.use [OF I(7) mem] ticket_space.use [OF I(8) mem] seq_space.use [OF I(9) mem])
qed

lemma world_admit:
  assumes inv: "world_inv ps authority w" and ids: "ids \<in> w_reserved w" and caps: "distinct (req_capabilities req)"
    and room: "population (w_state w) < u32_max"
    and eq: "admit_section ps sampled req waker ids (w_state w) = ((s', e), d)"
  shows "world_inv ps authority (w\<lparr>w_state := s', w_reserved := w_reserved w - {ids}\<rparr>)" (is "world_inv ps authority ?w")
    and "keeps_leases {} (gs_permits (w_state w)) (gs_permits s')" and "forward (w_state w) s'" and "admits ids (w_state w) s'"
proof -
  note W = world_invD [OF inv]
  obtain s1 now where c: "commit_time sampled (w_state w) = (s1, now)" by force
  have same: "gs_permits s1 = gs_permits (w_state w)" "queues s1 = queues (w_state w)" "gs_tickets s1 = gs_tickets (w_state w)"
    "gs_admission_closed s1 = gs_admission_closed (w_state w)"
    using c by (auto simp: commit_time_def Let_def)
  have inv1: "gov_inv (entered w) s1" using gov_inv_commit_time [OF W(1), of sampled] c by simp
  have pop: "population s1 = population (w_state w)" using total_queued_cong [OF same(2)] by (simp add: population_def same(1))
  have ent: "entered ?w = entered w + 1" "entered w + 1 < u64_max" by (rule entered_step [OF W(5) ids])+
  have fresh: "ids_fresh ids s1" using reserved_fresh(1) [OF W(5) ids] by (simp add: ids_fresh_def same)
  have eq1: "admit ps now req waker ids s1 no_effects = ((s', e), d)" using eq c by (simp add: admit_section_def)
  note A = admit_effect [OF inv1 ent(2) fresh caps _ eq1]
  have room1: "population s1 < u32_max" using room pop by simp
  have adm: "admits ids (w_state w) s'" using A(2) [OF room1] unfolding admits_def same pop .
  then show "admits ids (w_state w) s'" .
  show "keeps_leases {} (gs_permits (w_state w)) (gs_permits s')" using A(4) [OF room1] by (simp add: same)
  have "s' = s1" if "gs_admission_closed s1" using eq1 that by (simp add: admit_def refuse_def)
  moreover have "live s' t = live (w_state w) t" if "t |\<in>| fmdom (gs_tickets (w_state w))" for t
  proof -
    have "t \<noteq> ids_ticket ids" using that reserved_fresh(1) [OF W(5) ids] by (auto simp: ids_fresh_def)
    then show ?thesis using adm by (simp add: admits_def)
  qed
  ultimately show "forward (w_state w) s'" using A(6) [OF room1] pop by (auto simp: forward_def same(4))
  show "world_inv ps authority ?w"
  proof (rule world_invI)
    show "gov_inv (entered ?w) (w_state ?w)" using A(1) [OF room1] ent(1) by simp
    show "population (w_state ?w) \<le> u32_max" using adm room by (simp add: admits_def)
    show "within ps (gs_permits (w_state ?w))" using A(3) [OF room1] W(3) by (simp add: same)
    show "depth_ok ps (w_state ?w)" using A(5) [OF room1] W(4) by (simp add: depth_ok_def same)
    show "identities_ok authority ?w" by (rule identities_admit [OF W(5) ids adm])
    have "live s' t = live (w_state w) t" if "(t, p) \<in> w_claims w" for t p
    proof -
      have "t \<noteq> ids_ticket ids" using imageI [OF that, of fst] reserved_fresh(2) [OF W(5) ids] by (metis fst_conv)
      then show ?thesis using adm by (simp add: admits_def)
    qed
    then show "claims_ok ?w" using W(6) by (auto simp: claims_ok_def)
  qed
qed

lemma world_reserve:
  assumes inv: "world_inv ps authority w" and eq: "fresh_ids authority (w_counters w) = (c, Some ids)"
  shows "world_inv ps authority (w\<lparr>w_counters := c, w_reserved := insert ids (w_reserved w)\<rparr>)"
proof (rule world_invI)
  note W = world_invD [OF inv] and F = fresh_ids_Some [OF eq]
  note I = identities_okD [OF W(5)]
  have new: "ids_permit_id ids \<notin> ids_permit_id ` w_reserved w" "ids_ticket ids \<notin> ids_ticket ` w_reserved w"
    "ids_seq_no ids \<notin> ids_seq_no ` w_reserved w"
    using permit_space.fresh [OF I(7)] ticket_space.fresh [OF I(8)] seq_space.fresh [OF I(9)] F(1-3) by auto
  then have card: "card (insert ids (w_reserved w)) = card (w_reserved w) + 1" using I(1) by (subst card_insert_disjoint) auto
  let ?w = "w\<lparr>w_counters := c, w_reserved := insert ids (w_reserved w)\<rparr>"
  have "entered ?w = entered w" using card F(5) by (simp add: entered_def)
  then show "gov_inv (entered ?w) (w_state ?w)" using W(1) by simp
  have inj: "inj_on ids_permit_id (insert ids (w_reserved w))" "inj_on ids_ticket (insert ids (w_reserved w))"
    "inj_on ids_seq_no (insert ids (w_reserved w))"
    using I(4-6) new by (simp_all add: inj_on_insert, blast+)
  show "identities_ok authority ?w"
    unfolding identities_ok_def
    using I(1,2) inj card F permit_space.reserve [OF I(7)] ticket_space.reserve [OF I(8)] seq_space.reserve [OF I(9)] by simp
  show "claims_ok ?w" using W(6) by (simp add: claims_ok_def)
qed (use world_invD [OF inv] in simp_all)

lemma world_exhausted:
  assumes inv: "world_inv ps authority w" and eq: "fresh_ids authority (w_counters w) = (c, None)"
  shows "world_inv ps authority (w\<lparr>w_counters := c\<rparr>)"
proof (rule world_invI)
  note W = world_invD [OF inv] and F = fresh_ids_None [OF eq]
  note I = identities_okD [OF W(5)]
  show "gov_inv (entered (w\<lparr>w_counters := c\<rparr>)) (w_state (w\<lparr>w_counters := c\<rparr>))"
    using gov_inv_mono [OF W(1), of "entered (w\<lparr>w_counters := c\<rparr>)"] F(2,4) I(2,3) by (simp add: entered_def)
  show "identities_ok authority (w\<lparr>w_counters := c\<rparr>)"
    unfolding identities_ok_def
    using I F permit_space.skip [OF I(7) F(1)] ticket_space.skip [OF I(8) F(2)] seq_space.skip [OF I(9) F(3)] by simp
  show "claims_ok (w\<lparr>w_counters := c\<rparr>)" using W(6) by (simp add: claims_ok_def)
qed (use world_invD [OF inv] in simp_all)

section \<open>Every step\<close>

text \<open>The leases a step may end: the one whose token a release presents.\<close>

fun spends :: "Event \<Rightarrow> (PermitId \<times> nat) set" where
  "spends (EvRelease p (Some m) out) = {(p, m)}"
| "spends _ = {}"

lemma claim_begin_Inr:
  assumes "claim_begin sampled t s = (s', Inr (p, e))"
  shows "t |\<in>| fmdom (gs_tickets s)" and "live s' t = Some (TClaiming p)"
  using assms by (auto simp: claim_begin_def commit_time_def Let_def intro: fmdomI split: option.splits TicketState.splits)

lemma step_keeps:
  assumes inv: "world_inv ps authority w" and st: "step ps authority w ev w'"
  shows "world_inv ps authority w' \<and> keeps_leases (spends ev) (gs_permits (w_state w)) (gs_permits (w_state w'))
    \<and> forward (w_state w) (w_state w')"
proof -
  note W = world_invD [OF inv]
  have sec: "world_inv ps authority (w\<lparr>w_state := s\<rparr>) \<and> keeps_leases X (gs_permits (w_state w)) (gs_permits s)
      \<and> forward (w_state w) s"
    if "sound ps X (entered w) (w_state w) s" for s X
    using world_section_same [OF inv that] sound_forward [OF that] that by (simp add: sound_def)
  from st show ?thesis
  proof cases
    case (reserve c ids)
    then show ?thesis using world_reserve [OF inv] by simp
  next
    case (exhausted c)
    then show ?thesis using world_exhausted [OF inv] by simp
  next
    case (admit ids req sampled waker s e d)
    then show ?thesis using world_admit [OF inv admit(3-6)] by simp
  next
    case (admit_compensate p sampled)
    then show ?thesis using sec [OF admit_compensate_sec.run_sound [OF W(1,2)]] by simp
  next
    case (claim_begin sampled t s p e)
    have a: "sound ps {} (entered w) (w_state w) s"
      using claim_begin_sec.run_sound [OF W(1,2), of ps sampled t] claim_begin(3) by simp
    have "world_inv ps authority (w\<lparr>w_state := s, w_claims := insert (t, p) (w_claims w), w_nonces := w_nonces w\<rparr>)"
      by (rule world_section [OF inv a]) (use claim_begin_Inr [OF claim_begin(3)] in auto)
    then show ?thesis using a sound_forward [OF a] claim_begin(1,2) by (simp add: sound_def)
  next
    case (claim_answered sampled t s out)
    then show ?thesis using sec [OF claim_begin_sec.run_sound [OF W(1,2), of ps sampled t]] by simp
  next
    case (claim_finish t p sampled s out)
    have a: "sound ps {} (entered w) (w_state w) s"
      using claim_finish_sec.run_sound [OF W(1,2), of ps sampled t] claim_finish(4) by simp
    have "w_claims w - {(t, p)} \<subseteq> w_claims w" by blast
    from world_section_claims [OF inv a this] show ?thesis using a sound_forward [OF a] claim_finish(1,2) by (simp add: sound_def)
  next
    case (claim_compensate t p sampled)
    have "q = p" if "fmlookup (gs_tickets (w_state w)) t = Some (TClaiming q)" for q
      using W(6) claim_compensate(3) that by (auto simp: claims_ok_def live_tickets_def)
    then have a: "sound ps {} (entered w) (w_state w) (fst (claim_compensate ps sampled t p (w_state w)))"
      by (rule sound_claim_compensate [OF W(1,2)])
    have "w_claims w - {(t, p)} \<subseteq> w_claims w" by blast
    from world_section_claims [OF inv a this] show ?thesis using a sound_forward [OF a] claim_compensate(1,2) by (simp add: sound_def)
  next
    case (abandon sampled t s e out)
    then show ?thesis using sec [OF abandon_sec.run_sound [OF W(1,2), of ps sampled t]] by simp
  next
    case (release sampled p pf s e out)
    have "{(p, m) |m. pf = Some m} = spends (EvRelease p pf out)" by (cases pf) auto
    then show ?thesis using sec [OF release_sec.run_sound [OF W(1,2), of ps p pf sampled]] release by simp
  next
    case (advance p phase s k out)
    have a: "sound ps {} (entered w) (w_state w) s"
      using advance_sec.run_sound [OF W(1,2), of ps p phase "w_nonces w"] advance(3) by simp
    have "world_inv ps authority (w\<lparr>w_state := s, w_claims := w_claims w, w_nonces := k\<rparr>)"
      by (rule world_section [OF inv a]) auto
    then show ?thesis using a sound_forward [OF a] advance(1,2) by (simp add: sound_def)
  next
    case (reconcile p sampled bytes epoch)
    then show ?thesis using sec [OF reconcile_sec.run_sound [OF W(1,2)]] by simp
  next
    case (stage p sampled units sq)
    then show ?thesis using sec [OF stage_sec.run_sound [OF W(1,2)]] by simp
  next
    case (reap sampled stale)
    then show ?thesis using sec [OF reap_sec.run_sound [OF W(1,2)]] by simp
  next
    case close
    then show ?thesis using sec [OF close_sec.run_sound [OF W(1,2)]] by simp
  next
    case (continue sampled)
    then show ?thesis using sec [OF continue_sec.run_sound [OF W(1,2)]] by simp
  qed
qed

lemma reachable_inv: "reachable ps authority w \<Longrightarrow> world_inv ps authority w"
  by (induction rule: reachable.induct) (use world_inv_init step_keeps in blast)+

end
