(* ===== verification/TM_Guarantees.thy ===== *)
theory TM_Guarantees
  imports TM_World
begin

text \<open>
  What holds of a running governor, for every policy and every interleaving of its critical sections: the ledgers
  agree with the live permits, no configured limit is exceeded, a leased permit is released by its own token only,
  tickets move forward and are never rebound, a claim delivers the permit it was granted, and a closed governor
  stays closed and drains. The last section runs a concrete governor through admission, queueing and leasing; the
  properties are applied to it.
\<close>

section \<open>A concrete run\<close>

definition run_policies :: PolicySet where
  "run_policies =
     \<lparr>ps_resources = \<lparr>max_cpu_units = 4, max_memory_units = 0, per_request_max_cpu_units = 2,
        per_request_max_memory_units = 0, memory_unit_scale = MemoryUnitScale_default\<rparr>,
      ps_classes = fmap_of_list
        [(lit ''api'', ClassPolicy_default\<lparr>max_inflight := 1, max_queue_depth := 4,
            permit_cost := \<lparr>pc_cpu_units = 1, pc_memory_units = 2\<rparr>, overflow_policy := QueueWithinDepth\<rparr>)],
      ps_substrates = fmempty, ps_capabilities = fmempty, ps_capability_authority = 0\<rparr>"

definition run_spec :: "string \<Rightarrow> TaskSpec" where
  "run_spec name = (TaskSpec_base (lit ''api'') AsyncIo)\<lparr>spec_operation := lit name, spec_root_operation_id := lit name\<rparr>"

definition run_request :: "string \<Rightarrow> AdmissionRequest" where
  "run_request name = \<lparr>req_spec = run_spec name, req_capabilities = []\<rparr>"

abbreviation run_ids :: "nat \<Rightarrow> Ids" where
  "run_ids k \<equiv> \<lparr>ids_permit_id = PermitId 7 k, ids_ticket = Ticket 7 k, ids_seq_no = k\<rparr>"

definition run_counters :: "nat \<Rightarrow> Counters" where
  "run_counters k = \<lparr>next_permit = k, next_ticket = k, next_seq = k\<rparr>"

text \<open>Two admissions of a class with one slot: the first is granted, the second queued; the first is leased.\<close>

definition run_state1 :: GovernedState where
  "run_state1 = fst (fst (admit_section run_policies 10 (run_request ''a'') None (run_ids 1) GovernedState_default))"

definition run_state2 :: GovernedState where
  "run_state2 = fst (fst (admit_section run_policies 20 (run_request ''b'') (Some 5) (run_ids 2) run_state1))"

definition run_state3 :: GovernedState where
  "run_state3 = fst (fst (advance_phase (PermitId 7 1) Running run_state2 1))"

definition run_world :: "GovernedState \<Rightarrow> nat \<Rightarrow> World" where
  "run_world s k = \<lparr>w_state = s, w_counters = run_counters 3, w_reserved = {}, w_claims = {}, w_nonces = k\<rparr>"

lemma fresh_ids_run: "fresh_ids 7 (run_counters 1) = (run_counters 2, Some (run_ids 1))"
  "fresh_ids 7 (run_counters 2) = (run_counters 3, Some (run_ids 2))"
  by (simp_all add: fresh_ids_def run_counters_def take_sequence_def checked_add_def Let_def u64_max_def)

lemma population_run1: "population run_state1 = 1"
  by code_simp

text \<open>The run as steps of the world: both identities are reserved first, then the locks are taken.\<close>

definition run_start :: World where
  "run_start = World_init\<lparr>w_counters := run_counters 3, w_reserved := {run_ids 1, run_ids 2}\<rparr>"

lemma reachable_run_start: "reachable run_policies 7 run_start"
proof -
  have one: "World_init = World_init\<lparr>w_counters := run_counters 1\<rparr>"
    by (simp add: World_init_def Counters_new_def run_counters_def)
  let ?w1 = "World_init\<lparr>w_counters := run_counters 2, w_reserved := {run_ids 1}\<rparr>"
  have "fresh_ids 7 (w_counters World_init) = (run_counters 2, Some (run_ids 1))"
    using fresh_ids_run(1) by (subst one) simp
  from step.reserve [OF this, of run_policies] have "step run_policies 7 World_init EvReserve ?w1"
    by (simp add: World_init_def)
  moreover have "fresh_ids 7 (w_counters ?w1) = (run_counters 3, Some (run_ids 2))"
    using fresh_ids_run(2) by simp
  from step.reserve [OF this, of run_policies] have "step run_policies 7 ?w1 EvReserve run_start"
    by (simp add: run_start_def insert_commute)
  ultimately show ?thesis using reachable.start reachable.next_step by blast
qed

lemma reachable_run1:
  "reachable run_policies 7 (run_start\<lparr>w_state := run_state1, w_reserved := {run_ids 2}\<rparr>)"
proof -
  have eq: "admit_section run_policies 10 (run_request ''a'') None (run_ids 1) (w_state run_start) =
      ((run_state1, snd (fst (admit_section run_policies 10 (run_request ''a'') None (run_ids 1) GovernedState_default))),
       snd (admit_section run_policies 10 (run_request ''a'') None (run_ids 1) GovernedState_default))"
    by (simp add: run_state1_def run_start_def World_init_def)
  have "population (w_state run_start) < u32_max"
    by (simp add: run_start_def World_init_def) code_simp
  from step.admit [OF _ _ this eq] have "step run_policies 7 run_start
      (EvAdmit (run_ids 1) (snd (admit_section run_policies 10 (run_request ''a'') None (run_ids 1) GovernedState_default)))
      (run_start\<lparr>w_state := run_state1, w_reserved := w_reserved run_start - {run_ids 1}\<rparr>)"
    by (simp add: run_start_def run_request_def)
  moreover have "w_reserved run_start - {run_ids 1} = {run_ids 2}" by (auto simp: run_start_def)
  ultimately show ?thesis using reachable.next_step [OF reachable_run_start] by metis
qed

lemma reachable_run2: "reachable run_policies 7 (run_world run_state2 1)"
proof -
  let ?w = "run_start\<lparr>w_state := run_state1, w_reserved := {run_ids 2}\<rparr>"
  have eq: "admit_section run_policies 20 (run_request ''b'') (Some 5) (run_ids 2) (w_state ?w) =
      ((run_state2, snd (fst (admit_section run_policies 20 (run_request ''b'') (Some 5) (run_ids 2) run_state1))),
       snd (admit_section run_policies 20 (run_request ''b'') (Some 5) (run_ids 2) run_state1))"
    by (simp add: run_state2_def)
  have "population (w_state ?w) < u32_max" by (simp add: population_run1 u32_max_def)
  from step.admit [OF _ _ this eq] have "step run_policies 7 ?w
      (EvAdmit (run_ids 2) (snd (admit_section run_policies 20 (run_request ''b'') (Some 5) (run_ids 2) run_state1)))
      (?w\<lparr>w_state := run_state2, w_reserved := w_reserved ?w - {run_ids 2}\<rparr>)"
    by (simp add: run_request_def)
  moreover have "?w\<lparr>w_state := run_state2, w_reserved := w_reserved ?w - {run_ids 2}\<rparr> = run_world run_state2 1"
    by (simp add: run_world_def run_start_def World_init_def)
  ultimately show ?thesis using reachable.next_step [OF reachable_run1] by metis
qed

lemma reachable_run3: "reachable run_policies 7 (run_world run_state3 2)"
proof -
  have "snd (fst (advance_phase (PermitId 7 1) Running run_state2 1)) = 2" by code_simp
  then have "advance_phase (PermitId 7 1) Running (w_state (run_world run_state2 1)) (w_nonces (run_world run_state2 1)) =
      ((run_state3, 2), snd (advance_phase (PermitId 7 1) Running run_state2 1))"
    by (simp only: prod_eq_iff fst_conv snd_conv run_state3_def) (simp add: run_world_def)
  from step.advance [OF this] have "step run_policies 7 (run_world run_state2 1)
      (EvAdvance (PermitId 7 1) (snd (advance_phase (PermitId 7 1) Running run_state2 1))) (run_world run_state3 2)"
    by (simp add: run_world_def)
  then show ?thesis by (rule reachable.next_step [OF reachable_run2])
qed

lemma run_outcomes:
  "snd (admit_section run_policies 10 (run_request ''a'') None (run_ids 1) GovernedState_default) = DecAdmitted (PermitId 7 1)"
  "snd (admit_section run_policies 20 (run_request ''b'') (Some 5) (run_ids 2) run_state1) = DecQueued (Ticket 7 2)"
  "fmlookup (gs_tickets run_state3) (Ticket 7 2) = Some (TQueued (lit ''api''))"
  "map_option rec_lease_nonce (fmlookup (gs_permits run_state3) (PermitId 7 1)) = Some (Some 1)"
  by code_simp+

section \<open>Ledgers and limits\<close>

text \<open>C1: In every reachable state of the governor, under every interleaving of its critical sections, the ledgers it
  maintains incrementally (per class, per phase, per capability, global) agree with the live permits: the debug
  assertion of the engine holds.\<close>

theorem ledgers_always_agree:
  assumes "reachable ps authority w"
  shows "assert_consistent (w_state w)"
  by (rule gov_inv_consistent) (rule world_invD(1) [OF reachable_inv [OF assms]])

theorem ledgers_always_agree_witness:
  "reachable run_policies 7 (run_world run_state3 2) \<and> assert_consistent (w_state (run_world run_state3 2))"
  using ledgers_always_agree [OF reachable_run3] reachable_run3 by blast

text \<open>C2: No configured limit is ever exceeded: in every reachable state each class has at most \<open>max_inflight\<close> live
  permits and \<open>max_queue_depth\<close> queued requests, the processor units held are within the budget, and no bounded
  capability is over-occupied.\<close>

theorem limits_never_exceeded:
  assumes "reachable ps authority w"
  shows "(\<forall>cl policy. policy_class ps cl = Some policy \<longrightarrow>
      inflight (w_state w) cl \<le> max_inflight policy \<and> queued (w_state w) cl \<le> max_queue_depth policy)
    \<and> (max_cpu_units (ps_resources ps) \<noteq> 0 \<longrightarrow> gs_cpu_units_held (w_state w) \<le> max_cpu_units (ps_resources ps))
    \<and> (\<forall>i c. capability_record ps i = Some c \<longrightarrow> capacity_limit (cap_capacity c) \<noteq> 0 \<longrightarrow>
         capability_in_use (w_state w) i \<le> capacity_limit (cap_capacity c))"
proof -
  note W = world_invD [OF reachable_inv [OF assms]]
  have "core (entered w) (w_state w)" using W(1) by (simp add: gov_inv_def)
  note acct = coreD(1) [OF this]
  have "inflight (w_state w) cl = fmsum (owned cl one) (gs_permits (w_state w))" for cl
    using acct_okD(3) [OF acct, of cl]
    by (simp add: class_ok_def inflight_def fmget_def ClassState_default_def split: option.splits)
  moreover have "queued (w_state w) cl \<le> max_queue_depth policy" if "policy_class ps cl = Some policy" for cl policy
    using W(4) that queued_length [OF W(2)] by (auto simp: depth_ok_def split: option.splits)
  moreover have "gs_cpu_units_held (w_state w) = fmsum rec_cpu (gs_permits (w_state w))" by (rule acct_okD(1) [OF acct])
  moreover have "capability_in_use (w_state w) i = fmsum (uses i) (gs_permits (w_state w))" for i
    using acct_okD(4) [OF acct] by (simp add: capability_in_use_def)
  ultimately show ?thesis using W(3) by (simp add: within_def)
qed

theorem limits_never_exceeded_witness:
  "inflight run_state3 (lit ''api'') \<le> 1 \<and> queued run_state3 (lit ''api'') \<le> 4 \<and> gs_cpu_units_held run_state3 \<le> 4"
proof -
  obtain policy where p: "policy_class run_policies (lit ''api'') = Some policy" "max_inflight policy = 1" "max_queue_depth policy = 4"
    by (simp add: policy_class_def run_policies_def lit_def)
  have "max_cpu_units (ps_resources run_policies) = 4" by (simp add: run_policies_def)
  with limits_never_exceeded [OF reachable_run3] p show ?thesis unfolding run_world_def by fastforce
qed

section \<open>Custody\<close>

text \<open>C3: A leased permit is ended by its own lease token and by nothing else. Whatever step is taken from a reachable
  state, a permit under lease \<open>m\<close> is live afterwards, under the same lease and with the same charge (class,
  processor units, capabilities), unless the step is a release of that permit that presents \<open>m\<close>. No release by
  identity, abandon, compensation, leak sweep or accounting fault takes a running job's capacity away.\<close>

theorem lease_ends_by_token_only:
  assumes "reachable ps authority w" "step ps authority w ev w'"
    and "fmlookup (gs_permits (w_state w)) p = Some r" "rec_lease_nonce r = Some m"
    and "\<forall>out. ev \<noteq> EvRelease p (Some m) out"
  shows "\<exists>r'. fmlookup (gs_permits (w_state w')) p = Some r' \<and> rec_lease_nonce r' = Some m
    \<and> rec_class r' = rec_class r \<and> rec_cpu r' = rec_cpu r \<and> rec_capabilities r' = rec_capabilities r"
proof -
  have "(p, m) \<notin> spends ev" using assms(5) by (cases ev rule: spends.cases) auto
  with step_keeps [OF reachable_inv [OF assms(1)] assms(2)] assms(3,4) show ?thesis
    unfolding keeps_leases_def same_charge_def by blast
qed

lemma run_release_step:
  "step run_policies 7 (run_world s k) (EvRelease p pf (snd (release_section run_policies 30 p pf s)))
     (run_world (fst (fst (release_section run_policies 30 p pf s))) k)"
  using step.release [of run_policies 30 p pf "run_world s k" "fst (fst (release_section run_policies 30 p pf s))"
      "snd (fst (release_section run_policies 30 p pf s))" "snd (release_section run_policies 30 p pf s)" 7]
  by (simp add: run_world_def)

theorem lease_ends_by_token_only_witness:
  "\<exists>r'. fmlookup (gs_permits (fst (fst (release_section run_policies 30 (PermitId 7 1) None run_state3)))) (PermitId 7 1) = Some r'
     \<and> rec_lease_nonce r' = Some 1"
proof -
  obtain r where r: "fmlookup (gs_permits (w_state (run_world run_state3 2))) (PermitId 7 1) = Some r" "rec_lease_nonce r = Some 1"
    using run_outcomes(4) by (auto simp: run_world_def)
  from lease_ends_by_token_only [OF reachable_run3 run_release_step r, of "PermitId 7 1" None] show ?thesis
    by (auto simp: run_world_def)
qed

text \<open>C5: A ticket the governor knows moves forward only: it keeps its state, is settled, or goes from queued to granted to
  claiming; once it is bound to a permit it is never rebound to another. Tickets are never issued twice.\<close>

theorem tickets_move_forward:
  assumes "reachable ps authority w" "step ps authority w ev w'" "live (w_state w) t = Some x"
  shows "live (w_state w') t = Some x \<or> live (w_state w') t = None
    \<or> (\<exists>cl p. x = TQueued cl \<and> live (w_state w') t \<in> {Some (TGranted p), Some (TClaiming p)})
    \<or> (\<exists>p. x = TGranted p \<and> live (w_state w') t = Some (TClaiming p))"
proof -
  have "forward (w_state w) (w_state w')" using step_keeps [OF reachable_inv [OF assms(1)] assms(2)] by blast
  then have "ticket_step (Some x) (live (w_state w') t)"
    using live_dom [OF assms(3)] assms(3) by (metis forward_def)
  then show ?thesis by (auto simp: ticket_step_def)
qed

theorem tickets_move_forward_witness:
  "live run_state3 (Ticket 7 2) = Some (TQueued (lit ''api''))
   \<and> (let x = live (fst (fst (release_section run_policies 30 (PermitId 7 1) (Some 1) run_state3))) (Ticket 7 2) in
      x = Some (TQueued (lit ''api'')) \<or> x = None \<or> (\<exists>p. x \<in> {Some (TGranted p), Some (TClaiming p)}))"
proof -
  have "live run_state3 (Ticket 7 2) = Some (TQueued (lit ''api''))" using run_outcomes(3) by (simp add: live_tickets_def)
  with tickets_move_forward [OF reachable_run3 run_release_step, of "Ticket 7 2" "TQueued (lit ''api'')" "PermitId 7 1" "Some 1"]
  show ?thesis by (simp add: run_world_def Let_def)
qed

text \<open>The second lock of a claim finds its ticket settled or still bound to the permit the first lock read, which is
  live: a claim never delivers, and a failed delivery never gives back, another caller's permit.\<close>

theorem claim_owns_its_permit:
  assumes "reachable ps authority w" "(t, p) \<in> w_claims w"
    and "fmlookup (gs_tickets (w_state w)) t = Some (TClaiming q)"
  shows "q = p \<and> (\<exists>r. fmlookup (gs_permits (w_state w)) p = Some r \<and> rec_pending_ticket r = Some t)
    \<and> snd (claim_finish sampled t (w_state w)) = ClaimReady p"
proof -
  note W = world_invD [OF reachable_inv [OF assms(1)]]
  have q: "q = p" using W(6) assms(2,3) by (auto simp: claims_ok_def live_tickets_def)
  obtain r where r: "fmlookup (gs_permits (w_state w)) p = Some r" "rec_pending_ticket r = Some t"
    by (rule held_ticket_permit [OF W(1)]) (use assms(3) q in auto)
  then show ?thesis using q assms(3)
    by (simp add: claim_finish_def commit_time_def Let_def)
qed

text \<open>The run goes on: the lease is spent, the queued request is promoted and its ticket claimed.\<close>

definition run_state4 :: GovernedState where
  "run_state4 = fst (fst (release_section run_policies 30 (PermitId 7 1) (Some 1) run_state3))"

definition run_state5 :: GovernedState where
  "run_state5 = fst (claim_begin 40 (Ticket 7 2) run_state4)"

lemma reachable_run5: "reachable run_policies 7 ((run_world run_state5 2)\<lparr>w_claims := {(Ticket 7 2, PermitId 7 2)}\<rparr>)"
proof -
  have 4: "reachable run_policies 7 (run_world run_state4 2)"
    unfolding run_state4_def by (rule reachable.next_step [OF reachable_run3 run_release_step])
  have "case snd (claim_begin 40 (Ticket 7 2) run_state4) of Inr (p, e) \<Rightarrow> p = PermitId 7 2 | Inl _ \<Rightarrow> False" by code_simp
  then obtain e where "claim_begin 40 (Ticket 7 2) (w_state (run_world run_state4 2)) = (run_state5, Inr (PermitId 7 2, e))"
    unfolding run_state5_def by (cases "claim_begin 40 (Ticket 7 2) run_state4") (auto simp: run_world_def split: sum.splits)
  from step.claim_begin [OF this, of run_policies 7] show ?thesis
    by (intro reachable.next_step [OF 4]) (simp add: run_world_def)
qed

theorem claim_owns_its_permit_witness:
  "snd (claim_finish 50 (Ticket 7 2) run_state5) = ClaimReady (PermitId 7 2)"
proof -
  have "fmlookup (gs_tickets run_state5) (Ticket 7 2) = Some (TClaiming (PermitId 7 2))" by code_simp
  then show ?thesis
    using claim_owns_its_permit [OF reachable_run5, of "Ticket 7 2" "PermitId 7 2" "PermitId 7 2" 50] by (simp add: run_world_def)
qed

text \<open>C4: A closed governor admits nothing, and no step reopens it or adds a permit or a queued request: the population
  that graceful shutdown waits for only shrinks.\<close>

theorem closed_stays_closed:
  assumes "reachable ps authority w" "step ps authority w ev w'" "gs_admission_closed (w_state w)"
  shows "gs_admission_closed (w_state w') \<and> population (w_state w') \<le> population (w_state w)
    \<and> (\<forall>ids d. ev = EvAdmit ids d \<longrightarrow> d = DecRejected RuntimeUnavailable)"
proof -
  have "forward (w_state w) (w_state w')" using step_keeps [OF reachable_inv [OF assms(1)] assms(2)] by blast
  moreover have "d = DecRejected RuntimeUnavailable" if "ev = EvAdmit ids d" for ids d
    using assms(2,3) unfolding that
    by (elim step_admitE) (auto simp: admit_section_def admit_def refuse_def commit_time_def Let_def)
  ultimately show ?thesis using assms(3) by (auto simp: forward_def)
qed

theorem closed_stays_closed_witness:
  "gs_admission_closed (fst (fst (release_section run_policies 30 (PermitId 7 1) (Some 1) (close_admission run_state3))))
   \<and> population (fst (fst (release_section run_policies 30 (PermitId 7 1) (Some 1) (close_admission run_state3)))) \<le> 2"
proof -
  have "step run_policies 7 (run_world run_state3 2) EvClose (run_world (close_admission run_state3) 2)"
    by (simp add: step_close_iff run_world_def)
  then have r: "reachable run_policies 7 (run_world (close_admission run_state3) 2)" by (rule reachable.next_step [OF reachable_run3])
  have "population (close_admission run_state3) = 2" by code_simp
  with closed_stays_closed [OF r run_release_step, of "PermitId 7 1" "Some 1"] show ?thesis
    by (simp add: run_world_def close_admission_def)
qed

end
