(* ===== verification/TM_Liveness.thy ===== *)
theory TM_Liveness
  imports TM_Guarantees
begin

text \<open>
  Progress. A promotion pass that leaves runnable work behind has made the queue shorter, so the continuation loop
  of an operation ends; when it ends nothing runnable is left waiting; and no request leaves the queue without its
  waker being handed to the host.
\<close>

section \<open>Progress of a pass\<close>

text \<open>C6: A promotion pass never lengthens the queue, and one that asks for a continuation has taken at least one request
  out of it: the continuation loop of every operation ends after at most as many passes as requests were queued.\<close>

theorem promotion_progress:
  assumes "promote ps now s = (s', eff)"
  shows "total_queued s' \<le> total_queued s \<and> (eff_more_runnable eff \<longrightarrow> total_queued s' < total_queued s)"
  using promote_total [OF assms] by blast

theorem promotion_progress_witness:
  "total_queued (fst (promote run_policies 30 run_state3)) \<le> total_queued run_state3"
  using promotion_progress [of run_policies 30 run_state3] by (metis prod.collapse)

section \<open>Nothing runnable is left behind\<close>

lemma absorb_more [simp]: "eff_more_runnable (absorb a b) \<longleftrightarrow> eff_more_runnable a \<or> eff_more_runnable b"
  by (simp add: absorb_def)

lemma promote_then_drain:
  assumes "promote ps now s = (s1, pass)" "\<not> eff_more_runnable e"
  shows "\<not> has_runnable (fst (drain ps sampled s1 (absorb e pass))) ps"
    and "\<not> gs_promotion_pending (fst (drain ps sampled s1 (absorb e pass)))"
proof -
  obtain s2 wk rt where d: "drain ps sampled s1 (absorb e pass) = (s2, wk, rt)" by (metis prod_cases3)
  have "\<not> has_runnable s2 ps \<and> \<not> gs_promotion_pending s2"
  proof (cases "eff_more_runnable pass")
    case True
    then show ?thesis using drain_rest [OF d] by simp
  next
    case False
    then have "s2 = s1" using d assms(2) by (subst (asm) drain.simps) simp
    then show ?thesis using promote_rest [OF assms(1) False] by simp
  qed
  then show "\<not> has_runnable (fst (drain ps sampled s1 (absorb e pass))) ps"
    "\<not> gs_promotion_pending (fst (drain ps sampled s1 (absorb e pass)))" by (simp_all add: d)
qed

lemma release_effects: "\<not> eff_more_runnable e \<Longrightarrow> release_with_proof_reason p pf reason s e = ((s', e'), out) \<Longrightarrow> \<not> eff_more_runnable e'"
  by (auto simp: release_with_proof_reason_def unwind_eq push_wake_def retire_def split: option.splits if_splits prod.splits)

text \<open>C7: When a release that freed a permit returns (no other thread in between), no queued request could have run in the
  capacity it left: the freed capacity has been handed on and no continuation is owed.\<close>

theorem release_leaves_nothing_runnable:
  assumes "governor_release_with_proof ps sampled p pf s = (s', ReleasedOk)"
  shows "\<not> has_runnable s' ps \<and> \<not> gs_promotion_pending s'"
proof -
  obtain s0 now where c: "commit_time sampled s = (s0, now)" by force
  obtain s1 e1 out where r: "release_with_proof p pf s0 no_effects = ((s1, e1), out)" by (metis prod.collapse)
  obtain s2 pass where pr: "promote ps now s1 = (s2, pass)" by force
  have out: "out = ReleasedOk" and s': "s' = fst (drain ps sampled s2 (absorb e1 pass))"
    using assms c r pr by (auto simp: governor_release_with_proof_def release_section_def Let_def split: if_splits prod.splits)
  have "\<not> eff_more_runnable e1"
    using release_effects [of no_effects p pf Released s0] r by (simp add: release_with_proof_def no_effects_def)
  from promote_then_drain [OF pr this] show ?thesis by (simp add: s')
qed

theorem release_leaves_nothing_runnable_witness:
  "\<exists>s'. governor_release_with_proof run_policies 30 (PermitId 7 1) (Some 1) run_state3 = (s', ReleasedOk)
     \<and> \<not> has_runnable s' run_policies \<and> \<not> gs_promotion_pending s'"
proof -
  let ?o = "governor_release_with_proof run_policies 30 (PermitId 7 1) (Some 1) run_state3"
  have "snd ?o = ReleasedOk" by code_simp
  then have "?o = (fst ?o, ReleasedOk)" by (simp only: prod_eq_iff fst_conv snd_conv)
  with release_leaves_nothing_runnable [OF this] show ?thesis by blast
qed

section \<open>Nobody leaves the queue unheard\<close>

text \<open>\<open>told s e s' e'\<close>: every request with a waker that is queued in \<open>s\<close> and no longer in \<open>s'\<close> has its waker in the wake
  list of \<open>e'\<close>, which extends that of \<open>e\<close>.\<close>

definition told :: "GovernedState \<Rightarrow> TransitionEffects \<Rightarrow> GovernedState \<Rightarrow> TransitionEffects \<Rightarrow> bool" where
  "told s e s' e' \<longleftrightarrow>
     set (eff_wake e) \<subseteq> set (eff_wake e')
     \<and> (\<forall>cl r w. r \<in> set (queues s cl) \<longrightarrow> r \<notin> set (queues s' cl) \<longrightarrow> pr_waker r = Some w \<longrightarrow> w \<in> set (eff_wake e'))"

lemma told_refl: "queues s' = queues s \<Longrightarrow> told s e s' e"
  by (simp add: told_def)

lemma told_trans: "told a e b e1 \<Longrightarrow> told b e1 c e2 \<Longrightarrow> told a e c e2"
  unfolding told_def by (meson subset_trans subsetD)

lemma remove_nth_cases: "i < length xs \<Longrightarrow> x \<in> set xs \<Longrightarrow> x = xs ! i \<or> x \<in> set (remove_nth i xs)"
  using set_remove_nth by fast

lemma told_removed:
  assumes rm: "remove_pending cl i s = (s1, Some r)" and q: "queues s' = queues s1"
  shows "told s e s' (push_wake (pr_waker r) e)"
proof -
  note Q = remove_pending_queues [OF rm]
  have "x = untagged r" if "x \<in> set (queues s c)" "x \<notin> set (queues s' c)" for c x
    using that remove_nth_cases [OF Q(2), of x] Q(1,3) q by (cases "c = cl") auto
  moreover have "pr_waker (untagged r) = pr_waker r" by (simp add: untagged_def)
  ultimately show ?thesis by (fastforce simp: told_def push_wake_def split: option.splits)
qed

lemma terminalize_told:
  assumes "terminalize_wait_cycle ps s e = ((s', e'), out)"
  shows "told s e s' e'"
  using assms
proof (cases rule: terminalize_wait_cycle_cases)
  case 1
  then show ?thesis by (simp add: told_refl)
next
  case (2 cl cs i w s1 r policy)
  have "queues s' = queues s1" using 2(7) sched_eq_queues [OF sched_eq_on_unserved_removed] by simp
  from told_removed [OF 2(5) this] show ?thesis using 2(8) by simp
qed

lemma promote_loop_told:
  "promote_loop ps now k s e ch = ((s', e'), ch', ex) \<Longrightarrow> told s e s' e'"
proof (induction k arbitrary: s e ch)
  case 0
  then show ?case by (simp add: told_refl)
next
  case (Suc k)
  obtain s0 out where sel: "select s ps = (s0, out)" by force
  note q0 = sched_eq_queues [OF sched_eq_select [OF sel]]
  show ?case
  proof (cases out)
    case None
    then show ?thesis using Suc.prems sel q0 by (simp add: told_refl)
  next
    case (Some x)
    obtain s1 r where rm: "remove_pending (sel_class x) (sel_queue_index x) s0 = (s1, Some r)"
      using select_removes sel Some by blast
    have "promote_loop ps now k (promote_one ps now x r s1) (push_wake (pr_waker r) e) True = ((s', e'), ch', ex)"
      using Suc.prems sel Some rm by simp
    note IH = Suc.IH [OF this]
    have "told s0 e (promote_one ps now x r s1) (push_wake (pr_waker r) e)"
      by (rule told_removed [OF rm]) (simp add: promote_one_fields)
    with IH told_refl [OF q0] show ?thesis by (blast intro: told_trans)
  qed
qed

lemma promote_told:
  assumes "promote ps now s = (s', eff)"
  shows "told s no_effects s' eff"
proof -
  from assms obtain s1 e1 rb s2 e2 ch ex s3 e3 ra where p: "terminalize_wait_cycle ps s no_effects = ((s1, e1), rb)"
    "promote_loop ps now PROMOTION_BUDGET s1 e1 (rb = CycleRemoved) = ((s2, e2), ch, ex)"
    "(if ch then terminalize_wait_cycle ps s2 e2 else ((s2, e2), CycleNone)) = ((s3, e3), ra)"
    "s' = s3\<lparr>gs_promotion_pending := eff_more_runnable eff\<rparr>" "eff = e3\<lparr>eff_more_runnable := eff_more_runnable eff\<rparr>"
    by (rule promote_parts)
  have w: "eff_wake eff = eff_wake e3" by (subst p(5)) simp
  have "told s2 e2 s3 e3" using p(3) terminalize_told by (auto simp: told_refl split: if_splits)
  with terminalize_told [OF p(1)] promote_loop_told [OF p(2)] have "told s no_effects s3 e3" by (blast intro: told_trans)
  then show ?thesis by (simp add: told_def p(4) w)
qed

text \<open>C8: Every waiter whose request leaves the queue during an operation's continuation loop (promoted, or ended by a wait
  cycle) is woken by it: nobody is left parked on a request that is no longer queued.\<close>

theorem drain_wakes_everyone:
  assumes "drain ps sampled s e = (s', woken, retired)"
    and "r \<in> set (queues s cl)" "r \<notin> set (queues s' cl)" "pr_waker r = Some w"
  shows "w \<in> set woken"
  using assms
proof (induction ps sampled s e arbitrary: s' woken retired rule: drain.induct)
  case (1 ps sampled s e)
  show ?case
  proof (cases "eff_more_runnable e")
    case True
    obtain s1 now where c: "commit_time sampled s = (s1, now)" by force
    obtain s2 e2 where p: "promote ps now s1 = (s2, e2)" by force
    obtain s3 a b where d: "drain ps sampled s2 e2 = (s3, a, b)" by (metis prod_cases3)
    have out: "s' = s3" "woken = eff_wake e @ a"
      using 1(2) True c p d by (subst (asm) drain.simps, simp)+
    have q1: "queues s1 = queues s" using c by (auto simp: commit_time_def Let_def)
    have sub: "set (eff_wake e2) \<subseteq> set a"
      using d by (subst (asm) drain.simps) (auto simp: Let_def split: if_splits prod.splits)
    show ?thesis
    proof (cases "r \<in> set (queues s2 cl)")
      case True
      from 1(1) [OF \<open>eff_more_runnable e\<close> c [symmetric] refl p [symmetric] refl d True] 1(4,5) out show ?thesis by simp
    next
      case False
      have "r \<in> set (queues s1 cl)" using 1(3) q1 by simp
      then have "w \<in> set (eff_wake e2)"
        using promote_told [OF p, unfolded told_def] False 1(5) by blast
      then show ?thesis using sub out by auto
    qed
  next
    case False
    then have "s' = s" using 1(2) by (subst (asm) drain.simps) simp
    then show ?thesis using 1(3,4) by simp
  qed
qed

theorem drain_wakes_everyone_witness:
  "let s = fst (fst (unwind (PermitId 7 1) Released run_state3 no_effects)) in
   let d = drain run_policies 30 s (no_effects\<lparr>eff_more_runnable := True\<rparr>) in
     queues s (lit ''api'') \<noteq> [] \<and> queues (fst d) (lit ''api'') = [] \<and> 5 \<in> set (fst (snd d))"
proof -
  let ?s = "fst (fst (unwind (PermitId 7 1) Released run_state3 no_effects))"
  let ?d = "drain run_policies 30 ?s (no_effects\<lparr>eff_more_runnable := True\<rparr>)"
  have q: "queues ?s (lit ''api'') \<noteq> []" "queues (fst ?d) (lit ''api'') = []"
    "pr_waker (hd (queues ?s (lit ''api''))) = Some 5" by code_simp+
  have "?d = (fst ?d, fst (snd ?d), snd (snd ?d))" by simp
  from drain_wakes_everyone [OF this, of "hd (queues ?s (lit ''api''))" "lit ''api''" 5] q
  have "5 \<in> set (fst (snd ?d))" by auto
  with q show ?thesis by (simp add: Let_def)
qed

end
