(* ===== verification/TM_Outcomes.thy ===== *)
theory TM_Outcomes
  imports TM_Liveness
begin

text \<open>
  What each operation answers and what that answer means: an abstract machine of permit custody that releasing and
  advancing refine, the settling of abandoned and claimed tickets, the three outcomes of an admission, and the
  fail-stop after an accounting fault.
\<close>

section \<open>The custody machine\<close>

text \<open>The abstract state: for every live permit its lease (if it was dispatched) and its phase.\<close>

type_synonym custody = "(PermitId, nat option \<times> ExecutionPhase) fmap"

definition custody_of :: "GovernedState \<Rightarrow> custody" where
  "custody_of s = fmmap (\<lambda>r. (rec_lease_nonce r, rec_phase r)) (gs_permits s)"

definition spec_release :: "PermitId \<Rightarrow> nat option \<Rightarrow> custody \<Rightarrow> custody \<times> ReleaseOutcome" where
  "spec_release p pf C =
     (case fmlookup C p of
        None \<Rightarrow> (C, UnknownPermit)
      | Some (lease, phase) \<Rightarrow> if lease = pf then (fmdrop p C, ReleasedOk) else (C, HeldByLease phase))"

definition spec_advance :: "PermitId \<Rightarrow> ExecutionPhase \<Rightarrow> custody \<Rightarrow> nat \<Rightarrow> (custody \<times> nat) \<times> AdvanceOutcome" where
  "spec_advance p phase C k =
     (case fmlookup C p of
        None \<Rightarrow> ((C, k), Refused AdvanceUnknownPermit)
      | Some (lease, current) \<Rightarrow>
          if rank phase \<le> rank current then ((C, k), Refused (NotLater current))
          else (case lease of
                  None \<Rightarrow> ((fmupd p (Some k, phase) C, (k + 1) mod 2 ^ 64), Leased (LeaseToken p k))
                | Some m \<Rightarrow> ((fmupd p (Some m, phase) C, k), Advanced)))"

lemma custody_lookup: "fmlookup (custody_of s) p = map_option (\<lambda>r. (rec_lease_nonce r, rec_phase r)) (fmlookup (gs_permits s) p)"
  by (simp add: custody_of_def)

lemma fmmap_drop: "fmmap f (fmdrop k m) = fmdrop k (fmmap f m)"
  by (rule fmap_ext) simp

lemma fmmap_upd: "fmmap f (fmupd k v m) = fmupd k (f v) (fmmap f m)"
  by (rule fmap_ext) simp

text \<open>C15: Releasing a permit refines the custody machine: it answers and changes the custody exactly as the machine does,
  whatever the rest of the state: unknown permits and foreign leases change nothing.\<close>

theorem release_refines_custody:
  "(let ((s', e'), out) = release_with_proof_reason p pf reason s e in (custody_of s', out)) = spec_release p pf (custody_of s)"
proof (cases "fmlookup (gs_permits s) p")
  case None
  then show ?thesis unfolding release_absent [OF None] by (simp add: spec_release_def custody_lookup)
next
  case (Some r)
  have drop: "custody_of (fst (fst (unwind p reason s e))) = fmdrop p (custody_of s)"
    by (simp only: custody_of_def unwind_permits fmmap_drop)
  show ?thesis unfolding release_live [OF Some] spec_release_def custody_lookup Some
    by (simp only: option.map option.case prod.case Let_def split: if_split)
       (simp add: case_prod_beta drop)
qed

text \<open>C16: Advancing a phase refines the custody machine: phases only go forward, the first advance mints the permit's one
  lease, and later advances keep it.\<close>

theorem advance_refines_custody:
  "(let ((s', k'), out) = advance_phase p phase s k in ((custody_of s', k'), out)) = spec_advance p phase (custody_of s) k"
proof (cases rule: advance_phase_cases [of s p phase k])
  case unknown
  then show ?thesis by (simp add: spec_advance_def custody_lookup)
next
  case (late r)
  then show ?thesis by (simp add: spec_advance_def custody_lookup)
next
  case (leased r)
  then show ?thesis by (simp add: spec_advance_def custody_lookup custody_of_def fmmap_upd)
next
  case (advanced r m)
  then show ?thesis by (simp add: spec_advance_def custody_lookup custody_of_def fmmap_upd)
qed

section \<open>Granting and releasing undo each other\<close>

lemma class_unwind_grant:
  assumes "phase_slot DispatchReserved cs < u32_max"
    "rec_phase r = DispatchReserved" "rec_cpu r = rc_cpu_units cost" "rec_mem r = rc_memory_units cost"
  shows "class_unwind r (class_grant cost cs) =
     cs\<lparr>cs_admitted_total := cs_admitted_total cs + 1, cs_terminated_total := cs_terminated_total cs + 1\<rparr>"
  using assms by (simp add: class_unwind_def class_grant_def enter_phase_def leave_phase_def saturating_add_exact Let_def)

lemma root_unwind_grant:
  assumes "st \<notin> root_active_stages x" "rec_target_stage r = st" "rec_cpu r = rc_cpu_units cost" "rec_mem r = rc_memory_units cost"
  shows "root_unwind r (root_grant cost st x) = x"
  using assms by (simp add: root_unwind_def root_grant_def)

lemma fmget_nonzero_ext:
  assumes "\<forall>i. fmlookup m i \<noteq> Some 0" "\<forall>i. fmlookup m' i \<noteq> Some 0" "\<And>i. fmget m (0 :: nat) i = fmget m' 0 i"
  shows "m = m'"
proof (rule fmap_ext)
  fix i
  show "fmlookup m i = fmlookup m' i"
    using assms(1) [THEN spec, of i] assms(2) [THEN spec, of i] assms(3) [of i]
    by (auto simp: fmget_def split: option.splits)
qed

lemma unwind_grant_roots:
  assumes inv: "gov_inv n s"
    and guard: "is_child (gr_scope g) \<Longrightarrow> gr_target_stage g \<notin> fmget (gs_active_recursion s) {} (gr_root_operation_id g)"
  shows "gs_roots (unwind_ledger p (granted_record g) (grant g s)) = gs_roots s"
proof (cases "is_child (gr_scope g)")
  case True
  let ?i = "gr_root_operation_id g" and ?st = "gr_target_stage g"
  let ?x = "fmget (gs_roots s) RootExecutionState_default ?i"
  have co: "core n s" and g: "guard_inv s" using inv by (simp_all add: gov_inv_def)
  have R: "root_active_stages ?x = root_stages (gs_permits s) ?i"
    "\<And>y. fmlookup (gs_roots s) ?i = Some y \<Longrightarrow> root_child_inflight y \<noteq> 0"
    using coreD(5) [OF co] by (auto simp: roots_ok_def root_ok_def)
  have "(?i, ?st) \<notin> Range (occupants guard_p guard_q (gs_permits s) (queues s))"
    using g guard [OF True] unfolding guard_ok_def by blast
  then have "?st \<notin> root_active_stages ?x" unfolding R(1) root_stages_def Range_occupants by blast
  then have x: "root_unwind (granted_record g) (root_grant (gr_cost g) ?st ?x) = ?x"
    by (rule root_unwind_grant) simp_all
  have u: "gs_roots (unwind_ledger p (granted_record g) (grant g s)) =
      (let m = fmupd ?i (root_grant (gr_cost g) ?st ?x) (gs_roots s)
       in if root_child_inflight ?x = 0 then fmdrop ?i m else fmupd ?i ?x m)"
    by (simp add: unwind_ledger_roots grant_roots True x Let_def)
  show ?thesis
  proof (rule fmap_ext)
    fix k
    show "fmlookup (gs_roots (unwind_ledger p (granted_record g) (grant g s))) k = fmlookup (gs_roots s) k"
      using R(2) unfolding u Let_def
      by (cases "fmlookup (gs_roots s) ?i") (auto simp: fmget_def RootExecutionState_default_def)
  qed
qed (simp add: unwind_ledger_roots grant_roots)

text \<open>C17: Granting a permit and releasing it again restores every ledger of the engine: the live permits, the processor and
  memory units held, the occupancy of every capability, the whole record of every class (in-flight count, units held, phase
  gauges, queue and tags) but for its two totals, each of which counts the round trip once, the attribution of every root,
  the recursion guard, and the index of the live and of the queued operations. The hypotheses are what admission checks
  before it grants: the identity, the operation and the recursion slot are free.\<close>

theorem grant_release_roundtrip:
  assumes inv: "gov_inv n s"
    and pid: "gr_permit_id g \<notin> permit_ids s" and caps: "distinct (gr_capabilities g)"
    and room: "fmsum one (gs_permits s) < u32_max"
    and op: "\<not> has_operation_identity s (gr_root_operation_id g) (gr_operation g)"
    and guard: "is_child (gr_scope g) \<Longrightarrow> gr_target_stage g \<notin> fmget (gs_active_recursion s) {} (gr_root_operation_id g)"
    and rel: "release_with_proof_reason (gr_permit_id g) None reason (grant g s) e = ((s', e'), out)"
  shows "out = ReleasedOk \<and> gs_permits s' = gs_permits s
    \<and> gs_cpu_units_held s' = gs_cpu_units_held s \<and> gs_memory_units_held s' = gs_memory_units_held s
    \<and> gs_capability_in_use s' = gs_capability_in_use s
    \<and> (\<forall>cl. class_view s' cl = (if cl = gr_class g
         then (class_view s cl)\<lparr>cs_admitted_total := cs_admitted_total (class_view s cl) + 1,
                cs_terminated_total := cs_terminated_total (class_view s cl) + 1\<rparr>
         else class_view s cl))
    \<and> gs_roots s' = gs_roots s
    \<and> (\<forall>root_id. fmget (gs_active_recursion s') {} root_id = fmget (gs_active_recursion s) {} root_id)
    \<and> (\<forall>root_id op. permits_for_operation s' root_id op = permits_for_operation s root_id op)
    \<and> gs_queued_operation_identities s' = gs_queued_operation_identities s"
proof -
  let ?p = "gr_permit_id g" and ?r = "granted_record g"
  have co: "core n s" using inv by (simp add: gov_inv_def)
  note E = acct_okD [OF coreD(1) [OF co]]
  have new: "fmlookup (gs_permits s) ?p = None" by (rule pid_fresh [OF co pid])
  have acct: "acct_inv (grant g s)" by (rule acct_inv_grant [OF coreD(1) [OF co] new caps room])
  have r: "fmlookup (gs_permits (grant g s)) ?p = Some ?r" by simp
  have out: "out = ReleasedOk" and u: "fst (unwind ?p reason (grant g s) e) = (s', e')"
    using rel by (simp_all add: release_live [OF r])
  then obtain x where u': "unwind ?p reason (grant g s) e = ((s', e'), x)" by (metis prod.collapse)
  let ?u = "unwind_ledger ?p ?r (grant g s)"
  have s': "s' = (case gr_pending_ticket g of None \<Rightarrow> ?u | Some t \<Rightarrow> record_terminal_ticket t reason ?u)"
    using u unfolding unwind_eq r by (auto split: option.splits)
  have F: "gs_permits s' = gs_permits ?u" "gs_classes s' = gs_classes ?u" "gs_roots s' = gs_roots ?u"
    "gs_active_recursion s' = gs_active_recursion ?u" "gs_operation_permits s' = gs_operation_permits ?u"
    "gs_queued_operation_identities s' = gs_queued_operation_identities ?u"
    "gs_cpu_units_held s' = gs_cpu_units_held ?u" "gs_memory_units_held s' = gs_memory_units_held ?u"
    unfolding s' by (simp_all split: option.split del: unwind_ledger_fields)
  have P: "gs_permits s' = gs_permits s"
    unfolding F(1) using new by (simp add: fmdrop_absent) (rule fmap_ext, simp)
  have a: "acct_inv s'" by (rule acct_inv_unwind [OF acct u'])
  have "gs_capability_in_use s' = gs_capability_in_use s"
    by (rule fmget_nonzero_ext) (use acct_okD(4,5) [OF a] E(4,5) P in simp_all)
  moreover have "class_view s' cl = (if cl = gr_class g
         then (class_view s cl)\<lparr>cs_admitted_total := cs_admitted_total (class_view s cl) + 1,
                cs_terminated_total := cs_terminated_total (class_view s cl) + 1\<rparr>
         else class_view s cl)" for cl
  proof -
    have "phase_slot DispatchReserved (class_view s cl) < u32_max"
      using E(3) [of cl] room phase_weight_le [of cl DispatchReserved "gs_permits s"] owned_le [of cl one "gs_permits s"]
      by (simp add: class_ok_def class_view_def)
    from class_unwind_grant [OF this, of ?r "gr_cost g"] show ?thesis by (cases "cl = gr_class g") (auto simp: class_view_def F(2))
  qed
  moreover have "gs_roots s' = gs_roots s" unfolding F(3) by (rule unwind_grant_roots [OF inv guard])
  moreover have "fmget (gs_active_recursion s') {} root_id = fmget (gs_active_recursion s) {} root_id" for root_id
    using guard by (auto simp: F(4) unwind_ledger_recursion grant_recursion)
  moreover have "permits_for_operation s' root_id op = permits_for_operation s root_id op" for root_id op
    using assms(5) by (simp add: permits_for_operation_eq F(5) unwind_ledger_operations live_operation_insert
        has_operation_identity_def)
  ultimately show ?thesis using out P F(6-8) by simp
qed

theorem grant_release_roundtrip_witness:
  "let x = release_with_proof_reason (PermitId 0 1) None Released sample_child no_effects in
     snd x = ReleasedOk \<and> gs_memory_units_held (fst (fst x)) = 0 \<and> gs_roots (fst (fst x)) = fmempty
     \<and> cs_memory_units_held (class_view (fst (fst x)) (lit ''web'')) = 0
     \<and> cs_terminated_total (class_view (fst (fst x)) (lit ''web'')) = 1"
proof -
  define x where "x = release_with_proof_reason (PermitId 0 1) None Released sample_child no_effects"
  have g: "gr_permit_id child_grant = PermitId 0 1" "distinct (gr_capabilities child_grant)" "gr_class child_grant = lit ''web''"
    by (simp_all add: child_grant_def sample_grant_def)
  have room: "fmsum one (gs_permits GovernedState_default) < u32_max" by (simp add: GovernedState_default_def u32_max_def)
  have free: "\<not> has_operation_identity GovernedState_default root op" "st \<notin> fmget (gs_active_recursion GovernedState_default) {} root"
    for root op st by (simp_all add: has_operation_identity_def permits_for_operation_def GovernedState_default_def)
  have "release_with_proof_reason (gr_permit_id child_grant) None Released (grant child_grant GovernedState_default) no_effects
      = ((fst (fst x), snd (fst x)), snd x)" by (simp add: g x_def sample_child_def)
  from grant_release_roundtrip [OF gov_inv_default _ g(2) room free this]
  have "snd x = ReleasedOk \<and> gs_memory_units_held (fst (fst x)) = gs_memory_units_held GovernedState_default
      \<and> gs_roots (fst (fst x)) = gs_roots GovernedState_default
      \<and> class_view (fst (fst x)) (lit ''web'') = (class_view GovernedState_default (lit ''web''))
          \<lparr>cs_admitted_total := cs_admitted_total (class_view GovernedState_default (lit ''web'')) + 1,
           cs_terminated_total := cs_terminated_total (class_view GovernedState_default (lit ''web'')) + 1\<rparr>"
    by (simp add: occupants_default g(3))
  then show ?thesis unfolding x_def [symmetric] Let_def by (simp add: GovernedState_default_def class_view_def ClassState_default_def)
qed

section \<open>Settling a ticket\<close>

lemma evolves_unknown: "evolves s s' \<Longrightarrow> fmlookup (gs_tickets s) t = None \<Longrightarrow> fmlookup (gs_tickets s') t = None"
  unfolding evolves_def by (meson fmdom_notD fmdom_notI fsubsetD)

lemma recorded_forgotten:
  assumes "ring_inv s" "gs_terminal_seq s < u64_max"
  shows "fmlookup (gs_tickets (forget_terminal_ticket t (record_terminal_ticket t reason s))) t = None"
  using record_terminal_ring(2) [OF assms, of t reason]
  by (auto simp: forget_terminal_ticket_def Let_def split: option.split)

lemma unwind_forgotten:
  assumes inv: "gov_inv n s" and r: "fmlookup (gs_permits s) p = Some r" "rec_pending_ticket r = Some t"
    and eq: "unwind p reason s e = ((s', e'), out)"
  shows "fmlookup (gs_tickets (forget_terminal_ticket t s')) t = None"
proof -
  have co: "core n s" using inv by (simp add: gov_inv_def)
  note D = coreD [OF co]
  have "ring_inv (unwind_ledger p r s)" "gs_terminal_seq (unwind_ledger p r s) < u64_max" using D(3,8,10) by simp_all
  from recorded_forgotten [OF this] show ?thesis using eq r by (auto simp: unwind_eq)
qed

lemma unwound_permit_gone:
  assumes inv: "gov_inv n s" and r: "fmlookup (gs_permits s) p = Some r" and eq: "unwind p reason s e = ((s', e'), out)"
  shows "p \<notin> permit_ids s'"
proof -
  have co: "core n s" using inv by (simp add: gov_inv_def)
  have P: "gs_permits s' = fmdrop p (gs_permits s)" using unwind_permits [of p reason s e] eq by simp
  have "gs_classes s' = gs_classes (unwind_ledger p r s)"
    using eq r by (cases "rec_pending_ticket r") (auto simp: unwind_eq simp del: unwind_ledger_fields)
  then have q: "queues s' = queues s" by (simp only: queues_unwind_ledger)
  have "pid_p r = Some p" using acct_okD(6) [OF coreD(1) [OF co] r] by (simp add: record_ok_def pid_p_def)
  then have "(Inl p, p) \<in> occupants pid_p pid_q (gs_permits s) (queues s)" using r by simp
  then have "x = Inl p" if "(x, p) \<in> occupants pid_p pid_q (gs_permits s) (queues s)" for x
    using coreD(7) [OF co] that unfolding exclusive_def by blast
  then show ?thesis unfolding P q occupants_unwind by blast
qed

lemma absent_permit: "gov_inv n s \<Longrightarrow> p \<notin> permit_ids s \<Longrightarrow> fmlookup (gs_permits s) p = None"
  by (rule pid_fresh [of n]) (simp_all add: gov_inv_def)

lemma abandon_held_gone:
  assumes inv: "gov_inv n s" and pop: "population s \<le> u32_max"
    and t: "fmlookup (gs_tickets s) t = Some (TGranted p) \<or> fmlookup (gs_tickets s) t = Some (TClaiming p)"
    and rel: "release_with_proof_reason p None Abandoned s no_effects = ((s1, e1), ReleasedOk)"
  shows "fmlookup (gs_tickets (fst (promote ps now (forget_terminal_ticket t s1)))) t = None"
    and "fmlookup (gs_permits (fst (promote ps now (forget_terminal_ticket t s1)))) p = None"
proof -
  obtain r where r: "fmlookup (gs_permits s) p = Some r" "rec_pending_ticket r = Some t" by (rule held_ticket_permit [OF inv t])
  obtain x where u: "unwind p Abandoned s no_effects = ((s1, e1), x)"
    using rel release_live [OF r(1), of None Abandoned no_effects] by (cases "unwind p Abandoned s no_effects") (auto split: if_splits)
  have a: "sound ps {} n s s1" using sound_release [OF inv rel] by simp
  have b: "sound ps {} n s (forget_terminal_ticket t s1)" by (rule sound_trans [OF a sound_forget [OF sound_inv [OF a]]])
  have c: "sound ps {} n (forget_terminal_ticket t s1) (fst (promote ps now (forget_terminal_ticket t s1)))"
    by (rule sound_promote [OF sound_inv [OF b] sound_population [OF b pop]])
  then have ev: "evolves (forget_terminal_ticket t s1) (fst (promote ps now (forget_terminal_ticket t s1)))" by (simp add: sound_def)
  show "fmlookup (gs_tickets (fst (promote ps now (forget_terminal_ticket t s1)))) t = None"
    by (rule evolves_unknown [OF ev unwind_forgotten [OF inv r u]])
  have "p \<notin> permit_ids (forget_terminal_ticket t s1)" using unwound_permit_gone [OF inv r(1) u] by simp
  then have "p \<notin> permit_ids (fst (promote ps now (forget_terminal_ticket t s1)))" using ev by (auto simp: evolves_def)
  then show "fmlookup (gs_permits (fst (promote ps now (forget_terminal_ticket t s1)))) p = None"
    by (rule absent_permit [OF sound_inv [OF c]])
qed

lemma abandon_queued_gone:
  assumes inv: "gov_inv n s" and pop: "population s \<le> u32_max" and t: "live s t = Some (TQueued cl)"
  shows "fmlookup (gs_tickets (fst (abandon_queued ps now cl t s))) t = None"
proof -
  obtain s2 where a: "sound ps {} n s s2" and s2: "fmlookup (gs_tickets s2) t = None"
    and eq: "fst (abandon_queued ps now cl t s) = fst (promote ps now s2)"
    by (rule abandon_queued_parts [OF inv t])
  have "evolves s2 (fst (promote ps now s2))"
    using sound_promote [OF sound_inv [OF a] sound_population [OF a pop]] by (simp add: sound_def)
  from evolves_unknown [OF this s2] show ?thesis unfolding eq .
qed

text \<open>After an abandon that succeeded the ticket is gone: its request has left the queue or its permit is released, and
  every later claim or abandon of it answers that it is invalid.\<close>

theorem abandon_settles:
  assumes inv: "gov_inv n s" and pop: "population s \<le> u32_max"
    and eq: "abandon_section ps sampled t s = ((s', e'), AbandonedOk)"
  shows "ticket_status s' t = ClaimInvalid \<and> snd (claim_begin later t s') = Inl ClaimInvalid
    \<and> snd (abandon_section ps later t s') = AbandonInvalid
    \<and> (\<forall>p. fmlookup (gs_tickets s) t = Some (TGranted p) \<or> fmlookup (gs_tickets s) t = Some (TClaiming p) \<longrightarrow>
         fmlookup (gs_permits s') p = None)"
proof -
  obtain s0 now where c: "commit_time sampled s = (s0, now)" by force
  have a: "sound ps {} n s s0" using sound_commit_time [OF inv, of ps "{}" sampled] c by simp
  note inv0 = sound_inv [OF a] and pop0 = sound_population [OF a pop]
  have T: "gs_tickets s0 = gs_tickets s" "gs_permits s0 = gs_permits s" using c by (auto simp: commit_time_def Let_def)
  have s': "s' = abandon_body ps t s0 now"
    using eq c by (auto simp: abandon_section_def abandon_body_def Let_def
        split: prod.splits option.splits TicketState.splits ReleaseOutcome.splits)
  have held: "fmlookup (gs_tickets s') t = None \<and> fmlookup (gs_permits s') p = None"
    if t: "fmlookup (gs_tickets s) t = Some (TGranted p) \<or> fmlookup (gs_tickets s) t = Some (TClaiming p)" for p
  proof -
    obtain s1 e1 out where rel: "release_with_proof_reason p None Abandoned s0 no_effects = ((s1, e1), out)" by (metis prod.collapse)
    have "out = ReleasedOk"
      using eq c rel t T by (cases out) (auto simp: abandon_section_def Let_def)
    then show ?thesis using abandon_held_gone [OF inv0 pop0, of t p] t T rel by (auto simp: s' abandon_body_def)
  qed
  have gone: "fmlookup (gs_tickets s') t = None
      \<and> (\<forall>p. fmlookup (gs_tickets s) t = Some (TGranted p) \<or> fmlookup (gs_tickets s) t = Some (TClaiming p) \<longrightarrow>
           fmlookup (gs_permits s') p = None)"
  proof (cases "fmlookup (gs_tickets s) t")
    case (Some x)
    then show ?thesis
    proof (cases x)
      case (TQueued cl)
      then have "live s0 t = Some (TQueued cl)" using Some T by (simp add: live_tickets_def)
      from abandon_queued_gone [OF inv0 pop0 this] Some TQueued T show ?thesis by (simp add: s' abandon_body_def)
    qed (use held eq c T Some in \<open>auto simp: abandon_section_def Let_def\<close>)
  qed (use eq c T in \<open>simp add: abandon_section_def Let_def\<close>)
  then have "fmlookup (gs_tickets s') t = None" by blast
  then have "ticket_status s' t = ClaimInvalid" "snd (claim_begin later t s') = Inl ClaimInvalid"
    "snd (abandon_section ps later t s') = AbandonInvalid"
    by (simp_all add: ticket_status_def claim_begin_def abandon_section_def commit_time_def Let_def)
  with gone show ?thesis by blast
qed

lemma run3_inv: "gov_inv (entered (run_world run_state3 2)) run_state3" "population run_state3 \<le> u32_max"
  using world_invD(1,2) [OF reachable_inv [OF reachable_run3]] by (simp_all add: run_world_def)

theorem abandon_settles_witness:
  "\<exists>s' e'. abandon_section run_policies 30 (Ticket 7 2) run_state3 = ((s', e'), AbandonedOk)
     \<and> ticket_status s' (Ticket 7 2) = ClaimInvalid"
proof -
  let ?o = "abandon_section run_policies 30 (Ticket 7 2) run_state3"
  have "snd ?o = AbandonedOk" by code_simp
  then have eq: "?o = ((fst (fst ?o), snd (fst ?o)), AbandonedOk)" by (simp only: prod_eq_iff fst_conv snd_conv simp_thms)
  from abandon_settles [OF run3_inv eq] eq show ?thesis by blast
qed

text \<open>A claim that delivers consumes its ticket: the permit it names is live and unbound from the ticket, and the ticket
  can neither be claimed again nor abandoned.\<close>

theorem claim_delivers_once:
  assumes "claim_finish sampled t s = (s', ClaimReady p)"
  shows "fmlookup (gs_tickets s) t = Some (TClaiming p) \<and> ticket_status s' t = ClaimInvalid
    \<and> snd (claim_begin later t s') = Inl ClaimInvalid
    \<and> (\<exists>r. fmlookup (gs_permits s') p = Some r \<and> rec_pending_ticket r = None)"
proof -
  have t: "fmlookup (gs_tickets s) t = Some (TClaiming p)"
    using assms by (auto simp: claim_finish_def commit_time_def Let_def split: option.splits TicketState.splits)
  then obtain r where r: "fmlookup (gs_permits s) p = Some r"
    using assms by (auto simp: claim_finish_def commit_time_def Let_def split: option.splits)
  have s': "gs_tickets s' = fmdrop t (gs_tickets s)"
    "gs_permits s' = fmupd p (touch (max sampled (gs_commit_watermark_ms s)) (r\<lparr>rec_pending_ticket := None\<rparr>)) (gs_permits s)"
    using assms t r by (auto simp: claim_finish_def commit_time_def Let_def)
  show ?thesis using t by (simp add: s' ticket_status_def claim_begin_def commit_time_def Let_def touch_def)
qed

theorem claim_delivers_once_witness:
  "\<exists>s'. claim_finish 50 (Ticket 7 2) run_state5 = (s', ClaimReady (PermitId 7 2)) \<and> ticket_status s' (Ticket 7 2) = ClaimInvalid"
proof -
  let ?o = "claim_finish 50 (Ticket 7 2) run_state5"
  have "snd ?o = ClaimReady (PermitId 7 2)" by code_simp
  then have eq: "?o = (fst ?o, ClaimReady (PermitId 7 2))" by (simp only: prod_eq_iff fst_conv snd_conv simp_thms)
  from claim_delivers_once [OF eq] eq show ?thesis by blast
qed

section \<open>Admission\<close>

text \<open>C14: An admission does one of three things. It refuses and touches nothing but the sticky accounting fault; it grants in
  a configured class where the request fits every limit, its operation identity and recursion guard are free and
  nothing it would overtake is queued; or it queues, within the depth of the class, a request that could not be
  granted.\<close>

theorem admission_decides:
  "admission_outcome ps now req w ids s e (admit ps now req w ids s e)"
  by (rule admit_outcome)

section \<open>Fail-stop after an accounting fault\<close>

text \<open>\<open>fault_told s e s' e'\<close>: every request that left the queue has its ticket faulted and its waker in the wake list; no
  other ticket changed.\<close>

definition fault_told :: "GovernedState \<Rightarrow> TransitionEffects \<Rightarrow> GovernedState \<Rightarrow> TransitionEffects \<Rightarrow> bool" where
  "fault_told s e s' e' \<longleftrightarrow> told s e s' e'
     \<and> (\<forall>t. fmlookup (gs_tickets s') t = fmlookup (gs_tickets s) t \<or> fmlookup (gs_tickets s') t = Some TFaulted)
     \<and> (\<forall>cl r. r \<in> set (queues s cl) \<longrightarrow> r \<notin> set (queues s' cl) \<longrightarrow> fmlookup (gs_tickets s') (pr_ticket r) = Some TFaulted)"

lemma fault_told_refl: "queues s' = queues s \<Longrightarrow> gs_tickets s' = gs_tickets s \<Longrightarrow> fault_told s e s' e"
  by (simp add: fault_told_def told_refl)

lemma fault_told_trans: "fault_told a e b e1 \<Longrightarrow> fault_told b e1 c e2 \<Longrightarrow> fault_told a e c e2"
  unfolding fault_told_def by (intro conjI) (blast intro: told_trans, metis, metis)

lemma fault_told_one:
  assumes inv: "gov_inv n s" and rm: "remove_pending cl i s = (s1, Some r)"
  shows "fault_told s e (faulted r s1) (push_wake (pr_waker r) e)"
proof -
  note F = faulted_keeps [OF inv rm] and Q = remove_pending_queues [OF rm]
  have T: "gs_tickets (faulted r s1) = fmupd (pr_ticket r) TFaulted (gs_tickets s)"
    using dequeued_member(6) [OF rm] by (simp add: faulted_def Let_def)
  have "queues (faulted r s1) = queues s1" using F(3) Q(1) by simp
  from told_removed [OF rm this] have "told s e (faulted r s1) (push_wake (pr_waker r) e)" .
  moreover have "pr_ticket x = pr_ticket r" if "x \<in> set (queues s c)" "x \<notin> set (queues (faulted r s1) c)" for c x
    using that remove_nth_cases [OF Q(2), of x] F(3) Q(3) untagged_fields(2) [of r] by (cases "c = cl") auto
  ultimately show ?thesis unfolding fault_told_def T by simp
qed

lemma fault_queue_told:
  "gov_inv n s \<Longrightarrow> fault_queue cl k s e = (s', e') \<Longrightarrow> fault_told s e s' e'"
proof (induction k arbitrary: s e)
  case (Suc k)
  obtain s1 ro where rm: "remove_pending cl 0 s = (s1, ro)" by force
  show ?case
  proof (cases ro)
    case None
    then have "s1 = s" using rm by (auto simp: remove_pending_def Let_def split: option.splits if_splits)
    then show ?thesis using Suc.prems(2) rm None by (auto simp: fault_queue_Suc fault_told_refl simp del: fault_queue.simps)
  next
    case (Some r)
    have "fault_queue cl k (faulted r s1) (push_wake (pr_waker r) e) = (s', e')"
      using Suc.prems(2) rm Some by (simp add: fault_queue_Suc del: fault_queue.simps)
    from Suc.IH [OF faulted_keeps(1) [OF Suc.prems(1) rm [unfolded Some]] this] fault_told_one [OF Suc.prems(1) rm [unfolded Some], of e]
    show ?thesis by (rule fault_told_trans [rotated])
  qed
qed (simp add: fault_told_refl)

lemma fault_class_told:
  assumes inv: "gov_inv n s" and eq: "fault_class ps cl (s, e) = (s', e')"
  shows "fault_told s e s' e'"
proof -
  let ?k = "length (cs_queue (class_view s cl))"
  obtain s1 where f: "fault_queue cl ?k s e = (s1, e')" and
    s': "s' = (if 0 < ?k then on_unserved_removed cl (queued_policy ps cl) s1 else s1)"
    using eq by (auto simp: fault_class_def Let_def split: prod.splits)
  have "sched_eq s1 s'" unfolding s' by (simp add: sched_eq_on_unserved_removed)
  then have "fault_told s1 e' s' e'" by (intro fault_told_refl) (simp_all add: sched_eq_queues, simp add: sched_eq_def)
  with fault_queue_told [OF inv f] show ?thesis by (rule fault_told_trans)
qed

lemma fault_fold_told:
  "gov_inv n s \<Longrightarrow> fold (fault_class ps) cls (s, e) = (s', e') \<Longrightarrow> fault_told s e s' e'"
proof (induction cls arbitrary: s e)
  case (Cons cl cls)
  obtain s1 e1 where f: "fault_class ps cl (s, e) = (s1, e1)" by force
  have "gov_inv n s1" using fault_class_keeps [OF Cons.prems(1) f] by blast
  moreover have "fold (fault_class ps) cls (s1, e1) = (s', e')" using Cons.prems(2) f by simp
  ultimately have "fault_told s1 e1 s' e'" by (rule Cons.IH)
  with fault_class_told [OF Cons.prems(1) f] show ?case by (rule fault_told_trans)
qed (simp add: fault_told_refl)

lemma fault_queue_fault: "fault_queue cl k s e = (s', e') \<Longrightarrow> gs_accounting_fault s' = gs_accounting_fault s"
proof (induction k arbitrary: s e)
  case (Suc k)
  obtain s1 ro where rm: "remove_pending cl 0 s = (s1, ro)" by force
  then have "gs_accounting_fault s1 = gs_accounting_fault s"
    by (auto simp: remove_pending_def Let_def split: option.splits if_splits)
  then show ?case using Suc rm by (auto simp: Let_def split: option.splits if_splits)
qed simp

lemma fault_fold_fault:
  "fold (fault_class ps) cls (s, e) = (s', e') \<Longrightarrow> gs_accounting_fault s' = gs_accounting_fault s"
proof (induction cls arbitrary: s e)
  case (Cons cl cls)
  obtain s1 e1 where f: "fault_class ps cl (s, e) = (s1, e1)" by force
  then have "gs_accounting_fault s1 = gs_accounting_fault s"
    using fault_queue_fault sched_eq_on_unserved_removed
    by (auto simp: fault_class_def Let_def sched_eq_def split: prod.splits)
  then show ?case using Cons f by auto
qed simp

lemma assess_fault:
  assumes "assess s ps spec cl m cost caps qb = ReversiblyBlocked b" "gs_accounting_fault s \<noteq> None"
  shows "bl_accounting_fault b"
proof -
  have "bl_accounting_fault (block_capability s ps i x)" if "bl_accounting_fault x" for i x
    using that by (simp add: block_capability_def Let_def split: option.split)
  then have "bl_accounting_fault (fold (block_capability s ps) caps x)" if "bl_accounting_fault x" for x
    using that by (induction caps arbitrary: x) simp_all
  then have "bl_accounting_fault (blockers_for s ps cl m cost caps)"
    using assms(2) by (simp add: blockers_for_def Let_def)
  then show ?thesis using assms(1)
    by (auto simp: assess_def assess_scope_def Let_def split: if_splits option.splits)
qed

lemma reconcile_section_failed:
  assumes eq: "reconcile_section ps sampled p bytes epoch s = ((s', e'), ConversionFailed err)" and c: "commit_time sampled s = (s0, now)"
  obtains mode sq s1 where "reconcile p bytes sq mode (memory_unit_scale (ps_resources ps)) now s0 = (s1, ConversionFailed err)"
    "terminalize_queued_for_accounting_fault ps s1 no_effects = (s', e')"
proof -
  obtain r where r: "fmlookup (gs_permits s0) p = Some r"
    using eq c by (cases "fmlookup (gs_permits s0) p") (simp_all add: reconcile_section_def)
  obtain policy where pol: "policy_class ps (rec_class r) = Some policy"
    using eq c r by (cases "policy_class ps (rec_class r)") (simp_all add: reconcile_section_def)
  let ?q = "case epoch of Some n \<Rightarrow> Inr n | None \<Rightarrow> checked_next (pl_measurement_sequence (rec_ledger r))"
  have "?q \<noteq> Inl (ConversionFailed err)" by (auto simp: checked_next_def split: option.splits)
  then obtain sq where sq: "?q = Inr sq"
    using eq c r pol by (cases ?q) (simp_all add: reconcile_section_def)
  obtain s1 out where rec: "reconcile p bytes sq (memory_permit_mode policy) (memory_unit_scale (ps_resources ps)) now s0 = (s1, out)"
    by force
  then have "out = ConversionFailed err" using eq c r pol sq
    by (cases out) (simp_all add: reconcile_section_def Let_def split: prod.splits)
  then show thesis using that [of sq "memory_permit_mode policy" s1] eq c r pol sq rec
    by (simp add: reconcile_section_def Let_def)
qed

text \<open>C19: When a measurement cannot be represented the governor fails stop: the fault is recorded, every live permit keeps its
  charge, the queue is emptied, and every waiter that was queued finds its ticket faulted and is woken.\<close>

theorem conversion_failure_fails_stop:
  assumes inv: "gov_inv n s" and eq: "reconcile_section ps sampled p bytes epoch s = ((s', e'), ConversionFailed err)"
  shows "gs_accounting_fault s' \<noteq> None \<and> gs_permits s' = gs_permits s \<and> (\<forall>cl. queued s' cl = 0)
    \<and> (\<forall>cl. \<forall>r \<in> set (queues s cl). fmlookup (gs_tickets s') (pr_ticket r) = Some TFaulted
         \<and> (\<forall>w. pr_waker r = Some w \<longrightarrow> w \<in> set (eff_wake e')))"
proof -
  obtain s0 now where c: "commit_time sampled s = (s0, now)" by force
  have a: "sound ps {} n s s0" using sound_commit_time [OF inv, of ps "{}" sampled] c by simp
  have same0: "queues s0 = queues s" "gs_permits s0 = gs_permits s" using c by (auto simp: commit_time_def Let_def)
  obtain mode sq s1 where rec: "reconcile p bytes sq mode (memory_unit_scale (ps_resources ps)) now s0 = (s1, ConversionFailed err)"
    and f: "terminalize_queued_for_accounting_fault ps s1 no_effects = (s', e')"
    by (rule reconcile_section_failed [OF eq c])
  have s1: "s1 = record_accounting_fault memory_conversion_text s0"
    using rec by (auto simp: reconcile_def Let_def split: option.splits if_splits sum.splits)
  have inv1: "gov_inv n s1" unfolding s1 by (rule gov_inv_record_fault [OF sound_inv [OF a]])
  have same1: "queues s1 = queues s" "gs_permits s1 = gs_permits s" "gs_accounting_fault s1 \<noteq> None"
    using same0 by (simp_all add: s1 record_accounting_fault_def)
  note K = fault_all_keeps [OF inv1 f]
  obtain s2 where s2: "fold (fault_class ps) (bt_keys (gs_classes s1)) (s1, no_effects) = (s2, e')"
    and s': "s' = s2\<lparr>gs_promotion_pending := False\<rparr>"
    using f by (auto simp: terminalize_queued_for_accounting_fault_def Let_def split: prod.splits)
  note T = fault_fold_told [OF inv1 s2, unfolded fault_told_def told_def]
  have "queues s2 = (\<lambda>cl. [])" using K(3) by (simp add: s')
  then have "fmlookup (gs_tickets s') (pr_ticket r) = Some TFaulted \<and> (\<forall>w. pr_waker r = Some w \<longrightarrow> w \<in> set (eff_wake e'))"
    if "r \<in> set (queues s cl)" for cl r
    using T that same1(1) by (auto simp: s')
  moreover have "queued s' cl = 0" for cl
    using fun_cong [OF K(3), of cl]
    by (cases "fmlookup (gs_classes s') cl") (simp_all add: queued_def cs_queued_def queue_of_def fmget_def)
  moreover have "gs_accounting_fault s' = gs_accounting_fault s1" using fault_fold_fault [OF s2] by (simp add: s')
  ultimately show ?thesis using K(4) same1 by simp
qed

lemma fault_admit_class:
  assumes "gs_accounting_fault s \<noteq> None"
  shows "admission_refused w s e (admit_class ps now req cl w ids dg s e)"
proof (induction "of_bool dg :: nat" arbitrary: cl dg rule: less_induct)
  case less
  have ref: "admission_refused w s e (refuse w v s e)"
    "admission_refused w s e (refuse w v (record_accounting_fault accounting_fault_text s) e)" for v
    by (auto simp: admission_refused_def refuse_def)
  show ?case
  proof (cases "\<exists>policy. may_enter ps req cl policy s")
    case False
    then show ?thesis using ref by (subst admit_class.simps) (auto simp: may_enter_def Let_def split: option.splits)
  next
    case True
    then obtain policy where me: "may_enter ps req cl policy s" by blast
    note A = admit_class_entered [OF me, of now w ids dg e, unfolded Let_def]
    let ?qb = "queued_ahead s policy cl (req_capabilities req)"
    let ?as = "assess s ps (req_spec req) cl (max_inflight policy) (resolve_cost policy) (req_capabilities req) ?qb"
    let ?fb = "case memory_overcommit_policy policy of DegradeToLight fb \<Rightarrow> if dg then Some fb else None | _ \<Rightarrow> None"
    have fb: "admission_refused w s e (admit_class ps now req x w ids False s e)" if "?fb = Some x" for x
      using less [of False x] that by (simp split: MemoryOvercommitPolicy.splits if_splits)
    show ?thesis
    proof (cases ?as)
      case Runnable
      then show ?thesis using assms by (simp add: assess_Runnable fits_def)
    next
      case (WaitCycle c)
      then show ?thesis unfolding A using ref fb by (simp split: option.split)
    next
      case (ReversiblyBlocked b)
      then have "bl_accounting_fault b" using assms by (rule assess_fault)
      then have "blockers_primary b = BlockAccountingFault" by (simp add: blockers_primary_def)
      then show ?thesis unfolding A using ReversiblyBlocked ref by simp
    qed
  qed
qed

text \<open>After an accounting fault no admission is granted or queued, whatever the policy's fallbacks: it is refused and
  leaves the state as it was.\<close>

theorem fault_refuses_admission:
  assumes "gs_accounting_fault s \<noteq> None"
  shows "\<exists>v. admit ps now req w ids s e = ((s, retire w e), DecRejected v)"
proof -
  have "record_accounting_fault what s = s" for what using assms by (simp add: record_accounting_fault_def)
  with fault_admit_class [OF assms, of w e ps now req "spec_class (req_spec req)" ids True] show ?thesis
    by (auto simp: admit_def refuse_def admission_refused_def)
qed

definition fault_policies :: PolicySet where
  "fault_policies = run_policies
     \<lparr>ps_resources := (ps_resources run_policies)\<lparr>memory_unit_scale := \<lparr>bytes_per_unit = 1\<rparr>\<rparr>,
      ps_classes := fmap_of_list [(lit ''api'', ClassPolicy_default\<lparr>max_inflight := 1, max_queue_depth := 4,
        memory_permit_mode := Measured\<rparr>)]\<rparr>"

definition fault_state :: GovernedState where
  "fault_state = fst (fst (reconcile_section fault_policies 30 (PermitId 7 1) u64_max None run_state3))"

theorem conversion_failure_fails_stop_witness:
  "gs_accounting_fault fault_state \<noteq> None \<and> queued fault_state (lit ''api'') = 0
   \<and> fmlookup (gs_tickets fault_state) (Ticket 7 2) = Some TFaulted"
proof -
  let ?o = "reconcile_section fault_policies 30 (PermitId 7 1) u64_max None run_state3"
  have "case snd ?o of ConversionFailed err \<Rightarrow> True | _ \<Rightarrow> False" by code_simp
  then obtain err where err: "snd ?o = ConversionFailed err" by (cases "snd ?o") simp_all
  then have eq: "?o = ((fault_state, snd (fst ?o)), ConversionFailed err)"
    by (simp only: prod_eq_iff fst_conv snd_conv fault_state_def simp_thms)
  have "queues run_state3 (lit ''api'') \<noteq> [] \<and> pr_ticket (hd (queues run_state3 (lit ''api''))) = Ticket 7 2" by code_simp
  then obtain r where r: "r \<in> set (queues run_state3 (lit ''api''))" "pr_ticket r = Ticket 7 2" using list.set_sel(1) by blast
  from conversion_failure_fails_stop [OF run3_inv(1) eq] r show ?thesis by (metis (no_types))
qed

theorem fault_refuses_admission_witness:
  "\<exists>v. snd (admit run_policies 40 (run_request ''c'') None (run_ids 3) fault_state no_effects) = DecRejected v"
proof -
  have "gs_accounting_fault fault_state \<noteq> None" by code_simp
  from fault_refuses_admission [OF this, of run_policies 40 "run_request ''c''" None "run_ids 3" no_effects] show ?thesis by auto
qed

section \<open>Well-formed and exclusive custody\<close>

text \<open>C20: Every live permit of a reachable governor is well formed: it is filed under its own identity, which this governor
  issued from its counter; it carries a lease exactly when it has left the reserved phase; and it occupies each of its
  capabilities once.\<close>

theorem permits_well_formed:
  assumes "reachable ps authority w" "fmlookup (gs_permits (w_state w)) p = Some r"
  shows "rec_permit_id r = p \<and> permit_authority p = authority \<and> permit_sequence p < next_permit (w_counters w)
    \<and> (rec_lease_nonce r = None \<longleftrightarrow> rec_phase r = DispatchReserved) \<and> distinct (rec_capabilities r)"
proof -
  note W = world_invD [OF reachable_inv [OF assms(1)]]
  have "acct_inv (w_state w)" using W(1) by (simp add: gov_inv_def core_def)
  then have ok: "record_ok p r" by (rule acct_okD(6) [OF _ assms(2)])
  then have "p \<in> permit_ids (w_state w)"
    unfolding Range_occupants using assms(2) by (auto simp: record_ok_def pid_p_def)
  then obtain k where "p = PermitId authority k" "k < next_permit (w_counters w)"
    using identities_okD(7) [OF W(5)] by (auto simp: ids_below_def)
  with ok show ?thesis by (auto simp: record_ok_def)
qed

theorem permits_well_formed_witness:
  "\<exists>r. fmlookup (gs_permits run_state3) (PermitId 7 1) = Some r \<and> rec_permit_id r = PermitId 7 1
     \<and> (rec_lease_nonce r = None \<longleftrightarrow> rec_phase r = DispatchReserved)"
proof -
  obtain r where r: "fmlookup (gs_permits (w_state (run_world run_state3 2))) (PermitId 7 1) = Some r"
    using run_outcomes(4) by (auto simp: run_world_def)
  from permits_well_formed [OF reachable_run3 r] r show ?thesis by (auto simp: run_world_def)
qed

text \<open>C21: An operation of a root is in the governor at most once: two live permits never carry the same operation identity,
  and neither does a live permit and a queued request, nor two queued requests with different tickets.\<close>

theorem operations_admitted_once:
  assumes "reachable ps authority w"
  shows "(\<forall>p r p' r'. fmlookup (gs_permits (w_state w)) p = Some r \<and> fmlookup (gs_permits (w_state w)) p' = Some r'
         \<and> rec_root_operation_id r = rec_root_operation_id r' \<and> rec_operation r = rec_operation r' \<longrightarrow> p = p')
    \<and> (\<forall>p r cl q. fmlookup (gs_permits (w_state w)) p = Some r \<and> q \<in> set (queues (w_state w) cl) \<longrightarrow>
         (rec_root_operation_id r, rec_operation r) \<noteq> (pr_root_operation_id q, pr_operation q))
    \<and> (\<forall>cl q cl' q'. q \<in> set (queues (w_state w) cl) \<and> q' \<in> set (queues (w_state w) cl')
         \<and> pr_root_operation_id q = pr_root_operation_id q' \<and> pr_operation q = pr_operation q' \<longrightarrow> pr_ticket q = pr_ticket q')"
proof -
  let ?R = "occupants ident_p ident_q (gs_permits (w_state w)) (queues (w_state w))"
  have "ident_inv (w_state w)" using world_invD(1) [OF reachable_inv [OF assms]] by (simp add: gov_inv_def core_def)
  then have ex: "(x, k) \<in> ?R \<Longrightarrow> (y, k) \<in> ?R \<Longrightarrow> x = y" for x y k
    unfolding ident_ok_def exclusive_def by blast
  have P: "(Inl p, (rec_root_operation_id r, rec_operation r)) \<in> ?R" if "fmlookup (gs_permits (w_state w)) p = Some r" for p r
    using that by (simp add: ident_p_def)
  have Q: "(Inr (pr_ticket q), (pr_root_operation_id q, pr_operation q)) \<in> ?R" if "q \<in> set (queues (w_state w) cl)" for cl q
    using that by (auto simp: ident_q_def)
  show ?thesis
  proof (intro conjI allI impI)
    fix p r p' r' assume a: "fmlookup (gs_permits (w_state w)) p = Some r \<and> fmlookup (gs_permits (w_state w)) p' = Some r'
         \<and> rec_root_operation_id r = rec_root_operation_id r' \<and> rec_operation r = rec_operation r'"
    then have "Inl p = (Inl p' :: occupant)" using ex [OF P [of p r], of "Inl p'"] P [of p' r'] by simp
    then show "p = p'" by simp
  next
    fix p r cl q assume "fmlookup (gs_permits (w_state w)) p = Some r \<and> q \<in> set (queues (w_state w) cl)"
    then show "(rec_root_operation_id r, rec_operation r) \<noteq> (pr_root_operation_id q, pr_operation q)"
      using ex [OF P [of p r], of "Inr (pr_ticket q)"] Q [of q cl] by (auto simp del: Inr_occupants)
  next
    fix cl q cl' q' assume a: "q \<in> set (queues (w_state w) cl) \<and> q' \<in> set (queues (w_state w) cl')
         \<and> pr_root_operation_id q = pr_root_operation_id q' \<and> pr_operation q = pr_operation q'"
    then have "Inr (pr_ticket q) = (Inr (pr_ticket q') :: occupant)"
      using ex [OF Q [of q cl], of "Inr (pr_ticket q')"] Q [of q' cl'] by (simp del: Inr_occupants)
    then show "pr_ticket q = pr_ticket q'" by simp
  qed
qed

theorem operations_admitted_once_witness:
  "reachable run_policies 7 (run_world run_state3 2) \<and>
   \<not> (\<exists>r cl q. fmlookup (gs_permits run_state3) (PermitId 7 1) = Some r \<and> q \<in> set (queues run_state3 cl)
        \<and> (rec_root_operation_id r, rec_operation r) = (pr_root_operation_id q, pr_operation q))"
  using operations_admitted_once [OF reachable_run3] reachable_run3 unfolding run_world_def World.select_convs by blast

lemma fresh_ids_exact:
  assumes "fresh_ids a c = (c', Some ids)"
  shows "next_permit c < u64_max" "next_ticket c < u64_max" "next_seq c < u64_max"
    "ids = \<lparr>ids_permit_id = PermitId a (next_permit c), ids_ticket = Ticket a (next_ticket c), ids_seq_no = next_seq c\<rparr>"
    "c' = \<lparr>next_permit = next_permit c + 1, next_ticket = next_ticket c + 1, next_seq = next_seq c + 1\<rparr>"
  using assms by (cases c, auto simp: fresh_ids_def Let_def take_sequence_Some split: option.splits prod.splits)+

lemma reserved_identities:
  assumes "identities_ok authority w" "ids \<in> w_reserved w"
  shows "ids_permit_id ids \<in> PermitId authority ` {..<next_permit (w_counters w)} - permit_ids (w_state w)
      \<and> ids_ticket ids \<in> Ticket authority ` {..<next_ticket (w_counters w)} - fset (fmdom (gs_tickets (w_state w)))
      \<and> (\<forall>ids' \<in> w_reserved w. ids_ticket ids' = ids_ticket ids \<or> ids_permit_id ids' = ids_permit_id ids
            \<or> ids_seq_no ids' = ids_seq_no ids \<longrightarrow> ids' = ids)"
proof -
  note I = identities_okD [OF assms(1)]
  have "ids_permit_id ids \<in> ids_permit_id ` w_reserved w" "ids_ticket ids \<in> ids_ticket ` w_reserved w" using assms(2) by simp_all
  then have "ids_permit_id ids \<in> PermitId authority ` {..<next_permit (w_counters w)} - permit_ids (w_state w)"
    "ids_ticket ids \<in> Ticket authority ` {..<next_ticket (w_counters w)} - fset (fmdom (gs_tickets (w_state w)))"
    using I(7,8) unfolding ids_below_def by blast+
  moreover have "\<forall>ids' \<in> w_reserved w. ids_ticket ids' = ids_ticket ids \<or> ids_permit_id ids' = ids_permit_id ids
          \<or> ids_seq_no ids' = ids_seq_no ids \<longrightarrow> ids' = ids"
    using assms(2) by (auto dest: inj_onD [OF I(4)] inj_onD [OF I(5)] inj_onD [OF I(6)])
  ultimately show ?thesis by blast
qed

text \<open>C22: Identities are never handed out twice. In every reachable state every permit and ticket the engine knows, and every
  identity an admission on its way to the lock has reserved, carries this governor's authority and a number below its
  counter; what is reserved is in nobody else's hands. The next admission takes exactly the numbers the three counters
  show, each of which is below the largest 64-bit number, advances each counter by one and so gets identities that are
  neither known nor reserved; it fails to get them only when a counter has reached the largest number, and then it is
  refused as \<open>IdentityExhausted\<close> (or its waker panics while it is dropped) with the state untouched: nothing wraps around.\<close>

theorem identities_never_reused:
  assumes "reachable ps authority w"
  shows "permit_ids (w_state w) \<subseteq> PermitId authority ` {..<next_permit (w_counters w)}
    \<and> fset (fmdom (gs_tickets (w_state w))) \<subseteq> Ticket authority ` {..<next_ticket (w_counters w)}
    \<and> (\<forall>ids \<in> w_reserved w.
         ids_permit_id ids \<in> PermitId authority ` {..<next_permit (w_counters w)} - permit_ids (w_state w)
         \<and> ids_ticket ids \<in> Ticket authority ` {..<next_ticket (w_counters w)} - fset (fmdom (gs_tickets (w_state w)))
         \<and> (\<forall>ids' \<in> w_reserved w. ids_ticket ids' = ids_ticket ids \<or> ids_permit_id ids' = ids_permit_id ids
               \<or> ids_seq_no ids' = ids_seq_no ids \<longrightarrow> ids' = ids))
    \<and> (case fresh_ids authority (w_counters w) of
         (c', Some ids) \<Rightarrow>
           next_permit (w_counters w) < u64_max \<and> next_ticket (w_counters w) < u64_max \<and> next_seq (w_counters w) < u64_max
           \<and> ids = \<lparr>ids_permit_id = PermitId authority (next_permit (w_counters w)),
                ids_ticket = Ticket authority (next_ticket (w_counters w)), ids_seq_no = next_seq (w_counters w)\<rparr>
           \<and> c' = \<lparr>next_permit = next_permit (w_counters w) + 1, next_ticket = next_ticket (w_counters w) + 1,
                next_seq = next_seq (w_counters w) + 1\<rparr>
           \<and> ids_permit_id ids \<notin> permit_ids (w_state w) \<union> ids_permit_id ` w_reserved w
           \<and> ids_ticket ids \<notin> fset (fmdom (gs_tickets (w_state w))) \<union> ids_ticket ` w_reserved w
       | (c', None) \<Rightarrow>
           (u64_max \<le> next_permit (w_counters w) \<or> u64_max \<le> next_ticket (w_counters w) \<or> u64_max \<le> next_seq (w_counters w))
           \<and> admit_inner panics ps sampled req wk authority (w_counters w) (w_state w)
               = ((w_state w, c'), dropping panics wk (DecRejected IdentityExhausted)))"
proof -
  note W = world_invD [OF reachable_inv [OF assms]]
  note I = identities_okD [OF W(5)]
  have B: "permit_ids (w_state w) \<subseteq> PermitId authority ` {..<next_permit (w_counters w)}"
    "fset (fmdom (gs_tickets (w_state w))) \<subseteq> Ticket authority ` {..<next_ticket (w_counters w)}"
    using I(7,8) unfolding ids_below_def by blast+
  note R = reserved_identities [OF W(5)]
  show ?thesis
  proof (cases "fresh_ids authority (w_counters w)")
    case (Pair c' taken)
    show ?thesis
    proof (cases taken)
      case None
      note eq = Pair [unfolded None]
      have "admit_inner panics ps sampled req wk authority (w_counters w) (w_state w)
          = ((w_state w, c'), dropping panics wk (DecRejected IdentityExhausted))"
        unfolding admit_inner_def eq prod.case option.case ..
      with fresh_ids_None(5) [OF eq] show ?thesis unfolding eq prod.case option.case by (intro conjI B ballI R)
    next
      case (Some ids)
      note G = fresh_ids_Some [OF Pair [unfolded Some]]
      have "ids_permit_id ids \<notin> permit_ids (w_state w) \<union> ids_permit_id ` w_reserved w"
        unfolding G(1) by (rule permit_space.fresh [OF I(7)])
      moreover have "ids_ticket ids \<notin> fset (fmdom (gs_tickets (w_state w))) \<union> ids_ticket ` w_reserved w"
        using ticket_space.fresh [OF I(8)] unfolding G(2) by blast
      ultimately show ?thesis using fresh_ids_exact [OF Pair [unfolded Some]]
        unfolding Pair Some prod.case option.case by (intro conjI B ballI R)
    qed
  qed
qed

theorem identities_never_reused_witness:
  "reachable run_policies 7 run_start
   \<and> fmlookup (gs_tickets (w_state run_start)) (Ticket 7 1) = None \<and> PermitId 7 1 \<notin> permit_ids (w_state run_start)"
proof -
  have "run_ids 1 \<in> w_reserved run_start" by (simp add: run_start_def)
  with identities_never_reused [OF reachable_run_start] have "PermitId 7 1 \<notin> permit_ids (w_state run_start)"
    "Ticket 7 1 |\<notin>| fmdom (gs_tickets (w_state run_start))" by force+
  then show ?thesis using reachable_run_start by (auto dest: fmdom_notD)
qed

section \<open>Wait cycles\<close>

lemma wait_cycle_nonempty:
  assumes "assess_scope s ps root_id scope parent cl max_inf cost caps qb = WaitCycle witness"
  shows "cw_held witness \<noteq> []"
proof -
  obtain b where "cycle_witness s ps root_id scope parent cl b = Some witness"
    using assms by (auto simp: assess_scope_def Let_def split: if_splits option.splits)
  then show ?thesis by (auto simp: cycle_witness_def bind_eq_Some_conv Let_def split: TaskScope.splits bool.splits if_splits)
qed

text \<open>\<open>only_ancestors s root_id scope parent cl caps held\<close>: the capacity \<open>held\<close> is not empty and all of it is in the hands of
  the awaited ancestors of a request with this scope.\<close>

definition only_ancestors ::
  "GovernedState \<Rightarrow> str \<Rightarrow> TaskScope \<Rightarrow> PermitId option \<Rightarrow> TaskClass \<Rightarrow> CapabilityRequirementSet \<Rightarrow> HeldCapacity list \<Rightarrow> bool" where
  "only_ancestors s root_id scope parent cl caps held \<longleftrightarrow> is_awaited_child scope \<and> held \<noteq> []
     \<and> (\<exists>a. (case parent of Some p \<Rightarrow> Some p | None \<Rightarrow> parent_permit_for_scope s root_id scope) = Some a
         \<and> (\<forall>h \<in> set held. ancestors_hold s cl caps a h))"

lemma wait_cycle_ancestors:
  assumes "gov_inv n s" "capabilities_named ps"
    and w: "assess_scope s ps root_id scope parent cl max_inf cost caps qb = WaitCycle witness"
  shows "only_ancestors s root_id scope parent cl caps (cw_held witness)"
proof -
  have "acct_inv s" using assms(1) by (simp add: gov_inv_def core_def)
  note held = wait_cycle_held [OF this assms(2) w]
  have "hd (cw_held witness) \<in> set (cw_held witness)" using wait_cycle_nonempty [OF w] by simp
  from held [OF this] obtain a where a: "(case parent of Some p \<Rightarrow> Some p | None \<Rightarrow> parent_permit_for_scope s root_id scope) = Some a"
    "is_awaited_child scope" by blast
  with held have "\<forall>h \<in> set (cw_held witness). ancestors_hold s cl caps a h" by auto
  with a wait_cycle_nonempty [OF w] show ?thesis unfolding only_ancestors_def by blast
qed

lemma cycle_in_class_None:
  assumes "queue_indexed cs" "policy_class ps cl = Some policy" "cycle_in_class s ps (cl, cs) = None"
    "r \<in> set (cs_queue cs)" "is_awaited_child (pr_scope r)"
  shows "assess_pending s ps r (max_inflight policy) False \<noteq> WaitCycle witness"
proof
  assume w: "assess_pending s ps r (max_inflight policy) False = WaitCycle witness"
  have idx: "pr_seq_no r \<in> cs_queued_awaited_children cs" using assms(1,4,5) by (auto simp: queue_indexed_def)
  obtain i where "i < length (cs_queue cs)" "cs_queue cs ! i = r" using assms(4) by (auto simp: in_set_conv_nth)
  then have "(i, r) \<in> set (enumerate 0 (cs_queue cs))" by (simp add: in_set_enumerate_eq)
  moreover have "cs_queued_awaited_children cs \<noteq> {}" using idx by blast
  ultimately have "(case (i, r) of (index, request) \<Rightarrow> if pr_seq_no request \<in> cs_queued_awaited_children cs
        then (case assess_pending s ps request (max_inflight policy) False of
                WaitCycle witness \<Rightarrow> Some (cl, index, witness) | _ \<Rightarrow> None)
        else None) = None"
    using assms(2,3) unfolding cycle_in_class_def by (simp only: prod.case if_False option.case find_map_None) (drule bspec, assumption, simp only: prod.case)
  with idx w show False by simp
qed

lemma terminalize_none:
  assumes "terminalize_wait_cycle ps s e = ((s', e'), CycleNone)"
  shows "find_map (cycle_in_class s ps) (bt_entries (gs_classes s)) = None"
proof (rule ccontr)
  assume "find_map (cycle_in_class s ps) (bt_entries (gs_classes s)) \<noteq> None"
  then obtain cl i w where f: "find_map (cycle_in_class s ps) (bt_entries (gs_classes s)) = Some (cl, i, w)" by auto
  then obtain c cs where cs: "fmlookup (gs_classes s) c = Some cs" "cycle_in_class s ps (c, cs) = Some (cl, i, w)"
    by (auto simp: set_bt_entries dest!: find_map_Some)
  then have "c = cl" "i < length (cs_queue cs)" by (auto elim: cycle_in_class_Some)
  then show False using assms f cs(1) by (simp add: terminalize_wait_cycle_def remove_pending_def Let_def)
qed

lemma removed_for_cycle:
  assumes inv: "gov_inv n s" and named: "capabilities_named ps" and eq: "terminalize_wait_cycle ps s e = ((s', e'), CycleRemoved)"
  shows "\<exists>cl cs i held. fmlookup (gs_classes s) cl = Some cs \<and> i < length (cs_queue cs)
           \<and> only_ancestors s (pr_root_operation_id (cs_queue cs ! i)) (pr_scope (cs_queue cs ! i))
               (pr_parent_permit_id (cs_queue cs ! i)) (pr_class (cs_queue cs ! i)) (pr_capabilities (cs_queue cs ! i)) held
           \<and> queues s' = (queues s)(cl := remove_nth i (queues s cl))
           \<and> fmlookup (gs_tickets s') (pr_ticket (cs_queue cs ! i)) = Some (TTerminal (IrreversibleWaitCycle (hd held)))
           \<and> e' = push_wake (pr_waker (cs_queue cs ! i)) e \<and> gs_permits s' = gs_permits s"
proof -
  have perms: "gs_permits s' = gs_permits s" by (rule terminalize_wait_cycle_keeps(4) [OF inv eq])
  have co: "core n s" using inv by (simp add: gov_inv_def)
  show ?thesis using eq
  proof (cases rule: terminalize_wait_cycle_cases)
    case (2 cl cs i w s1 r policy)
    let ?v = "vacate_recursion_guard (pr_root_operation_id r) (pr_target_stage r) (on_unserved_removed cl policy s1)"
    have anc: "only_ancestors s (pr_root_operation_id r) (pr_scope r) (pr_parent_permit_id r) (pr_class r) (pr_capabilities r) (cw_held w)"
      using wait_cycle_ancestors [OF inv named] 2(4,6) by (simp add: assess_pending_def)
    have s1: "gs_terminal_order s1 = gs_terminal_order s" "gs_terminal_index s1 = gs_terminal_index s"
      "gs_terminal_seq s1 = gs_terminal_seq s" "gs_tickets s1 = gs_tickets s"
      using 2(1,3,5) by (auto simp: remove_pending_def forget_queued_identity_def Let_def split: option.splits)
    then have "ring_inv ?v" "gs_terminal_seq ?v < u64_max"
      using coreD(3,8,10) [OF co] by (simp_all add: on_unserved_removed_def)
    from record_terminal_ring(2) [OF this] have t: "fmlookup (gs_tickets s') (pr_ticket r)
        = Some (TTerminal (IrreversibleWaitCycle (hd (cw_held w))))" by (simp add: 2(7))
    have "queues s1 = (queues s)(cl := remove_nth i (queues s cl))" 
      by (rule remove_pending_queues [OF 2(5)])
    moreover have "queues s' = queues s1"
      by (simp add: 2(7) on_unserved_removed_def class_view_def queue_of_same_upd [OF class_unserved_removed_sched(2)] del: queue_of_upd)
    ultimately show ?thesis using 2(1,3,6,8) anc t perms by metis
  qed simp
qed

text \<open>C18: Wait cycles are real, at intake and in the queue. In every state that satisfies the engine's invariant, which is every
  reachable one and every one a promotion pass goes through: a request is assessed at intake as an irreversible wait cycle
  only when the capacity the witness names, of which there is some, is held by nobody but the awaited ancestors of the
  request, each of which waits, directly or through its children, for this request. The removal of a promotion pass takes
  out one queued request, for the same reason only, settles its ticket with the first capacity of the witness and wakes its
  waiter; it leaves the state alone only if no queued request that its parent awaits is in such a cycle.\<close>

theorem wait_cycle_is_real:
  assumes inv: "gov_inv n s" and named: "capabilities_named ps"
    and eq: "terminalize_wait_cycle ps s e = ((s', e'), out)"
  shows "(\<forall>spec cl max_inf cost caps qb witness. assess s ps spec cl max_inf cost caps qb = WaitCycle witness \<longrightarrow>
        only_ancestors s (spec_root_operation_id spec) (spec_scope spec) None cl caps (cw_held witness))
    \<and> (case out of
         CycleNone \<Rightarrow> s' = s \<and> e' = e \<and> (\<forall>cl cs policy r witness. fmlookup (gs_classes s) cl = Some cs
             \<and> policy_class ps cl = Some policy \<and> r \<in> set (cs_queue cs) \<and> is_awaited_child (pr_scope r) \<longrightarrow>
             assess_pending s ps r (max_inflight policy) False \<noteq> WaitCycle witness)
       | CycleRemoved \<Rightarrow> (\<exists>cl cs i held. fmlookup (gs_classes s) cl = Some cs \<and> i < length (cs_queue cs)
           \<and> only_ancestors s (pr_root_operation_id (cs_queue cs ! i)) (pr_scope (cs_queue cs ! i))
               (pr_parent_permit_id (cs_queue cs ! i)) (pr_class (cs_queue cs ! i)) (pr_capabilities (cs_queue cs ! i)) held
           \<and> queues s' = (queues s)(cl := remove_nth i (queues s cl))
           \<and> fmlookup (gs_tickets s') (pr_ticket (cs_queue cs ! i)) = Some (TTerminal (IrreversibleWaitCycle (hd held)))
           \<and> e' = push_wake (pr_waker (cs_queue cs ! i)) e \<and> gs_permits s' = gs_permits s))"
proof -
  have intake: "only_ancestors s (spec_root_operation_id spec) (spec_scope spec) None cl caps (cw_held witness)"
    if "assess s ps spec cl max_inf cost caps qb = WaitCycle witness" for spec cl max_inf cost caps qb witness
    by (rule wait_cycle_ancestors [OF inv named that [unfolded assess_def]])
  have co: "core n s" using inv by (simp add: gov_inv_def)
  show ?thesis
  proof (cases out)
    case CycleNone
    have none: "find_map (cycle_in_class s ps) (bt_entries (gs_classes s)) = None"
      by (rule terminalize_none [OF eq [unfolded CycleNone]])
    have "assess_pending s ps r (max_inflight policy) False \<noteq> WaitCycle witness"
      if h: "fmlookup (gs_classes s) cl = Some cs" "policy_class ps cl = Some policy" "r \<in> set (cs_queue cs)"
        "is_awaited_child (pr_scope r)" for cl cs policy r witness
    proof (rule cycle_in_class_None [OF _ h(2) _ h(3,4)])
      have "class_queue_ok (gs_next_queue_order s) (fmget (gs_classes s) ClassState_default cl)"
        using coreD(6) [OF co] unfolding queue_ok_def by blast
      then show "queue_indexed cs" using h(1) by (simp add: class_queue_ok_def fmget_def)
      show "cycle_in_class s ps (cl, cs) = None" using none h(1) by (auto simp: find_map_None set_bt_entries)
    qed
    moreover have "s' = s" "e' = e" using eq none by (simp_all add: terminalize_wait_cycle_def)
    ultimately show ?thesis using intake unfolding CycleNone CycleTerminalization.case by blast
  next
    case CycleRemoved
    then show ?thesis using removed_for_cycle [OF inv named eq [unfolded CycleRemoved]] intake by simp
  qed
qed

definition run_child :: TaskSpec where
  "run_child = (run_spec ''c'')\<lparr>spec_root_operation_id := lit ''a'', spec_scope := Child (lit ''a'') (lit ''io'') True\<rparr>"

definition cycle_policies :: PolicySet where
  "cycle_policies = run_policies\<lparr>ps_classes := fmap_of_list
     [(lit ''api'', ClassPolicy_default\<lparr>max_inflight := 2, max_queue_depth := 4,
         permit_cost := \<lparr>pc_cpu_units = 1, pc_memory_units = 2\<rparr>, overflow_policy := QueueWithinDepth\<rparr>)]\<rparr>"

text \<open>A child that queued behind another request while its class had a slot left, and finds its parent alone in the class.\<close>

definition cycle_state :: GovernedState where
  "cycle_state = fst (fst (admit_section cycle_policies 25 \<lparr>req_spec = run_child, req_capabilities = []\<rparr> (Some 6) (run_ids 3) run_state2))"

lemma cycle_state_inv: "\<exists>n. gov_inv n cycle_state"
proof -
  let ?w = "run_world run_state2 1" and ?req = "\<lparr>req_spec = run_child, req_capabilities = []\<rparr>"
  note W = world_invD [OF reachable_inv [OF reachable_run2]] and I = identities_okD [OF world_invD(5) [OF reachable_inv [OF reachable_run2]]]
  obtain s0 now where c: "commit_time 25 run_state2 = (s0, now)" by force
  have s0: "gov_inv (entered ?w) s0"
    using sound_commit_time [OF W(1), of run_policies "{}" 25] c by (auto simp: run_world_def dest: sound_inv)
  have same: "gs_permits s0 = gs_permits run_state2" "queues s0 = queues run_state2" "gs_tickets s0 = gs_tickets run_state2"
    using c by (auto simp: commit_time_def Let_def)
  have below: "ids_below (PermitId 7) 3 (permit_ids run_state2) {}" "Ticket 7 3 \<notin> fset (fmdom (gs_tickets run_state2))"
    "ids_below id 3 (used_seqs run_state2) {}"
    using I(7,8,9) by (auto simp: run_world_def run_counters_def ids_below_def)
  have fresh: "ids_fresh (run_ids 3) s0"
    using permit_space.fresh [OF below(1)] below(2) seq_space.fresh [OF below(3)]
    by (fastforce simp: ids_fresh_def same used_seqs_def intro: fmdom_notD)
  have "population run_state2 = 2" by code_simp
  then have room: "fmsum one (gs_permits s0) + total_queued s0 < u32_max"
    using total_queued_cong [OF same(2)] by (simp add: population_def same u32_max_def)
  obtain s' e' d where eq: "admit cycle_policies now ?req (Some 6) (run_ids 3) s0 no_effects = ((s', e'), d)" by (metis prod.collapse)
  have "entered ?w + 1 < u64_max" by (simp add: entered_def run_world_def run_counters_def u64_max_def)
  from admit_effect(1) [OF s0 this fresh _ _ eq] room have "gov_inv (entered ?w + 1) s'" by (simp add: population_def)
  moreover have "cycle_state = s'" by (simp add: cycle_state_def admit_section_def c eq)
  ultimately show ?thesis by blast
qed

theorem wait_cycle_is_real_witness:
  "\<exists>s' e' cl cs i held. terminalize_wait_cycle run_policies cycle_state no_effects = ((s', e'), CycleRemoved)
     \<and> fmlookup (gs_classes cycle_state) cl = Some cs
     \<and> only_ancestors cycle_state (pr_root_operation_id (cs_queue cs ! i)) (pr_scope (cs_queue cs ! i))
         (pr_parent_permit_id (cs_queue cs ! i)) (pr_class (cs_queue cs ! i)) (pr_capabilities (cs_queue cs ! i)) held
     \<and> fmlookup (gs_tickets s') (pr_ticket (cs_queue cs ! i)) = Some (TTerminal (IrreversibleWaitCycle (hd held)))"
proof -
  let ?o = "terminalize_wait_cycle run_policies cycle_state no_effects"
  have "snd ?o = CycleRemoved" by code_simp
  then have eq: "?o = ((fst (fst ?o), snd (fst ?o)), CycleRemoved)" by (simp only: prod_eq_iff fst_conv snd_conv simp_thms)
  have named: "capabilities_named run_policies" by (simp add: capabilities_named_def capability_record_def run_policies_def)
  obtain n where "gov_inv n cycle_state" using cycle_state_inv by blast
  from wait_cycle_is_real [OF this named eq] eq show ?thesis unfolding CycleTerminalization.case by blast
qed

end
