(* ===== verification/TM_Entry.thy ===== *)
theory TM_Entry
  imports TM_Validation TM_Outcomes
begin

text \<open>
  The constructors of \<^verbatim>\<open>engine/governor.rs\<close>, its admission entry points (\<open>admit\<close>, \<open>admit_validated\<close>,
  \<open>admit_waitable\<close>, \<open>admit_resolved\<close>, \<open>admit_validated_requirements\<close>), the public names of
  \<^verbatim>\<open>memory_governance.rs\<close> and the read-only accessors. A governor is its authority, its policy, its counters and the
  state behind its mutex; the clock is sampled by the caller of the model, and the settlement waker is a hint
  outside the lock. An \<open>expect\<close> that fails is \<open>Panicked\<close>; the lemmas show that on a validated policy none does.
\<close>

section \<open>Construction\<close>

record Governor =
  gov_authority :: nat
  gov_policy :: PolicySet
  gov_counters :: Counters
  gov_state :: GovernedState

definition take_process_authority :: "nat \<Rightarrow> (nat \<times> nat) option" where
  "take_process_authority counter = map_option (Pair counter) (checked_add u64_max counter 1)"

definition construct :: "PolicySet \<Rightarrow> nat \<Rightarrow> nat \<times> (GovernorError, Governor) result" where
  "construct policy counter =
     (case take_process_authority counter of
        None \<Rightarrow> (counter, Inl IdentityAuthorityExhausted)
      | Some (authority, next_authority) \<Rightarrow>
          (next_authority,
           Inr \<lparr>gov_authority = authority, gov_policy = policy, gov_counters = Counters_new,
                gov_state = GovernedState_default\<rparr>))"

definition Governor_new :: "PolicySet \<Rightarrow> nat \<Rightarrow> nat \<times> (GovernorError, Governor) result" where
  "Governor_new policy counter =
     (case validate_policy policy of Inl err \<Rightarrow> (counter, Inl err) | Inr _ \<Rightarrow> construct policy counter)"

section \<open>Admission entry points\<close>

definition gov_admit_inner ::
  "(TransitionEffects \<Rightarrow> bool) \<Rightarrow> nat \<Rightarrow> TaskSpec \<Rightarrow> CapabilityRequirementSet \<Rightarrow> waker option \<Rightarrow> Governor
     \<Rightarrow> Governor \<times> AdmissionDecision delivery" where
  "gov_admit_inner panics sampled spec capabilities w g =
     (let ((s, c), decision) = admit_inner panics (gov_policy g) sampled
            \<lparr>req_spec = spec, req_capabilities = capabilities\<rparr> w (gov_authority g) (gov_counters g) (gov_state g)
      in (g\<lparr>gov_counters := c, gov_state := s\<rparr>, decision))"

definition gov_admit_declared ::
  "(TransitionEffects \<Rightarrow> bool) \<Rightarrow> nat \<Rightarrow> TaskSpec \<Rightarrow> waker option \<Rightarrow> Governor \<Rightarrow> Governor \<times> AdmissionDecision delivery" where
  "gov_admit_declared panics sampled spec w g =
     (case declared_requirements (gov_policy g) spec of
        Inl _ \<Rightarrow> (g, Panicked)
      | Inr requirements \<Rightarrow> gov_admit_inner panics sampled spec requirements w g)"

definition gov_admit_waitable ::
  "(TransitionEffects \<Rightarrow> bool) \<Rightarrow> nat \<Rightarrow> TaskSpec \<Rightarrow> waker option \<Rightarrow> Governor \<Rightarrow> Governor \<times> AdmissionDecision delivery" where
  "gov_admit_waitable panics sampled spec w g =
     (case validate_task_spec spec of
        Inl _ \<Rightarrow> (g, dropping panics w (DecRejected MalformedTask))
      | Inr _ \<Rightarrow> gov_admit_declared panics sampled spec w g)"

definition gov_admit ::
  "(TransitionEffects \<Rightarrow> bool) \<Rightarrow> nat \<Rightarrow> TaskSpec \<Rightarrow> Governor \<Rightarrow> Governor \<times> AdmissionDecision delivery" where
  "gov_admit panics sampled spec g =
     (case validate_task_spec spec of
        Inl _ \<Rightarrow> (g, Returned (DecRejected MalformedTask))
      | Inr _ \<Rightarrow> gov_admit_declared panics sampled spec None g)"

text \<open>The argument of \<open>admit_validated\<close> is a \<open>ValidatedTaskPlan\<close>, a specification that passed its validator.\<close>

definition gov_admit_validated ::
  "(TransitionEffects \<Rightarrow> bool) \<Rightarrow> nat \<Rightarrow> TaskSpec \<Rightarrow> Governor \<Rightarrow> Governor \<times> AdmissionDecision delivery" where
  "gov_admit_validated panics sampled plan g = gov_admit_declared panics sampled plan None g"

definition gov_admit_resolved ::
  "(TransitionEffects \<Rightarrow> bool) \<Rightarrow> nat \<Rightarrow> TaskSpec \<Rightarrow> ResolvedCapability \<Rightarrow> waker option \<Rightarrow> Governor
     \<Rightarrow> Governor \<times> (CapabilityResolutionError, AdmissionDecision) result delivery" where
  "gov_admit_resolved panics sampled spec capability w g =
     (case validate_resolved_capability (gov_policy g) capability of
        Inl err \<Rightarrow> (g, dropping panics w (Inl err))
      | Inr _ \<Rightarrow>
          (case validate_task_spec spec of
             Inl _ \<Rightarrow> (g, dropping panics w (Inr (DecRejected MalformedTask)))
           | Inr _ \<Rightarrow>
               (case from_resolved [capability] of
                  Inl err \<Rightarrow> (g, Returned (Inl err))
                | Inr requirements \<Rightarrow>
                    let (g, d) = gov_admit_inner panics sampled spec requirements w g
                    in (g, map_delivery Inr d))))"

definition gov_admit_validated_requirements ::
  "(TransitionEffects \<Rightarrow> bool) \<Rightarrow> nat \<Rightarrow> TaskSpec \<Rightarrow> CapabilityRequirementSet \<Rightarrow> waker option \<Rightarrow> Governor
     \<Rightarrow> Governor \<times> (CapabilityResolutionError, AdmissionDecision) result delivery" where
  "gov_admit_validated_requirements panics sampled plan requirements w g =
     (case validate_requirements (gov_policy g) requirements of
        Inl err \<Rightarrow> (g, dropping panics w (Inl err))
      | Inr _ \<Rightarrow>
          let (g, d) = gov_admit_inner panics sampled plan requirements w g
          in (g, map_delivery Inr d))"

section \<open>Memory governance and accessors\<close>

definition reconcile_memory :: "PolicySet \<Rightarrow> nat \<Rightarrow> PermitId \<Rightarrow> nat \<Rightarrow> GovernedState \<Rightarrow> GovernedState \<times> ReconcileOutcome" where
  "reconcile_memory ps sampled p measured_bytes s = reconcile_memory_inner ps sampled p measured_bytes None s"

definition reconcile_memory_at ::
  "PolicySet \<Rightarrow> nat \<Rightarrow> PermitId \<Rightarrow> nat \<Rightarrow> nat \<Rightarrow> GovernedState \<Rightarrow> GovernedState \<times> ReconcileOutcome" where
  "reconcile_memory_at ps sampled p measured_bytes epoch s = reconcile_memory_inner ps sampled p measured_bytes (Some epoch) s"

definition gov_release_stage_memory ::
  "PolicySet \<Rightarrow> nat \<Rightarrow> PermitId \<Rightarrow> nat \<Rightarrow> GovernedState \<Rightarrow> GovernedState \<times> StageReleaseOutcome" where
  "gov_release_stage_memory ps sampled p units s = release_stage_memory_inner ps sampled p units None s"

definition release_stage_memory_seq ::
  "PolicySet \<Rightarrow> nat \<Rightarrow> PermitId \<Rightarrow> nat \<Rightarrow> nat \<Rightarrow> GovernedState \<Rightarrow> GovernedState \<times> StageReleaseOutcome" where
  "release_stage_memory_seq ps sampled p units sq s = release_stage_memory_inner ps sampled p units (Some sq) s"

definition gov_reap_leaks :: "PolicySet \<Rightarrow> nat \<Rightarrow> GovernedState \<Rightarrow> GovernedState \<times> LeakSweepReport" where
  "gov_reap_leaks ps sampled s = reap_leaks_with ps sampled DEFAULT_LEAK_STALE_MS s"

definition root_attribution :: "GovernedState \<Rightarrow> str \<Rightarrow> RootAttribution option" where
  "root_attribution s root = map_option (\<lambda>r.
     \<lparr>ra_child_inflight = root_child_inflight r, ra_cpu_units = root_cpu_units r, ra_memory_units = root_memory_units r,
      ra_active_stages = card (root_active_stages r)\<rparr>) (fmlookup (gs_roots s) root)"

definition permit_provenance :: "GovernedState \<Rightarrow> PermitId \<Rightarrow> Provenance option" where
  "permit_provenance s p = map_option rec_provenance (fmlookup (gs_permits s) p)"

definition gov_checkpoint_policy :: "PolicySet \<Rightarrow> TaskClass \<Rightarrow> CheckpointPolicy option" where
  "gov_checkpoint_policy ps cl = map_option checkpoint_policy (policy_class ps cl)"

definition gov_substrates :: "PolicySet \<Rightarrow> SubstrateRecord list" where
  "gov_substrates ps = inventory_snapshot (ps_substrates ps)"

section \<open>A validated policy resolves every declared capability\<close>

definition builtin_pools :: "str set" where
  "builtin_pools = {lit ''cpu'', lit ''blocking'', lit ''large_stack'', lit ''maintenance'', lit ''local_runtime''}"

lemma hint_pool_builtin: "capability_pool h = Some pool \<Longrightarrow> pool \<in> builtin_pools"
  by (cases h) (auto simp: builtin_pools_def)

lemma builtin_pool_resolves:
  assumes "policy_ok ps" "pool \<in> builtin_pools"
  shows "\<exists>i. resolve_capability ps pool = Inr (Registered i) \<and> capability_key ps pool = Some i"
proof -
  have "\<forall>q \<in> builtin_pools. \<exists>b \<in> set builtin_records. sub_capability_pool b = Some q \<and> sub_kind b \<noteq> AuthorityOnly"
    by (simp add: builtin_pools_def builtin_records_def SubstrateRecord_new_def)
  then obtain b where b: "b \<in> set builtin_records" "sub_capability_pool b = Some pool" "sub_kind b \<noteq> AuthorityOnly"
    using assms(2) by blast
  have inv: "inventory_ok ps" using assms(1) by (simp add: policy_ok_def)
  obtain r where r: "fmlookup (ps_substrates ps) (sub_name b) = Some r"
    "sub_kind r = sub_kind b" "sub_capability_pool r = sub_capability_pool b"
    using inv b(1) unfolding inventory_ok_def by blast
  from inv have "sub_kind r \<noteq> AuthorityOnly \<longrightarrow>
      (\<exists>q. sub_capability_pool r = Some q \<and> trim q \<noteq> [] \<and> capability_key ps q \<noteq> None)"
    unfolding inventory_ok_def using r(1) by blast
  then have "trim pool \<noteq> [] \<and> capability_key ps pool \<noteq> None" using r b(2,3) by simp
  then show ?thesis by (auto simp: resolve_capability_def)
qed

lemma result_list_ok:
  assumes "\<forall>r \<in> set rs. \<exists>x. r = Inr x \<and> P x"
  shows "\<exists>xs. result_list rs = Inr xs \<and> (\<forall>x \<in> set xs. P x)"
  using assms by (induction rs) fastforce+

lemma declared_requirements_ok:
  assumes "policy_ok ps"
  shows "\<exists>out. declared_requirements ps spec = Inr out \<and> sorted out \<and> distinct out \<and> validate_requirements ps out = Inr ()"
proof -
  let ?ids = "the ` capability_key ps ` builtin_pools"
  let ?f = "\<lambda>stage. case capability_pool (substrate_hint stage) of None \<Rightarrow> Inr Ungated | Some pool \<Rightarrow> resolve_capability ps pool"
  let ?P = "\<lambda>x. \<forall>i. x = Registered i \<longrightarrow> i \<in> ?ids \<and> fmlookup (ps_capabilities ps) i \<noteq> None"
  have "\<exists>x. ?f st = Inr x \<and> ?P x" for st
  proof (cases "capability_pool (substrate_hint st)")
    case (Some pool)
    then have pool: "pool \<in> builtin_pools" by (rule hint_pool_builtin)
    then obtain i where i: "resolve_capability ps pool = Inr (Registered i)" "capability_key ps pool = Some i"
      using builtin_pool_resolves [OF assms] by blast
    have "i \<in> ?ids" using pool i(2) by force
    then show ?thesis using Some i capability_key_Some [OF i(2)] by simp
  qed simp
  then have "\<forall>r \<in> set (map ?f (spec_stages spec)). \<exists>x. r = Inr x \<and> ?P x" unfolding set_map by blast
  from result_list_ok [OF this] obtain cs where cs: "result_list (map ?f (spec_stages spec)) = Inr cs" "\<forall>x \<in> set cs. ?P x"
    by blast
  have fin: "finite ?ids" by (simp add: builtin_pools_def)
  have "card ?ids \<le> card builtin_pools" by (metis (no_types) image_image card_image_le builtin_pools_def finite.emptyI finite_insert)
  also have "card builtin_pools \<le> 5" unfolding builtin_pools_def by (rule card_insert_le_m1 | simp)+
  finally have "card ?ids \<le> MAX_CAPABILITY_REQUIREMENTS" by (simp add: MAX_CAPABILITY_REQUIREMENTS_def)
  moreover have sub: "{c. Registered c \<in> set cs} \<subseteq> ?ids" using cs(2) by blast
  ultimately have "card {c. Registered c \<in> set cs} \<le> MAX_CAPABILITY_REQUIREMENTS"
    using card_mono [OF fin sub] by linarith
  then obtain out where out: "from_resolved_loop [] cs = Inr out"
    using from_resolved_loop_ok [of cs "[]"] finite_subset [OF sub fin] by auto
  have spec: "sorted out" "distinct out" "set out = {c. Registered c \<in> set cs}"
    using from_resolved_loop_spec [OF out] by simp_all
  have "declared_requirements ps spec = Inr out"
    using cs(1) out by (simp add: declared_requirements_def from_resolved_def)
  moreover have "validate_requirements ps out = Inr ()"
    using spec(3) cs(2) by (auto simp: validate_requirements_def list_all_iff)
  ultimately show ?thesis using spec by blast
qed

section \<open>Construction and the first admission\<close>

lemma Governor_new_ok:
  "Governor_new ps counter = (c', Inr g) \<longleftrightarrow>
     policy_ok ps \<and> counter < u64_max \<and> c' = counter + 1
     \<and> g = \<lparr>gov_authority = counter, gov_policy = ps, gov_counters = Counters_new, gov_state = GovernedState_default\<rparr>"
  using policy_ok_validates [of ps]
  by (cases "validate_policy ps")
     (auto simp: Governor_new_def construct_def take_process_authority_def checked_add_def split: if_splits)

lemma default_fits:
  assumes ok: "class_policy_ok ps cl policy" "\<not> is_disabled policy" and caps: "validate_requirements ps caps = Inr ()"
    and repr: "pc_cpu_units (permit_cost policy) \<le> u32_max" "pc_memory_units (permit_cost policy) \<le> u32_max"
  shows "fits GovernedState_default ps cl (max_inflight policy) (resolve_cost policy) caps"
proof -
  have "capability_free GovernedState_default ps i" if "i \<in> set caps" for i
    using that caps
    by (auto simp: capability_free_def validate_requirements_def list_all_iff capability_record_def capability_in_use_def
        GovernedState_default_def split: if_splits)
  moreover have "u32_max \<le> u128_max" by (simp add: u32_max_def u128_max_def)
  ultimately show ?thesis using ok repr
    by (auto simp: fits_def class_policy_ok_def fits_alone_def is_disabled_def inflight_def GovernedState_default_def
        resolve_cost_def)
qed

lemma default_enters:
  assumes "policy_class ps cl = Some policy" "\<not> is_disabled policy"
  shows "may_enter ps \<lparr>req_spec = spec, req_capabilities = caps\<rparr> cl policy (GovernedState_default\<lparr>gs_commit_watermark_ms := t\<rparr>)"
    and "\<not> queued_ahead (GovernedState_default\<lparr>gs_commit_watermark_ms := t\<rparr>) policy cl caps"
  using assms
  by (simp_all add: may_enter_def has_operation_identity_def permits_for_operation_def is_recursive_def queued_ahead_def
      GovernedState_default_def split: TaskScope.splits)

lemma fits_watermark [simp]: "fits (s\<lparr>gs_commit_watermark_ms := t\<rparr>) ps cl m cost caps = fits s ps cl m cost caps"
  by (simp add: fits_def capability_free_def capability_in_use_def inflight_def)

lemma first_admission:
  assumes ok: "policy_ok ps" and p: "policy_class ps (spec_class spec) = Some policy" "\<not> is_disabled policy" "policy_width policy"
    and caps: "validate_requirements ps caps = Inr ()"
  shows "\<exists>s. admit_section ps sampled \<lparr>req_spec = spec, req_capabilities = caps\<rparr> None ids GovernedState_default
    = ((s, no_effects), DecAdmitted (ids_permit_id ids))"
proof -
  let ?s = "GovernedState_default\<lparr>gs_commit_watermark_ms := max sampled (gs_commit_watermark_ms GovernedState_default)\<rparr>"
  let ?req = "\<lparr>req_spec = spec, req_capabilities = caps\<rparr>"
  have "class_policy_ok ps (spec_class spec) policy" using ok p(1) by (simp add: policy_ok_def policy_class_def)
  then have "fits ?s ps (spec_class spec) (max_inflight policy) (resolve_cost policy) caps"
    using default_fits p(2,3) caps unfolding fits_watermark policy_width_def by blast
  then have "assess ?s ps (req_spec ?req) (spec_class spec) (max_inflight policy) (resolve_cost policy) (req_capabilities ?req)
      (queued_ahead ?s policy (spec_class spec) (req_capabilities ?req)) = Runnable"
    using default_enters(2) [OF p(1,2)] by (simp add: assess_Runnable)
  then have "admit_class ps t ?req (spec_class spec) None ids True ?s no_effects
      = ((grant (admission_grant (spec_class spec) ?req (resolve_cost policy) ids t ?s) ?s, no_effects), DecAdmitted (ids_permit_id ids))" for t
    by (simp only: admit_class_entered [OF default_enters(1) [OF p(1,2)]] Let_def CapacityAssessment.case retire_None)
  moreover have "\<not> gs_admission_closed ?s" by (simp add: GovernedState_default_def)
  ultimately show ?thesis by (simp add: admit_section_def commit_time_def admit_def Let_def)
qed

text \<open>C33: Every governor that construction accepts serves every class it configures: admission of a valid specification of an
  enabled class, from the first state of a governor that \<open>Governor::new\<close> returned, is granted. No accepted policy is
  contradictory: no impossible budget, no unresolved built-in pool, no \<open>expect\<close> that fails.\<close>

theorem new_governor_serves:
  assumes "Governor_new ps counter = (c', Inr g)" and "validate_task_spec spec = Inr ()"
    and "policy_class ps (spec_class spec) = Some policy" "\<not> is_disabled policy" "policy_width policy"
    and "\<not> panics no_effects"
  shows "\<exists>g'. gov_admit panics sampled spec g = (g', Returned (DecAdmitted (PermitId counter 1)))"
proof -
  have ok: "policy_ok ps" and g: "gov_policy g = ps" "gov_authority g = counter" "gov_counters g = Counters_new"
    "gov_state g = GovernedState_default"
    using assms(1) by (simp_all add: Governor_new_ok)
  obtain caps where caps: "declared_requirements ps spec = Inr caps" "validate_requirements ps caps = Inr ()"
    using declared_requirements_ok [OF ok] by blast
  define ids where "ids = \<lparr>ids_permit_id = PermitId counter 1, ids_ticket = Ticket counter 1, ids_seq_no = 1\<rparr>"
  have fresh: "\<exists>c. fresh_ids counter Counters_new = (c, Some ids)"
    by (simp add: fresh_ids_def Counters_new_def take_sequence_def checked_add_def u64_max_def Let_def ids_def)
  obtain s where adm: "admit_section ps sampled \<lparr>req_spec = spec, req_capabilities = caps\<rparr> None ids GovernedState_default
      = ((s, no_effects), DecAdmitted (PermitId counter 1))"
    using first_admission [OF ok assms(3-5) caps(2)] by (metis ids_def Ids.select_convs(1))
  show ?thesis using fresh adm assms(2,6)
    by (auto simp: gov_admit_def gov_admit_declared_def g caps(1) gov_admit_inner_def admit_inner_def)
qed

text \<open>A malformed specification is refused before the lock: admission answers \<open>MalformedTask\<close> and leaves the governor,
  its counters included, as it was; a well-formed one enters with a canonical set of capabilities of this very policy.\<close>

theorem malformed_never_enters:
  assumes "Governor_new ps counter = (c', Inr g0)" "gov_policy g = gov_policy g0"
  shows "if plan_ok spec
    then \<exists>caps. sorted caps \<and> distinct caps \<and> validate_requirements ps caps = Inr ()
       \<and> gov_admit_waitable panics sampled spec w g = gov_admit_inner panics sampled spec caps w g
    else gov_admit_waitable panics sampled spec w g = (g, dropping panics w (DecRejected MalformedTask))"
proof (cases "plan_ok spec")
  case True
  have ok: "policy_ok ps" "gov_policy g = ps" using assms by (simp_all add: Governor_new_ok)
  obtain caps where caps: "declared_requirements ps spec = Inr caps" "sorted caps" "distinct caps"
    "validate_requirements ps caps = Inr ()" using declared_requirements_ok [OF ok(1), of spec] by blast
  have "validate_task_spec spec = Inr ()" using True by (simp only: plan_ok_validates)
  then have "gov_admit_waitable panics sampled spec w g = gov_admit_inner panics sampled spec caps w g"
    by (simp add: gov_admit_waitable_def gov_admit_declared_def ok(2) caps(1))
  with caps True show ?thesis by auto
next
  case False
  then have "validate_task_spec spec \<noteq> Inr ()" by (simp add: plan_ok_validates)
  then obtain err where "validate_task_spec spec = Inl err" by (cases "validate_task_spec spec") auto
  then show ?thesis using False by (simp add: gov_admit_waitable_def)
qed

definition entry_policies :: PolicySet where
  "entry_policies = PolicySet_new 9
     \<lparr>max_cpu_units = 4, max_memory_units = 0, per_request_max_cpu_units = 2,
      per_request_max_memory_units = 0, memory_unit_scale = MemoryUnitScale_default\<rparr>
     (fmap_of_list [(lit ''api'', ClassPolicy_default\<lparr>max_inflight := 1, max_queue_depth := 4,
         permit_cost := \<lparr>pc_cpu_units = 1, pc_memory_units = 2\<rparr>, overflow_policy := QueueWithinDepth\<rparr>)])"

definition entry_governor :: Governor where
  "entry_governor = \<lparr>gov_authority = 7, gov_policy = entry_policies, gov_counters = Counters_new,
     gov_state = GovernedState_default\<rparr>"

lemma entry_governor_new: "Governor_new entry_policies 7 = (8, Inr entry_governor)"
proof -
  have "validate_policy entry_policies = Inr ()" by code_simp
  then show ?thesis unfolding Governor_new_ok policy_ok_validates by (simp add: entry_governor_def u64_max_def)
qed

theorem new_governor_serves_witness:
  "\<exists>g'. gov_admit (\<lambda>_. False) 5 (run_spec ''a'') entry_governor = (g', Returned (DecAdmitted (PermitId 7 1)))"
proof -
  have v: "validate_task_spec (run_spec ''a'') = Inr ()" by code_simp
  obtain policy where "policy_class entry_policies (spec_class (run_spec ''a'')) = Some policy"
    "\<not> is_disabled policy" "policy_width policy"
    by (simp add: policy_class_def entry_policies_def PolicySet_new_def run_spec_def TaskSpec_base_def lit_def is_disabled_def
        policy_width_def ClassPolicy_default_def u32_max_def)
  from new_governor_serves [OF entry_governor_new v this, of "\<lambda>_. False" 5] show ?thesis by simp
qed

theorem malformed_never_enters_witness:
  "gov_admit_waitable (\<lambda>_. False) 5 (run_spec []) (Some 3) entry_governor = (entry_governor, Returned (DecRejected MalformedTask))"
proof -
  have "case validate_task_spec (run_spec []) of Inr _ \<Rightarrow> False | _ \<Rightarrow> True" by code_simp
  then have "\<not> plan_ok (run_spec [])" unfolding plan_ok_validates [symmetric] by auto
  with malformed_never_enters [OF entry_governor_new refl, of "run_spec []" "\<lambda>_. False" 5 "Some 3"] show ?thesis
    by (simp add: dropping_def)
qed

text \<open>A queue holds requests of configured classes only, and every one of them is known to the ticket table under its class:
  the lookups the engine guards with \<open>expect\<close> (the policy of a queued class, on promotion, abandon, wait-cycle removal and
  fail-stop) succeed in every reachable state.\<close>

theorem queued_classes_configured:
  assumes "reachable ps authority w" "r \<in> set (queues (w_state w) cl)"
  shows "policy_class ps cl \<noteq> None \<and> pr_class r = cl \<and> fmlookup (gs_tickets (w_state w)) (pr_ticket r) = Some (TQueued cl)"
proof -
  note W = world_invD [OF reachable_inv [OF assms(1)]]
  have "length (queues (w_state w) cl) \<noteq> 0" using assms(2) by auto
  with W(4) have "policy_class ps cl \<noteq> None" unfolding depth_ok_def by (metis le_zero_eq option.case_eq_if)
  moreover have "ticket_inv (w_state w)" using W(1) by (simp add: gov_inv_def core_def)
  then have "live (w_state w) (pr_ticket r) = Some (TQueued cl) \<and> pr_class r = cl" using assms(2) by (rule ticket_okD(3))
  ultimately show ?thesis by (auto simp: live_tickets_def split: option.splits TicketState.splits if_splits)
qed

theorem queued_classes_configured_witness:
  "\<exists>r \<in> set (queues run_state3 (lit ''api'')). policy_class run_policies (pr_class r) \<noteq> None"
proof -
  have "queues run_state3 (lit ''api'') \<noteq> []" by code_simp
  then obtain r where r: "r \<in> set (queues (w_state (run_world run_state3 2)) (lit ''api''))"
    unfolding run_world_def using list.set_sel(1) by fastforce
  have "policy_class run_policies (pr_class r) \<noteq> None" using queued_classes_configured [OF reachable_run3 r] by simp
  with r show ?thesis by (intro bexI [of _ r]) (simp_all add: run_world_def)
qed

end
