(* ===== verification/TM_Observation.thy ===== *)
theory TM_Observation
  imports TM_Entry
begin

text \<open>
  \<^verbatim>\<open>engine/governor/observation.rs\<close>: the snapshot, the view of a queued ticket and the ledger views. What they show is tied
  to the state: a snapshot of a reachable governor passes its own conservation check, a view exists for exactly the queued
  tickets, and the ledger views add up to the totals of the snapshot.
\<close>

section \<open>The snapshot\<close>

definition class_projection :: "ClassState \<Rightarrow> ClassSnapshot" where
  "class_projection c =
     \<lparr>snap_inflight = cs_inflight c, snap_queued = cs_queued c, snap_cpu_units_held = cs_cpu_units_held c,
      snap_memory_units_held = cs_memory_units_held c, snap_dispatch_reserved = cs_dispatch_reserved c,
      snap_accepted = cs_accepted c, snap_running = cs_running c, snap_cleanup_pending = cs_cleanup_pending c,
      snap_admitted_total = cs_admitted_total c, snap_started_total = cs_started_total c,
      snap_terminated_total = cs_terminated_total c\<rparr>"

definition snapshot_class :: "GovernedState \<Rightarrow> TaskClass \<Rightarrow> ClassSnapshot" where
  "snapshot_class s cl = (case fmlookup (gs_classes s) cl of None \<Rightarrow> ClassSnapshot_default | Some c \<Rightarrow> class_projection c)"

definition or_insert :: "'k \<Rightarrow> 'v \<Rightarrow> ('k, 'v) fmap \<Rightarrow> ('k, 'v) fmap" where
  "or_insert k v m = (if fmlookup m k = None then fmupd k v m else m)"

definition snapshot :: "PolicySet \<Rightarrow> GovernedState \<Rightarrow> Snapshot" where
  "snapshot ps s =
     (let known = bt_keys (ps_classes ps) @ bt_keys (gs_classes s);
          classes = fold (\<lambda>cl m. or_insert cl (snapshot_class s cl) m) known fmempty;
          capabilities = fold (\<lambda>record m.
              fmupd (cap_name record)
                \<lparr>usage_in_use = capability_in_use s (cap_id record), usage_limit = capacity_limit (cap_capacity record)\<rparr> m)
            (bt_values (ps_capabilities ps)) fmempty
      in \<lparr>schema_version = SNAPSHOT_SCHEMA_VERSION, snap_classes = classes,
          snap_substrates = inventory_snapshot (ps_substrates ps), snap_capabilities = capabilities\<rparr>)"

section \<open>Views of tickets and ledgers\<close>

record PendingView =
  pv_class :: TaskClass
  pv_request_key :: str
  pv_blocked_on :: CapacityBlock
  pv_assessment :: CapacityAssessment
  pv_enqueued_at_ms :: nat
  pv_queue_wait_ms :: nat
  pv_capabilities :: CapabilityRequirementSet

definition pending_view :: "PolicySet \<Rightarrow> GovernedState \<Rightarrow> Ticket \<Rightarrow> PendingView option" where
  "pending_view ps s t =
     (case fmlookup (gs_tickets s) t of
        Some (TQueued cl) \<Rightarrow>
          Option.bind (fmlookup (gs_classes s) cl) (\<lambda>cs.
          Option.bind (List.find (\<lambda>r. pr_ticket r = t) (cs_queue cs)) (\<lambda>r.
          Option.bind (policy_class ps cl) (\<lambda>policy.
            let assessment = assess_pending s ps r (max_inflight policy) (gs_promotion_pending s \<or> has_queued_predecessor cs r);
                blocked_on = (case assessment of
                                Runnable \<Rightarrow> BlockOk
                              | ReversiblyBlocked blockers \<Rightarrow> blockers_primary blockers
                              | WaitCycle _ \<Rightarrow> pr_blocked_on r)
            in Some \<lparr>pv_class = pr_class r, pv_request_key = pr_request_key r, pv_blocked_on = blocked_on,
                 pv_assessment = assessment, pv_enqueued_at_ms = pr_enqueued_at_ms r,
                 pv_queue_wait_ms = gs_commit_watermark_ms s - pr_enqueued_at_ms r,
                 pv_capabilities = pr_capabilities r\<rparr>)))
      | _ \<Rightarrow> None)"

definition pending_block_reason :: "PolicySet \<Rightarrow> GovernedState \<Rightarrow> Ticket \<Rightarrow> CapacityBlock option" where
  "pending_block_reason ps s t = map_option pv_blocked_on (pending_view ps s t)"

definition pending_assessment :: "PolicySet \<Rightarrow> GovernedState \<Rightarrow> Ticket \<Rightarrow> CapacityAssessment option" where
  "pending_assessment ps s t = map_option pv_assessment (pending_view ps s t)"

record PermitLedgerView =
  lv_permit_id :: PermitId
  lv_class :: TaskClass
  lv_capabilities :: CapabilityRequirementSet
  lv_phase :: ExecutionPhase
  lv_cpu_units :: nat
  lv_original_estimate_units :: nat
  lv_remaining_reservation_units :: nat
  lv_effective_units :: nat
  lv_measured_bytes :: nat
  lv_measurement_epoch :: nat
  lv_leased_at_ms :: nat
  lv_last_touched_ms :: nat

definition ledger_view :: "PermitId \<Rightarrow> PermitRecord \<Rightarrow> PermitLedgerView" where
  "ledger_view p r =
     \<lparr>lv_permit_id = p, lv_class = rec_class r, lv_capabilities = rec_capabilities r, lv_phase = rec_phase r,
      lv_cpu_units = pl_cpu_units (rec_ledger r), lv_original_estimate_units = pl_original_estimate_units (rec_ledger r),
      lv_remaining_reservation_units = pl_remaining_reservation_units (rec_ledger r),
      lv_effective_units = pl_effective_units (rec_ledger r), lv_measured_bytes = pl_measured_bytes (rec_ledger r),
      lv_measurement_epoch = pl_measurement_sequence (rec_ledger r), lv_leased_at_ms = pl_leased_at_ms (rec_ledger r),
      lv_last_touched_ms = pl_last_touched_ms (rec_ledger r)\<rparr>"

definition permit_ledger :: "GovernedState \<Rightarrow> PermitId \<Rightarrow> PermitLedgerView option" where
  "permit_ledger s p = map_option (ledger_view p) (fmlookup (gs_permits s) p)"

definition permit_ledgers :: "GovernedState \<Rightarrow> PermitLedgerView list" where
  "permit_ledgers s = map (\<lambda>r. ledger_view (rec_permit_id r) r) (bt_values (gs_permits s))"

definition accounting_fault :: "GovernedState \<Rightarrow> string option" where
  "accounting_fault s = gs_accounting_fault s"

definition gov_close_admission :: "Governor \<Rightarrow> Governor" where
  "gov_close_admission g = g\<lparr>gov_state := close_admission (gov_state g)\<rparr>"

definition admission_closed :: "GovernedState \<Rightarrow> bool" where
  "admission_closed s = gs_admission_closed s"

definition gov_retained_terminal_tickets :: "Governor \<Rightarrow> nat" where
  "gov_retained_terminal_tickets g = retained_terminal_tickets (gov_state g)"

section \<open>What a snapshot shows\<close>

lemma or_insert_lookup: "fmlookup (or_insert k v m) x = (if x = k \<and> fmlookup m k = None then Some v else fmlookup m x)"
  by (simp add: or_insert_def)

lemma fold_or_insert:
  "fmlookup (fold (\<lambda>cl m. or_insert cl (f cl) m) ks m) x =
     (case fmlookup m x of Some v \<Rightarrow> Some v | None \<Rightarrow> if x \<in> set ks then Some (f x) else None)"
  by (induction ks arbitrary: m) (auto simp: or_insert_lookup split: option.splits)

lemma snapshot_classes:
  "fmlookup (snap_classes (snapshot ps s)) cl =
     (if cl |\<in>| fmdom (ps_classes ps) \<or> cl |\<in>| fmdom (gs_classes s) then Some (snapshot_class s cl) else None)"
  by (simp add: snapshot_def Let_def fold_or_insert)

lemma fold_fmupd_from:
  "fmlookup (fold (\<lambda>r m. fmupd (g r) (f r) m) rs m) x = Some v \<Longrightarrow> fmlookup m x = Some v \<or> (\<exists>r \<in> set rs. g r = x \<and> v = f r)"
  by (induction rs arbitrary: m) (fastforce split: if_splits)+

lemma snapshot_pools:
  assumes "fmlookup (snap_capabilities (snapshot ps s)) pool = Some u"
  shows "\<exists>i c. fmlookup (ps_capabilities ps) i = Some c \<and> cap_name c = pool
    \<and> u = \<lparr>usage_in_use = capability_in_use s (cap_id c), usage_limit = capacity_limit (cap_capacity c)\<rparr>"
proof -
  have "\<exists>c \<in> set (bt_values (ps_capabilities ps)). cap_name c = pool
      \<and> u = \<lparr>usage_in_use = capability_in_use s (cap_id c), usage_limit = capacity_limit (cap_capacity c)\<rparr>"
    using fold_fmupd_from [OF assms [unfolded snapshot_def Let_def Snapshot.select_convs]] by simp
  then show ?thesis unfolding Bex_def set_bt_values by blast
qed

lemma snapshot_class_default [simp]: "class_projection ClassState_default = ClassSnapshot_default"
  by (simp add: class_projection_def ClassState_default_def ClassSnapshot_default_def cs_queued_def)

lemma snapshot_class_eq: "snapshot_class s cl = class_projection (fmget (gs_classes s) ClassState_default cl)"
  by (simp add: snapshot_class_def fmget_def split: option.split)

lemma phase_partition:
  "fmsum (owned cl (in_phase DispatchReserved)) ps + fmsum (owned cl (in_phase Accepted)) ps
     + fmsum (owned cl (in_phase Running)) ps + fmsum (owned cl (in_phase CleanupPending)) ps = fmsum (owned cl one) ps"
  unfolding fmsum_def sum.distrib [symmetric]
proof (rule sum.cong [OF refl])
  fix k
  show "owned cl (in_phase DispatchReserved) (the (fmlookup ps k)) + owned cl (in_phase Accepted) (the (fmlookup ps k))
      + owned cl (in_phase Running) (the (fmlookup ps k)) + owned cl (in_phase CleanupPending) (the (fmlookup ps k))
      = owned cl one (the (fmlookup ps k))"
    by (cases "rec_phase (the (fmlookup ps k))") (simp_all add: owned_def)
qed

lemma started_partition:
  "fmsum (owned cl (in_phase Running)) ps + fmsum (owned cl (in_phase CleanupPending)) ps = fmsum (owned cl started) ps"
  unfolding fmsum_def sum.distrib [symmetric]
  by (rule sum.cong [OF refl]) (simp add: owned_def has_started_def)

lemma started_le: "fmsum (owned cl started) ps \<le> fmsum (owned cl one) ps"
  unfolding fmsum_def by (rule sum_mono) (simp add: owned_def)

lemma class_ok_phases:
  assumes "class_ok cl cs ps"
  shows "cs_dispatch_reserved cs + cs_accepted cs + cs_running cs + cs_cleanup_pending cs = cs_inflight cs"
    and "cs_running cs + cs_cleanup_pending cs = fmsum (owned cl started) ps"
proof -
  have slot: "phase_slot p cs = fmsum (owned cl (in_phase p)) ps" for p using assms by (simp add: class_ok_def)
  have "cs_inflight cs = fmsum (owned cl one) ps" using assms by (simp add: class_ok_def)
  then show "cs_dispatch_reserved cs + cs_accepted cs + cs_running cs + cs_cleanup_pending cs = cs_inflight cs"
    "cs_running cs + cs_cleanup_pending cs = fmsum (owned cl started) ps"
    using phase_partition [of cl ps] started_partition [of cl ps]
    unfolding slot [symmetric] by simp_all
qed

lemma class_ok_conserves:
  assumes "class_ok cl cs ps" "cs_admitted_total cs \<le> u128_max"
  shows "class_conserves (class_projection cs)"
proof -
  have "cs_inflight cs = fmsum (owned cl one) ps" "cs_admitted_total cs = cs_inflight cs + cs_terminated_total cs"
    "fmsum (owned cl started) ps \<le> cs_started_total cs"
    "cs_started_total cs + cs_inflight cs \<le> cs_admitted_total cs + fmsum (owned cl started) ps"
    using assms(1) by (simp_all add: class_ok_def)
  with class_ok_phases [OF assms(1)] assms(2) started_le [of cl ps] show ?thesis
    by (simp add: class_conserves_def class_projection_def)
qed

lemma reachable_classes:
  assumes "reachable ps authority w"
  shows "class_ok cl (fmget (gs_classes (w_state w)) ClassState_default cl) (gs_permits (w_state w))"
proof -
  have "acct_inv (w_state w)" using world_invD(1) [OF reachable_inv [OF assms]] by (simp add: gov_inv_def core_def)
  then show ?thesis by (rule acct_okD(3))
qed

lemma reachable_capability:
  assumes "reachable ps authority w" "capability_record ps i = Some c" "capacity_limit (cap_capacity c) \<noteq> 0"
  shows "capability_in_use (w_state w) i \<le> capacity_limit (cap_capacity c)"
proof -
  note W = world_invD [OF reachable_inv [OF assms(1)]]
  have "acct_inv (w_state w)" using W(1) by (simp add: gov_inv_def core_def)
  then have "capability_in_use (w_state w) i = fmsum (uses i) (gs_permits (w_state w))"
    unfolding capability_in_use_def by (rule acct_okD(4))
  then show ?thesis using W(3) assms(2,3) by (simp add: within_def)
qed

lemma sum_ledger_views:
  assumes "\<And>p r. f (ledger_view p r) = g r"
  shows "sum_list (map f (filter (\<lambda>v. lv_class v = cl) (permit_ledgers s))) = fmsum (owned cl g) (gs_permits s)"
proof -
  have "sum_list (map f (filter (\<lambda>v. lv_class v = cl) (map (\<lambda>r. ledger_view (rec_permit_id r) r) rs)))
      = sum_list (map (owned cl g) rs)" for rs
  proof (induction rs)
    case (Cons r rs)
    have "lv_class (ledger_view p r) = rec_class r" for p by (simp add: ledger_view_def)
    with Cons show ?case by (simp add: assms owned_def)
  qed simp
  then show ?thesis by (simp add: fmsum_bt permit_ledgers_def)
qed

text \<open>C30: The snapshot of a running governor passes its own conservation check, in every reachable state, as long as no class
  has admitted more than \<open>2^128 - 1\<close> permits: phases partition the live permits, admissions are accounted for as live or
  terminated, and no gated pool is over its limit.\<close>

theorem snapshot_conserves:
  assumes "reachable ps authority w" "capabilities_named ps"
    and "\<forall>cl. cs_admitted_total (fmget (gs_classes (w_state w)) ClassState_default cl) \<le> u128_max"
  shows "conservation_violation (snapshot ps (w_state w)) = None"
  unfolding conservation_violation_None_iff
proof (intro conjI allI impI)
  fix cl c
  assume "fmlookup (snap_classes (snapshot ps (w_state w))) cl = Some c"
  then have "c = class_projection (fmget (gs_classes (w_state w)) ClassState_default cl)"
    by (simp add: snapshot_classes snapshot_class_eq split: if_splits)
  then show "class_conserves c" using class_ok_conserves [OF reachable_classes [OF assms(1)]] assms(3) by simp
next
  fix pool u
  assume "fmlookup (snap_capabilities (snapshot ps (w_state w))) pool = Some u" and lim: "usage_limit u \<noteq> 0"
  then obtain i c where c: "fmlookup (ps_capabilities ps) i = Some c"
    and u: "u = \<lparr>usage_in_use = capability_in_use (w_state w) (cap_id c), usage_limit = capacity_limit (cap_capacity c)\<rparr>"
    using snapshot_pools by blast
  have "cap_id c = i" using assms(2) c by (simp add: capabilities_named_def capability_record_def)
  moreover have "capability_in_use (w_state w) i \<le> capacity_limit (cap_capacity c)"
    by (rule reachable_capability [OF assms(1)]) (use c lim u in \<open>simp_all add: capability_record_def\<close>)
  ultimately show "usage_in_use u \<le> usage_limit u" using u by simp
qed

text \<open>The ledger views are an independent oracle: for every class, the live permits counted, and the processor and memory
  units added up, over \<open>permit_ledgers\<close> are the gauges of the snapshot.\<close>

theorem ledgers_add_up:
  assumes "reachable ps authority w" "fmlookup (snap_classes (snapshot ps (w_state w))) cl = Some c"
  shows "let views = filter (\<lambda>v. lv_class v = cl) (permit_ledgers (w_state w)) in
    snap_inflight c = length views \<and> snap_cpu_units_held c = sum_list (map lv_cpu_units views)
    \<and> snap_memory_units_held c = sum_list (map lv_effective_units views)"
proof -
  have c: "c = class_projection (fmget (gs_classes (w_state w)) ClassState_default cl)"
    using assms(2) by (simp add: snapshot_classes snapshot_class_eq split: if_splits)
  show ?thesis
    using reachable_classes [OF assms(1), of cl] sum_ledger_views [of "\<lambda>_. 1" one]
      sum_ledger_views [of lv_cpu_units rec_cpu] sum_ledger_views [of lv_effective_units rec_mem]
    by (simp add: Let_def c class_projection_def class_ok_def sum_list_triv ledger_view_def)
qed

lemma run_classes: "cs_admitted_total (fmget (gs_classes run_state3) ClassState_default cl) \<le> u128_max"
proof -
  have "list_all (\<lambda>cs. cs_admitted_total cs \<le> u128_max) (bt_values (gs_classes run_state3))" by code_simp
  then show ?thesis
    by (cases "fmlookup (gs_classes run_state3) cl")
       (auto simp: list_all_iff values_Ball fmget_def ClassState_default_def)
qed

theorem snapshot_conserves_witness:
  "snap_inflight (snapshot_class run_state3 (lit ''api'')) = 1 \<and> conservation_violation (snapshot run_policies run_state3) = None"
proof -
  have "capabilities_named run_policies" by (simp add: capabilities_named_def capability_record_def run_policies_def)
  from snapshot_conserves [OF reachable_run3 this] run_classes have "conservation_violation (snapshot run_policies run_state3) = None"
    by (simp add: run_world_def)
  moreover have "snap_inflight (snapshot_class run_state3 (lit ''api'')) = 1" by code_simp
  ultimately show ?thesis by blast
qed

theorem ledgers_add_up_witness:
  "sum_list (map lv_cpu_units (filter (\<lambda>v. lv_class v = lit ''api'') (permit_ledgers run_state3)))
     = snap_cpu_units_held (snapshot_class run_state3 (lit ''api''))"
proof -
  have "fmlookup (ps_classes run_policies) (lit ''api'') \<noteq> None" by code_simp
  then have "lit ''api'' |\<in>| fmdom (ps_classes run_policies)" by (simp add: fmlookup_dom_iff)
  then have "fmlookup (snap_classes (snapshot run_policies (w_state (run_world run_state3 2)))) (lit ''api'')
      = Some (snapshot_class run_state3 (lit ''api''))" by (simp add: snapshot_classes run_world_def)
  from ledgers_add_up [OF reachable_run3 this] show ?thesis by (simp add: Let_def run_world_def)
qed

section \<open>What a view of a ticket shows\<close>

lemma pending_view_Some:
  "pending_view ps s t = Some v \<longleftrightarrow>
     (\<exists>cl cs r policy. fmlookup (gs_tickets s) t = Some (TQueued cl) \<and> fmlookup (gs_classes s) cl = Some cs
        \<and> List.find (\<lambda>r. pr_ticket r = t) (cs_queue cs) = Some r \<and> policy_class ps cl = Some policy
        \<and> v = (let assessment = assess_pending s ps r (max_inflight policy) (gs_promotion_pending s \<or> has_queued_predecessor cs r)
               in \<lparr>pv_class = pr_class r, pv_request_key = pr_request_key r,
                   pv_blocked_on = (case assessment of Runnable \<Rightarrow> BlockOk | ReversiblyBlocked blockers \<Rightarrow> blockers_primary blockers
                      | WaitCycle _ \<Rightarrow> pr_blocked_on r),
                   pv_assessment = assessment, pv_enqueued_at_ms = pr_enqueued_at_ms r,
                   pv_queue_wait_ms = gs_commit_watermark_ms s - pr_enqueued_at_ms r, pv_capabilities = pr_capabilities r\<rparr>))"
  by (cases "fmlookup (gs_tickets s) t") (auto simp: pending_view_def Let_def bind_eq_Some_conv split: TicketState.splits)

lemma find_by_key: "distinct (map f xs) \<Longrightarrow> x \<in> set xs \<Longrightarrow> List.find (\<lambda>y. f y = f x) xs = Some x"
  by (induction xs) (auto simp: image_iff)

lemma queued_found:
  assumes inv: "world_inv ps authority w" and t: "fmlookup (gs_tickets (w_state w)) t = Some (TQueued cl)"
  obtains cs r policy where "fmlookup (gs_classes (w_state w)) cl = Some cs" "r \<in> set (cs_queue cs)" "pr_ticket r = t"
    "List.find (\<lambda>r. pr_ticket r = t) (cs_queue cs) = Some r" "policy_class ps cl = Some policy"
proof -
  note W = world_invD [OF inv]
  have ti: "ticket_inv (w_state w)" using W(1) by (simp add: gov_inv_def core_def)
  have "live (w_state w) t = Some (TQueued cl)" using t by (simp add: live_lookup)
  from ticket_okD(4) [OF ti this] obtain r where r: "r \<in> set (queues (w_state w) cl)" "pr_ticket r = t" by blast
  obtain cs where cs: "fmlookup (gs_classes (w_state w)) cl = Some cs" "queues (w_state w) cl = map untagged (cs_queue cs)"
    using r(1) by (cases "fmlookup (gs_classes (w_state w)) cl") (auto simp: queue_of_def fmget_def ClassState_default_def)
  have "length (queues (w_state w) cl) \<noteq> 0" using r(1) by auto
  with W(4) obtain policy where p: "policy_class ps cl = Some policy"
    unfolding depth_ok_def by (metis le_zero_eq option.case_eq_if option.collapse)
  obtain r' where f: "List.find (\<lambda>r. pr_ticket r = t) (cs_queue cs) = Some r'"
    using r cs(2) by (cases "List.find (\<lambda>r. pr_ticket r = t) (cs_queue cs)") (auto simp: find_None_iff)
  then have "r' \<in> set (cs_queue cs)" "pr_ticket r' = t" by (auto simp: find_Some_iff)
  then show thesis using that cs(1) f p by blast
qed

text \<open>C31: The diagnostic view of a ticket and the scheduler tell the same story. In every reachable state a view exists for
  exactly the queued tickets; and some ticket is reported runnable exactly when the scheduler has something to run and no
  continuation of a promotion pass is owed. While one is owed no ticket is reported runnable, whatever the scheduler would take
  next.\<close>

theorem pending_view_agrees:
  assumes "reachable ps authority w"
  shows "(pending_view ps (w_state w) t \<noteq> None \<longleftrightarrow> (\<exists>cl. fmlookup (gs_tickets (w_state w)) t = Some (TQueued cl)))
    \<and> ((\<exists>t v. pending_view ps (w_state w) t = Some v \<and> pv_assessment v = Runnable) \<longleftrightarrow>
        \<not> gs_promotion_pending (w_state w) \<and> has_runnable (w_state w) ps)"
proof (intro conjI)
  note inv = reachable_inv [OF assms]
  let ?s = "w_state w"
  show "pending_view ps ?s t \<noteq> None \<longleftrightarrow> (\<exists>cl. fmlookup (gs_tickets ?s) t = Some (TQueued cl))"
  proof
    assume "pending_view ps ?s t \<noteq> None"
    then obtain v where "pending_view ps ?s t = Some v" by blast
    then show "\<exists>cl. fmlookup (gs_tickets ?s) t = Some (TQueued cl)" unfolding pending_view_Some by blast
  next
    assume "\<exists>cl. fmlookup (gs_tickets ?s) t = Some (TQueued cl)"
    then obtain cl where t: "fmlookup (gs_tickets ?s) t = Some (TQueued cl)" by blast
    from queued_found [OF inv t] show "pending_view ps ?s t \<noteq> None"
      by (rule) (simp add: pending_view_def t Let_def)
  qed
  have ti: "ticket_inv ?s" using world_invD(1) [OF inv] by (simp add: gov_inv_def core_def)
  show "(\<exists>t v. pending_view ps ?s t = Some v \<and> pv_assessment v = Runnable) \<longleftrightarrow> \<not> gs_promotion_pending ?s \<and> has_runnable ?s ps"
  proof
    assume "\<exists>t v. pending_view ps ?s t = Some v \<and> pv_assessment v = Runnable"
    then obtain t cl cs r policy where h: "fmlookup (gs_classes ?s) cl = Some cs"
      "List.find (\<lambda>r. pr_ticket r = t) (cs_queue cs) = Some r" "policy_class ps cl = Some policy"
      "assess_pending ?s ps r (max_inflight policy) (gs_promotion_pending ?s \<or> has_queued_predecessor cs r) = Runnable"
      unfolding pending_view_Some Let_def by auto
    have "r \<in> set (cs_queue cs)" using h(2) by (auto simp: find_Some_iff)
    moreover have "runnable_request ?s ps cs policy r"
      using h(4) by (simp add: runnable_request_def assess_pending_Runnable)
    moreover have "\<not> gs_promotion_pending ?s" using h(4) by (simp add: assess_pending_Runnable)
    ultimately show "\<not> gs_promotion_pending ?s \<and> has_runnable ?s ps" unfolding has_runnable_iff using h(1,3) by blast
  next
    assume run: "\<not> gs_promotion_pending ?s \<and> has_runnable ?s ps"
    then have np: "\<not> gs_promotion_pending ?s" by simp
    from run obtain cl cs policy r where h: "fmlookup (gs_classes ?s) cl = Some cs" "policy_class ps cl = Some policy"
      "r \<in> set (cs_queue cs)" "runnable_request ?s ps cs policy r" unfolding has_runnable_iff by blast
    have q: "queues ?s cl = map untagged (cs_queue cs)" using h(1) by (simp add: queue_of_def fmget_def)
    then have "untagged r \<in> set (queues ?s cl)" using h(3) by simp
    from ticket_okD(3) [OF ti this] have t: "fmlookup (gs_tickets ?s) (pr_ticket r) = Some (TQueued cl)"
      by (simp add: live_lookup)
    have "distinct (map pr_ticket (cs_queue cs))" using ticket_okD(5) [OF ti, of cl] by (simp add: q comp_def)
    then have f: "List.find (\<lambda>x. pr_ticket x = pr_ticket r) (cs_queue cs) = Some r" using h(3) by (rule find_by_key)
    have run: "assess_pending ?s ps r (max_inflight policy) (has_queued_predecessor cs r) = Runnable"
      using h(4) by (simp add: runnable_request_def)
    have "\<exists>v. pending_view ps ?s (pr_ticket r) = Some v \<and> pv_assessment v = Runnable"
      unfolding pending_view_def using np by (simp add: t h(1,2) f run Let_def)
    then show "\<exists>t v. pending_view ps ?s t = Some v \<and> pv_assessment v = Runnable" by blast
  qed
qed

theorem pending_view_agrees_witness:
  "(\<exists>v. pending_view run_policies run_state3 (Ticket 7 2) = Some v) \<and> \<not> has_runnable run_state3 run_policies
   \<and> \<not> (\<exists>t v. pending_view run_policies run_state3 t = Some v \<and> pv_assessment v = Runnable)"
proof -
  have "fmlookup (gs_tickets run_state3) (Ticket 7 2) = Some (TQueued (lit ''api''))" by (rule run_outcomes(3))
  moreover have "\<not> has_runnable run_state3 run_policies" "\<not> gs_promotion_pending run_state3" by code_simp+
  moreover note A = pending_view_agrees [OF reachable_run3, of "Ticket 7 2"]
  ultimately show ?thesis by (simp add: run_world_def)
qed

end
