(* ===== verification/TM_Plan.thy ===== *)
theory TM_Plan
  imports TM_Observation
begin

text \<open>
  The host's submission options and its resolved dispatch plan: \<^verbatim>\<open>taskmesh/src/executor/cancel.rs\<close> and
  \<^verbatim>\<open>taskmesh/src/execution_plan.rs\<close>.

  An \<open>Instant\<close> and a \<open>Duration\<close> are natural numbers of nanoseconds; the largest instant of the platform is an argument
  of the one operation that adds them. A \<open>CancellationToken\<close> (\<^verbatim>\<open>tokio_util\<close>) is the number of its allocation, and
  which tokens are cancelled when a token is read is a predicate given by the caller of the model.
\<close>

section \<open>Submission options\<close>

type_synonym Duration = nat
type_synonym Instant = nat
type_synonym CancellationToken = nat

datatype SubmissionDeadline = RunFor Duration | CompleteBy Instant

record SubmitOptions =
  opt_cancel :: "CancellationToken option"
  opt_acquire_timeout :: "Duration option"
  opt_deadline :: "SubmissionDeadline option"

definition SubmitOptions_unbounded :: SubmitOptions where
  "SubmitOptions_unbounded = \<lparr>opt_cancel = None, opt_acquire_timeout = None, opt_deadline = None\<rparr>"

definition with_cancel :: "CancellationToken \<Rightarrow> SubmitOptions \<Rightarrow> SubmitOptions" where
  "with_cancel token o1 = o1\<lparr>opt_cancel := Some token\<rparr>"

definition with_acquire_timeout :: "Duration \<Rightarrow> SubmitOptions \<Rightarrow> SubmitOptions" where
  "with_acquire_timeout d o1 = o1\<lparr>opt_acquire_timeout := Some d\<rparr>"

definition with_deadline :: "Duration \<Rightarrow> SubmitOptions \<Rightarrow> SubmitOptions" where
  "with_deadline d o1 = o1\<lparr>opt_deadline := Some (RunFor d)\<rparr>"

definition with_absolute_deadline :: "Instant \<Rightarrow> SubmitOptions \<Rightarrow> SubmitOptions" where
  "with_absolute_deadline i o1 = o1\<lparr>opt_deadline := Some (CompleteBy i)\<rparr>"

section \<open>The acquisition arbiter\<close>

datatype RelativeAcquisitionBudget = Unbounded | TryOnce | At Instant

datatype AcquisitionRejection = AcqCancelled | AcqAbsoluteDeadline | AcqRelativeTimeout

record AcquisitionArbiter =
  arb_cancel :: "CancellationToken option"
  arb_absolute_deadline :: "Instant option"
  arb_relative :: RelativeAcquisitionBudget

definition AcquisitionArbiter_new ::
  "Instant \<Rightarrow> Instant \<Rightarrow> SubmitOptions \<Rightarrow> Instant option \<Rightarrow> (GovernorError, AcquisitionArbiter) result" where
  "AcquisitionArbiter_new instant_max now opts absolute =
     and_then
       (case opt_acquire_timeout opts of
          None \<Rightarrow> Inr Unbounded
        | Some timeout \<Rightarrow>
            if timeout = 0 then Inr TryOnce
            else and_then (ok_or (checked_add instant_max now timeout) (PolicyViolation AcquireTimeoutOutOfRange))
                   (\<lambda>deadline. Inr (At deadline)))
       (\<lambda>relative. Inr \<lparr>arb_cancel = opt_cancel opts, arb_absolute_deadline = absolute, arb_relative = relative\<rparr>)"

definition wake_deadline :: "AcquisitionArbiter \<Rightarrow> Instant option" where
  "wake_deadline a =
     (let relative = (case arb_relative a of At deadline \<Rightarrow> Some deadline | TryOnce \<Rightarrow> None | Unbounded \<Rightarrow> None)
      in case (arb_absolute_deadline a, relative) of
           (Some absolute, Some relative) \<Rightarrow> Some (min absolute relative)
         | (Some deadline, None) \<Rightarrow> Some deadline
         | (None, Some deadline) \<Rightarrow> Some deadline
         | (None, None) \<Rightarrow> None)"

definition is_cancelled :: "(CancellationToken \<Rightarrow> bool) \<Rightarrow> CancellationToken option \<Rightarrow> bool" where
  "is_cancelled cancelled token = (case token of None \<Rightarrow> False | Some t \<Rightarrow> cancelled t)"

definition expired :: "Instant option \<Rightarrow> Instant \<Rightarrow> bool" where
  "expired deadline now = (case deadline of None \<Rightarrow> False | Some d \<Rightarrow> d \<le> now)"

definition rejection ::
  "(CancellationToken \<Rightarrow> bool) \<Rightarrow> AcquisitionArbiter \<Rightarrow> Instant \<Rightarrow> bool \<Rightarrow> AcquisitionRejection option" where
  "rejection cancelled a now waiting =
     (if is_cancelled cancelled (arb_cancel a) then Some AcqCancelled
      else if expired (arb_absolute_deadline a) now then Some AcqAbsoluteDeadline
      else case arb_relative a of
             TryOnce \<Rightarrow> if waiting then Some AcqRelativeTimeout else None
           | At deadline \<Rightarrow> if deadline \<le> now then Some AcqRelativeTimeout else None
           | Unbounded \<Rightarrow> None)"

fun to_governor_error :: "AcquisitionRejection \<Rightarrow> bool \<Rightarrow> GovernorError" where
  "to_governor_error AcqCancelled _ = RejectedError CancelledBeforeSubmit"
| "to_governor_error AcqAbsoluteDeadline _ = DeadlineExceeded"
| "to_governor_error AcqRelativeTimeout capability_blocked =
     (if capability_blocked then RejectedError (SubstratePoolTimedOut None)
      else RejectedError (PermitAcquireTimedOut None))"

section \<open>The dispatch plan\<close>

definition MAX_REQUESTED_STACK_BYTES :: nat where
  "MAX_REQUESTED_STACK_BYTES = 2 ^ 34"

definition usize_max_as_u64 :: nat where
  "usize_max_as_u64 = usize_max"

definition validate_stack_size_for_usize :: "nat \<Rightarrow> nat \<Rightarrow> (GovernorError, nat) result" where
  "validate_stack_size_for_usize requested umax =
     (if requested = 0 then Inl (PolicyViolation StackSizeZero)
      else if MAX_REQUESTED_STACK_BYTES < requested then Inl (PolicyViolation (StackSizeAboveMaximum requested))
      else if umax < requested then Inl (PolicyViolation StackSizeNotUsize)
      else Inr requested)"

definition ValidatedStackSize_validate :: "nat \<Rightarrow> (GovernorError, nat) result" where
  "ValidatedStackSize_validate requested = validate_stack_size_for_usize requested usize_max_as_u64"

datatype DispatchKind =
    CallerFuture | OnBlockingPool | OnCpuExecutor | DedicatedStackThread | DedicatedStackRuntime

record ValidatedDispatchPlan =
  dp_task :: TaskSpec
  dp_requirements :: CapabilityRequirementSet
  dp_dispatch :: DispatchKind
  dp_stack_size :: "nat option"
  dp_cancel :: "CancellationToken option"
  dp_deadline :: "SubmissionDeadline option"

definition wants_dedicated_thread :: "TaskSpec \<Rightarrow> bool" where
  "wants_dedicated_thread spec \<longleftrightarrow> spec_stack_size_bytes spec \<noteq> None
     \<and> primary_substrate_hint spec \<in> {BlockingPool, LargeStackCapability, BackgroundOnly}"

text \<open>The dispatch a path really uses, and the stack of its thread.\<close>

definition effective_dispatch :: "TaskSpec \<Rightarrow> DispatchKind \<Rightarrow> DispatchKind" where
  "effective_dispatch spec dispatch =
     (if wants_dedicated_thread spec \<and> dispatch = OnBlockingPool then DedicatedStackThread else dispatch)"

fun plan_stack_size :: "DispatchKind \<Rightarrow> nat option \<Rightarrow> (GovernorError, nat option) result" where
  "plan_stack_size DedicatedStackThread (Some requested) = and_then (ValidatedStackSize_validate requested) (\<lambda>n. Inr (Some n))"
| "plan_stack_size DedicatedStackRuntime (Some requested) = and_then (ValidatedStackSize_validate requested) (\<lambda>n. Inr (Some n))"
| "plan_stack_size DedicatedStackRuntime None = Inl (PolicyViolation StackSizeMissing)"
| "plan_stack_size CallerFuture (Some _) = Inl (PolicyViolation StackSizeUnsupportedDispatch)"
| "plan_stack_size OnCpuExecutor (Some _) = Inl (PolicyViolation StackSizeUnsupportedDispatch)"
| "plan_stack_size OnBlockingPool (Some _) = Inl (PolicyViolation StackSizeOnPooledBlocking)"
| "plan_stack_size _ None = Inr None"

definition plan_capability :: "TaskSpec \<Rightarrow> str option" where
  "plan_capability spec =
     (if wants_dedicated_thread spec then capability_pool LargeStackCapability
      else capability_pool (primary_substrate_hint spec))"

fun dispatch_domain :: "str \<Rightarrow> DispatchKind \<Rightarrow> str option" where
  "dispatch_domain cpu_domain OnBlockingPool = Some PHYSICAL_SHARED_BLOCKING"
| "dispatch_domain cpu_domain OnCpuExecutor = Some cpu_domain"
| "dispatch_domain cpu_domain DedicatedStackThread = Some PHYSICAL_DEDICATED"
| "dispatch_domain cpu_domain DedicatedStackRuntime = Some PHYSICAL_DEDICATED"
| "dispatch_domain cpu_domain CallerFuture = None"

definition resolve_requirements ::
  "PolicySet \<Rightarrow> str option \<Rightarrow> str option \<Rightarrow> (GovernorError, CapabilityRequirementSet) result" where
  "resolve_requirements authority capability domain =
     and_then (map_err (\<lambda>e. PolicyViolation (DispatchResolutionFailed e))
        (result_list (map (resolve_capability authority) (List.map_filter id [capability, domain]))))
     (\<lambda>resolved. map_err (\<lambda>e. PolicyViolation (DispatchRequirementFailed e)) (from_resolved resolved))"

definition deadline_refused :: "ClassPolicy option \<Rightarrow> SubmitOptions \<Rightarrow> CancellationPolicy option" where
  "deadline_refused policy opts =
     (case (policy, opt_deadline opts) of
        (Some p, Some _) \<Rightarrow>
          if cancellation_policy p = CooperativeWithDeadline then None else Some (cancellation_policy p)
      | _ \<Rightarrow> None)"

definition preflight ::
  "TaskSpec \<Rightarrow> SubmitOptions \<Rightarrow> ClassPolicy option \<Rightarrow> SubstrateHint list \<Rightarrow> DispatchKind \<Rightarrow> PolicySet \<Rightarrow> str
     \<Rightarrow> (GovernorError, ValidatedDispatchPlan) result" where
  "preflight spec opts policy allowed dispatch authority cpu_domain =
     and_then (map_err (\<lambda>_. RejectedError MalformedTask) (ValidatedTaskPlan_try_from spec)) (\<lambda>task.
     and_then (ensure (primary_substrate_hint task \<in> set allowed) (RejectedError SubstrateMismatch)) (\<lambda>_.
     let dispatch = effective_dispatch task dispatch in
     and_then (plan_stack_size dispatch (spec_stack_size_bytes task)) (\<lambda>stack_size.
     let mid_run = (map_option cancellation_policy policy \<in> {Some Cooperative, Some CooperativeWithDeadline});
         with_dl = (map_option cancellation_policy policy = Some CooperativeWithDeadline) in
     (case deadline_refused policy opts of
        Some cp \<Rightarrow> Inl (DeadlineUnsupported (spec_class task) cp)
      | None \<Rightarrow>
          and_then (resolve_requirements authority (plan_capability task) (dispatch_domain cpu_domain dispatch))
            (\<lambda>requirements. Inr
               \<lparr>dp_task = task, dp_requirements = requirements, dp_dispatch = dispatch, dp_stack_size = stack_size,
                dp_cancel = (if mid_run then opt_cancel opts else None),
                dp_deadline = (if with_dl then opt_deadline opts else None)\<rparr>)))))"

definition absolute_deadline :: "ValidatedDispatchPlan \<Rightarrow> Instant option" where
  "absolute_deadline plan = (case dp_deadline plan of Some (CompleteBy i) \<Rightarrow> Some i | _ \<Rightarrow> None)"

definition run_budget :: "ValidatedDispatchPlan \<Rightarrow> Duration option" where
  "run_budget plan = (case dp_deadline plan of Some (RunFor d) \<Rightarrow> Some d | _ \<Rightarrow> None)"

section \<open>What may end an acquisition\<close>

text \<open>A parked acquisition ends exactly at the events it waits for. A queued request that is allowed to wait at all
  (its budget is not zero) is rejected at an instant if and only if its token is cancelled or the instant it set its timer to
  has come, so the timer neither fires early nor misses a deadline; and when several authorities have expired together,
  cancellation wins over the absolute deadline and the absolute deadline over the relative budget.\<close>

theorem arbiter_wakes_exactly:
  assumes "arb_relative a \<noteq> TryOnce"
  shows "(rejection cancelled a now True \<noteq> None \<longleftrightarrow>
      is_cancelled cancelled (arb_cancel a) \<or> (\<exists>d. wake_deadline a = Some d \<and> d \<le> now))
    \<and> (rejection cancelled a now True = Some AcqCancelled \<longleftrightarrow> is_cancelled cancelled (arb_cancel a))
    \<and> (rejection cancelled a now True = Some AcqAbsoluteDeadline \<longleftrightarrow>
         \<not> is_cancelled cancelled (arb_cancel a) \<and> (\<exists>d. arb_absolute_deadline a = Some d \<and> d \<le> now))
    \<and> rejection cancelled a now False = rejection cancelled a now True"
  using assms
  by (cases "arb_relative a"; cases "arb_absolute_deadline a")
     (auto simp: rejection_def wake_deadline_def expired_def min_le_iff_disj)

theorem arbiter_wakes_exactly_witness:
  "\<exists>a. AcquisitionArbiter_new 1000 10 (with_acquire_timeout 5 (with_cancel 3 SubmitOptions_unbounded)) (Some 20) = Inr a
     \<and> wake_deadline a = Some 15 \<and> rejection (\<lambda>_. False) a 15 True = Some AcqRelativeTimeout
     \<and> rejection (\<lambda>_. False) a 14 True = None \<and> rejection (\<lambda>t. t = 3) a 14 True = Some AcqCancelled"
proof -
  let ?a = "\<lparr>arb_cancel = Some 3, arb_absolute_deadline = Some 20, arb_relative = At 15\<rparr>"
  have new: "AcquisitionArbiter_new 1000 10 (with_acquire_timeout 5 (with_cancel 3 SubmitOptions_unbounded)) (Some 20) = Inr ?a"
    by code_simp
  have wake: "wake_deadline ?a = Some 15" by code_simp
  have late: "rejection (\<lambda>_. False) ?a 15 True = Some AcqRelativeTimeout" by code_simp
  have "rejection (\<lambda>_. False) ?a 14 True = None" "rejection (\<lambda>t. t = 3) ?a 14 True = Some AcqCancelled"
    using arbiter_wakes_exactly [of ?a "\<lambda>_. False" 14] arbiter_wakes_exactly [of ?a "\<lambda>t. t = 3" 14] wake
    by (simp_all add: is_cancelled_def)
  with new wake late show ?thesis by blast
qed

section \<open>A plan charges what it occupies\<close>

text \<open>The substrate hints and the dispatch each entry point of the runtime passes to the planner: \<open>run_io\<close>, \<open>run_local\<close>,
  \<open>run_blocking\<close>, \<open>run_cpu\<close> and \<open>run_async_with_requested_stack\<close>.\<close>

definition entry_points :: "(SubstrateHint list \<times> DispatchKind) list" where
  "entry_points =
     [([AsyncIo], CallerFuture), ([LocalRuntime], CallerFuture),
      ([BlockingPool, LargeStackCapability, BackgroundOnly], OnBlockingPool),
      ([SharedCpuExecutor], OnCpuExecutor), ([LargeStackCapability], DedicatedStackRuntime)]"

text \<open>The pools a dispatch occupies while it runs: the role its hint names, or the large-stack role when it runs on its own
  thread, and the physical workers it runs on.\<close>

definition occupied_pools :: "str \<Rightarrow> ValidatedDispatchPlan \<Rightarrow> str set" where
  "occupied_pools cpu_domain plan =
     (case dp_dispatch plan of
        CallerFuture \<Rightarrow> set_option (capability_pool (primary_substrate_hint (dp_task plan)))
      | OnBlockingPool \<Rightarrow>
          insert PHYSICAL_SHARED_BLOCKING (set_option (capability_pool (primary_substrate_hint (dp_task plan))))
      | OnCpuExecutor \<Rightarrow> {lit ''cpu'', cpu_domain}
      | _ \<Rightarrow> {lit ''large_stack'', PHYSICAL_DEDICATED})"

lemma result_list_Inr: "result_list rs = Inr xs \<longleftrightarrow> rs = map Inr xs"
  by (induction rs arbitrary: xs) (auto simp: and_then_Inr_iff)

lemma resolve_capability_Inr: "resolve_capability ps pool = Inr x \<longleftrightarrow>
    trim pool \<noteq> [] \<and> (\<exists>i. capability_key ps pool = Some i \<and> x = Registered i)"
  by (auto simp: resolve_capability_def split: option.splits)

lemma from_resolved_set:
  assumes "from_resolved cs = Inr out"
  shows "sorted out \<and> distinct out \<and> set out = {c. Registered c \<in> set cs}"
  using from_resolved_loop_spec [of "[]" cs out] assms by (simp add: from_resolved_def)

lemma resolve_requirements_Inr:
  assumes "resolve_requirements ps capability domain = Inr out"
  shows "sorted out \<and> distinct out
    \<and> set out = {i. \<exists>pool \<in> set_option capability \<union> set_option domain. capability_key ps pool = Some i}
    \<and> (\<forall>pool \<in> set_option capability \<union> set_option domain. capability_key ps pool \<noteq> None)"
proof -
  let ?names = "List.map_filter id [capability, domain]"
  have names: "set ?names = set_option capability \<union> set_option domain"
    by (cases capability; cases domain) (auto simp: List.map_filter_def)
  obtain cs where cs: "map (resolve_capability ps) ?names = map Inr cs" and out: "from_resolved cs = Inr out"
    using assms by (auto simp: resolve_requirements_def and_then_Inr_iff result_list_Inr)
  have some: "\<exists>i. capability_key ps pool = Some i \<and> Registered i \<in> set cs" if "pool \<in> set ?names" for pool
  proof -
    have "resolve_capability ps pool \<in> Inr ` set cs" using that cs by (metis image_eqI image_set)
    then show ?thesis by (auto simp: resolve_capability_Inr)
  qed
  moreover have "\<exists>pool \<in> set ?names. capability_key ps pool = Some i" if "Registered i \<in> set cs" for i
  proof -
    have "Inr (Registered i) \<in> resolve_capability ps ` set ?names" using that cs by (metis image_eqI image_set)
    then obtain pool where "pool \<in> set ?names" "resolve_capability ps pool = Inr (Registered i)" by (metis imageE)
    then show ?thesis by (intro bexI [of _ pool]) (simp_all add: resolve_capability_Inr)
  qed
  ultimately show ?thesis using from_resolved_set [OF out] unfolding names by fastforce
qed

lemma plan_stack_size_Inr:
  assumes "plan_stack_size d r = Inr n"
  shows "n = r \<and> (r \<noteq> None \<longleftrightarrow> d \<in> {DedicatedStackThread, DedicatedStackRuntime} \<and> n \<noteq> None)
    \<and> (d = DedicatedStackRuntime \<longrightarrow> r \<noteq> None)
    \<and> (\<forall>k. n = Some k \<longrightarrow> 0 < k \<and> k \<le> MAX_REQUESTED_STACK_BYTES)"
  using assms
  by (cases "(d, r)" rule: plan_stack_size.cases)
     (auto simp: and_then_Inr_iff ValidatedStackSize_validate_def validate_stack_size_for_usize_def split: if_splits)

lemma preflight_Inr:
  assumes "preflight spec opts policy allowed dispatch authority cpu_domain = Inr plan"
  shows "plan_ok spec" "dp_task plan = spec" "primary_substrate_hint spec \<in> set allowed"
    "dp_dispatch plan = effective_dispatch spec dispatch"
    "plan_stack_size (dp_dispatch plan) (spec_stack_size_bytes spec) = Inr (dp_stack_size plan)"
    "resolve_requirements authority (plan_capability spec) (dispatch_domain cpu_domain (dp_dispatch plan)) = Inr (dp_requirements plan)"
    "deadline_refused policy opts = None"
    "dp_deadline plan = (if map_option cancellation_policy policy = Some CooperativeWithDeadline then opt_deadline opts else None)"
    "dp_cancel plan = (if map_option cancellation_policy policy \<in> {Some Cooperative, Some CooperativeWithDeadline} then opt_cancel opts else None)"
  using assms
  by (auto simp: preflight_def and_then_Inr_iff ValidatedTaskPlan_try_from_def plan_ok_validates Let_def split: option.splits)

text \<open>C34: What a submission reserves is what it will occupy. The plan of every entry point is for the submitted specification,
  which is well formed, and its requirement set is, in canonical form, exactly the capabilities of the pools its dispatch
  occupies, all of them registered; a stack request always means a thread of its own with that stack, between one byte and
  16 GiB, and then the large-stack pool and the dedicated workers are charged however the hint was spelled.\<close>

theorem plan_charges_what_it_occupies:
  assumes "preflight spec opts policy allowed dispatch authority cpu_domain = Inr plan" "(allowed, dispatch) \<in> set entry_points"
  shows "dp_task plan = spec \<and> plan_ok spec \<and> sorted (dp_requirements plan) \<and> distinct (dp_requirements plan)
    \<and> set (dp_requirements plan) = {i. \<exists>pool \<in> occupied_pools cpu_domain plan. capability_key authority pool = Some i}
    \<and> (\<forall>pool \<in> occupied_pools cpu_domain plan. capability_key authority pool \<noteq> None)
    \<and> dp_stack_size plan = spec_stack_size_bytes spec
    \<and> (spec_stack_size_bytes spec \<noteq> None \<longleftrightarrow> dp_dispatch plan \<in> {DedicatedStackThread, DedicatedStackRuntime})
    \<and> (\<forall>n. dp_stack_size plan = Some n \<longrightarrow> 0 < n \<and> n \<le> MAX_REQUESTED_STACK_BYTES)"
proof -
  note P = preflight_Inr [OF assms(1)] and S = plan_stack_size_Inr [OF preflight_Inr(5) [OF assms(1)]]
  have D: "dp_dispatch plan = (if wants_dedicated_thread spec \<and> dispatch = OnBlockingPool then DedicatedStackThread else dispatch)"
    using P(4) by (simp only: effective_dispatch_def)
  have S': "spec_stack_size_bytes spec \<noteq> None \<longrightarrow> dp_dispatch plan \<in> {DedicatedStackThread, DedicatedStackRuntime}"
    "dp_dispatch plan = DedicatedStackRuntime \<longrightarrow> spec_stack_size_bytes spec \<noteq> None" using S by blast+
  have E: "primary_substrate_hint spec = AsyncIo \<and> dispatch = CallerFuture
     \<or> primary_substrate_hint spec = LocalRuntime \<and> dispatch = CallerFuture
     \<or> primary_substrate_hint spec \<in> {BlockingPool, LargeStackCapability, BackgroundOnly} \<and> dispatch = OnBlockingPool
     \<or> primary_substrate_hint spec = SharedCpuExecutor \<and> dispatch = OnCpuExecutor
     \<or> primary_substrate_hint spec = LargeStackCapability \<and> dispatch = DedicatedStackRuntime"
    using assms(2) P(3) unfolding entry_points_def by (simp only: set_simps insert_iff empty_iff simp_thms prod.inject, elim disjE conjE) simp_all
  have ded: "spec_stack_size_bytes spec \<noteq> None \<longleftrightarrow> dp_dispatch plan \<in> {DedicatedStackThread, DedicatedStackRuntime}"
  proof
    assume "dp_dispatch plan \<in> {DedicatedStackThread, DedicatedStackRuntime}"
    then consider "dp_dispatch plan = DedicatedStackThread" | "dp_dispatch plan = DedicatedStackRuntime" by blast
    then show "spec_stack_size_bytes spec \<noteq> None"
    proof cases
      case 1
      have "dispatch \<noteq> DedicatedStackThread" using E by (elim disjE conjE) simp_all
      with 1 D have "wants_dedicated_thread spec" by metis
      then show ?thesis unfolding wants_dedicated_thread_def by blast
    qed (use S' in blast)
  qed (use S' in blast)
  have occ: "occupied_pools cpu_domain plan = set_option (plan_capability spec) \<union> set_option (dispatch_domain cpu_domain (dp_dispatch plan))"
    using E ded unfolding occupied_pools_def plan_capability_def P(2) D
    by (cases "spec_stack_size_bytes spec"; elim disjE conjE) (simp_all add: wants_dedicated_thread_def insert_commute)
  have R: "sorted (dp_requirements plan) \<and> distinct (dp_requirements plan)
    \<and> set (dp_requirements plan) = {i. \<exists>pool \<in> occupied_pools cpu_domain plan. capability_key authority pool = Some i}
    \<and> (\<forall>pool \<in> occupied_pools cpu_domain plan. capability_key authority pool \<noteq> None)"
    using resolve_requirements_Inr [OF P(6)] unfolding occ .
  show ?thesis by (intro conjI) (use P(1,2) S ded R in blast)+
qed

definition plan_spec :: TaskSpec where
  "plan_spec = TaskSpec_stack_size_bytes 65536 (TaskSpec_operation (lit ''op'') (TaskSpec_base (lit ''api'') BackgroundOnly))"

definition plan_authority :: PolicySet where
  "plan_authority = entry_policies\<lparr>ps_capabilities :=
     fmupd (CapabilityId PHYSICAL_DEDICATED 9) \<lparr>cap_id = CapabilityId PHYSICAL_DEDICATED 9, cap_capacity = Bounded 2\<rparr>
       (ps_capabilities entry_policies)\<rparr>"

theorem plan_charges_what_it_occupies_witness:
  "\<exists>plan. preflight plan_spec SubmitOptions_unbounded None [BlockingPool, LargeStackCapability, BackgroundOnly] OnBlockingPool
       plan_authority PHYSICAL_CPU = Inr plan
     \<and> dp_dispatch plan = DedicatedStackThread \<and> dp_stack_size plan = Some 65536
     \<and> CapabilityId (lit ''large_stack'') 9 \<in> set (dp_requirements plan)"
proof -
  have "case preflight plan_spec SubmitOptions_unbounded None [BlockingPool, LargeStackCapability, BackgroundOnly] OnBlockingPool
       plan_authority PHYSICAL_CPU of Inl _ \<Rightarrow> False | Inr plan \<Rightarrow> dp_dispatch plan = DedicatedStackThread
       \<and> capability_key plan_authority (lit ''large_stack'') = Some (CapabilityId (lit ''large_stack'') 9)"
    by code_simp
  then obtain plan where plan: "preflight plan_spec SubmitOptions_unbounded None [BlockingPool, LargeStackCapability, BackgroundOnly]
      OnBlockingPool plan_authority PHYSICAL_CPU = Inr plan" "dp_dispatch plan = DedicatedStackThread"
    and key: "capability_key plan_authority (lit ''large_stack'') = Some (CapabilityId (lit ''large_stack'') 9)"
    by (auto split: sum.splits)
  have "lit ''large_stack'' \<in> occupied_pools PHYSICAL_CPU plan" using plan(2) by (simp add: occupied_pools_def)
  then have "CapabilityId (lit ''large_stack'') 9 \<in> set (dp_requirements plan)" "dp_stack_size plan = spec_stack_size_bytes plan_spec"
    using plan_charges_what_it_occupies [OF plan(1)] key by (auto simp: entry_points_def)
  with plan show ?thesis by (auto simp: plan_spec_def TaskSpec_stack_size_bytes_def)
qed

end
