(* ===== verification/TM_Builder.thy ===== *)
theory TM_Builder
  imports TM_Plan
begin

text \<open>
  The driven ports and the assembly of a runtime: \<^verbatim>\<open>taskmesh-contract/src/ports.rs\<close> and \<^verbatim>\<open>config.rs\<close>,
  \<^verbatim>\<open>taskmesh/src/builder.rs\<close>, the default executor of \<^verbatim>\<open>taskmesh/src/executor/tokio_exec.rs\<close> and the Rayon adapter
  \<^verbatim>\<open>taskmesh-rayon/src/lib.rs\<close>.

  A \<open>CpuExecutor\<close> is here what the host ever reads of it, the capabilities it declares when it is installed. The thread
  pool of the \<^verbatim>\<open>rayon\<close> crate is its thread count, and its constructor is the argument \<open>build_pool\<close>. The parallelism
  the machine reports, the allocation number of the capability authority and the process-wide counter of governors
  are arguments of \<open>build\<close>.
\<close>

section \<open>Ports\<close>

definition SystemClock_now_ms :: "nat option \<Rightarrow> nat" where
  "SystemClock_now_ms since_epoch_ms =
     (let millis = (case since_epoch_ms of None \<Rightarrow> 0 | Some ms \<Rightarrow> ms) in if millis \<le> u64_max then millis else u64_max)"

text \<open>The test clock: \<open>set\<close> stores, \<open>advance\<close> is an atomic \<open>fetch_add\<close>, which wraps.\<close>

definition ManualClock_advance :: "nat \<Rightarrow> nat \<Rightarrow> nat" where
  "ManualClock_advance now_ms by_ms = (now_ms + by_ms) mod 2 ^ 64"

record ExecutorCapabilities =
  nonblocking_submit :: bool
  declared_workers :: "nat option"
  exclusive_pool :: bool
  physical_domain :: "str option"
  requires_tokio_context :: bool

definition ExecutorCapabilities_legacy :: ExecutorCapabilities where
  "ExecutorCapabilities_legacy = \<lparr>nonblocking_submit = False, declared_workers = None, exclusive_pool = False,
     physical_domain = None, requires_tokio_context = False\<rparr>"

definition BlockingPoolCpuExecutor_capabilities :: "nat \<Rightarrow> ExecutorCapabilities" where
  "BlockingPoolCpuExecutor_capabilities physical_workers =
     ExecutorCapabilities_legacy\<lparr>nonblocking_submit := True, declared_workers := Some physical_workers,
       exclusive_pool := False, physical_domain := Some PHYSICAL_SHARED_BLOCKING, requires_tokio_context := True\<rparr>"

section \<open>The Rayon adapter\<close>

record RayonCpuExecutor =
  pool_threads :: nat
  rayon_exclusive :: bool

definition RayonCpuExecutor_try_new ::
  "(nat \<Rightarrow> (str, nat) result) \<Rightarrow> nat \<Rightarrow> (RayonBuildError, RayonCpuExecutor) result" where
  "RayonCpuExecutor_try_new build_pool workers =
     (if workers = 0 then Inl ZeroWorkers
      else and_then (map_err RayonPool (build_pool workers))
             (\<lambda>pool. Inr \<lparr>pool_threads = pool, rayon_exclusive = True\<rparr>))"

definition RayonCpuExecutor_try_from_topology ::
  "(nat \<Rightarrow> (str, nat) result) \<Rightarrow> nat \<Rightarrow> TopologyConfig \<Rightarrow> (RayonBuildError, RayonCpuExecutor) result" where
  "RayonCpuExecutor_try_from_topology build_pool available topology =
     and_then (map_err RayonInvalidTopology (try_resolved_cpu_workers topology available))
       (RayonCpuExecutor_try_new build_pool)"

definition RayonCpuExecutor_with_pool :: "nat \<Rightarrow> RayonCpuExecutor" where
  "RayonCpuExecutor_with_pool pool = \<lparr>pool_threads = pool, rayon_exclusive = False\<rparr>"

definition RayonCpuExecutor_worker_count :: "RayonCpuExecutor \<Rightarrow> nat" where
  "RayonCpuExecutor_worker_count x = pool_threads x"

definition RayonCpuExecutor_capabilities :: "RayonCpuExecutor \<Rightarrow> ExecutorCapabilities" where
  "RayonCpuExecutor_capabilities x =
     (let n = RayonCpuExecutor_worker_count x; workers = (if n \<le> u32_max then n else u32_max)
      in ExecutorCapabilities_legacy\<lparr>nonblocking_submit := True, declared_workers := Some workers,
           exclusive_pool := rayon_exclusive x, physical_domain := Some PHYSICAL_CPU\<rparr>)"

section \<open>The builder\<close>

record RuntimeConfig =
  cfg_topology :: TopologyConfig
  cfg_resources :: ResourceBudget
  cfg_classes :: "(TaskClass, ClassPolicy) fmap"
  cfg_substrates :: "SubstrateRecord list"

record Builder =
  b_topology :: TopologyConfig
  b_resources :: ResourceBudget
  b_classes :: "(TaskClass, ClassPolicy) fmap"
  b_substrates :: "SubstrateRecord list"
  b_capability_limits :: "(str, nat) fmap"
  b_registration_error :: "GovernorError option"
  b_cpu_executor :: "ExecutorCapabilities option"

definition Builder_new :: Builder where
  "Builder_new = \<lparr>b_topology = TopologyConfig_new, b_resources = ResourceBudget_new, b_classes = fmempty,
     b_substrates = [], b_capability_limits = fmempty, b_registration_error = None, b_cpu_executor = None\<rparr>"

definition registration_failed :: "PolicyMessage \<Rightarrow> Builder \<Rightarrow> Builder" where
  "registration_failed msg b =
     b\<lparr>b_registration_error := (case b_registration_error b of Some e \<Rightarrow> Some e | None \<Rightarrow> Some (PolicyViolation msg))\<rparr>"

definition Builder_topology :: "TopologyConfig \<Rightarrow> Builder \<Rightarrow> Builder" where
  "Builder_topology t b = b\<lparr>b_topology := t\<rparr>"

definition Builder_resources :: "ResourceBudget \<Rightarrow> Builder \<Rightarrow> Builder" where
  "Builder_resources r b = b\<lparr>b_resources := r\<rparr>"

definition Builder_class_policy :: "TaskClass \<Rightarrow> ClassPolicy \<Rightarrow> Builder \<Rightarrow> Builder" where
  "Builder_class_policy cl policy b =
     (case fmlookup (b_classes b) cl of
        Some _ \<Rightarrow> registration_failed (DuplicateClassPolicy cl) b
      | None \<Rightarrow> b\<lparr>b_classes := fmupd cl policy (b_classes b)\<rparr>)"

definition Builder_substrate :: "SubstrateRecord \<Rightarrow> Builder \<Rightarrow> Builder" where
  "Builder_substrate r b = b\<lparr>b_substrates := b_substrates b @ [r]\<rparr>"

definition Builder_capability_limit :: "str \<Rightarrow> nat \<Rightarrow> Builder \<Rightarrow> Builder" where
  "Builder_capability_limit pool slots b =
     (case fmlookup (b_capability_limits b) pool of
        Some _ \<Rightarrow> registration_failed (DuplicateCapabilityLimit pool) b
      | None \<Rightarrow> b\<lparr>b_capability_limits := fmupd pool slots (b_capability_limits b)\<rparr>)"

definition Builder_cpu_executor :: "ExecutorCapabilities \<Rightarrow> Builder \<Rightarrow> Builder" where
  "Builder_cpu_executor x b = b\<lparr>b_cpu_executor := Some x\<rparr>"

definition builder_owned_pool :: "str \<Rightarrow> bool" where
  "builder_owned_pool pool \<longleftrightarrow> pool \<in> set BUILTIN_SUBSTRATES
     \<or> pool \<in> {PHYSICAL_CPU, PHYSICAL_SHARED_BLOCKING, PHYSICAL_DEDICATED}"

definition physical_domain_record :: "str \<Rightarrow> SubstrateRecord" where
  "physical_domain_record domain =
     SubstrateRecord_new (lit ''host-domain:'' @ domain) CompetingExecution (Some domain)"

definition builtin_pool_name :: "str \<Rightarrow> str" where
  "builtin_pool_name pool =
     (if pool \<in> {lit ''cpu'', lit ''blocking'', lit ''large_stack'', lit ''maintenance'', lit ''local_runtime''}
      then pool else lit ''unknown'')"

definition insert_limit :: "str \<times> nat \<Rightarrow> (str, nat) fmap \<Rightarrow> (GovernorError, (str, nat) fmap) result" where
  "insert_limit = (\<lambda>(pool, slots) limits.
     if slots = 0 then Inr limits
     else if u32_max < slots
       then Inl (InvalidTopology (SlotCountTooLarge (builtin_pool_name pool) slots MAX_CAPABILITY_SLOTS))
     else if fmlookup limits pool \<noteq> None then Inl (PolicyViolation (BuiltinLimitOverridden pool))
     else Inr (fmupd pool slots limits))"

fun insert_limits :: "(str \<times> nat) list \<Rightarrow> (str, nat) fmap \<Rightarrow> (GovernorError, (str, nat) fmap) result" where
  "insert_limits [] limits = Inr limits"
| "insert_limits (x # xs) limits = and_then (insert_limit x limits) (insert_limits xs)"

definition capability_limits ::
  "TopologyConfig \<Rightarrow> nat \<Rightarrow> nat \<Rightarrow> nat \<Rightarrow> (str, nat) fmap \<Rightarrow> (GovernorError, (str, nat) fmap) result" where
  "capability_limits topology cpu_workers shared_blocking_workers dedicated_workers limits =
     (case List.find builder_owned_pool (bt_keys limits) of
        Some pool \<Rightarrow> Inl (PolicyViolation (BuiltinLimitOverridden pool))
      | None \<Rightarrow> insert_limits
          ([(lit ''cpu'', max cpu_workers 1), (PHYSICAL_CPU, max cpu_workers 1),
            (PHYSICAL_SHARED_BLOCKING, shared_blocking_workers), (PHYSICAL_DEDICATED, dedicated_workers)]
           @ declared_slots topology) limits)"

text \<open>\<open>default_cpu_executor\<close> without and with the \<open>rayon\<close> feature.\<close>

definition default_cpu_executor :: "nat \<Rightarrow> nat \<Rightarrow> (GovernorError, ExecutorCapabilities) result delivery" where
  "default_cpu_executor cpu_workers shared_blocking_workers =
     (if u32_max < shared_blocking_workers
      then Returned (Inl (InvalidTopology (SlotCountTooLarge PHYSICAL_SHARED_BLOCKING shared_blocking_workers MAX_CAPABILITY_SLOTS)))
      else if shared_blocking_workers = 0 then Panicked
      else Returned (Inr (BlockingPoolCpuExecutor_capabilities shared_blocking_workers)))"

definition default_cpu_executor_rayon ::
  "(nat \<Rightarrow> (str, nat) result) \<Rightarrow> nat \<Rightarrow> nat \<Rightarrow> (GovernorError, ExecutorCapabilities) result delivery" where
  "default_cpu_executor_rayon build_pool cpu_workers shared_blocking_workers =
     Returned (and_then (map_err (\<lambda>e. PolicyViolation (SharedCpuPoolFailed e)) (RayonCpuExecutor_try_new build_pool cpu_workers))
       (\<lambda>x. Inr (RayonCpuExecutor_capabilities x)))"

record TokioRuntime =
  rt_config :: RuntimeConfig
  rt_governor :: Governor
  rt_cpu_capabilities :: ExecutorCapabilities

text \<open>The checks of an installed executor's declaration; the result is the physical domain it occupies.\<close>

definition check_executor :: "nat \<Rightarrow> nat \<Rightarrow> ExecutorCapabilities \<Rightarrow> (GovernorError, str) result" where
  "check_executor cpu_workers shared_blocking_workers descriptor =
     and_then (ensure (nonblocking_submit descriptor) (InvalidTopology ExecutorSubmissionMayBlock)) (\<lambda>_.
     and_then (ok_or (physical_domain descriptor) (InvalidTopology ExecutorPhysicalDomainUnknown)) (\<lambda>domain.
     and_then (if domain = PHYSICAL_SHARED_BLOCKING then Inr shared_blocking_workers
               else if domain = PHYSICAL_CPU then Inr cpu_workers
               else Inl (InvalidTopology (UnknownExecutorPhysicalDomain domain))) (\<lambda>expected_workers.
     and_then (ok_or (declared_workers descriptor) (InvalidTopology ExecutorWorkerCountUnknown)) (\<lambda>declared.
     and_then (ensure (declared = (if expected_workers \<le> u64_max then expected_workers else u64_max))
                 (InvalidTopology (ExecutorWorkerCountMismatch declared expected_workers domain))) (\<lambda>_.
     Inr domain)))))"

definition assemble_policy ::
  "nat \<Rightarrow> Builder \<Rightarrow> nat \<Rightarrow> nat \<Rightarrow> nat \<Rightarrow> (GovernorError, PolicySet) result" where
  "assemble_policy cap_authority b cpu_workers shared_blocking_workers dedicated_workers =
     and_then (with_substrates (PolicySet_new cap_authority (b_resources b) (b_classes b))
        (b_substrates b @ map physical_domain_record [PHYSICAL_SHARED_BLOCKING, PHYSICAL_CPU, PHYSICAL_DEDICATED])) (\<lambda>ps.
     and_then (capability_limits (b_topology b) cpu_workers shared_blocking_workers dedicated_workers (b_capability_limits b))
       (with_capability_limits ps))"

definition build_with ::
  "nat \<Rightarrow> nat \<Rightarrow> Builder \<Rightarrow> nat \<Rightarrow> nat \<Rightarrow> nat \<Rightarrow> ExecutorCapabilities
     \<Rightarrow> nat \<times> (GovernorError, TokioRuntime) result" where
  "build_with cap_authority counter b cpu_workers shared_blocking_workers dedicated_workers descriptor =
     (case and_then (check_executor cpu_workers shared_blocking_workers descriptor)
             (\<lambda>_. assemble_policy cap_authority b cpu_workers shared_blocking_workers dedicated_workers) of
        Inl err \<Rightarrow> (counter, Inl err)
      | Inr policy \<Rightarrow>
          let config = \<lparr>cfg_topology = b_topology b, cfg_resources = b_resources b, cfg_classes = b_classes b,
                        cfg_substrates = bt_values (ps_substrates policy)\<rparr>;
              (counter, governor) = Governor_new policy counter
          in (counter, and_then governor
                (\<lambda>g. Inr \<lparr>rt_config = config, rt_governor = g, rt_cpu_capabilities = descriptor\<rparr>)))"

definition build ::
  "(nat \<Rightarrow> nat \<Rightarrow> (GovernorError, ExecutorCapabilities) result delivery) \<Rightarrow> nat \<Rightarrow> nat \<Rightarrow> nat \<Rightarrow> Builder
     \<Rightarrow> nat \<times> (GovernorError, TokioRuntime) result delivery" where
  "build default_executor cap_authority available counter b =
     (case b_registration_error b of
        Some err \<Rightarrow> (counter, Returned (Inl err))
      | None \<Rightarrow>
          (case map_err InvalidTopology
                  (and_then (topology_validate (b_topology b)) (\<lambda>_.
                   and_then (try_resolved_cpu_workers (b_topology b) available) (\<lambda>cpu.
                   and_then (try_resolved_physical_domain (b_topology b) PHYSICAL_SHARED_BLOCKING available) (\<lambda>shared.
                   and_then (try_resolved_physical_domain (b_topology b) PHYSICAL_DEDICATED available) (\<lambda>own.
                   Inr (cpu, shared, own)))))) of
             Inl err \<Rightarrow> (counter, Returned (Inl err))
           | Inr (cpu, shared, own) \<Rightarrow>
               (case (case b_cpu_executor b of Some x \<Rightarrow> Returned (Inr x) | None \<Rightarrow> default_executor cpu shared) of
                  Panicked \<Rightarrow> (counter, Panicked)
                | Returned (Inl err) \<Rightarrow> (counter, Returned (Inl err))
                | Returned (Inr descriptor) \<Rightarrow>
                    let (counter, r) = build_with cap_authority counter b cpu shared own descriptor
                    in (counter, Returned r))))"

definition plan ::
  "TokioRuntime \<Rightarrow> TaskSpec \<Rightarrow> SubmitOptions \<Rightarrow> SubstrateHint list \<Rightarrow> DispatchKind \<Rightarrow> (GovernorError, ValidatedDispatchPlan) result" where
  "plan rt spec opts allowed dispatch =
     and_then (ok_or (physical_domain (rt_cpu_capabilities rt)) (InvalidTopology ExecutorPhysicalDomainUnknown)) (\<lambda>cpu_domain.
       preflight spec opts (fmlookup (cfg_classes (rt_config rt)) (spec_class spec)) allowed dispatch
         (gov_policy (rt_governor rt)) cpu_domain)"

section \<open>The capability registry of a built policy\<close>

text \<open>Every capability identity of a policy set carries the policy set's own authority, so a pool name has one identity.\<close>

definition caps_uniform :: "PolicySet \<Rightarrow> bool" where
  "caps_uniform ps \<longleftrightarrow> (\<forall>i c. fmlookup (ps_capabilities ps) i = Some c \<longrightarrow>
     capability_id_authority i = ps_capability_authority ps \<and> cap_id c = i)"

definition pool_record :: "PolicySet \<Rightarrow> str \<Rightarrow> CapabilityRecord option" where
  "pool_record ps pool = fmlookup (ps_capabilities ps) (CapabilityId pool (ps_capability_authority ps))"

lemma caps_uniform_new: "caps_uniform (PolicySet_new a r c)"
proof -
  have "\<forall>i c. fmlookup (fold (\<lambda>r caps. case sub_capability_pool r of None \<Rightarrow> caps | Some pool \<Rightarrow>
            let i = CapabilityId pool a
            in case fmlookup caps i of Some _ \<Rightarrow> caps
               | None \<Rightarrow> fmupd i \<lparr>cap_id = i, cap_capacity = ExplicitUnbounded\<rparr> caps) rs m) i = Some c
          \<longrightarrow> capability_id_authority i = a \<and> cap_id c = i"
    if "\<forall>i c. fmlookup m i = Some c \<longrightarrow> capability_id_authority i = a \<and> cap_id c = i" for rs m
    using that
  proof (induction rs arbitrary: m)
    case (Cons r rs)
    show ?case unfolding fold_Cons o_apply
      by (rule Cons.IH) (use Cons.prems in \<open>auto simp: Let_def split: option.splits if_splits\<close>)
  qed simp
  from this [of fmempty] show ?thesis
    by (simp add: caps_uniform_def PolicySet_new_def builtin_capability_records_def)
qed

lemma find_name_unique:
  assumes "distinct xs" "\<And>x. x \<in> set xs \<Longrightarrow> P x \<longleftrightarrow> x = k"
  shows "List.find P xs = (if k \<in> set xs then Some k else None)"
  using assms by (induction xs) auto

lemma capability_key_uniform:
  assumes "caps_uniform ps"
  shows "capability_key ps pool =
    (if pool_record ps pool = None then None else Some (CapabilityId pool (ps_capability_authority ps)))"
proof -
  let ?k = "CapabilityId pool (ps_capability_authority ps)"
  have "List.find (\<lambda>i. capability_id_name i = pool) (bt_keys (ps_capabilities ps))
      = (if ?k \<in> set (bt_keys (ps_capabilities ps)) then Some ?k else None)"
  proof (rule find_name_unique)
    fix i assume "i \<in> set (bt_keys (ps_capabilities ps))"
    then obtain c where "fmlookup (ps_capabilities ps) i = Some c" by (auto simp: set_bt_keys fmlookup_dom_iff)
    then have "capability_id_authority i = ps_capability_authority ps" using assms by (simp add: caps_uniform_def)
    then show "capability_id_name i = pool \<longleftrightarrow> i = ?k" by (metis CapabilityId.collapse CapabilityId.sel(1))
  qed simp
  then show ?thesis by (simp add: capability_key_def pool_record_def set_bt_keys fmlookup_dom_iff)
qed

lemma with_substrates_Inr:
  assumes "with_substrates ps rs = Inr ps'"
  shows "register_all (ps_substrates ps) rs = Inr (ps_substrates ps')" "ps' = ps\<lparr>ps_substrates := ps_substrates ps'\<rparr>"
  using assms by (auto simp: with_substrates_def and_then_Inr_iff)

lemma caps_uniform_substrates: "with_substrates ps rs = Inr ps' \<Longrightarrow> caps_uniform ps' = caps_uniform ps"
  by (auto simp: with_substrates_def and_then_Inr_iff caps_uniform_def)

lemma with_capability_limits_loop_Inr:
  assumes "with_capability_limits_loop ps xs = Inr ps'" "caps_uniform ps" "distinct (map fst xs)"
  shows "caps_uniform ps' \<and> ps_classes ps' = ps_classes ps \<and> ps_resources ps' = ps_resources ps
    \<and> ps_capability_authority ps' = ps_capability_authority ps
    \<and> (\<forall>pool. pool \<notin> fst ` set xs \<longrightarrow> pool_record ps' pool = pool_record ps pool)
    \<and> (\<forall>(pool, limit) \<in> set xs. map_option cap_capacity (pool_record ps' pool) = Some (capacity_of_limit limit))"
  using assms
proof (induction ps xs rule: with_capability_limits_loop.induct)
  case (2 ps pool limit rest)
  let ?k = "CapabilityId pool (ps_capability_authority ps)"
  let ?ps = "ps\<lparr>ps_capabilities := fmupd ?k \<lparr>cap_id = ?k, cap_capacity = capacity_of_limit limit\<rparr> (ps_capabilities ps)\<rparr>"
  have key: "(case capability_key ps pool of Some i \<Rightarrow> i | None \<Rightarrow> ?k) = ?k"
    using capability_key_uniform [OF "2.prems"(2)] by simp
  have u: "caps_uniform ?ps" using "2.prems"(2) by (auto simp: caps_uniform_def)
  have run: "with_capability_limits_loop ?ps rest = Inr ps'" and ok: "trim pool \<noteq> []"
    "\<exists>r \<in> set (bt_values (ps_substrates ps)). sub_kind r \<noteq> AuthorityOnly \<and> sub_capability_pool r = Some pool"
    using "2.prems"(1) key by (auto simp: Let_def split: if_splits)
  have pr: "pool_record ?ps q = (if q = pool then Some \<lparr>cap_id = ?k, cap_capacity = capacity_of_limit limit\<rparr> else pool_record ps q)" for q
    by (simp add: pool_record_def)
  have d: "distinct (map fst rest)" and n: "pool \<notin> fst ` set rest" using "2.prems"(3) by auto
  have "\<not> trim pool = []" "\<not> \<not> (\<exists>r \<in> set (bt_values (ps_substrates ps)). sub_kind r \<noteq> AuthorityOnly \<and> sub_capability_pool r = Some pool)"
    using ok by blast+
  from "2.IH" [OF this key [symmetric] run u d] pr n show ?case by auto
qed simp

lemma with_capability_limits_Inr:
  assumes "with_capability_limits ps limits = Inr ps'" "caps_uniform ps"
  shows "caps_uniform ps'" "ps_classes ps' = ps_classes ps" "ps_resources ps' = ps_resources ps"
    "fmlookup limits pool = Some limit \<Longrightarrow> map_option cap_capacity (pool_record ps' pool) = Some (capacity_of_limit limit)"
proof -
  have "distinct (map fst (bt_entries limits))" by (simp add: map_fst_bt_entries)
  from with_capability_limits_loop_Inr [OF assms(1) [unfolded with_capability_limits_def] assms(2) this]
  show "caps_uniform ps'" "ps_classes ps' = ps_classes ps" "ps_resources ps' = ps_resources ps"
    "fmlookup limits pool = Some limit \<Longrightarrow> map_option cap_capacity (pool_record ps' pool) = Some (capacity_of_limit limit)"
    unfolding entries_Ball by blast+
qed

lemma insert_limits_Inr:
  assumes "insert_limits xs m = Inr m'"
  shows "(\<forall>k v. fmlookup m k = Some v \<longrightarrow> fmlookup m' k = Some v)
    \<and> (\<forall>(pool, n) \<in> set xs. n \<noteq> 0 \<longrightarrow> n \<le> u32_max \<and> fmlookup m' pool = Some n)"
  using assms
proof (induction xs arbitrary: m)
  case (Cons x xs)
  obtain pool n where x: "x = (pool, n)" by fastforce
  from Cons.prems obtain m1 where m1: "insert_limit (pool, n) m = Inr m1" "insert_limits xs m1 = Inr m'"
    by (auto simp: and_then_Inr_iff x)
  have "(n = 0 \<and> m1 = m) \<or> (0 < n \<and> n \<le> u32_max \<and> fmlookup m pool = None \<and> m1 = fmupd pool n m)"
    using m1(1) by (auto simp: insert_limit_def split: if_splits)
  then have "(\<forall>k v. fmlookup m k = Some v \<longrightarrow> fmlookup m1 k = Some v) \<and> (n \<noteq> 0 \<longrightarrow> n \<le> u32_max \<and> fmlookup m1 pool = Some n)"
    by auto
  with Cons.IH [OF m1(2)] show ?case unfolding x by (auto simp del: insert_limits.simps)
qed simp

lemma capability_limits_Inr:
  assumes "capability_limits t cpu shared_w own limits = Inr out"
  shows "fmlookup out (lit ''cpu'') = Some (max cpu 1)" "fmlookup out PHYSICAL_CPU = Some (max cpu 1)"
    "shared_w \<noteq> 0 \<Longrightarrow> fmlookup out PHYSICAL_SHARED_BLOCKING = Some shared_w"
    "own \<noteq> 0 \<Longrightarrow> fmlookup out PHYSICAL_DEDICATED = Some own"
    "(pool, n) \<in> set (declared_slots t) \<Longrightarrow> n \<noteq> 0 \<Longrightarrow> fmlookup out pool = Some n"
proof -
  from assms have "insert_limits ([(lit ''cpu'', max cpu 1), (PHYSICAL_CPU, max cpu 1), (PHYSICAL_SHARED_BLOCKING, shared_w),
      (PHYSICAL_DEDICATED, own)] @ declared_slots t) limits = Inr out"
    by (simp add: capability_limits_def split: option.splits)
  from insert_limits_Inr [OF this] show "fmlookup out (lit ''cpu'') = Some (max cpu 1)" "fmlookup out PHYSICAL_CPU = Some (max cpu 1)"
    "shared_w \<noteq> 0 \<Longrightarrow> fmlookup out PHYSICAL_SHARED_BLOCKING = Some shared_w"
    "own \<noteq> 0 \<Longrightarrow> fmlookup out PHYSICAL_DEDICATED = Some own"
    "(pool, n) \<in> set (declared_slots t) \<Longrightarrow> n \<noteq> 0 \<Longrightarrow> fmlookup out pool = Some n"
    by auto
qed

text \<open>The slots a capability pool of a policy set has: its capacity when it is bounded.\<close>

definition pool_slots :: "PolicySet \<Rightarrow> str \<Rightarrow> nat option" where
  "pool_slots ps pool =
     (case capability_key ps pool of
        None \<Rightarrow> None
      | Some i \<Rightarrow> map_option (\<lambda>c. capacity_limit (cap_capacity c)) (capability_record ps i))"

lemma pool_slots_uniform:
  assumes "caps_uniform ps" "map_option cap_capacity (pool_record ps pool) = Some (capacity_of_limit n)"
  shows "pool_slots ps pool = Some n" "capability_key ps pool \<noteq> None"
  using assms
  by (auto simp: pool_slots_def capability_key_uniform capability_record_def pool_record_def capacity_of_limit_def split: if_splits)

lemma assemble_policy_Inr:
  assumes "assemble_policy a b cpu shared_w own = Inr ps" "0 < cpu" "0 < shared_w" "0 < own"
  shows "ps_classes ps = b_classes b" "ps_resources ps = b_resources b"
    "pool_slots ps (lit ''cpu'') = Some cpu" "pool_slots ps PHYSICAL_CPU = Some cpu"
    "pool_slots ps PHYSICAL_SHARED_BLOCKING = Some shared_w" "pool_slots ps PHYSICAL_DEDICATED = Some own"
    "(pool, n) \<in> set (declared_slots (b_topology b)) \<Longrightarrow> n \<noteq> 0 \<Longrightarrow> pool_slots ps pool = Some n"
proof -
  obtain ps1 limits where ps1: "with_substrates (PolicySet_new a (b_resources b) (b_classes b))
        (b_substrates b @ map physical_domain_record [PHYSICAL_SHARED_BLOCKING, PHYSICAL_CPU, PHYSICAL_DEDICATED]) = Inr ps1"
    and limits: "capability_limits (b_topology b) cpu shared_w own (b_capability_limits b) = Inr limits"
    and ps: "with_capability_limits ps1 limits = Inr ps"
    using assms(1) unfolding assemble_policy_def and_then_Inr_iff by blast
  have u: "caps_uniform ps1" using caps_uniform_substrates [OF ps1] caps_uniform_new by simp
  have c: "ps_classes ps1 = b_classes b" "ps_resources ps1 = b_resources b"
    using with_substrates_Inr(2) [OF ps1] by (metis PolicySet.select_convs(1,2) PolicySet.simps(8,7) PolicySet_new_def PolicySet.update_convs(3))+
  note W = with_capability_limits_Inr [OF ps u]
  show "ps_classes ps = b_classes b" "ps_resources ps = b_resources b" using W(2,3) c by simp_all
  have slots: "pool_slots ps pool = Some n" if "fmlookup limits pool = Some n" for pool n
    using pool_slots_uniform(1) [OF W(1) W(4) [OF that]] .
  show "pool_slots ps (lit ''cpu'') = Some cpu" "pool_slots ps PHYSICAL_CPU = Some cpu"
    "pool_slots ps PHYSICAL_SHARED_BLOCKING = Some shared_w" "pool_slots ps PHYSICAL_DEDICATED = Some own"
    "(pool, n) \<in> set (declared_slots (b_topology b)) \<Longrightarrow> n \<noteq> 0 \<Longrightarrow> pool_slots ps pool = Some n"
    using slots capability_limits_Inr [OF limits] assms(2-4) by (simp_all add: max_def)
qed

section \<open>What a built runtime guarantees\<close>

lemma check_executor_Inr:
  assumes "check_executor cpu shared_w x = Inr domain" "cpu \<le> u64_max" "shared_w \<le> u64_max"
  shows "nonblocking_submit x"
    "(physical_domain x, declared_workers x) \<in> {(Some PHYSICAL_CPU, Some cpu), (Some PHYSICAL_SHARED_BLOCKING, Some shared_w)}"
proof -
  from assms(1) obtain n k where x: "nonblocking_submit x" "physical_domain x = Some domain" "declared_workers x = Some n"
    "(if domain = PHYSICAL_SHARED_BLOCKING then Inr shared_w else if domain = PHYSICAL_CPU then Inr cpu
      else Inl (InvalidTopology (UnknownExecutorPhysicalDomain domain))) = Inr k"
    "n = (if k \<le> u64_max then k else u64_max)"
    unfolding check_executor_def and_then_Inr_iff ensure_Inr_iff ok_or_Inr_iff by blast
  show "nonblocking_submit x" by (fact x(1))
  have "domain = PHYSICAL_SHARED_BLOCKING \<and> k = shared_w \<or> domain = PHYSICAL_CPU \<and> k = cpu"
    using x(4) by (cases "domain = PHYSICAL_SHARED_BLOCKING"; cases "domain = PHYSICAL_CPU") simp_all
  then have "domain = PHYSICAL_SHARED_BLOCKING \<and> n = shared_w \<or> domain = PHYSICAL_CPU \<and> n = cpu"
    using x(5) assms(2,3) by (elim disjE) simp_all
  then show "(physical_domain x, declared_workers x) \<in> {(Some PHYSICAL_CPU, Some cpu), (Some PHYSICAL_SHARED_BLOCKING, Some shared_w)}"
    using x(2,3) by (elim disjE) simp_all
qed

text \<open>What every runtime that \<open>build\<close> returns has.\<close>

definition runtime_ok :: "nat \<Rightarrow> Builder \<Rightarrow> TokioRuntime \<Rightarrow> bool" where
  "runtime_ok available b rt \<longleftrightarrow> (\<exists>cpu shared_w own.
     try_resolved_physical_domain (b_topology b) PHYSICAL_CPU available = Inr cpu
     \<and> try_resolved_physical_domain (b_topology b) PHYSICAL_SHARED_BLOCKING available = Inr shared_w
     \<and> try_resolved_physical_domain (b_topology b) PHYSICAL_DEDICATED available = Inr own
     \<and> (let ps = gov_policy (rt_governor rt) in
          policy_ok ps \<and> ps_classes ps = b_classes b \<and> cfg_classes (rt_config rt) = b_classes b
          \<and> pool_slots ps (lit ''cpu'') = Some cpu \<and> pool_slots ps PHYSICAL_CPU = Some cpu
          \<and> pool_slots ps PHYSICAL_SHARED_BLOCKING = Some shared_w \<and> pool_slots ps PHYSICAL_DEDICATED = Some own
          \<and> (\<forall>(pool, n) \<in> set (declared_slots (b_topology b)). n \<noteq> 0 \<longrightarrow> pool_slots ps pool = Some n))
     \<and> nonblocking_submit (rt_cpu_capabilities rt)
     \<and> (physical_domain (rt_cpu_capabilities rt), declared_workers (rt_cpu_capabilities rt))
         \<in> {(Some PHYSICAL_CPU, Some cpu), (Some PHYSICAL_SHARED_BLOCKING, Some shared_w)})"

lemma cpu_domain_resolves:
  "try_resolved_cpu_workers t available = Inr cpu \<Longrightarrow> try_resolved_physical_domain t PHYSICAL_CPU available = Inr cpu"
  by (auto simp: try_resolved_physical_domain_def try_resolved_cpu_workers_def and_then_Inr_iff)

lemma domain_bounds:
  assumes "try_resolved_physical_domain t domain available = Inr n"
  shows "0 < n" "n \<le> u32_max"
proof -
  have "1 \<le> n \<and> n \<le> MAX_CAPABILITY_SLOTS"
  proof (cases "domain = PHYSICAL_CPU")
    case True
    then have "try_resolved_cpu_workers t available = Inr n"
      using assms by (auto simp: try_resolved_physical_domain_def and_then_Inr_iff)
    then show ?thesis using resolve_cpu_workers_bounds(1) [of t available]
      by (auto simp: try_resolved_cpu_workers_def and_then_Inr_iff Let_def split: if_splits)
  qed (use assms in \<open>auto simp: try_resolved_physical_domain_def and_then_Inr_iff topology_validate_ok_iff
        topology_ok_def domain_ok_def Let_def not_less split: if_splits PhysicalDomainMode.splits\<close>)
  then show "0 < n" "n \<le> u32_max" by (simp_all add: MAX_CAPABILITY_SLOTS_def)
qed

lemma build_runtime_ok:
  assumes "build default_executor a available counter b = (c', Returned (Inr rt))"
  shows "runtime_ok available b rt"
proof -
  obtain cpu shared_w own x where no_err: "b_registration_error b = None"
    and cpu: "try_resolved_cpu_workers (b_topology b) available = Inr cpu"
    and dom: "try_resolved_physical_domain (b_topology b) PHYSICAL_SHARED_BLOCKING available = Inr shared_w"
      "try_resolved_physical_domain (b_topology b) PHYSICAL_DEDICATED available = Inr own"
    and bw: "build_with a counter b cpu shared_w own x = (c', Inr rt)"
    using assms unfolding build_def
    by (auto simp: and_then_Inr_iff split: option.splits sum.splits delivery.splits prod.splits)
  obtain domain ps where ex: "check_executor cpu shared_w x = Inr domain" and ps: "assemble_policy a b cpu shared_w own = Inr ps"
    and rt: "Governor_new ps counter = (c', Inr (rt_governor rt))" "cfg_classes (rt_config rt) = b_classes b" "rt_cpu_capabilities rt = x"
    using bw unfolding build_with_def
    by (auto simp: and_then_Inr_iff and_then_Inl_iff Let_def split: sum.splits prod.splits)
  note B = domain_bounds [OF cpu_domain_resolves [OF cpu]] domain_bounds [OF dom(1)] domain_bounds [OF dom(2)]
  note A = assemble_policy_Inr [OF ps B(1,3,5)]
  have g: "policy_ok ps" "gov_policy (rt_governor rt) = ps" using rt(1) by (auto simp: Governor_new_ok)
  have "cpu \<le> u64_max" "shared_w \<le> u64_max" using B by (simp_all add: u32_max_def u64_max_def)
  note E = check_executor_Inr [OF ex this]
  with A g rt(2,3) E dom cpu_domain_resolves [OF cpu] show ?thesis unfolding runtime_ok_def Let_def by blast
qed

definition host_pools :: "str set" where
  "host_pools = insert PHYSICAL_CPU (insert PHYSICAL_SHARED_BLOCKING (insert PHYSICAL_DEDICATED builtin_pools))"

lemma pool_slots_key: "pool_slots ps pool = Some n \<Longrightarrow> capability_key ps pool \<noteq> None"
  by (auto simp: pool_slots_def split: option.splits)

lemma host_pool_named: "pool \<in> host_pools \<Longrightarrow> trim pool \<noteq> []"
proof -
  have "\<forall>pool \<in> host_pools. trim pool \<noteq> []" unfolding host_pools_def builtin_pools_def trim_eq_Nil_iff
    by (simp add: PHYSICAL_CPU_def PHYSICAL_SHARED_BLOCKING_def PHYSICAL_DEDICATED_def lit_def is_whitespace_def)
  then show "pool \<in> host_pools \<Longrightarrow> trim pool \<noteq> []" by blast
qed

lemma host_pool_registered:
  assumes "runtime_ok available b rt" "pool \<in> host_pools"
  shows "capability_key (gov_policy (rt_governor rt)) pool \<noteq> None"
proof -
  let ?ps = "gov_policy (rt_governor rt)"
  obtain cpu shared_w own where ok: "policy_ok ?ps" and slots: "pool_slots ?ps PHYSICAL_CPU = Some cpu"
    "pool_slots ?ps PHYSICAL_SHARED_BLOCKING = Some shared_w" "pool_slots ?ps PHYSICAL_DEDICATED = Some own"
    using assms(1) unfolding runtime_ok_def Let_def by blast
  note c = slots [THEN pool_slots_key]
  from assms(2) consider "pool = PHYSICAL_CPU" | "pool = PHYSICAL_SHARED_BLOCKING" | "pool = PHYSICAL_DEDICATED" | "pool \<in> builtin_pools"
    unfolding host_pools_def by blast
  then show ?thesis
  proof cases
    case 4
    then show ?thesis using builtin_pool_resolves [OF ok] by blast
  qed (simp_all only: c not_False_eq_True)
qed

lemma resolve_requirements_ok:
  assumes "\<forall>pool \<in> set_option capability \<union> set_option domain. trim pool \<noteq> [] \<and> capability_key ps pool \<noteq> None"
  shows "\<exists>out. resolve_requirements ps capability domain = Inr out"
proof -
  let ?names = "List.map_filter id [capability, domain]"
  have names: "set ?names = set_option capability \<union> set_option domain" "length ?names \<le> 2"
    by (cases capability; cases domain; simp add: List.map_filter_def; blast)+
  have "\<forall>r \<in> set (map (resolve_capability ps) ?names). \<exists>x. r = Inr x \<and> True"
    using assms unfolding names(1) [symmetric] set_map by (auto simp: resolve_capability_def)
  from result_list_ok [OF this] obtain cs where cs: "result_list (map (resolve_capability ps) ?names) = Inr cs" by blast
  then have "map (resolve_capability ps) ?names = map Inr cs" by (simp only: result_list_Inr)
  then have len: "length cs \<le> 2" using names(2) by (metis length_map)
  have sub: "Registered ` {c. Registered c \<in> set cs} \<subseteq> set cs" by blast
  have inj: "inj_on Registered {c. Registered c \<in> set cs}" by (simp add: inj_on_def)
  have fin: "finite {c. Registered c \<in> set cs}" using finite_imageD [OF finite_subset [OF sub finite_set] inj] .
  have "card {c. Registered c \<in> set cs} \<le> card (set cs)" using card_mono [OF finite_set sub] card_image [OF inj] by simp
  also have "\<dots> \<le> 2" using card_length [of cs] len by linarith
  finally obtain out where "from_resolved cs = Inr out"
    using from_resolved_loop_ok [OF fin, of "[]"] by (auto simp: from_resolved_def MAX_CAPABILITY_REQUIREMENTS_def)
  with cs show ?thesis by (auto simp: resolve_requirements_def map_err_def)
qed

definition stack_acceptable :: "DispatchKind \<Rightarrow> nat option \<Rightarrow> bool" where
  "stack_acceptable dispatch stack =
     (case stack of
        None \<Rightarrow> dispatch \<noteq> DedicatedStackRuntime
      | Some n \<Rightarrow> dispatch \<in> {OnBlockingPool, DedicatedStackRuntime} \<and> 0 < n \<and> n \<le> MAX_REQUESTED_STACK_BYTES)"

definition deadline_acceptable :: "ClassPolicy option \<Rightarrow> SubmitOptions \<Rightarrow> bool" where
  "deadline_acceptable policy opts \<longleftrightarrow>
     opt_deadline opts = None \<or> policy = None \<or> map_option cancellation_policy policy = Some CooperativeWithDeadline"

lemma deadline_refused_None: "deadline_refused policy opts = None \<longleftrightarrow> deadline_acceptable policy opts"
  by (auto simp: deadline_refused_def deadline_acceptable_def split: option.splits)

lemma validated_stack: "ValidatedStackSize_validate n = (if 0 < n \<and> n \<le> MAX_REQUESTED_STACK_BYTES then Inr n
    else ValidatedStackSize_validate n)"
  "(\<exists>m. ValidatedStackSize_validate n = Inr m) \<longleftrightarrow> 0 < n \<and> n \<le> MAX_REQUESTED_STACK_BYTES"
proof -
  have "MAX_REQUESTED_STACK_BYTES \<le> usize_max_as_u64"
    by (simp add: MAX_REQUESTED_STACK_BYTES_def usize_max_as_u64_def usize_max_def u64_max_def)
  then show "ValidatedStackSize_validate n = (if 0 < n \<and> n \<le> MAX_REQUESTED_STACK_BYTES then Inr n
    else ValidatedStackSize_validate n)"
  "(\<exists>m. ValidatedStackSize_validate n = Inr m) \<longleftrightarrow> 0 < n \<and> n \<le> MAX_REQUESTED_STACK_BYTES"
    by (auto simp: ValidatedStackSize_validate_def validate_stack_size_for_usize_def)
qed

lemma entry_stack:
  assumes "(allowed, dispatch) \<in> set entry_points" "primary_substrate_hint spec \<in> set allowed"
  shows "(\<exists>n. plan_stack_size (effective_dispatch spec dispatch) (spec_stack_size_bytes spec) = Inr n)
    \<longleftrightarrow> stack_acceptable dispatch (spec_stack_size_bytes spec)"
proof -
  have family: "primary_substrate_hint spec \<in> {BlockingPool, LargeStackCapability, BackgroundOnly}" if "dispatch = OnBlockingPool"
    using assms that by (auto simp: entry_points_def)
  have "dispatch \<noteq> DedicatedStackThread" using assms(1) by (auto simp: entry_points_def)
  then show ?thesis using family
    by (cases dispatch; cases "spec_stack_size_bytes spec")
       (simp_all add: effective_dispatch_def wants_dedicated_thread_def stack_acceptable_def and_then_Inr_iff validated_stack(2))
qed

lemma plan_pools_host:
  assumes "cpu_domain \<in> {PHYSICAL_CPU, PHYSICAL_SHARED_BLOCKING}"
  shows "set_option (plan_capability spec) \<union> set_option (dispatch_domain cpu_domain d) \<subseteq> host_pools"
proof -
  have "set_option (plan_capability spec) \<subseteq> builtin_pools"
    using hint_pool_builtin by (auto simp: plan_capability_def builtin_pools_def)
  moreover have "set_option (dispatch_domain cpu_domain d) \<subseteq> {PHYSICAL_CPU, PHYSICAL_SHARED_BLOCKING, PHYSICAL_DEDICATED}"
    using assms by (cases d) auto
  ultimately show ?thesis unfolding host_pools_def by blast
qed

lemma runtime_resolves:
  assumes "runtime_ok available b rt" "physical_domain (rt_cpu_capabilities rt) = Some cpu_domain"
  shows "\<exists>out. resolve_requirements (gov_policy (rt_governor rt)) (plan_capability spec) (dispatch_domain cpu_domain d) = Inr out"
proof (rule resolve_requirements_ok)
  have "cpu_domain \<in> {PHYSICAL_CPU, PHYSICAL_SHARED_BLOCKING}" using assms unfolding runtime_ok_def by auto
  from plan_pools_host [OF this, of spec d] show "\<forall>pool \<in> set_option (plan_capability spec) \<union> set_option (dispatch_domain cpu_domain d).
      trim pool \<noteq> [] \<and> capability_key (gov_policy (rt_governor rt)) pool \<noteq> None"
    using host_pool_named host_pool_registered [OF assms(1)] by blast
qed

lemma preflight_succeeds:
  assumes "plan_ok spec" "primary_substrate_hint spec \<in> set allowed"
    "plan_stack_size (effective_dispatch spec dispatch) (spec_stack_size_bytes spec) = Inr n" "deadline_refused policy opts = None"
    "resolve_requirements authority (plan_capability spec) (dispatch_domain cpu_domain (effective_dispatch spec dispatch)) = Inr out"
  shows "\<exists>p. preflight spec opts policy allowed dispatch authority cpu_domain = Inr p"
  using assms by (simp add: preflight_def ValidatedTaskPlan_try_from_def plan_ok_validates [symmetric] map_err_def ensure_def Let_def)

text \<open>C35: The machine is resolved once and governs both sides. In every runtime the builder returns, the engine's capability
  limits are the worker counts resolved from the declared topology (the processor role and its physical pool, the shared
  blocking workers, the dedicated threads, and every pool the topology bounds), the installed executor submits without
  blocking and declares exactly the worker count of the physical pool it occupies, and the policy is coherent and holds
  the registered classes. With the default executor the builder never panics.\<close>

theorem built_runtime_bounded:
  "(case build default_executor a available counter b of (c', Returned (Inr rt)) \<Rightarrow> runtime_ok available b rt | _ \<Rightarrow> True)
   \<and> snd (build default_cpu_executor a available counter b) \<noteq> Panicked"
proof
  show "case build default_executor a available counter b of (c', Returned (Inr rt)) \<Rightarrow> runtime_ok available b rt | _ \<Rightarrow> True"
    using build_runtime_ok by (auto split: prod.splits delivery.splits sum.splits)
  have "default_cpu_executor cpu w \<noteq> Panicked" if "try_resolved_physical_domain t d available = Inr w" for cpu w t d
    using domain_bounds [OF that] by (simp add: default_cpu_executor_def)
  then show "snd (build default_cpu_executor a available counter b) \<noteq> Panicked"
    by (auto simp: build_def and_then_Inr_iff split: option.splits sum.splits delivery.splits prod.splits)
qed

lemma built_plan_iff:
  assumes "build default_executor a available counter b = (c', Returned (Inr rt))" "(allowed, dispatch) \<in> set entry_points"
  shows "(\<exists>p. plan rt spec opts allowed dispatch = Inr p) \<longleftrightarrow>
     plan_ok spec \<and> primary_substrate_hint spec \<in> set allowed \<and> stack_acceptable dispatch (spec_stack_size_bytes spec)
     \<and> deadline_acceptable (fmlookup (b_classes b) (spec_class spec)) opts"
proof -
  have ok: "runtime_ok available b rt" by (rule build_runtime_ok [OF assms(1)])
  then obtain domain where dom: "physical_domain (rt_cpu_capabilities rt) = Some domain"
    and cls: "cfg_classes (rt_config rt) = b_classes b" unfolding runtime_ok_def Let_def by blast
  let ?pre = "preflight spec opts (fmlookup (b_classes b) (spec_class spec)) allowed dispatch (gov_policy (rt_governor rt)) domain"
  have plan: "plan rt spec opts allowed dispatch = ?pre" by (simp add: plan_def dom cls ok_or_def)
  show ?thesis
  proof
    assume "\<exists>p. plan rt spec opts allowed dispatch = Inr p"
    then obtain p where p: "?pre = Inr p" using plan by auto
    note P = preflight_Inr [OF p]
    have "\<exists>n. plan_stack_size (effective_dispatch spec dispatch) (spec_stack_size_bytes spec) = Inr n" using P(4,5) by auto
    then show "plan_ok spec \<and> primary_substrate_hint spec \<in> set allowed \<and> stack_acceptable dispatch (spec_stack_size_bytes spec)
       \<and> deadline_acceptable (fmlookup (b_classes b) (spec_class spec)) opts"
      using P(1,3,7) entry_stack [OF assms(2) P(3)] deadline_refused_None by blast
  next
    assume h: "plan_ok spec \<and> primary_substrate_hint spec \<in> set allowed \<and> stack_acceptable dispatch (spec_stack_size_bytes spec)
       \<and> deadline_acceptable (fmlookup (b_classes b) (spec_class spec)) opts"
    then obtain n where n: "plan_stack_size (effective_dispatch spec dispatch) (spec_stack_size_bytes spec) = Inr n"
      using entry_stack [OF assms(2)] by blast
    obtain out where "resolve_requirements (gov_policy (rt_governor rt)) (plan_capability spec)
        (dispatch_domain domain (effective_dispatch spec dispatch)) = Inr out"
      using runtime_resolves [OF ok dom] by blast
    with preflight_succeeds [OF _ _ n _ this] h plan show "\<exists>p. plan rt spec opts allowed dispatch = Inr p"
      using deadline_refused_None by auto
  qed
qed

text \<open>C36: A built runtime refuses a submission for the submission's own reasons only. On every entry point the planner accepts
  exactly the well-formed specifications whose first substrate the entry point runs, with a stack request the path can honour
  (between one byte and 16 GiB on the blocking and the requested-stack paths, none elsewhere, required on the latter), and
  whose deadline, if any, the class can enforce: every pool a plan may name is registered.\<close>

theorem built_runtime_accepts:
  assumes "build default_executor a available counter b = (c', Returned (Inr rt))" "(allowed, dispatch) \<in> set entry_points"
  shows "(\<exists>p. plan rt spec opts allowed dispatch = Inr p) \<longleftrightarrow>
     plan_ok spec \<and> primary_substrate_hint spec \<in> set allowed \<and> stack_acceptable dispatch (spec_stack_size_bytes spec)
     \<and> deadline_acceptable (fmlookup (b_classes b) (spec_class spec)) opts"
  by (rule built_plan_iff [OF assms])

definition sample_builder :: Builder where
  "sample_builder = Builder_capability_limit (lit ''gpu'') 2
     (Builder_substrate (SubstrateRecord_new (lit ''gpu'') CompetingExecution (Some (lit ''gpu'')))
       (Builder_class_policy (lit ''api'') (ClassPolicy_default\<lparr>max_inflight := 1\<rparr>) Builder_new))"

theorem built_runtime_accepts_witness:
  "\<exists>rt. build default_cpu_executor 9 4 7 sample_builder = (8, Returned (Inr rt))
     \<and> (\<exists>p. plan rt plan_spec SubmitOptions_unbounded [BlockingPool, LargeStackCapability, BackgroundOnly] OnBlockingPool = Inr p)"
proof -
  have "case build default_cpu_executor 9 4 7 sample_builder of (c, Returned (Inr rt)) \<Rightarrow> c = 8 | _ \<Rightarrow> False" by code_simp
  then obtain rt where rt: "build default_cpu_executor 9 4 7 sample_builder = (8, Returned (Inr rt))"
    by (auto split: prod.splits delivery.splits sum.splits)
  have v: "case validate_task_spec plan_spec of Inr _ \<Rightarrow> True | Inl _ \<Rightarrow> False" by code_simp
  then have "plan_ok plan_spec" unfolding plan_ok_validates [symmetric] by (auto split: sum.splits)
  moreover have "primary_substrate_hint plan_spec = BackgroundOnly" "spec_stack_size_bytes plan_spec = Some 65536"
    by code_simp+
  moreover have "stack_acceptable OnBlockingPool (Some 65536)" by code_simp
  moreover have "opt_deadline SubmitOptions_unbounded = None" by code_simp
  ultimately have "\<exists>p. plan rt plan_spec SubmitOptions_unbounded [BlockingPool, LargeStackCapability, BackgroundOnly] OnBlockingPool = Inr p"
    by (subst built_runtime_accepts [OF rt]) (auto simp: entry_points_def deadline_acceptable_def)
  with rt show ?thesis by blast
qed

end
