(* ===== verification/TM_Lease.thy ===== *)
theory TM_Lease
  imports TM_Builder
begin

text \<open>
  The execution lease of \<^verbatim>\<open>taskmesh/src/runtime.rs\<close> and the detached worker of \<^verbatim>\<open>taskmesh/src/runtime/detached.rs\<close>:
  who owns a permit from its grant to its release, what a worker does under it and when its caller is answered.

  A destructor is the operation that runs when its value is dropped (\<open>lease_drop\<close>, \<open>guard_drop\<close>). A future is modelled by
  what one poll of it answers (\<open>None\<close> is pending); the branches of a biased \<open>select!\<close> are tried in the order they are
  written. Whether a Tokio timer set to an instant has fired is the predicate \<open>fired\<close>, a one-shot channel is what its
  receiver finds, and a closure is what it returns or that it panics.
\<close>

section \<open>The lease\<close>

datatype Custody = CustodyReserved | CustodyLeased LeaseToken | CustodyGone

record ExecutionLease =
  lease_permit_id :: PermitId
  lease_custody :: Custody

definition ExecutionLease_reserved :: "PermitId \<Rightarrow> ExecutionLease" where
  "ExecutionLease_reserved p = \<lparr>lease_permit_id = p, lease_custody = CustodyReserved\<rparr>"

definition lease_advance ::
  "ExecutionPhase \<Rightarrow> ExecutionLease \<Rightarrow> GovernedState \<Rightarrow> nat
     \<Rightarrow> (GovernedState \<times> nat) \<times> ExecutionLease \<times> (GovernorError, unit) result" where
  "lease_advance phase l s nonces =
     (let permit = lease_permit_id l in
      if lease_custody l = CustodyGone then ((s, nonces), l, Inl (LeaseReclaimed (permit_sequence permit)))
      else
        case advance_phase permit phase s nonces of
          (sn, Leased token) \<Rightarrow> (sn, l\<lparr>lease_custody := CustodyLeased token\<rparr>, Inr ())
        | (sn, Advanced) \<Rightarrow>
            (case lease_custody l of
               CustodyLeased _ \<Rightarrow> (sn, l, Inr ())
             | _ \<Rightarrow> (sn, l\<lparr>lease_custody := CustodyGone\<rparr>,
                     Inl (PolicyViolation (LeasedOutsideRuntime (permit_authority permit) (permit_sequence permit)))))
        | (sn, Refused AdvanceUnknownPermit) \<Rightarrow>
            (sn, l\<lparr>lease_custody := CustodyGone\<rparr>, Inl (LeaseReclaimed (permit_sequence permit)))
        | (sn, Refused (NotLater current)) \<Rightarrow>
            (sn, l, Inl (PolicyViolation (PhaseNotLater phase (permit_authority permit) (permit_sequence permit) current))))"

definition lease_drop ::
  "PolicySet \<Rightarrow> nat \<Rightarrow> ExecutionLease \<Rightarrow> GovernedState \<Rightarrow> GovernedState \<times> ReleaseOutcome option" where
  "lease_drop ps sampled l s =
     (case lease_custody l of
        CustodyGone \<Rightarrow> (s, None)
      | CustodyReserved \<Rightarrow> map_prod id Some (release ps sampled (lease_permit_id l) s)
      | CustodyLeased token \<Rightarrow> map_prod id Some (release_leased ps sampled token s))"

text \<open>\<open>return_unstarted\<close> of \<^verbatim>\<open>runtime/acquisition.rs\<close>, and the guard of a queued ticket.\<close>

definition return_unstarted :: "PolicySet \<Rightarrow> nat \<Rightarrow> PermitId \<Rightarrow> GovernedState \<Rightarrow> GovernedState" where
  "return_unstarted ps sampled p s = fst (lease_drop ps sampled (ExecutionLease_reserved p) s)"

definition guard_drop :: "PolicySet \<Rightarrow> nat \<Rightarrow> Ticket option \<Rightarrow> GovernedState \<Rightarrow> GovernedState" where
  "guard_drop ps sampled guard s = (case guard of None \<Rightarrow> s | Some t \<Rightarrow> fst (abandon ps sampled t s))"

section \<open>The detached worker\<close>

datatype ('v, 'e) JobOutcome = JobReturned 'v | JobFailed 'e | JobPanicked

datatype 'a OneShot = NotYet | Received 'a | SenderDropped

record ('v, 'e) DetachedOutcome =
  do_result :: "('e RunError, 'v) result"
  do_started_at :: Instant
  do_completed_at :: Instant
  do_lease :: ExecutionLease

text \<open>The worker before the job: it runs the job only when the answer is \<open>Inr ()\<close>.\<close>

definition detached_begin ::
  "Instant option \<Rightarrow> Instant \<Rightarrow> ExecutionLease \<Rightarrow> GovernedState \<Rightarrow> nat
     \<Rightarrow> (GovernedState \<times> nat) \<times> ExecutionLease \<times> (GovernorError, unit) result" where
  "detached_begin response_by started_at l s nonces =
     (if expired response_by started_at then ((s, nonces), l, Inl DeadlineExceeded)
      else lease_advance Running l s nonces)"

definition detached_finish ::
  "str \<Rightarrow> ('v, 'e) JobOutcome \<Rightarrow> ExecutionLease \<Rightarrow> GovernedState \<Rightarrow> nat
     \<Rightarrow> (GovernedState \<times> nat) \<times> ExecutionLease \<times> ('e RunError, 'v) result" where
  "detached_finish context job l s nonces =
     (case lease_advance CleanupPending l s nonces of
        (sn, l, Inr ()) \<Rightarrow>
          (sn, l, case job of
                    JobReturned v \<Rightarrow> Inr v
                  | JobFailed e \<Rightarrow> Inl (TaskRunError e)
                  | JobPanicked \<Rightarrow> Inl (GovernorRunError (WorkerPanicked context)))
      | (sn, l, Inl err) \<Rightarrow> (sn, l, Inl (GovernorRunError err)))"

text \<open>The last send of the worker: a payload nobody receives is dropped with its lease.\<close>

definition detached_deliver ::
  "PolicySet \<Rightarrow> nat \<Rightarrow> bool \<Rightarrow> ('v, 'e) DetachedOutcome \<Rightarrow> GovernedState \<Rightarrow> GovernedState \<times> ('v, 'e) DetachedOutcome option" where
  "detached_deliver ps sampled listening outcome s =
     (if listening then (s, Some outcome) else (fst (lease_drop ps sampled (do_lease outcome) s), None))"

section \<open>The caller's answer\<close>

definition finalize_released_response ::
  "(CancellationToken \<Rightarrow> bool) \<Rightarrow> Instant \<Rightarrow> ('e RunError, 'v) result \<Rightarrow> CancellationToken option \<Rightarrow> Instant option
     \<Rightarrow> ('e RunError, 'v) result" where
  "finalize_released_response cancelled now result cancel response_by =
     (if is_cancelled cancelled cancel then Inl (GovernorRunError CancelledError)
      else if expired response_by now then Inl (GovernorRunError DeadlineExceeded)
      else result)"



text \<open>A receiver that goes out of scope drops the message it holds, and with it the lease of a completion nobody took.\<close>

definition drop_receiver :: "PolicySet \<Rightarrow> nat \<Rightarrow> ('m \<Rightarrow> ExecutionLease option) \<Rightarrow> 'm OneShot \<Rightarrow> GovernedState \<Rightarrow> GovernedState" where
  "drop_receiver ps sampled lease_of rx s =
     (case rx of
        Received message \<Rightarrow> (case lease_of message of Some l \<Rightarrow> fst (lease_drop ps sampled l s) | None \<Rightarrow> s)
      | _ \<Rightarrow> s)"


text \<open>One poll of \<open>run_cancellable\<close>, the race of cooperative work against its token and its deadline; \<open>work\<close> is the instant it
  completed with its outcome.\<close>

definition completion_deadline ::
  "Instant \<Rightarrow> Instant \<Rightarrow> SubmissionDeadline option \<Rightarrow> (GovernorError, Instant option) result" where
  "completion_deadline instant_max now deadline =
     (case deadline of
        Some (RunFor d) \<Rightarrow> and_then (ok_or (checked_add instant_max now d) (PolicyViolation RunDeadlineOutOfRange)) (\<lambda>i. Inr (Some i))
      | Some (CompleteBy i) \<Rightarrow> Inr (Some i)
      | None \<Rightarrow> Inr None)"

definition run_cancellable ::
  "(CancellationToken \<Rightarrow> bool) \<Rightarrow> (Instant \<Rightarrow> bool) \<Rightarrow> CancellationToken option \<Rightarrow> Instant option
     \<Rightarrow> (Instant \<times> ('e RunError, 'v) result) option \<Rightarrow> ('e RunError, 'v) result option" where
  "run_cancellable cancelled fired token deadline work =
     (if is_cancelled cancelled token then Some (Inl (GovernorRunError CancelledError))
      else if (case deadline of None \<Rightarrow> False | Some d \<Rightarrow> fired d) then Some (Inl (GovernorRunError DeadlineExceeded))
      else map_option (\<lambda>(completed_at, outcome).
             if expired deadline completed_at then Inl (GovernorRunError DeadlineExceeded) else outcome) work)"

text \<open>One poll of \<open>run_io_acquired\<close> and \<open>run_local_with\<close> after their lease entered \<open>Running\<close>.\<close>

definition run_io_acquired ::
  "PolicySet \<Rightarrow> nat \<Rightarrow> (CancellationToken \<Rightarrow> bool) \<Rightarrow> (Instant \<Rightarrow> bool) \<Rightarrow> (CancellationToken \<Rightarrow> bool) \<Rightarrow> Instant
     \<Rightarrow> ExecutionLease \<Rightarrow> ValidatedDispatchPlan \<Rightarrow> Instant option \<Rightarrow> (Instant \<times> ('e RunError, 'v) result) option
     \<Rightarrow> GovernedState \<Rightarrow> GovernedState \<times> ('e RunError, 'v) result option" where
  "run_io_acquired ps sampled cancelled fired cancelled' now' l dplan deadline work s =
     (case run_cancellable cancelled fired (dp_cancel dplan) deadline work of
        None \<Rightarrow> (s, None)
      | Some result \<Rightarrow>
          (fst (lease_drop ps sampled l s),
           Some (finalize_released_response cancelled' now' result (dp_cancel dplan) (absolute_deadline dplan))))"

section \<open>The requested-stack async worker\<close>

datatype ('v, 'e) AsyncThreadOutcome = Completed "('e RunError, 'v) result" ExecutionLease | Terminated "'e RunError"

text \<open>The outcomes that are answered before the worker's runtime is torn down.\<close>

definition terminal_reply :: "('e RunError, 'v) result \<Rightarrow> 'e RunError option" where
  "terminal_reply result =
     (case result of
        Inr _ \<Rightarrow> None
      | Inl err \<Rightarrow> if run_governor err \<in> {Some CancelledError, Some DeadlineExceeded} then Some err else None)"

text \<open>What the worker thread does once its root future has ended (\<open>None\<close>: it panicked): the reply it sends, and the lease it
  keeps to drop after tearing its runtime down.\<close>

definition stack_worker_finish ::
  "str \<Rightarrow> ('e RunError, 'v) result option \<Rightarrow> ExecutionLease \<Rightarrow> GovernedState \<Rightarrow> nat
     \<Rightarrow> (GovernedState \<times> nat) \<times> ('v, 'e) AsyncThreadOutcome \<times> ExecutionLease option" where
  "stack_worker_finish context root l s nonces =
     (case root of
        None \<Rightarrow> ((s, nonces), Terminated (GovernorRunError (WorkerPanicked context)), Some l)
      | Some result \<Rightarrow>
          (case lease_advance CleanupPending l s nonces of
             (sn, l, Inl err) \<Rightarrow> (sn, Terminated (GovernorRunError err), Some l)
           | (sn, l, Inr ()) \<Rightarrow>
               (case terminal_reply result of
                  Some err \<Rightarrow> (sn, Terminated err, Some l)
                | None \<Rightarrow> (sn, Completed result l, None))))"

definition outcome_lease :: "('v, 'e) AsyncThreadOutcome \<Rightarrow> ExecutionLease option" where
  "outcome_lease outcome = (case outcome of Completed _ l \<Rightarrow> Some l | Terminated _ \<Rightarrow> None)"

definition await_stack_worker ::
  "PolicySet \<Rightarrow> nat \<Rightarrow> (CancellationToken \<Rightarrow> bool) \<Rightarrow> (Instant \<Rightarrow> bool) \<Rightarrow> (CancellationToken \<Rightarrow> bool) \<Rightarrow> Instant
     \<Rightarrow> ('v, 'e) AsyncThreadOutcome OneShot \<Rightarrow> ValidatedDispatchPlan \<Rightarrow> str \<Rightarrow> GovernedState
     \<Rightarrow> GovernedState \<times> ('e RunError, 'v) result option" where
  "await_stack_worker ps sampled cancelled fired cancelled' now' rx dplan context s =
     (let give_up = drop_receiver ps sampled outcome_lease rx s in
      if is_cancelled cancelled (dp_cancel dplan) then (give_up, Some (Inl (GovernorRunError CancelledError)))
      else if (case absolute_deadline dplan of None \<Rightarrow> False | Some d \<Rightarrow> fired d)
        then (give_up, Some (Inl (GovernorRunError DeadlineExceeded)))
      else case rx of
             NotYet \<Rightarrow> (s, None)
           | SenderDropped \<Rightarrow> (s, Some (Inl (GovernorRunError (JobAbandoned context))))
           | Received (Terminated err) \<Rightarrow> (s, Some (Inl err))
           | Received (Completed result l) \<Rightarrow>
               (fst (lease_drop ps sampled l s),
                Some (finalize_released_response cancelled' now' result (dp_cancel dplan) (absolute_deadline dplan))))"

section \<open>Thread labels\<close>

definition MAX_THREAD_NAME_BYTES :: nat where
  "MAX_THREAD_NAME_BYTES = 48"

definition label_character :: "nat \<Rightarrow> nat" where
  "label_character ch =
     (if (of_char CHR ''a'' \<le> ch \<and> ch \<le> of_char CHR ''z'') \<or> (of_char CHR ''A'' \<le> ch \<and> ch \<le> of_char CHR ''Z'')
        \<or> (of_char CHR ''0'' \<le> ch \<and> ch \<le> of_char CHR ''9'') \<or> ch \<in> {of_char CHR ''.'', of_char CHR ''_'', of_char CHR ''-''}
      then ch else of_char CHR ''_'')"

fun thread_name_loop :: "str \<Rightarrow> str \<Rightarrow> str" where
  "thread_name_loop name [] = name"
| "thread_name_loop name (ch # rest) =
     (if MAX_THREAD_NAME_BYTES \<le> str_len name then name else thread_name_loop (name @ [label_character ch]) rest)"

definition requested_stack_thread_name_v1 :: "TaskSpec \<Rightarrow> str" where
  "requested_stack_thread_name_v1 spec = thread_name_loop (lit ''taskmesh.large_stack:'') (spec_class spec)"

section \<open>A release by its holder\<close>

lemma release_section_gone:
  assumes inv: "gov_inv n s" and pop: "population s \<le> u32_max"
    and r: "fmlookup (gs_permits s) p = Some r" "rec_lease_nonce r = pf"
  obtains s' e where "release_section ps sampled p pf s = ((s', e), ReleasedOk)" "p \<notin> permit_ids s'" "gov_inv n s'"
    "evolves s s'" "population s' \<le> u32_max"
proof -
  obtain s0 now where c: "commit_time sampled s = (s0, now)" by force
  have s0: "sound ps {(p, m) |m. pf = Some m} n s s0" using sound_commit_time [OF inv, of ps _ sampled] c by simp
  have r0: "fmlookup (gs_permits s0) p = Some r" using r(1) c by (auto simp: commit_time_def Let_def)
  obtain s1 e1 x where u: "unwind p Released s0 no_effects = ((s1, e1), x)" by (metis prod.collapse)
  have rel: "release_with_proof_reason p pf Released s0 no_effects = ((s1, e1), ReleasedOk)"
    by (simp add: release_live [OF r0] r(2) u)
  have a: "sound ps {(p, m) |m. pf = Some m} n s s1"
    using sound_trans [OF s0 sound_release [OF sound_inv [OF s0] rel]] .
  obtain s2 pass where pr: "promote ps now s1 = (s2, pass)" by force
  have b: "sound ps {} n s1 s2" using sound_promote [OF sound_inv [OF a] sound_population [OF a pop]] pr by (metis fst_conv)
  have out: "release_section ps sampled p pf s = ((s2, absorb e1 pass), ReleasedOk)"
    by (simp add: release_section_def c release_with_proof_def rel pr)
  have ev: "evolves s s1" "evolves s1 s2" using a b by (simp_all add: sound_def)
  have "p \<notin> permit_ids s1" by (rule unwound_permit_gone [OF sound_inv [OF s0] r0 u])
  then have "p \<notin> permit_ids s2" using ev(2) unfolding evolves_def by blast
  then show ?thesis
    by (intro that [OF out] sound_inv [OF b] evolves_trans [OF ev] sound_population [OF b sound_population [OF a pop]])
qed

lemma release_gone:
  assumes inv: "gov_inv n s" and pop: "population s \<le> u32_max"
    and r: "fmlookup (gs_permits s) p = Some r" "rec_lease_nonce r = pf"
  obtains s' where "governor_release_with_proof ps sampled p pf s = (s', ReleasedOk)" "p \<notin> permit_ids s'" "gov_inv n s'"
    "evolves s s'" "population s' \<le> u32_max"
proof -
  obtain s1 e where s1: "release_section ps sampled p pf s = ((s1, e), ReleasedOk)" "p \<notin> permit_ids s1" "gov_inv n s1"
    "evolves s s1" "population s1 \<le> u32_max" by (rule release_section_gone [OF assms])
  let ?s = "fst (drain ps sampled s1 e)"
  have d: "sound ps {} n s1 ?s" by (rule sound_drain [OF s1(3,5)])
  then have ev: "evolves s1 ?s" by (simp add: sound_def)
  have out: "governor_release_with_proof ps sampled p pf s = (?s, ReleasedOk)"
    by (simp add: governor_release_with_proof_def s1(1) case_prod_beta)
  have "p \<notin> permit_ids ?s" using s1(2) ev unfolding evolves_def by blast
  then show ?thesis by (intro that [OF out] sound_inv [OF d] evolves_trans [OF s1(4) ev] sound_population [OF d s1(5)])
qed

section \<open>A lease among other threads\<close>

text \<open>
  A lease value and the world around it. Between two uses of the lease any thread may take any step, except one that spends
  the token the lease holds: a \<open>LeaseToken\<close> can be neither copied nor forged, so only its owner can present it.
\<close>

definition lease_tokens :: "ExecutionLease \<Rightarrow> (PermitId \<times> nat) set" where
  "lease_tokens l =
     (case lease_custody l of CustodyLeased token \<Rightarrow> {(token_permit_id token, token_nonce token)} | _ \<Rightarrow> {})"

inductive hosted :: "PolicySet \<Rightarrow> nat \<Rightarrow> World \<Rightarrow> ExecutionLease \<Rightarrow> bool" for ps authority where
  acquired: "reachable ps authority w \<Longrightarrow> hosted ps authority w (ExecutionLease_reserved p)"
| others: "hosted ps authority w l \<Longrightarrow> step ps authority w ev w' \<Longrightarrow> lease_tokens l \<inter> spends ev = {} \<Longrightarrow> hosted ps authority w' l"
| advanced: "hosted ps authority w l \<Longrightarrow> lease_advance phase l (w_state w) (w_nonces w) = ((s, k), l', r) \<Longrightarrow>
    hosted ps authority (w\<lparr>w_state := s, w_nonces := k\<rparr>) l'"

definition lease_backed :: "GovernedState \<Rightarrow> ExecutionLease \<Rightarrow> bool" where
  "lease_backed s l \<longleftrightarrow> (\<forall>token. lease_custody l = CustodyLeased token \<longrightarrow> token_permit_id token = lease_permit_id l
     \<and> (\<exists>r. fmlookup (gs_permits s) (lease_permit_id l) = Some r \<and> rec_lease_nonce r = Some (token_nonce token)))"

lemma lease_backedI:
  assumes "\<And>token. lease_custody l = CustodyLeased token \<Longrightarrow> token_permit_id token = lease_permit_id l
     \<and> (\<exists>r. fmlookup (gs_permits s) (lease_permit_id l) = Some r \<and> rec_lease_nonce r = Some (token_nonce token))"
  shows "lease_backed s l"
  using assms by (simp add: lease_backed_def)

lemma lease_backed_gone [simp]: "lease_custody l = CustodyGone \<Longrightarrow> lease_backed s l" "lease_custody l = CustodyReserved \<Longrightarrow> lease_backed s l"
  by (simp_all add: lease_backed_def)

lemma lease_advance_backed:
  assumes backed: "lease_backed s l" and eq: "lease_advance phase l s k = ((s', k'), l', res)"
  shows "lease_backed s' l' \<and> lease_permit_id l' = lease_permit_id l
    \<and> (res = Inr () \<longrightarrow> (\<exists>token r. lease_custody l' = CustodyLeased token
         \<and> fmlookup (gs_permits s') (lease_permit_id l) = Some r \<and> rec_phase r = phase))"
proof (cases "lease_custody l = CustodyGone")
  case True
  then show ?thesis using eq by (auto simp: lease_advance_def Let_def)
next
  case False
  let ?p = "lease_permit_id l"
  show ?thesis
  proof (cases rule: advance_phase_cases [of s ?p phase k])
    case unknown
    then show ?thesis using eq False by (auto simp: lease_advance_def Let_def)
  next
    case (late r)
    then show ?thesis using eq False backed by (auto simp: lease_advance_def Let_def)
  next
    case (leased r)
    then show ?thesis using eq False by (auto simp: lease_advance_def lease_backed_def Let_def)
  next
    case (advanced r m)
    then show ?thesis using eq False backed
      by (cases "lease_custody l") (auto simp: lease_advance_def lease_backed_def Let_def)
  qed
qed

lemma hosted_inv:
  assumes "hosted ps authority w l"
  shows "reachable ps authority w \<and> lease_backed (w_state w) l"
  using assms
proof induction
  case (acquired w p)
  then show ?case by (simp add: ExecutionLease_reserved_def)
next
  case (others w l ev w')
  then have keep: "keeps_leases (spends ev) (gs_permits (w_state w)) (gs_permits (w_state w'))"
    using step_keeps [OF reachable_inv] by blast
  have "lease_backed (w_state w') l"
  proof (rule lease_backedI)
    fix token assume t: "lease_custody l = CustodyLeased token"
    then obtain r where r: "token_permit_id token = lease_permit_id l" "fmlookup (gs_permits (w_state w)) (lease_permit_id l) = Some r"
      "rec_lease_nonce r = Some (token_nonce token)" using others.IH by (auto simp: lease_backed_def)
    have "(lease_permit_id l, token_nonce token) \<notin> spends ev" using others.hyps(3) t r(1) by (auto simp: lease_tokens_def)
    with keep r show "token_permit_id token = lease_permit_id l
       \<and> (\<exists>r. fmlookup (gs_permits (w_state w')) (lease_permit_id l) = Some r \<and> rec_lease_nonce r = Some (token_nonce token))"
      unfolding keeps_leases_def same_charge_def by blast
  qed
  with others show ?case using reachable.next_step by blast
next
  case (advanced w l phase s k l' r)
  have "reachable ps authority (w\<lparr>w_state := s, w_nonces := k\<rparr>)"
  proof (cases "lease_custody l = CustodyGone")
    case True
    then show ?thesis using advanced by (auto simp: lease_advance_def Let_def)
  next
    case False
    obtain out where adv: "advance_phase (lease_permit_id l) phase (w_state w) (w_nonces w) = ((s, k), out)"
      using advanced.hyps(2) False by (auto simp: lease_advance_def Let_def split: prod.splits AdvanceOutcome.splits Custody.splits AdvanceRefusal.splits)
    show ?thesis using reachable.next_step [OF _ step.advance [OF adv]] advanced.IH by blast
  qed
  then show ?case using lease_advance_backed [OF _ advanced.hyps(2)] advanced.IH by simp
qed

section \<open>Custody follows the work\<close>

lemma drop_leased:
  assumes "hosted ps authority w l" "lease_custody l = CustodyLeased token"
  shows "\<exists>s'. lease_drop ps sampled l (w_state w) = (s', Some ReleasedOk) \<and> fmlookup (gs_permits s') (lease_permit_id l) = None"
proof -
  have h: "reachable ps authority w" "lease_backed (w_state w) l" using hosted_inv [OF assms(1)] by simp_all
  note W = world_invD [OF reachable_inv [OF h(1)]]
  obtain r where r: "token_permit_id token = lease_permit_id l" "fmlookup (gs_permits (w_state w)) (lease_permit_id l) = Some r"
    "rec_lease_nonce r = Some (token_nonce token)" using h(2) assms(2) by (auto simp: lease_backed_def)
  obtain s' where "governor_release_with_proof ps sampled (lease_permit_id l) (Some (token_nonce token)) (w_state w) = (s', ReleasedOk)"
    "lease_permit_id l \<notin> permit_ids s'" "gov_inv (entered w) s'"
    by (rule release_gone [OF W(1,2) r(2,3)])
  then show ?thesis using assms(2) r(1) absent_permit by (simp add: lease_drop_def release_leased_def)
qed

text \<open>Work runs only on capacity its lease holds, and the lease always gives it back. However other threads have interleaved,
  a detached worker starts its job only with its permit live in the engine in phase \<open>Running\<close> under the token its own
  lease holds; and whenever a lease that holds a token is dropped, the engine answers \<open>Released\<close>, the permit is gone,
  and nothing queued has taken its identity: the runtime's debug assertion cannot fail.\<close>

theorem lease_runs_and_releases:
  assumes "hosted ps authority w l"
  shows "(\<forall>response_by at s k l'. detached_begin response_by at l (w_state w) (w_nonces w) = ((s, k), l', Inr ()) \<longrightarrow>
      (\<exists>token r. lease_custody l' = CustodyLeased token \<and> token_permit_id token = lease_permit_id l
         \<and> fmlookup (gs_permits s) (lease_permit_id l) = Some r \<and> rec_lease_nonce r = Some (token_nonce token) \<and> rec_phase r = Running))
    \<and> (\<forall>token. lease_custody l = CustodyLeased token \<longrightarrow>
      (\<exists>s'. lease_drop ps sampled l (w_state w) = (s', Some ReleasedOk) \<and> fmlookup (gs_permits s') (lease_permit_id l) = None))"
proof (intro conjI allI impI)
  fix response_by at s k l'
  assume "detached_begin response_by at l (w_state w) (w_nonces w) = ((s, k), l', Inr ())"
  then have adv: "lease_advance Running l (w_state w) (w_nonces w) = ((s, k), l', Inr ())"
    by (simp add: detached_begin_def split: if_splits)
  have b: "lease_backed (w_state w) l" using hosted_inv [OF assms] by simp
  from lease_advance_backed [OF b adv] show "\<exists>token r. lease_custody l' = CustodyLeased token \<and> token_permit_id token = lease_permit_id l
       \<and> fmlookup (gs_permits s) (lease_permit_id l) = Some r \<and> rec_lease_nonce r = Some (token_nonce token) \<and> rec_phase r = Running"
    by (auto simp: lease_backed_def)
qed (rule drop_leased [OF assms])


lemma finalize_Inr:
  "finalize_released_response cancelled now result cancel by = Inr v \<longleftrightarrow>
     result = Inr v \<and> \<not> is_cancelled cancelled cancel \<and> \<not> expired by now"
  by (auto simp: finalize_released_response_def)

text \<open>The same for the requested-stack worker: a completed root future hands its lease over with its value after the worker's
  runtime is gone, and a terminal reply carries no lease and leaves the work charged.\<close>

theorem stack_answer_after_release:
  assumes "stack_worker_finish context root l (w_state w0) k0 = ((s0, k1), reply, kept)" "hosted ps authority w0 l" "k0 = w_nonces w0"
    and "await_stack_worker ps sampled cancelled fired cancelled' now' (Received reply) dplan context s0 = (s', Some (Inr v))"
  shows "kept = None \<and> root = Some (Inr v) \<and> fmlookup (gs_permits s') (lease_permit_id l) = None"
proof -
  obtain l' where reply: "reply = Completed (Inr v) l'" and s': "s' = fst (lease_drop ps sampled l' s0)"
    using assms(4) by (cases reply) (auto simp: await_stack_worker_def Let_def finalize_Inr split: if_splits)
  obtain result where r: "root = Some result" using assms(1) reply by (cases root) (auto simp: stack_worker_finish_def)
  obtain sn l2 res where la: "lease_advance CleanupPending l (w_state w0) k0 = (sn, l2, res)" by (metis prod_cases3)
  have "res = Inr ()" using assms(1) reply by (cases res) (auto simp: stack_worker_finish_def r la)
  with la have la': "lease_advance CleanupPending l (w_state w0) k0 = (sn, l2, Inr ())" by simp
  have fin: "(case terminal_reply result of Some err \<Rightarrow> (sn, Terminated err, Some l2) | None \<Rightarrow> (sn, Completed result l2, None))
      = ((s0, k1), reply, kept)"
    using assms(1) unfolding stack_worker_finish_def r option.case la' prod.case sum.case unit.case .
  have "terminal_reply result = None \<and> sn = (s0, k1) \<and> kept = None \<and> result = Inr v \<and> l2 = l'"
    using fin unfolding reply by (cases "terminal_reply result") simp_all
  then have kept: "kept = None" and root: "root = Some (Inr v)"
    and adv: "lease_advance CleanupPending l (w_state w0) (w_nonces w0) = ((s0, k1), l', Inr ())"
    using la' r assms(3) by simp_all
  have b: "lease_backed (w_state w0) l" using hosted_inv [OF assms(2)] by simp
  have h: "hosted ps authority (w0\<lparr>w_state := s0, w_nonces := k1\<rparr>) l'" by (rule hosted.advanced [OF assms(2) adv])
  obtain token where "lease_custody l' = CustodyLeased token" "lease_permit_id l' = lease_permit_id l"
    using lease_advance_backed [OF b adv] by blast
  with drop_leased [OF h, of token sampled] s' reply kept root show ?thesis by auto
qed

text \<open>A dedicated thread's label is always constructible: it is at most 48 bytes of ASCII and has no NUL byte, whatever the
  class is called.\<close>

theorem thread_label_safe:
  "str_len (requested_stack_thread_name_v1 spec) \<le> MAX_THREAD_NAME_BYTES
    \<and> (\<forall>c. \<not> (c \<in> set (requested_stack_thread_name_v1 spec) \<and> (c = 0 \<or> 128 \<le> c)))"
proof -
  have lab: "0 < label_character c \<and> label_character c < 128" for c by (auto simp: label_character_def)
  have loop: "str_len (thread_name_loop name cs) \<le> MAX_THREAD_NAME_BYTES
      \<and> (\<forall>c \<in> set (thread_name_loop name cs). 0 < c \<and> c < 128)"
    if "str_len name \<le> MAX_THREAD_NAME_BYTES" "\<forall>c \<in> set name. 0 < c \<and> c < 128" for name cs
    using that
  proof (induction name cs rule: thread_name_loop.induct)
    case (2 name ch rest)
    have "str_len (name @ [label_character ch]) = str_len name + 1"
      using lab [of ch] by (simp add: str_len_def utf8_len_def)
    with 2 lab [of ch] show ?case by (cases "MAX_THREAD_NAME_BYTES \<le> str_len name") auto
  qed simp
  have "str_len (lit ''taskmesh.large_stack:'') \<le> MAX_THREAD_NAME_BYTES" "\<forall>c \<in> set (lit ''taskmesh.large_stack:''). 0 < c \<and> c < 128"
    by code_simp+
  from loop [OF this, of "spec_class spec"] show ?thesis unfolding requested_stack_thread_name_v1_def by fastforce
qed

section \<open>A concrete worker\<close>

definition run_lease :: ExecutionLease where
  "run_lease = \<lparr>lease_permit_id = PermitId 7 1, lease_custody = CustodyLeased (LeaseToken (PermitId 7 1) 1)\<rparr>"


lemma run_lease_advance:
  "lease_advance Running (ExecutionLease_reserved (PermitId 7 1)) run_state2 1 = ((run_state3, 2), run_lease, Inr ())"
proof -
  have "snd (advance_phase (PermitId 7 1) Running run_state2 1) = Leased (LeaseToken (PermitId 7 1) 1)"
    "snd (fst (advance_phase (PermitId 7 1) Running run_state2 1)) = 2" by code_simp+
  then have "advance_phase (PermitId 7 1) Running run_state2 1 = ((run_state3, 2), Leased (LeaseToken (PermitId 7 1) 1))"
    by (simp only: prod_eq_iff fst_conv snd_conv run_state3_def simp_thms)
  then show ?thesis by (simp add: lease_advance_def ExecutionLease_reserved_def run_lease_def Let_def)
qed

lemma hosted_run: "hosted run_policies 7 (run_world run_state3 2) run_lease"
proof -
  have "lease_advance Running (ExecutionLease_reserved (PermitId 7 1)) (w_state (run_world run_state2 1)) (w_nonces (run_world run_state2 1))
      = ((run_state3, 2), run_lease, Inr ())" using run_lease_advance by (simp add: run_world_def)
  from hosted.advanced [OF hosted.acquired [OF reachable_run2] this] show ?thesis by (simp add: run_world_def)
qed

theorem lease_runs_and_releases_witness:
  "\<exists>s'. lease_drop run_policies 30 run_lease run_state3 = (s', Some ReleasedOk) \<and> fmlookup (gs_permits s') (PermitId 7 1) = None"
  using lease_runs_and_releases [OF hosted_run, of 30] by (simp add: run_lease_def run_world_def)


end
