(* ===== verification/TM_Acquire.thy ===== *)
theory TM_Acquire
  imports TM_Lease
begin

text \<open>
  Acquiring an execution lease and draining a runtime: \<^verbatim>\<open>taskmesh/src/runtime/acquisition.rs\<close>,
  \<^verbatim>\<open>taskmesh/src/runtime/drain.rs\<close> and the host preflight of \<^verbatim>\<open>runtime.rs\<close>.

  The clock, the cancelled tokens and the presence of a Tokio context are arguments, read where the code reads them. A
  promotion wait is one poll of the loop of \<open>await_promotion\<close>: \<open>None\<close> means that it parks.
\<close>

section \<open>Host prerequisites\<close>

fun supports_absolute_deadline :: "DispatchKind \<Rightarrow> bool" where
  "supports_absolute_deadline CallerFuture = True"
| "supports_absolute_deadline DedicatedStackRuntime = True"
| "supports_absolute_deadline OnBlockingPool = False"
| "supports_absolute_deadline OnCpuExecutor = False"
| "supports_absolute_deadline DedicatedStackThread = False"

definition plan_supports_absolute_deadline :: "ValidatedDispatchPlan \<Rightarrow> bool" where
  "plan_supports_absolute_deadline dplan = supports_absolute_deadline (dp_dispatch dplan)"

definition tokio_context_text :: str where
  "tokio_context_text = lit ''an active Tokio runtime context is required before admission''"

definition require_tokio_context_v1 :: "bool \<Rightarrow> str \<Rightarrow> (GovernorError, unit) result" where
  "require_tokio_context_v1 in_tokio context = ensure in_tokio (WorkerUnavailable context tokio_context_text)"

definition timer_required :: "SubmitOptions \<Rightarrow> ValidatedDispatchPlan \<Rightarrow> Instant option \<Rightarrow> bool" where
  "timer_required opts dplan response_by \<longleftrightarrow>
     response_by \<noteq> None \<or> (case opt_acquire_timeout opts of None \<Rightarrow> False | Some budget \<Rightarrow> budget \<noteq> 0)
     \<or> (case dp_dispatch dplan of
          CallerFuture \<Rightarrow> dp_deadline dplan \<noteq> None
        | DedicatedStackRuntime \<Rightarrow> absolute_deadline dplan \<noteq> None
        | _ \<Rightarrow> run_budget dplan \<noteq> None)"

definition preflight_runtime_context ::
  "bool \<Rightarrow> ExecutorCapabilities \<Rightarrow> SubmitOptions \<Rightarrow> ValidatedDispatchPlan \<Rightarrow> Instant option \<Rightarrow> (GovernorError, unit) result" where
  "preflight_runtime_context in_tokio cpu opts dplan response_by =
     (if primary_substrate_hint (dp_task dplan) = LocalRuntime \<and> \<not> in_tokio then Inl LocalRuntimeUnavailable
      else
        let context =
              (if dp_dispatch dplan = OnBlockingPool then Some (lit ''blocking worker'')
               else if dp_dispatch dplan = OnCpuExecutor \<and> requires_tokio_context cpu then Some (lit ''cpu executor'')
               else if timer_required opts dplan response_by then Some (lit ''submission timer'')
               else None)
        in case context of None \<Rightarrow> Inr () | Some c \<Rightarrow> require_tokio_context_v1 in_tokio c)"

section \<open>Acquisition\<close>

definition capability_blocked :: "CapacityBlock option \<Rightarrow> bool" where
  "capability_blocked blocker \<longleftrightarrow> blocker = Some BlockCapability"

definition finalize_acquired ::
  "PolicySet \<Rightarrow> nat \<Rightarrow> (CancellationToken \<Rightarrow> bool) \<Rightarrow> Instant \<Rightarrow> PermitId \<Rightarrow> AcquisitionArbiter \<Rightarrow> bool \<Rightarrow> CapacityBlock option
     \<Rightarrow> GovernedState \<Rightarrow> GovernedState \<times> (GovernorError, PermitId) result" where
  "finalize_acquired ps sampled cancelled now p arbiter waited current_blocker s =
     (case rejection cancelled arbiter now waited of
        Some rej \<Rightarrow> (return_unstarted ps sampled p s, Inl (to_governor_error rej (capability_blocked current_blocker)))
      | None \<Rightarrow> (s, Inr p))"

text \<open>The two readings of the token and the clock of one poll: before the claim, and at the handoff of a granted permit.\<close>

definition await_promotion ::
  "(TransitionEffects \<Rightarrow> bool) \<Rightarrow> PolicySet \<Rightarrow> nat \<Rightarrow> (CancellationToken \<Rightarrow> bool) \<Rightarrow> Instant \<Rightarrow> (CancellationToken \<Rightarrow> bool) \<Rightarrow> Instant
     \<Rightarrow> Ticket \<Rightarrow> AcquisitionArbiter \<Rightarrow> GovernedState \<Rightarrow> GovernedState \<times> (GovernorError, PermitId) result option delivery" where
  "await_promotion panics ps sampled cancelled now cancelled' now' t arbiter s =
     (let current_blocker = pending_block_reason ps s t;
          pending = map_option (\<lambda>rej. Inl (to_governor_error rej (capability_blocked current_blocker))) (rejection cancelled arbiter now True)
      in case claim panics ps sampled t s of
           (s, Panicked) \<Rightarrow> (s, Panicked)
         | (s, Returned (ClaimReady p)) \<Rightarrow>
             let (s, r) = finalize_acquired ps sampled cancelled' now' p arbiter True current_blocker s in (s, Returned (Some r))
         | (s, Returned ClaimPending) \<Rightarrow> (s, Returned pending)
         | (s, Returned (ClaimTerminal reason)) \<Rightarrow> (s, Returned (Some (Inl (TicketClaimTerminated (ticket_sequence t) reason))))
         | (s, Returned ClaimInvalid) \<Rightarrow> (s, Returned (Some (Inl (InvalidTicketClaim (ticket_sequence t))))))"

text \<open>The end of a queued acquisition: the guard abandons the ticket unless it is already settled.\<close>

definition settle_ticket :: "PolicySet \<Rightarrow> nat \<Rightarrow> Ticket \<Rightarrow> GovernedState \<Rightarrow> GovernedState" where
  "settle_ticket ps sampled t s =
     guard_drop ps sampled (case ticket_status s t of ClaimTerminal _ \<Rightarrow> None | ClaimInvalid \<Rightarrow> None | _ \<Rightarrow> Some t) s"

datatype AcquireStart = AcquireDone "(GovernorError, PermitId) result" | AcquireQueued Ticket

definition acquire ::
  "(TransitionEffects \<Rightarrow> bool) \<Rightarrow> nat \<Rightarrow> (CancellationToken \<Rightarrow> bool) \<Rightarrow> Instant \<Rightarrow> (CancellationToken \<Rightarrow> bool) \<Rightarrow> Instant
     \<Rightarrow> ValidatedDispatchPlan \<Rightarrow> waker \<Rightarrow> AcquisitionArbiter \<Rightarrow> Governor \<Rightarrow> Governor \<times> AcquireStart delivery" where
  "acquire panics sampled cancelled now cancelled' now' dplan w arbiter g =
     (case rejection cancelled arbiter now False of
        Some rej \<Rightarrow> (g, Returned (AcquireDone (Inl (to_governor_error rej False))))
      | None \<Rightarrow>
          (case gov_admit_validated_requirements panics sampled (dp_task dplan) (dp_requirements dplan) (Some w) g of
             (g, Panicked) \<Rightarrow> (g, Panicked)
           | (g, Returned (Inr (DecAdmitted p))) \<Rightarrow>
               let (s, r) = finalize_acquired (gov_policy g) sampled cancelled' now' p arbiter False None (gov_state g)
               in (g\<lparr>gov_state := s\<rparr>, Returned (AcquireDone r))
           | (g, Returned (Inr (DecRejected verdict))) \<Rightarrow> (g, Returned (AcquireDone (Inl (RejectedError verdict))))
           | (g, Returned (Inr (DecQueued t))) \<Rightarrow> (g, Returned (AcquireQueued t))
           | (g, Returned (Inl err)) \<Rightarrow> (g, Returned (AcquireDone (Inl (PolicyViolation (DispatchRequirementsRejected err)))))))"

text \<open>\<open>acquire_execution_lease_response_by\<close> before it submits: the arbiter of the acquisition, or why it is refused.\<close>

definition acquisition_arbiter ::
  "bool \<Rightarrow> Instant \<Rightarrow> (CancellationToken \<Rightarrow> bool) \<Rightarrow> Instant \<Rightarrow> Instant \<Rightarrow> ExecutorCapabilities \<Rightarrow> SubmitOptions \<Rightarrow> ValidatedDispatchPlan
     \<Rightarrow> Instant option \<Rightarrow> (GovernorError, AcquisitionArbiter) result" where
  "acquisition_arbiter in_tokio instant_max cancelled now now' cpu opts dplan response_by =
     and_then (ensure (\<not> (absolute_deadline dplan \<noteq> None \<and> \<not> plan_supports_absolute_deadline dplan))
                 (PolicyViolation AbsoluteDeadlineNeedsCooperation)) (\<lambda>_.
     and_then (AcquisitionArbiter_new instant_max now opts
                 (case response_by of Some d \<Rightarrow> Some d | None \<Rightarrow> absolute_deadline dplan)) (\<lambda>arbiter.
     and_then (case rejection cancelled arbiter now' False of
                 Some rej \<Rightarrow> Inl (to_governor_error rej False)
               | None \<Rightarrow> preflight_runtime_context in_tokio cpu opts dplan response_by) (\<lambda>_.
     Inr arbiter)))"

section \<open>Draining\<close>

record Outstanding =
  out_inflight :: nat
  out_queued :: nat

definition outstanding :: "Snapshot \<Rightarrow> (TaskClass, Outstanding) fmap" where
  "outstanding snap =
     fmmap (\<lambda>c. \<lparr>out_inflight = snap_inflight c, out_queued = snap_queued c\<rparr>)
       (fmfilter (\<lambda>cl. case fmlookup (snap_classes snap) cl of
                         None \<Rightarrow> False | Some c \<Rightarrow> 0 < snap_inflight c \<or> 0 < snap_queued c) (snap_classes snap))"

datatype DrainLook = Drained nat | StillOutstanding "(TaskClass, Outstanding) fmap"

text \<open>One look of the drain at the gauges, the answer at its deadline, and its first action.\<close>

definition drain_look :: "PolicySet \<Rightarrow> GovernedState \<Rightarrow> DrainLook" where
  "drain_look ps s =
     (let snap = snapshot ps s; classes = outstanding snap
      in if classes = fmempty then Drained (bt_len (snap_classes snap)) else StillOutstanding classes)"

definition drain_begin :: "Governor \<Rightarrow> Governor" where
  "drain_begin g = gov_close_admission g"

definition is_draining :: "Governor \<Rightarrow> bool" where
  "is_draining g = admission_closed (gov_state g)"

text \<open>
  The wake-up of a drain. \<open>DrainSignal\<close> is the mirror of the closed flag and a \<open>Notify\<close>; the gauges are here the number of
  charged requests. A thread that returns custody commits its transition under the engine's lock, then reads the mirror and,
  if it was set, calls \<open>notify_waiters\<close>, which wakes every \<open>Notified\<close> in existence. The drain creates its \<open>Notified\<close>, looks at
  the gauges and waits.
\<close>

record DrainWorld =
  dw_draining :: bool
  dw_armed :: bool
  dw_parked :: bool
  dw_woken :: bool
  dw_busy :: nat
  dw_committed :: nat
  dw_pinging :: nat

definition DrainWorld_init :: DrainWorld where
  "DrainWorld_init = \<lparr>dw_draining = False, dw_armed = False, dw_parked = False, dw_woken = False,
     dw_busy = 0, dw_committed = 0, dw_pinging = 0\<rparr>"

definition DrainSignal_begin :: "DrainWorld \<Rightarrow> DrainWorld" where
  "DrainSignal_begin d = d\<lparr>dw_draining := True\<rparr>"

definition settled_check :: "DrainWorld \<Rightarrow> DrainWorld" where
  "settled_check d = d\<lparr>dw_committed := dw_committed d - 1, dw_pinging := dw_pinging d + (if dw_draining d then 1 else 0)\<rparr>"

definition settled_notify :: "DrainWorld \<Rightarrow> DrainWorld" where
  "settled_notify d = d\<lparr>dw_pinging := dw_pinging d - 1, dw_woken := dw_woken d \<or> dw_armed d\<rparr>"

inductive drain_step :: "DrainWorld \<Rightarrow> DrainWorld \<Rightarrow> bool" where
  drain_begins: "drain_step d (DrainSignal_begin d)"
| drain_arms: "dw_draining d \<Longrightarrow> \<not> dw_parked d \<Longrightarrow> drain_step d (d\<lparr>dw_armed := True, dw_woken := False\<rparr>)"
| drain_looks_idle: "dw_armed d \<Longrightarrow> \<not> dw_parked d \<Longrightarrow> dw_busy d = 0 \<Longrightarrow> drain_step d (d\<lparr>dw_armed := False\<rparr>)"
| drain_looks_busy: "dw_armed d \<Longrightarrow> \<not> dw_parked d \<Longrightarrow> dw_busy d \<noteq> 0 \<Longrightarrow> drain_step d (d\<lparr>dw_parked := True\<rparr>)"
| drain_wakes: "dw_parked d \<Longrightarrow> dw_woken d \<Longrightarrow> drain_step d (d\<lparr>dw_parked := False, dw_armed := False\<rparr>)"
| work_enters: "drain_step d (d\<lparr>dw_busy := dw_busy d + 1\<rparr>)"
| work_leaves: "dw_busy d \<noteq> 0 \<Longrightarrow> drain_step d (d\<lparr>dw_busy := dw_busy d - 1, dw_committed := dw_committed d + 1\<rparr>)"
| work_checks: "dw_committed d \<noteq> 0 \<Longrightarrow> drain_step d (settled_check d)"
| work_pings: "dw_pinging d \<noteq> 0 \<Longrightarrow> drain_step d (settled_notify d)"

section \<open>A queued acquisition strands nothing\<close>

text \<open>A ticket strands capacity when its request is still queued, or when it still names a permit that nobody has taken.\<close>

definition stranded :: "GovernedState \<Rightarrow> Ticket \<Rightarrow> bool" where
  "stranded s t \<longleftrightarrow> (\<exists>cl. fmlookup (gs_tickets s) t = Some (TQueued cl))
     \<or> (\<exists>p r. fmlookup (gs_tickets s) t \<in> {Some (TGranted p), Some (TClaiming p)}
          \<and> fmlookup (gs_permits s) p = Some r \<and> rec_lease_nonce r = None)"

lemma unknown_not_stranded: "fmlookup (gs_tickets s) t = None \<Longrightarrow> \<not> stranded s t"
  by (simp add: stranded_def)

lemma drain_no_effects: "fst (drain ps sampled s no_effects) = s"
  by (subst drain.simps) (simp add: no_effects_def)

lemma abandon_unstranded:
  assumes inv: "gov_inv n s" and pop: "population s \<le> u32_max"
  shows "\<not> stranded (fst (abandon ps sampled t s)) t"
proof -
  obtain s0 now where c: "commit_time sampled s = (s0, now)" by force
  have a: "sound ps {} n s s0" using sound_commit_time [OF inv, of ps "{}" sampled] c by simp
  note inv0 = sound_inv [OF a] and pop0 = sound_population [OF a pop]
  obtain s1 e1 out where sec: "abandon_section ps sampled t s = ((s1, e1), out)" by (metis prod.collapse)
  have s1: "sound ps {} n s s1" using abandon_sec.run_sound [OF inv pop, of ps sampled t] sec by simp
  have fin: "fst (abandon ps sampled t s) = fst (drain ps sampled s1 e1)"
    by (simp add: abandon_def sec case_prod_beta)
  have "evolves s1 (fst (drain ps sampled s1 e1))"
    using sound_drain [OF sound_inv [OF s1] sound_population [OF s1 pop]] by (simp add: sound_def)
  then have known: ?thesis if "fmlookup (gs_tickets s1) t = None"
    unfolding fin using evolves_unknown that unknown_not_stranded by blast
  have held: ?thesis if t: "fmlookup (gs_tickets s0) t = Some (TGranted p) \<or> fmlookup (gs_tickets s0) t = Some (TClaiming p)" for p
  proof -
    obtain s2 e2 o2 where rel: "release_with_proof_reason p None Abandoned s0 no_effects = ((s2, e2), o2)" by (metis prod.collapse)
    show ?thesis
    proof (cases o2)
      case ReleasedOk
      then have s1: "s1 = fst (promote ps now (forget_terminal_ticket t s2))"
        and "release_with_proof_reason p None Abandoned s0 no_effects = ((s2, e2), ReleasedOk)"
        using sec c rel t by (auto simp: abandon_section_def Let_def split: prod.splits)
      from abandon_held_gone(1) [OF inv0 pop0 t this(2)] show ?thesis by (intro known) (simp only: s1)
    next
      case UnknownPermit
      then have "s1 = s2\<lparr>gs_tickets := fmdrop t (gs_tickets s2)\<rparr>"
        using sec c rel t by (auto simp: abandon_section_def Let_def)
      then show ?thesis by (intro known) simp
    next
      case (HeldByLease phase)
      obtain r where r: "fmlookup (gs_permits s0) p = Some r" "rec_lease_nonce r \<noteq> None"
        using rel HeldByLease by (cases "fmlookup (gs_permits s0) p") (auto simp: release_live release_absent split: if_splits)
      then have "s2 = s0" "e2 = no_effects" using rel HeldByLease by (simp_all add: release_live)
      then have "s1 = s0" "e1 = no_effects" using sec c rel t HeldByLease by (auto simp: abandon_section_def Let_def)
      then show ?thesis unfolding fin using t r by (auto simp: drain_no_effects stranded_def)
    qed
  qed
  show ?thesis
  proof (cases "fmlookup (gs_tickets s0) t")
    case None
    then have "s1 = s0" using sec c by (auto simp: abandon_section_def Let_def)
    then show ?thesis using known None by simp
  next
    case (Some x)
    show ?thesis
    proof (cases x)
      case (TQueued cl)
      then have q: "live s0 t = Some (TQueued cl)" using Some by (simp add: live_tickets_def)
      have "s1 = fst (abandon_queued ps now cl t s0)" using sec c Some TQueued by (auto simp: abandon_section_def Let_def)
      then show ?thesis using known abandon_queued_gone [OF inv0 pop0 q] by simp
    next
      case (TTerminal reason)
      then have "s1 = forget_terminal_ticket t s0" using sec c Some by (auto simp: abandon_section_def Let_def)
      then show ?thesis using known Some TTerminal by (simp add: forget_terminal_ticket_def Let_def split: option.splits)
    next
      case TFaulted
      then have "s1 = forget_terminal_ticket t s0" using sec c Some by (auto simp: abandon_section_def Let_def)
      then show ?thesis using known Some TFaulted by (simp add: forget_terminal_ticket_def Let_def split: option.splits)
    qed (use held Some in blast)+
  qed
qed

lemma settle_unstranded:
  assumes "gov_inv n s" "population s \<le> u32_max"
  shows "\<not> stranded (settle_ticket ps sampled t s) t"
proof (cases "\<exists>reason. ticket_status s t \<in> {ClaimTerminal reason, ClaimInvalid}")
  case True
  then have "settle_ticket ps sampled t s = s" "\<not> stranded s t"
    by (auto simp: settle_ticket_def guard_drop_def stranded_def ticket_status_def split: option.splits TicketState.splits)
  then show ?thesis by simp
next
  case False
  then have "settle_ticket ps sampled t s = fst (abandon ps sampled t s)"
    by (cases "ticket_status s t") (auto simp: settle_ticket_def guard_drop_def)
  then show ?thesis using abandon_unstranded [OF assms] by simp
qed

lemma claim_sound:
  assumes inv: "gov_inv n s" and pop: "population s \<le> u32_max"
  shows "sound ps {} n s (fst (claim panics ps sampled t s))"
proof -
  obtain s1 r where b: "claim_begin sampled t s = (s1, r)" by force
  have s1: "sound ps {} n s s1" using claim_begin_sec.run_sound [OF inv pop, of ps sampled t] b by simp
  note inv1 = sound_inv [OF s1] and pop1 = sound_population [OF s1 pop]
  show ?thesis
  proof (cases r)
    case (Inl out)
    then show ?thesis using s1 by (simp add: claim_def b)
  next
    case (Inr pe)
    obtain q e where pe: "pe = (q, e)" by force
    have "live s1 t = Some (TClaiming q)" using claim_begin_Inr(2) b Inr pe by blast
    then have own: "x = q" if "fmlookup (gs_tickets s1) t = Some (TClaiming x)" for x using that by (simp add: live_lookup)
    have c: "sound ps {} n s1 (fst (claim_compensate ps sampled t q s1))" by (rule sound_claim_compensate [OF inv1 pop1 own])
    have d: "sound ps {} n s1 (fst (drain ps sampled (fst (claim_compensate ps sampled t q s1)) x))" for x
      by (rule sound_trans [OF c sound_drain [OF sound_inv [OF c] sound_population [OF c pop1]]])
    have f: "sound ps {} n s1 (fst (claim_finish sampled t s1))" by (rule claim_finish_sec.run_sound [OF inv1 pop1])
    show ?thesis using sound_trans [OF s1 d] sound_trans [OF s1 f] Inr pe by (simp add: claim_def b case_prod_beta Let_def)
  qed
qed

lemma claim_ready:
  assumes "claim panics ps sampled t s = (s', Returned (ClaimReady p))"
  shows "fmlookup (gs_tickets s') t = None" "\<exists>r. fmlookup (gs_permits s') p = Some r" "fmlookup (gs_tickets s) t = Some (TGranted p)"
proof -
  obtain s1 q e where b: "claim_begin sampled t s = (s1, Inr (q, e))" and f: "claim_finish sampled t s1 = (s', ClaimReady p)"
    using assms by (auto simp: claim_def claim_begin_def Let_def commit_time_def
        split: prod.splits sum.splits if_splits option.splits TicketState.splits)
  show "fmlookup (gs_tickets s') t = None" "\<exists>r. fmlookup (gs_permits s') p = Some r"
    using f by (auto simp: claim_finish_def commit_time_def Let_def split: option.splits TicketState.splits)
  have "fmlookup (gs_tickets s1) t = Some (TClaiming p)"
    using f by (auto simp: claim_finish_def commit_time_def Let_def split: option.splits TicketState.splits)
  then show "fmlookup (gs_tickets s) t = Some (TGranted p)"
    using b by (auto simp: claim_begin_def commit_time_def Let_def split: option.splits TicketState.splits)
qed

lemma claim_pending:
  assumes "claim panics ps sampled t s = (s', Returned ClaimPending)"
  shows "ticket_status s' t = ClaimPending"
  using assms
  by (auto simp: claim_def claim_begin_def claim_finish_def Let_def commit_time_def ticket_status_def
      split: prod.splits sum.splits if_splits option.splits TicketState.splits)

lemma settle_sound:
  assumes inv: "gov_inv n s" and pop: "population s \<le> u32_max"
  shows "sound ps {} n s (settle_ticket ps sampled t s)"
proof -
  obtain s1 e1 out where sec: "abandon_section ps sampled t s = ((s1, e1), out)" by (metis prod.collapse)
  have s1: "sound ps {} n s s1" using abandon_sec.run_sound [OF inv pop, of ps sampled t] sec by simp
  have "sound ps {} n s (fst (abandon ps sampled t s))"
    using sound_trans [OF s1 sound_drain [OF sound_inv [OF s1] sound_population [OF s1 pop]]] by (simp add: abandon_def sec case_prod_beta)
  then show ?thesis using sound_refl [OF inv] by (cases "ticket_status s t") (simp_all add: settle_ticket_def guard_drop_def)
qed

lemma sound_gone: "sound ps X n s s' \<Longrightarrow> p \<notin> permit_ids s \<Longrightarrow> p \<notin> permit_ids s'"
  by (auto simp: sound_def evolves_def)

text \<open>Releasing a permit that was never leased takes it out of the engine, whatever happens afterwards.\<close>

lemma unleased_release_gone:
  assumes inv: "gov_inv n s" and pop: "population s \<le> u32_max"
    and r: "fmlookup (gs_permits s) p = Some r" "rec_lease_nonce r = None"
  obtains s1 e1 where "release_with_proof_reason p None reason s e = ((s1, e1), ReleasedOk)" "p \<notin> permit_ids s1"
    "gov_inv n s1" "population s1 \<le> u32_max"
proof -
  obtain s1 e1 x where u: "unwind p reason s e = ((s1, e1), x)" by (metis prod.collapse)
  have rel: "release_with_proof_reason p None reason s e = ((s1, e1), ReleasedOk)" by (simp add: release_live [OF r(1)] r(2) u)
  have a: "sound ps {} n s s1" for ps using sound_release [OF inv rel] by simp
  show thesis by (rule that [OF rel unwound_permit_gone [OF inv r(1) u] sound_inv [OF a] sound_population [OF a pop]])
qed

lemma abandon_gone:
  assumes inv: "gov_inv n s" and pop: "population s \<le> u32_max"
    and t: "fmlookup (gs_tickets s) t \<in> {Some (TGranted p), Some (TClaiming p)}"
    and r: "fmlookup (gs_permits s) p = Some r" "rec_lease_nonce r = None"
  shows "p \<notin> permit_ids (fst (abandon ps sampled t s))"
proof -
  obtain s0 now where c: "commit_time sampled s = (s0, now)" by force
  have a: "sound ps {} n s s0" using sound_commit_time [OF inv, of ps "{}" sampled] c by simp
  note inv0 = sound_inv [OF a] and pop0 = sound_population [OF a pop]
  have T: "gs_tickets s0 = gs_tickets s" "gs_permits s0 = gs_permits s" using c by (auto simp: commit_time_def Let_def)
  obtain s1 e1 where rel: "release_with_proof_reason p None Abandoned s0 no_effects = ((s1, e1), ReleasedOk)"
    and s1: "p \<notin> permit_ids s1" "gov_inv n s1" "population s1 \<le> u32_max"
    by (rule unleased_release_gone [OF inv0 pop0, of p r]) (use T r in simp_all)
  let ?f = "forget_terminal_ticket t s1" let ?s = "fst (promote ps now ?f)"
  have f: "sound ps {} n s1 ?f" by (rule sound_forget [OF s1(2)])
  have g: "sound ps {} n s1 ?s"
    by (rule sound_trans [OF f sound_promote [OF sound_inv [OF f] sound_population [OF f s1(3)]]])
  have "fst (fst (abandon_section ps sampled t s)) = ?s"
    using t T rel by (auto simp: abandon_section_def c Let_def case_prod_beta)
  then obtain e where "abandon ps sampled t s = (fst (drain ps sampled ?s e), snd (abandon_section ps sampled t s))"
    by (cases "abandon_section ps sampled t s") (auto simp: abandon_def case_prod_beta)
  moreover have "sound ps {} n s1 (fst (drain ps sampled ?s e))"
    by (rule sound_trans [OF g sound_drain [OF sound_inv [OF g] sound_population [OF g s1(3)]]])
  ultimately show ?thesis using sound_gone [OF _ s1(1)] by simp
qed

lemma claim_granted:
  assumes inv: "gov_inv n s" and pop: "population s \<le> u32_max" and t: "fmlookup (gs_tickets s) t = Some (TGranted p)"
    and r: "fmlookup (gs_permits s) p = Some r" "rec_lease_nonce r = None"
    and eq: "claim panics ps sampled t s = (s1, d)"
  shows "d = Panicked \<Longrightarrow> p \<notin> permit_ids s1"
    and "d \<noteq> Panicked \<Longrightarrow> d = Returned (ClaimReady p) \<and> (\<exists>r. fmlookup (gs_permits s1) p = Some r \<and> rec_lease_nonce r = None)"
proof -
  define r' where "r' = (touch (max sampled (gs_commit_watermark_ms s)) r)\<lparr>rec_claim_waker := None\<rparr>"
  obtain s0 e where b: "claim_begin sampled t s = (s0, Inr (p, e))" and T: "fmlookup (gs_tickets s0) t = Some (TClaiming p)"
    "fmlookup (gs_permits s0) p = Some r'" using t r by (auto simp: claim_begin_def commit_time_def Let_def r'_def)
  have r': "rec_lease_nonce r' = None" using r by (simp add: r'_def touch_def)
  have a: "sound ps {} n s s0" using claim_begin_sec.run_sound [OF inv pop, of ps sampled t] b by simp
  note inv0 = sound_inv [OF a] and pop0 = sound_population [OF a pop]
  show "p \<notin> permit_ids s1" if "d = Panicked"
  proof -
    obtain s2 now where c: "commit_time sampled s0 = (s2, now)" by force
    have k: "sound ps {} n s0 s2" using sound_commit_time [OF inv0, of ps "{}" sampled] c by simp
    have T2: "gs_tickets s2 = gs_tickets s0" "gs_permits s2 = gs_permits s0" using c by (auto simp: commit_time_def Let_def)
    obtain s3 e3 where rel: "release_with_proof_reason p None ClaimDeliveryFailed s2 no_effects = ((s3, e3), ReleasedOk)"
      and s3: "p \<notin> permit_ids s3" "gov_inv n s3" "population s3 \<le> u32_max"
      by (rule unleased_release_gone [OF sound_inv [OF k] sound_population [OF k pop0], of p r']) (use T T2 r' in simp_all)
    have g: "sound ps {} n s3 (fst (promote ps now s3))" by (rule sound_promote [OF s3(2,3)])
    have s1: "s1 = fst (drain ps sampled (fst (promote ps now s3)) (absorb e3 (snd (promote ps now s3))))"
      using eq that b T T2 rel c by (auto simp: claim_def claim_compensate_def Let_def case_prod_beta split: if_splits)
    have "sound ps {} n s3 s1" unfolding s1
      by (rule sound_trans [OF g sound_drain [OF sound_inv [OF g] sound_population [OF g s3(3)]]])
    then show ?thesis by (rule sound_gone [OF _ s3(1)])
  qed
  show "d = Returned (ClaimReady p) \<and> (\<exists>r. fmlookup (gs_permits s1) p = Some r \<and> rec_lease_nonce r = None)" if "d \<noteq> Panicked"
    using eq that b T r' by (auto simp: claim_def claim_finish_def commit_time_def Let_def touch_def split: if_splits prod.splits)
qed

text \<open>\<open>given_up s s' t\<close>: an acquisition that found the state \<open>s\<close> has left nothing of its ticket \<open>t\<close> in \<open>s'\<close>: no request in a queue, no
  undispatched permit that is bound to the ticket, and not the undispatched permit the ticket named at the start, whether
  or not the ticket is still there to name it.\<close>

definition given_up :: "GovernedState \<Rightarrow> GovernedState \<Rightarrow> Ticket \<Rightarrow> bool" where
  "given_up s s' t \<longleftrightarrow> (\<forall>cl. \<forall>q \<in> set (queues s' cl). pr_ticket q \<noteq> t)
     \<and> (\<forall>p r. fmlookup (gs_permits s') p = Some r \<and> rec_lease_nonce r = None \<longrightarrow> rec_pending_ticket r \<noteq> Some t)
     \<and> (\<forall>p r. fmlookup (gs_tickets s) t \<in> {Some (TGranted p), Some (TClaiming p)} \<and> fmlookup (gs_permits s) p = Some r
          \<and> rec_lease_nonce r = None \<longrightarrow> fmlookup (gs_permits s') p = None)"

lemma given_upI:
  assumes inv: "gov_inv n s" "population s \<le> u32_max"
    and gone: "\<And>p r. fmlookup (gs_tickets s0) t \<in> {Some (TGranted p), Some (TClaiming p)} \<Longrightarrow> fmlookup (gs_permits s0) p = Some r
      \<Longrightarrow> rec_lease_nonce r = None \<Longrightarrow> p \<notin> permit_ids (settle_ticket ps sampled t s)"
  shows "given_up s0 (settle_ticket ps sampled t s) t"
proof -
  let ?s = "settle_ticket ps sampled t s"
  have inv': "gov_inv n ?s" by (rule sound_inv [OF settle_sound [OF inv]])
  then have ti: "ticket_inv ?s" by (simp add: gov_inv_def core_def)
  have ns: "\<not> stranded ?s t" by (rule settle_unstranded [OF inv])
  have "pr_ticket q \<noteq> t" if "q \<in> set (queues ?s cl)" for cl q
    using ticket_okD(3) [OF ti that] ns by (auto simp: stranded_def live_lookup)
  moreover have "rec_pending_ticket r \<noteq> Some t" if "fmlookup (gs_permits ?s) p = Some r" "rec_lease_nonce r = None" for p r
  proof
    assume "rec_pending_ticket r = Some t"
    from ticket_okD(2) [OF ti that(1) this] have "holds_ticket (live ?s t) p" .
    then have "fmlookup (gs_tickets ?s) t \<in> {Some (TGranted p), Some (TClaiming p)}"
      by (cases "live ?s t") (auto simp: live_lookup holds_ticket_def split: TicketState.splits)
    then show False using ns that by (auto simp: stranded_def)
  qed
  ultimately show ?thesis unfolding given_up_def using absent_permit [OF inv' gone] by blast
qed

text \<open>A claim that delivers no permit, and one whose permit is returned at once, leave nothing of the ticket behind.\<close>

lemma unclaimed_given_up:
  assumes inv: "gov_inv n s" "population s \<le> u32_max"
    and cl: "claim panics ps sampled t s = (s1, d)" and no: "\<And>p. d \<noteq> Returned (ClaimReady p)"
  shows "given_up s (settle_ticket ps sampled t s1) t"
proof -
  have s1: "sound ps {} n s s1" using claim_sound [OF inv, of ps panics sampled t] cl by simp
  note inv1 = sound_inv [OF s1] and pop1 = sound_population [OF s1 inv(2)]
  show ?thesis
  proof (rule given_upI [OF inv1 pop1])
    fix p r assume r: "fmlookup (gs_permits s) p = Some r" "rec_lease_nonce r = None"
      and "fmlookup (gs_tickets s) t \<in> {Some (TGranted p), Some (TClaiming p)}"
    then consider "fmlookup (gs_tickets s) t = Some (TGranted p)" | "fmlookup (gs_tickets s) t = Some (TClaiming p)" by blast
    then show "p \<notin> permit_ids (settle_ticket ps sampled t s1)"
    proof cases
      case 1
      from claim_granted [OF inv 1 r cl] no have "p \<notin> permit_ids s1" by blast
      then show ?thesis by (rule sound_gone [OF settle_sound [OF inv1 pop1]])
    next
      case 2
      then have s1: "gs_tickets s1 = gs_tickets s" "gs_permits s1 = gs_permits s"
        using cl by (auto simp: claim_def claim_begin_def commit_time_def Let_def)
      have "settle_ticket ps sampled t s1 = fst (abandon ps sampled t s1)"
        by (simp add: settle_ticket_def guard_drop_def ticket_status_def s1 2)
      then show ?thesis using abandon_gone [OF inv1 pop1, of t p r] r 2 s1 by simp
    qed
  qed
qed

lemma returned_given_up:
  assumes inv: "gov_inv n s" "population s \<le> u32_max" and cl: "claim panics ps sampled t s = (s1, Returned (ClaimReady p))"
  shows "given_up s (settle_ticket ps sampled t (return_unstarted ps sampled p s1)) t"
proof -
  let ?s = "return_unstarted ps sampled p s1"
  have s1: "sound ps {} n s s1" using claim_sound [OF inv, of ps panics sampled t] cl by simp
  note inv1 = sound_inv [OF s1] and pop1 = sound_population [OF s1 inv(2)]
  have s2: "sound ps {} n s1 ?s" using release_op.run_sound [OF inv1 pop1, of ps sampled p]
    by (simp add: return_unstarted_def lease_drop_def ExecutionLease_reserved_def map_prod_def case_prod_beta)
  note inv2 = sound_inv [OF s2] and pop2 = sound_population [OF s2 pop1]
  show ?thesis
  proof (rule given_upI [OF inv2 pop2])
    fix q r assume t: "fmlookup (gs_tickets s) t \<in> {Some (TGranted q), Some (TClaiming q)}"
      and r: "fmlookup (gs_permits s) q = Some r" "rec_lease_nonce r = None"
    then have q: "q = p" "fmlookup (gs_tickets s) t = Some (TGranted p)" using claim_ready(3) [OF cl] by auto
    with claim_granted(2) [OF inv _ _ _ cl] r obtain x where x: "fmlookup (gs_permits s1) p = Some x" "rec_lease_nonce x = None"
      by blast
    obtain s3 where "governor_release_with_proof ps sampled p None s1 = (s3, ReleasedOk)" "p \<notin> permit_ids s3"
      by (rule release_gone [OF inv1 pop1 x])
    then have "p \<notin> permit_ids ?s"
      by (simp add: return_unstarted_def lease_drop_def ExecutionLease_reserved_def release_def)
    then show "q \<notin> permit_ids (settle_ticket ps sampled t ?s)"
      using sound_gone [OF settle_sound [OF inv2 pop2]] q(1) by blast
  qed
qed

text \<open>C11: A queued acquisition is all or nothing. One poll of the wait either parks, and then neither its token nor a deadline has
  expired and its ticket is still pending; or it hands over the permit its ticket was granted, live and unbound from the
  ticket, and at the handoff nothing had expired: a permit that arrives late is never started; or it ends with an error or
  a panic, and once the guard is dropped nothing is left behind: no request of the ticket is queued, no undispatched permit
  is bound to it, and a permit it had been granted is out of the engine, even one that the claim had already taken from
  the ticket.\<close>

theorem queued_acquisition_all_or_nothing:
  assumes inv: "gov_inv n s" "population s \<le> u32_max"
    and eq: "await_promotion panics ps sampled cancelled now cancelled' now' t arbiter s = (s', out)"
  shows "case out of
      Returned None \<Rightarrow> rejection cancelled arbiter now True = None \<and> ticket_status s' t = ClaimPending
    | Returned (Some (Inr p)) \<Rightarrow> rejection cancelled' arbiter now' True = None \<and> settle_ticket ps sampled t s' = s'
        \<and> fmlookup (gs_tickets s) t = Some (TGranted p)
        \<and> (\<exists>r. fmlookup (gs_permits s') p = Some r) \<and> fmlookup (gs_tickets s') t = None
    | _ \<Rightarrow> given_up s (settle_ticket ps sampled t s') t"
proof -
  obtain s1 d where cl: "claim panics ps sampled t s = (s1, d)" by force
  note idle = unclaimed_given_up [OF inv cl]
  consider (panic) "d = Panicked" | (ready) p where "d = Returned (ClaimReady p)" | (pending) "d = Returned ClaimPending"
    | (terminal) reason where "d = Returned (ClaimTerminal reason)" | (invalid) "d = Returned ClaimInvalid"
    by (cases d; cases "case d of Returned x \<Rightarrow> x | Panicked \<Rightarrow> ClaimInvalid") auto
  then show ?thesis
  proof cases
    case (ready p)
    note R = claim_ready [OF cl [unfolded ready]]
    show ?thesis
    proof (cases "rejection cancelled' arbiter now' True")
      case None
      then have "s' = s1" "out = Returned (Some (Inr p))"
        using eq ready cl by (auto simp: await_promotion_def Let_def finalize_acquired_def)
      then show ?thesis using R None by (simp add: settle_ticket_def guard_drop_def ticket_status_def)
    next
      case (Some rej)
      then obtain e where "s' = return_unstarted ps sampled p s1" "out = Returned (Some (Inl e))"
        using eq ready cl by (auto simp: await_promotion_def Let_def finalize_acquired_def)
      then show ?thesis using returned_given_up [OF inv cl [unfolded ready]] by simp
    qed
  next
    case pending
    then show ?thesis using eq cl idle claim_pending [OF cl [unfolded pending]]
      by (cases "rejection cancelled arbiter now True") (auto simp: await_promotion_def Let_def)
  qed (use eq cl idle in \<open>auto simp: await_promotion_def Let_def\<close>)
qed

text \<open>The handoff of a granted permit is decided once. If the token or a deadline has expired at that instant the permit goes
  back unstarted: the engine no longer holds it; otherwise it is handed over and nothing else changes.\<close>

theorem late_permit_returned:
  assumes "gov_inv n s" "population s \<le> u32_max" "fmlookup (gs_permits s) p = Some r" "rec_lease_nonce r = None"
  shows "case rejection cancelled arbiter now waited of
      None \<Rightarrow> finalize_acquired ps sampled cancelled now p arbiter waited blocker s = (s, Inr p)
    | Some rej \<Rightarrow> (\<exists>s'. finalize_acquired ps sampled cancelled now p arbiter waited blocker s
          = (s', Inl (to_governor_error rej (capability_blocked blocker))) \<and> fmlookup (gs_permits s') p = None)"
proof (cases "rejection cancelled arbiter now waited")
  case (Some rej)
  obtain s' where s': "governor_release_with_proof ps sampled p None s = (s', ReleasedOk)" "p \<notin> permit_ids s'" "gov_inv n s'"
    by (rule release_gone [OF assms])
  then have "fmlookup (gs_permits s') p = None" using absent_permit by blast
  with Some s'(1) show ?thesis
    by (simp add: finalize_acquired_def return_unstarted_def lease_drop_def ExecutionLease_reserved_def release_def)
qed (simp add: finalize_acquired_def)

section \<open>A drained runtime is empty for good\<close>

lemma fmfilter_empty_iff: "fmfilter P m = fmempty \<longleftrightarrow> (\<forall>k v. fmlookup m k = Some v \<longrightarrow> \<not> P k)"
proof
  assume e: "fmfilter P m = fmempty"
  show "\<forall>k v. fmlookup m k = Some v \<longrightarrow> \<not> P k"
  proof (intro allI impI notI)
    fix k v assume "fmlookup m k = Some v" "P k"
    then have "fmlookup (fmfilter P m) k = Some v" by simp
    then show False using e by simp
  qed
next
  assume "\<forall>k v. fmlookup m k = Some v \<longrightarrow> \<not> P k"
  then show "fmfilter P m = fmempty" by (intro fmap_ext) (auto simp: fmlookup_filter split: option.splits)
qed

lemma outstanding_empty_iff:
  "outstanding snap = fmempty \<longleftrightarrow> (\<forall>cl c. fmlookup (snap_classes snap) cl = Some c \<longrightarrow> snap_inflight c = 0 \<and> snap_queued c = 0)"
proof -
  have "fmmap f m = fmempty \<longleftrightarrow> m = fmempty" for f :: "ClassSnapshot \<Rightarrow> Outstanding" and m :: "(TaskClass, ClassSnapshot) fmap"
    by (metis fmap_ext fmmap_empty fmlookup_map fmempty_lookup option.map_disc_iff)
  then show ?thesis unfolding outstanding_def by (auto simp: fmfilter_empty_iff split: option.splits)
qed

lemma outstanding_population:
  assumes "reachable ps authority w"
  shows "outstanding (snapshot ps (w_state w)) = fmempty \<longleftrightarrow> population (w_state w) = 0"
proof -
  let ?s = "w_state w" let ?C = "\<lambda>cl. fmget (gs_classes ?s) ClassState_default cl"
  have inflight: "cs_inflight (?C cl) = fmsum (owned cl one) (gs_permits ?s)" for cl
    using reachable_classes [OF assms, of cl] by (simp add: class_ok_def)
  have q: "cs_queued c = 0 \<longleftrightarrow> cs_queue c = []" for c by (auto simp: cs_queued_def u32_max_def min_def)
  have view: "fmlookup (snap_classes (snapshot ps ?s)) cl = Some c \<Longrightarrow> c = class_projection (?C cl)" for cl c
    by (simp add: snapshot_classes snapshot_class_eq split: if_splits)
  show ?thesis unfolding outstanding_empty_iff
  proof
    assume idle: "\<forall>cl c. fmlookup (snap_classes (snapshot ps ?s)) cl = Some c \<longrightarrow> snap_inflight c = 0 \<and> snap_queued c = 0"
    have zero: "cs_inflight (?C cl) = 0 \<and> cs_queue (?C cl) = []" for cl
    proof (cases "cl |\<in>| fmdom (gs_classes ?s)")
      case True
      then have "fmlookup (snap_classes (snapshot ps ?s)) cl = Some (class_projection (?C cl))"
        by (simp add: snapshot_classes snapshot_class_eq)
      with idle show ?thesis using q by (fastforce simp: class_projection_def)
    next
      case False
      then show ?thesis by (simp add: fmget_def fmdom_notD ClassState_default_def)
    qed
    have "fmlookup (gs_permits ?s) p \<noteq> Some r" for p r
    proof
      assume "fmlookup (gs_permits ?s) p = Some r"
      from fmsum_ge [OF this, of "owned (rec_class r) one"] zero [of "rec_class r"] inflight show False by (simp add: owned_def)
    qed
    then have "fmsum one (gs_permits ?s) = 0" by (auto simp: fmsum_zero_iff)
    moreover have "total_queued ?s = 0" unfolding total_queued_def fmsum_zero_iff
    proof (intro allI impI)
      fix cl cs assume "fmlookup (gs_classes ?s) cl = Some cs"
      then show "length (cs_queue cs) = 0" using zero [of cl] by (simp add: fmget_def)
    qed
    ultimately show "population ?s = 0" by (simp add: population_def)
  next
    assume "population ?s = 0"
    then have p: "fmsum one (gs_permits ?s) = 0" and t: "total_queued ?s = 0" by (simp_all add: population_def)
    have "cs_inflight (?C cl) = 0" for cl using inflight owned_le [of cl one "gs_permits ?s"] p by simp
    moreover have "cs_queue (?C cl) = []" for cl
      using t by (cases "fmlookup (gs_classes ?s) cl") (auto simp: total_queued_def fmsum_zero_iff fmget_def ClassState_default_def)
    ultimately have zero: "cs_inflight (?C cl) = 0 \<and> cs_queued (?C cl) = 0" for cl using q by blast
    show "\<forall>cl c. fmlookup (snap_classes (snapshot ps ?s)) cl = Some c \<longrightarrow> snap_inflight c = 0 \<and> snap_queued c = 0"
    proof (intro allI impI)
      fix cl c assume "fmlookup (snap_classes (snapshot ps ?s)) cl = Some c"
      then have "c = class_projection (?C cl)" by (rule view)
      with zero [of cl] show "snap_inflight c = 0 \<and> snap_queued c = 0" by (simp add: class_projection_def)
    qed
  qed
qed

lemma drain_look_Drained:
  assumes "reachable ps authority w"
  shows "(\<exists>k. drain_look ps (w_state w) = Drained k) \<longleftrightarrow> population (w_state w) = 0"
  using outstanding_population [OF assms] by (simp add: drain_look_def Let_def)

lemma run_reachable:
  assumes "reachable ps authority w" "(\<lambda>w w'. \<exists>ev. step ps authority w ev w')\<^sup>*\<^sup>* w w'"
  shows "reachable ps authority w' \<and> (gs_admission_closed (w_state w) \<longrightarrow>
    gs_admission_closed (w_state w') \<and> population (w_state w') \<le> population (w_state w))"
  using assms(2,1)
proof (induction rule: rtranclp_induct)
  case (step y z)
  then obtain ev where ev: "step ps authority y ev z" by blast
  have "reachable ps authority z" "forward (w_state y) (w_state z)"
    using step ev reachable.next_step step_keeps [OF reachable_inv] by blast+
  with step show ?case by (auto simp: forward_def)
qed simp

text \<open>C12: A drained runtime is empty and stays empty. The drain reports success exactly when the engine holds no permit and
  queues no request, and when admission is closed, as the drain has closed it, that is final: whatever steps any
  threads take afterwards, nothing is ever held or queued again and every later look reports drained.\<close>

theorem drained_for_good:
  assumes "reachable ps authority w" "gs_admission_closed (w_state w)" "drain_look ps (w_state w) = Drained k"
    and "(\<lambda>w w'. \<exists>ev. step ps authority w ev w')\<^sup>*\<^sup>* w w'"
  shows "gs_permits (w_state w') = fmempty \<and> (\<forall>cl. queues (w_state w') cl = []) \<and> (\<exists>k'. drain_look ps (w_state w') = Drained k')"
proof -
  have "population (w_state w) = 0" using drain_look_Drained [OF assms(1)] assms(3) by blast
  with run_reachable [OF assms(1,4)] assms(2) have w': "reachable ps authority w'" "population (w_state w') = 0" by auto
  have "fmlookup (gs_permits (w_state w')) p = None" for p
  proof (rule ccontr)
    assume "fmlookup (gs_permits (w_state w')) p \<noteq> None"
    then obtain r where "fmlookup (gs_permits (w_state w')) p = Some r" by blast
    from fmsum_ge [OF this, of one] w'(2) show False by (simp add: population_def)
  qed
  then have "gs_permits (w_state w') = fmempty" by (intro fmap_ext) simp
  moreover have "queues (w_state w') cl = []" for cl using queue_le_population [of "w_state w'" cl] w'(2) by simp
  ultimately show ?thesis using drain_look_Drained [OF w'(1)] w'(2) by blast
qed

text \<open>C13: A waiting drain is never left asleep over an idle engine: if it is parked, nothing is charged and no thread that
  returned custody still has to read the mirror or to notify, then it has been woken.\<close>

theorem drain_wakeup_not_lost:
  assumes "drain_step\<^sup>*\<^sup>* DrainWorld_init d" "dw_parked d" "dw_busy d = 0" "dw_committed d = 0" "dw_pinging d = 0"
  shows "dw_woken d"
proof -
  have "(dw_armed d \<longrightarrow> dw_draining d) \<and> (dw_parked d \<longrightarrow> dw_armed d)
      \<and> (dw_parked d \<and> \<not> dw_woken d \<longrightarrow> 0 < dw_busy d + dw_committed d + dw_pinging d)"
    using assms(1)
  proof (induction rule: rtranclp_induct)
    case (step y z)
    from step(2) step.IH show ?case
      by (cases rule: drain_step.cases) (auto simp: DrainSignal_begin_def settled_check_def settled_notify_def)
  qed (simp add: DrainWorld_init_def)
  then show ?thesis using assms(2-) by auto
qed

section \<open>Concrete acquisitions and drains\<close>

theorem queued_acquisition_all_or_nothing_witness:
  "\<exists>s' e. await_promotion (\<lambda>_. False) run_policies 30 (\<lambda>_. False) 5 (\<lambda>_. False) 9 (Ticket 7 2)
        \<lparr>arb_cancel = None, arb_absolute_deadline = Some 9, arb_relative = Unbounded\<rparr> run_state4 = (s', Returned (Some (Inl e)))
     \<and> given_up run_state4 (settle_ticket run_policies 30 (Ticket 7 2) s') (Ticket 7 2)
     \<and> fmlookup (gs_permits (settle_ticket run_policies 30 (Ticket 7 2) s')) (PermitId 7 2) = None"
proof -
  let ?o = "await_promotion (\<lambda>_. False) run_policies 30 (\<lambda>_. False) 5 (\<lambda>_. False) 9 (Ticket 7 2)
        \<lparr>arb_cancel = None, arb_absolute_deadline = Some 9, arb_relative = Unbounded\<rparr> run_state4"
  have "case snd ?o of Returned (Some (Inl e)) \<Rightarrow> e = DeadlineExceeded | _ \<Rightarrow> False" by code_simp
  then obtain e where "snd ?o = Returned (Some (Inl e))" by (auto split: delivery.splits option.splits sum.splits)
  then have eq: "?o = (fst ?o, Returned (Some (Inl e)))" by (simp only: prod_eq_iff fst_conv snd_conv simp_thms)
  have 4: "reachable run_policies 7 (run_world run_state4 2)"
    unfolding run_state4_def by (rule reachable.next_step [OF reachable_run3 run_release_step])
  have "gov_inv (entered (run_world run_state4 2)) run_state4" "population run_state4 \<le> u32_max"
    using world_invD(1,2) [OF reachable_inv [OF 4]] by (simp_all add: run_world_def)
  from queued_acquisition_all_or_nothing [OF this eq]
  have g: "given_up run_state4 (settle_ticket run_policies 30 (Ticket 7 2) (fst ?o)) (Ticket 7 2)" by simp
  have "case fmlookup (gs_permits run_state4) (PermitId 7 2) of Some r \<Rightarrow> rec_lease_nonce r = None | None \<Rightarrow> False"
    "fmlookup (gs_tickets run_state4) (Ticket 7 2) = Some (TGranted (PermitId 7 2))" by code_simp+
  with g have "fmlookup (gs_permits (settle_ticket run_policies 30 (Ticket 7 2) (fst ?o))) (PermitId 7 2) = None"
    unfolding given_up_def by (auto split: option.splits)
  with eq g show ?thesis by blast
qed

theorem late_permit_returned_witness:
  "\<exists>s'. finalize_acquired run_policies 30 (\<lambda>_. False) 9 (PermitId 7 1) \<lparr>arb_cancel = None, arb_absolute_deadline = Some 9, arb_relative = Unbounded\<rparr>
       False None run_state2 = (s', Inl DeadlineExceeded) \<and> fmlookup (gs_permits s') (PermitId 7 1) = None"
proof -
  have inv: "gov_inv (entered (run_world run_state2 1)) run_state2" "population run_state2 \<le> u32_max"
    using world_invD(1,2) [OF reachable_inv [OF reachable_run2]] by (simp_all add: run_world_def)
  have "case fmlookup (gs_permits run_state2) (PermitId 7 1) of Some r \<Rightarrow> rec_lease_nonce r = None | None \<Rightarrow> False" by code_simp
  then obtain r where r: "fmlookup (gs_permits run_state2) (PermitId 7 1) = Some r" "rec_lease_nonce r = None"
    by (auto split: option.splits)
  from late_permit_returned [OF inv r, where cancelled = "\<lambda>_. False" and now = 9 and waited = False and ps = run_policies
      and arbiter = "\<lparr>arb_cancel = None, arb_absolute_deadline = Some 9, arb_relative = Unbounded\<rparr>" and sampled = 30 and blocker = None]
  show ?thesis by (simp add: rejection_def is_cancelled_def expired_def)
qed

theorem drained_for_good_witness:
  "\<exists>k. drain_look run_policies (close_admission GovernedState_default) = Drained k"
proof -
  let ?w = "World_init\<lparr>w_state := close_admission GovernedState_default\<rparr>"
  have "step run_policies 7 World_init EvClose ?w" by (simp add: step_close_iff World_init_def)
  then have r: "reachable run_policies 7 ?w" by (rule reachable.next_step [OF reachable.start])
  have "population (close_admission GovernedState_default) = 0"
    by (simp add: population_def total_queued_def close_admission_def GovernedState_default_def)
  then obtain k where k: "drain_look run_policies (w_state ?w) = Drained k" using drain_look_Drained [OF r] by auto
  from drained_for_good [OF r _ k, of ?w] show ?thesis by (simp add: close_admission_def)
qed

theorem drain_wakeup_not_lost_witness:
  "\<exists>d. drain_step\<^sup>*\<^sup>* DrainWorld_init d \<and> dw_parked d \<and> dw_busy d = 0 \<and> dw_woken d"
proof -
  let ?d = "\<lambda>dr ar pa wo b c p. \<lparr>dw_draining = dr, dw_armed = ar, dw_parked = pa, dw_woken = wo, dw_busy = b, dw_committed = c, dw_pinging = p\<rparr>"
  have steps: "drain_step DrainWorld_init (?d False False False False 1 0 0)"
    "drain_step (?d False False False False 1 0 0) (?d True False False False 1 0 0)"
    "drain_step (?d True False False False 1 0 0) (?d True True False False 1 0 0)"
    "drain_step (?d True True False False 1 0 0) (?d True True True False 1 0 0)"
    "drain_step (?d True True True False 1 0 0) (?d True True True False 0 1 0)"
    "drain_step (?d True True True False 0 1 0) (?d True True True False 0 0 1)"
    "drain_step (?d True True True False 0 0 1) (?d True True True True 0 0 0)"
    using work_enters [of DrainWorld_init] drain_begins [of "?d False False False False 1 0 0"]
      drain_arms [of "?d True False False False 1 0 0"] drain_looks_busy [of "?d True True False False 1 0 0"]
      work_leaves [of "?d True True True False 1 0 0"] work_checks [of "?d True True True False 0 1 0"]
      work_pings [of "?d True True True False 0 0 1"]
    by (simp_all add: DrainWorld_init_def DrainSignal_begin_def settled_check_def settled_notify_def)
  have r: "drain_step\<^sup>*\<^sup>* DrainWorld_init (?d True True True True 0 0 0)"
    by (meson steps rtranclp.rtrancl_refl rtranclp.rtrancl_into_rtrancl)
  show ?thesis by (intro exI [of _ "?d True True True True 0 0 0"] conjI r drain_wakeup_not_lost [OF r]) simp_all
qed

end
