(* ===== verification/TM_Submit.thy ===== *)
theory TM_Submit
  imports TM_Acquire
begin

text \<open>
  The synchronous and CPU submission paths of \<^verbatim>\<open>taskmesh/src/runtime/synchronous.rs\<close> and the async entry points of
  \<^verbatim>\<open>runtime.rs\<close>, from the plan to the last owner of the lease.

  An entry point is modelled by its parts between two suspensions: the plan, the acquisition (theory \<open>TM_Acquire\<close>), the
  handoff of the lease to a worker and the wait (theory \<open>TM_Lease\<close>). A value that goes out of scope is dropped where Rust
  drops it, so a handoff that fails drops its lease before it answers. Whether a thread can be created and whether an
  executor panics while it takes a closure are arguments, with the executor's choice to drop the closure or to keep it.
\<close>

section \<open>Plans of the entry points\<close>

definition response_boundary :: "SubmitOptions \<Rightarrow> Instant option \<Rightarrow> (GovernorError, unit) result" where
  "response_boundary opts response_by =
     ensure (\<not> (response_by \<noteq> None \<and> opt_deadline opts \<noteq> None)) (PolicyViolation ResponseBoundaryWithDeadline)"

definition run_blocking_plan ::
  "TokioRuntime \<Rightarrow> TaskSpec \<Rightarrow> SubmitOptions \<Rightarrow> Instant option \<Rightarrow> (GovernorError, ValidatedDispatchPlan) result" where
  "run_blocking_plan rt spec opts response_by =
     and_then (plan rt spec opts [BlockingPool, LargeStackCapability, BackgroundOnly] OnBlockingPool) (\<lambda>dplan.
     and_then (response_boundary opts response_by) (\<lambda>_. Inr dplan))"

definition run_cpu_plan ::
  "TokioRuntime \<Rightarrow> TaskSpec \<Rightarrow> SubmitOptions \<Rightarrow> Instant option \<Rightarrow> (GovernorError, ValidatedDispatchPlan) result" where
  "run_cpu_plan rt spec opts response_by =
     and_then (plan rt spec opts [SharedCpuExecutor] OnCpuExecutor) (\<lambda>dplan.
     and_then (response_boundary opts response_by) (\<lambda>_. Inr dplan))"

definition run_io_plan :: "TokioRuntime \<Rightarrow> TaskSpec \<Rightarrow> SubmitOptions \<Rightarrow> (GovernorError, ValidatedDispatchPlan) result" where
  "run_io_plan rt spec opts = plan rt spec opts [AsyncIo] CallerFuture"

definition run_local_plan :: "TokioRuntime \<Rightarrow> TaskSpec \<Rightarrow> SubmitOptions \<Rightarrow> (GovernorError, ValidatedDispatchPlan) result" where
  "run_local_plan rt spec opts = plan rt spec opts [LocalRuntime] CallerFuture"

definition run_async_with_requested_stack_plan ::
  "TokioRuntime \<Rightarrow> TaskSpec \<Rightarrow> SubmitOptions \<Rightarrow> (GovernorError, ValidatedDispatchPlan) result" where
  "run_async_with_requested_stack_plan rt spec opts = plan rt spec opts [LargeStackCapability] DedicatedStackRuntime"

section \<open>The handoff\<close>

text \<open>What becomes of the lease: a worker owns it and the caller waits; the caller is answered while a closure that owns it is
  still somewhere in the executor; the caller is answered and the lease, as given, has been dropped; or an \<open>expect\<close> failed.\<close>

datatype 'e Handoff =
    HandedOver ExecutionLease
  | AnsweredWhileKept "'e RunError" ExecutionLease
  | NotHanded "'e RunError" ExecutionLease
  | ExpectFailed ExecutionLease

datatype 'e Spawn = Spawned | SpawnFailed "'e RunError" | SpawnUnwound "'e RunError" bool

definition not_handed ::
  "PolicySet \<Rightarrow> nat \<Rightarrow> 'e RunError \<Rightarrow> ExecutionLease \<Rightarrow> GovernedState \<Rightarrow> nat \<Rightarrow> (GovernedState \<times> nat) \<times> 'e Handoff" where
  "not_handed ps sampled err l s nonces = ((fst (lease_drop ps sampled l s), nonces), NotHanded err l)"

definition hand_over ::
  "PolicySet \<Rightarrow> nat \<Rightarrow> 'e Spawn \<Rightarrow> ExecutionLease \<Rightarrow> GovernedState \<Rightarrow> nat \<Rightarrow> (GovernedState \<times> nat) \<times> 'e Handoff" where
  "hand_over ps sampled spawn l s nonces =
     (case lease_advance Accepted l s nonces of
        ((s, nonces), l, Inl err) \<Rightarrow> not_handed ps sampled (GovernorRunError err) l s nonces
      | ((s, nonces), l, Inr ()) \<Rightarrow>
          (case spawn of
             Spawned \<Rightarrow> ((s, nonces), HandedOver l)
           | SpawnFailed err \<Rightarrow> not_handed ps sampled err l s nonces
           | SpawnUnwound err kept \<Rightarrow>
               (if kept then ((s, nonces), AnsweredWhileKept err l) else not_handed ps sampled err l s nonces)))"

definition worker_unavailable_v1 :: "str \<Rightarrow> str \<Rightarrow> 'e RunError" where
  "worker_unavailable_v1 context detail = GovernorRunError (WorkerUnavailable context detail)"

definition run_blocking_on_pool ::
  "PolicySet \<Rightarrow> nat \<Rightarrow> ExecutionLease \<Rightarrow> GovernedState \<Rightarrow> nat \<Rightarrow> (GovernedState \<times> nat) \<times> 'e Handoff" where
  "run_blocking_on_pool ps sampled l s nonces = hand_over ps sampled Spawned l s nonces"

text \<open>Creating a thread answers the error of the operating system, if any.\<close>

definition thread_spawn :: "str \<Rightarrow> str option \<Rightarrow> 'e Spawn" where
  "thread_spawn context os_error =
     (case os_error of None \<Rightarrow> Spawned | Some detail \<Rightarrow> SpawnFailed (worker_unavailable_v1 context detail))"

definition on_sized_thread ::
  "str \<Rightarrow> PolicySet \<Rightarrow> nat \<Rightarrow> str option \<Rightarrow> ValidatedDispatchPlan \<Rightarrow> ExecutionLease \<Rightarrow> GovernedState \<Rightarrow> nat
     \<Rightarrow> (GovernedState \<times> nat) \<times> 'e Handoff" where
  "on_sized_thread context ps sampled os_error dplan l s nonces =
     (case dp_stack_size dplan of
        None \<Rightarrow> ((fst (lease_drop ps sampled l s), nonces), ExpectFailed l)
      | Some _ \<Rightarrow> hand_over ps sampled (thread_spawn context os_error) l s nonces)"

definition run_blocking_on_dedicated_thread ::
  "PolicySet \<Rightarrow> nat \<Rightarrow> str option \<Rightarrow> ValidatedDispatchPlan \<Rightarrow> ExecutionLease \<Rightarrow> GovernedState \<Rightarrow> nat
     \<Rightarrow> (GovernedState \<times> nat) \<times> 'e Handoff" where
  "run_blocking_on_dedicated_thread = on_sized_thread (lit ''large-stack worker'')"

definition run_async_with_requested_stack_v1 ::
  "PolicySet \<Rightarrow> nat \<Rightarrow> str option \<Rightarrow> ValidatedDispatchPlan \<Rightarrow> ExecutionLease \<Rightarrow> GovernedState \<Rightarrow> nat
     \<Rightarrow> (GovernedState \<times> nat) \<times> 'e Handoff" where
  "run_async_with_requested_stack_v1 = on_sized_thread (lit ''requested-stack async worker'')"

text \<open>The handoff of \<open>run_blocking_with_response_boundary\<close> and \<open>run_cpu_with_response_boundary\<close> once the lease is acquired.\<close>

definition run_blocking_handoff ::
  "PolicySet \<Rightarrow> nat \<Rightarrow> Instant \<Rightarrow> Instant option \<Rightarrow> str option \<Rightarrow> ValidatedDispatchPlan \<Rightarrow> ExecutionLease \<Rightarrow> GovernedState \<Rightarrow> nat
     \<Rightarrow> (GovernedState \<times> nat) \<times> 'e Handoff" where
  "run_blocking_handoff ps sampled now response_by os_error dplan l s nonces =
     (if expired response_by now then not_handed ps sampled (GovernorRunError DeadlineExceeded) l s nonces
      else if dp_dispatch dplan = DedicatedStackThread
        then run_blocking_on_dedicated_thread ps sampled os_error dplan l s nonces
      else run_blocking_on_pool ps sampled l s nonces)"

definition run_cpu_handoff ::
  "PolicySet \<Rightarrow> nat \<Rightarrow> Instant \<Rightarrow> Instant option \<Rightarrow> bool option \<Rightarrow> ExecutionLease \<Rightarrow> GovernedState \<Rightarrow> nat
     \<Rightarrow> (GovernedState \<times> nat) \<times> 'e Handoff" where
  "run_cpu_handoff ps sampled now response_by unwound l s nonces =
     (if expired response_by now then not_handed ps sampled (GovernorRunError DeadlineExceeded) l s nonces
      else hand_over ps sampled
             (case unwound of
                None \<Rightarrow> Spawned
              | Some kept \<Rightarrow> SpawnUnwound (GovernorRunError (WorkerPanicked (lit ''cpu executor spawn''))) kept) l s nonces)"

text \<open>The first poll of \<open>run_io_acquired\<close> and \<open>run_local_with\<close>: the phase, and the completion deadline of \<open>run_cancellable\<close>,
  whose failure is a result like any other. \<open>Inr\<close> carries the lease the caller's frame keeps while the future runs.\<close>

definition run_io_begin ::
  "PolicySet \<Rightarrow> nat \<Rightarrow> Instant \<Rightarrow> Instant \<Rightarrow> (CancellationToken \<Rightarrow> bool) \<Rightarrow> Instant \<Rightarrow> ValidatedDispatchPlan \<Rightarrow> ExecutionLease
     \<Rightarrow> GovernedState \<Rightarrow> nat \<Rightarrow> (GovernedState \<times> nat) \<times> ExecutionLease \<times> ('e RunError, Instant option) result" where
  "run_io_begin ps sampled instant_max now cancelled' now' dplan l s nonces =
     (case lease_advance Running l s nonces of
        ((s, nonces), l, Inl err) \<Rightarrow> ((fst (lease_drop ps sampled l s), nonces), l, Inl (GovernorRunError err))
      | ((s, nonces), l, Inr ()) \<Rightarrow>
          (case completion_deadline instant_max now (dp_deadline dplan) of
             Inl err \<Rightarrow> ((fst (lease_drop ps sampled l s), nonces), l,
                finalize_released_response cancelled' now' (Inl (GovernorRunError err)) (dp_cancel dplan) (absolute_deadline dplan))
           | Inr deadline \<Rightarrow> ((s, nonces), l, Inr deadline)))"

text \<open>The requested-stack worker before its root future runs: the owned runtime may fail to build, and the phase may be refused;
  either error is the reply that is sent before the lease is dropped.\<close>

definition stack_worker_begin ::
  "str option \<Rightarrow> ExecutionLease \<Rightarrow> GovernedState \<Rightarrow> nat \<Rightarrow> (GovernedState \<times> nat) \<times> ExecutionLease \<times> ('e RunError, unit) result" where
  "stack_worker_begin build_error l s nonces =
     (case build_error of
        Some detail \<Rightarrow> ((s, nonces), l, Inl (worker_unavailable_v1 (lit ''requested-stack async worker'') detail))
      | None \<Rightarrow>
          (case lease_advance Running l s nonces of
             (sn, l, Inl err) \<Rightarrow> (sn, l, Inl (GovernorRunError err))
           | (sn, l, Inr ()) \<Rightarrow> (sn, l, Inr ())))"

text \<open>One poll of its root: a caller that is gone cancels it before anything else is looked at.\<close>

definition stack_worker_poll ::
  "bool \<Rightarrow> (CancellationToken \<Rightarrow> bool) \<Rightarrow> (Instant \<Rightarrow> bool) \<Rightarrow> CancellationToken option \<Rightarrow> Instant option
     \<Rightarrow> (Instant \<times> ('e RunError, 'v) result) option \<Rightarrow> ('e RunError, 'v) result option" where
  "stack_worker_poll caller_gone cancelled fired token deadline work =
     (if caller_gone then Some (Inl (GovernorRunError CancelledError)) else run_cancellable cancelled fired token deadline work)"

section \<open>A submission among other threads\<close>

text \<open>
  One submission from the moment it holds a permit, seen by its current owner: the caller's frame, the closure of a worker
  that has not started (with whether the caller still listens), a worker running the job, a worker about to send, the
  channel, and nobody; on the async paths the frame that polls the future, the sized thread before and while it runs its
  root, and a frame or channel that only has the drop left. Between two actions of the submission any thread may take any
  step of the engine, except one that presents the token the owner holds.
\<close>

datatype ('v, 'e) Submission =
    Holding ExecutionLease
  | AtWorker bool ExecutionLease
  | Working bool Instant ExecutionLease
  | Sending bool "('v, 'e) DetachedOutcome"
  | Delivered "('v, 'e) DetachedOutcome"
  | Polling ExecutionLease
  | StackWorker ExecutionLease
  | StackRunning ExecutionLease
  | Closing ExecutionLease
  | Finished ExecutionLease

fun submission_lease :: "('v, 'e) Submission \<Rightarrow> ExecutionLease" where
  "submission_lease (Holding l) = l"
| "submission_lease (AtWorker _ l) = l"
| "submission_lease (Working _ _ l) = l"
| "submission_lease (Sending _ outcome) = do_lease outcome"
| "submission_lease (Delivered outcome) = do_lease outcome"
| "submission_lease (Polling l) = l"
| "submission_lease (StackWorker l) = l"
| "submission_lease (StackRunning l) = l"
| "submission_lease (Closing l) = l"
| "submission_lease (Finished l) = l"

fun submission_tokens :: "('v, 'e) Submission \<Rightarrow> (PermitId \<times> nat) set" where
  "submission_tokens (Finished _) = {}"
| "submission_tokens sub = lease_tokens (submission_lease sub)"

fun after_handoff :: "'e Handoff \<Rightarrow> ('v, 'e) Submission" where
  "after_handoff (HandedOver l) = AtWorker True l"
| "after_handoff (AnsweredWhileKept _ l) = AtWorker False l"
| "after_handoff (NotHanded _ l) = Finished l"
| "after_handoff (ExpectFailed l) = Finished l"

fun after_stack_handoff :: "'e Handoff \<Rightarrow> ('v, 'e) Submission" where
  "after_stack_handoff (HandedOver l) = StackWorker l"
| "after_stack_handoff (AnsweredWhileKept _ l) = StackWorker l"
| "after_stack_handoff (NotHanded _ l) = Finished l"
| "after_stack_handoff (ExpectFailed l) = Finished l"

text \<open>The owner of the lease when the root has ended: the worker, who keeps it until its runtime is gone, or the message.\<close>

fun stack_owner :: "('v, 'e) AsyncThreadOutcome \<Rightarrow> ExecutionLease option \<Rightarrow> ExecutionLease option" where
  "stack_owner reply (Some l) = Some l"
| "stack_owner (Completed result l) None = Some l"
| "stack_owner (Terminated err) None = None"

fun after_send :: "ExecutionLease \<Rightarrow> ('v, 'e) DetachedOutcome option \<Rightarrow> ('v, 'e) Submission" where
  "after_send l (Some outcome) = Delivered outcome"
| "after_send l None = Finished l"

inductive submission :: "PolicySet \<Rightarrow> nat \<Rightarrow> World \<Rightarrow> ('v, 'e) Submission \<Rightarrow> bool" for ps authority where
  acquired: "reachable ps authority w \<Longrightarrow> fmlookup (gs_permits (w_state w)) p = Some r
    \<Longrightarrow> submission ps authority w (Holding (ExecutionLease_reserved p))"
| others: "submission ps authority w sub \<Longrightarrow> step ps authority w ev w' \<Longrightarrow> submission_tokens sub \<inter> spends ev = {}
    \<Longrightarrow> submission ps authority w' sub"
| blocking: "submission ps authority w (Holding l)
    \<Longrightarrow> run_blocking_handoff ps sampled now response_by os_error dplan l (w_state w) (w_nonces w) = ((s, k), h)
    \<Longrightarrow> submission ps authority (w\<lparr>w_state := s, w_nonces := k\<rparr>) (after_handoff h)"
| cpu: "submission ps authority w (Holding l)
    \<Longrightarrow> run_cpu_handoff ps sampled now response_by unwound l (w_state w) (w_nonces w) = ((s, k), h)
    \<Longrightarrow> submission ps authority (w\<lparr>w_state := s, w_nonces := k\<rparr>) (after_handoff h)"
| begins: "submission ps authority w (AtWorker listening l)
    \<Longrightarrow> detached_begin response_by at l (w_state w) (w_nonces w) = ((s, k), l', Inr ())
    \<Longrightarrow> submission ps authority (w\<lparr>w_state := s, w_nonces := k\<rparr>) (Working listening at l')"
| refuses: "submission ps authority w (AtWorker listening l)
    \<Longrightarrow> detached_begin response_by at l (w_state w) (w_nonces w) = ((s, k), l', Inl err)
    \<Longrightarrow> submission ps authority (w\<lparr>w_state := s, w_nonces := k\<rparr>)
      (Sending listening \<lparr>do_result = Inl (GovernorRunError err), do_started_at = at, do_completed_at = at', do_lease = l'\<rparr>)"
| finishes: "submission ps authority w (Working listening at l)
    \<Longrightarrow> detached_finish context job l (w_state w) (w_nonces w) = ((s, k), l', result)
    \<Longrightarrow> submission ps authority (w\<lparr>w_state := s, w_nonces := k\<rparr>)
      (Sending listening \<lparr>do_result = result, do_started_at = at, do_completed_at = at', do_lease = l'\<rparr>)"
| sends: "submission ps authority w (Sending listening outcome)
    \<Longrightarrow> detached_deliver ps sampled listening outcome (w_state w) = (s, received)
    \<Longrightarrow> submission ps authority (w\<lparr>w_state := s\<rparr>) (after_send (do_lease outcome) received)"
| gives_up: "submission ps authority w (AtWorker listening l) \<Longrightarrow> submission ps authority w (AtWorker False l)"
| gives_up_running: "submission ps authority w (Working listening at l) \<Longrightarrow> submission ps authority w (Working False at l)"
| gives_up_sending: "submission ps authority w (Sending listening outcome) \<Longrightarrow> submission ps authority w (Sending False outcome)"
| never_run: "submission ps authority w (AtWorker listening l)
    \<Longrightarrow> submission ps authority (w\<lparr>w_state := fst (lease_drop ps sampled l (w_state w))\<rparr>) (Finished l)"
| settles: "submission ps authority w (Delivered outcome)
    \<Longrightarrow> submission ps authority (w\<lparr>w_state := fst (lease_drop ps sampled (do_lease outcome) (w_state w))\<rparr>)
      (Finished (do_lease outcome))"
| io: "submission ps authority w (Holding l)
    \<Longrightarrow> run_io_begin ps sampled instant_max now cancelled' now' dplan l (w_state w) (w_nonces w)
        = ((s, k), l', result :: ('e RunError, Instant option) result)
    \<Longrightarrow> submission ps authority (w\<lparr>w_state := s, w_nonces := k\<rparr>) (case result of Inr _ \<Rightarrow> Polling l' | Inl _ \<Rightarrow> Finished l')"
| io_done: "submission ps authority w (Polling l)
    \<Longrightarrow> run_io_acquired ps sampled cancelled fired cancelled' now' l dplan deadline work (w_state w) = (s, Some (answer :: ('e RunError, 'v) result))
    \<Longrightarrow> submission ps authority (w\<lparr>w_state := s\<rparr>) (Finished l)"
| io_dropped: "submission ps authority w (Polling l)
    \<Longrightarrow> submission ps authority (w\<lparr>w_state := fst (lease_drop ps sampled l (w_state w))\<rparr>) (Finished l)"
| stack: "submission ps authority w (Holding l)
    \<Longrightarrow> run_async_with_requested_stack_v1 ps sampled os_error dplan l (w_state w) (w_nonces w) = ((s, k), h)
    \<Longrightarrow> submission ps authority (w\<lparr>w_state := s, w_nonces := k\<rparr>) (after_stack_handoff h)"
| stack_begins: "submission ps authority w (StackWorker l)
    \<Longrightarrow> stack_worker_begin build_error l (w_state w) (w_nonces w) = ((s, k), l', result :: ('e RunError, unit) result)
    \<Longrightarrow> submission ps authority (w\<lparr>w_state := s, w_nonces := k\<rparr>) (case result of Inr _ \<Rightarrow> StackRunning l' | Inl _ \<Rightarrow> Closing l')"
| stack_ends: "submission ps authority w (StackRunning l)
    \<Longrightarrow> stack_worker_finish context root l (w_state w) (w_nonces w) = ((s, k), reply :: ('v, 'e) AsyncThreadOutcome, kept)
    \<Longrightarrow> stack_owner reply kept = Some l'
    \<Longrightarrow> submission ps authority (w\<lparr>w_state := s, w_nonces := k\<rparr>) (Closing l')"
| closes: "submission ps authority w (Closing l)
    \<Longrightarrow> submission ps authority (w\<lparr>w_state := fst (lease_drop ps sampled l (w_state w))\<rparr>) (Finished l)"

section \<open>Identities are spent once\<close>

text \<open>A permit identity that has been granted: it is neither reserved for a request nor the identity of a queued one.\<close>

definition spent :: "nat \<Rightarrow> World \<Rightarrow> PermitId \<Rightarrow> bool" where
  "spent authority w p \<longleftrightarrow> p \<in> PermitId authority ` {..<next_permit (w_counters w)} \<and> p \<notin> ids_permit_id ` w_reserved w
     \<and> (p \<in> permit_ids (w_state w) \<longrightarrow> fmlookup (gs_permits (w_state w)) p \<noteq> None)"

definition settled :: "GovernedState \<Rightarrow> PermitId \<Rightarrow> bool" where
  "settled s p \<longleftrightarrow> (\<forall>r. fmlookup (gs_permits s) p = Some r \<longrightarrow> rec_lease_nonce r \<noteq> None)"

lemma step_kinds:
  assumes inv: "world_inv ps authority w" and st: "step ps authority w ev w'"
  obtains (reserve) c ids where "fresh_ids authority (w_counters w) = (c, Some ids)" "w_state w' = w_state w" "w_counters w' = c"
      "w_reserved w' = insert ids (w_reserved w)"
  | (exhausted) c where "fresh_ids authority (w_counters w) = (c, None)" "w_state w' = w_state w" "w_counters w' = c"
      "w_reserved w' = w_reserved w"
  | (admit) ids where "ids \<in> w_reserved w" "admits ids (w_state w) (w_state w')" "w_counters w' = w_counters w"
      "w_reserved w' = w_reserved w - {ids}"
  | (transition) "evolves (w_state w) (w_state w')" "w_counters w' = w_counters w" "w_reserved w' = w_reserved w"
proof -
  note W = world_invD [OF inv]
  have sec: thesis if "sound ps X (entered w) (w_state w) (w_state w')" "w_counters w' = w_counters w" "w_reserved w' = w_reserved w" for X
    using that by (intro transition) (simp_all add: sound_def)
  from st show thesis
  proof cases
    case (reserve c ids)
    then show ?thesis by (intro that(1)) simp_all
  next
    case (exhausted c)
    then show ?thesis by (intro that(2)) simp_all
  next
    case (admit ids req sampled waker s e d)
    then show ?thesis using world_admit(4) [OF inv admit(3-6)] by (intro that(3)) simp_all
  next
    case (admit_compensate p sampled)
    then show ?thesis using sec [of "{}"] admit_compensate_sec.run_sound [OF W(1,2)] by simp
  next
    case (claim_begin sampled t s p e)
    then show ?thesis using sec [of "{}"] claim_begin_sec.run_sound [OF W(1,2), of ps sampled t] by simp
  next
    case (claim_answered sampled t s out)
    then show ?thesis using sec [of "{}"] claim_begin_sec.run_sound [OF W(1,2), of ps sampled t] by simp
  next
    case (claim_finish t p sampled s out)
    then show ?thesis using sec [of "{}"] claim_finish_sec.run_sound [OF W(1,2), of ps sampled t] by simp
  next
    case (claim_compensate t p sampled)
    have "q = p" if "fmlookup (gs_tickets (w_state w)) t = Some (TClaiming q)" for q
      using W(6) claim_compensate(3) that by (auto simp: claims_ok_def live_tickets_def)
    then show ?thesis using sec [of "{}"] sound_claim_compensate [OF W(1,2)] claim_compensate by simp
  next
    case (abandon sampled t s e out)
    then show ?thesis using sec [of "{}"] abandon_sec.run_sound [OF W(1,2), of ps sampled t] by simp
  next
    case (release sampled p pf s e out)
    then show ?thesis using sec [of "{(p, m) |m. pf = Some m}"] release_sec.run_sound [OF W(1,2), of ps p pf sampled] by simp
  next
    case (advance p phase s k out)
    then show ?thesis using sec [of "{}"] advance_sec.run_sound [OF W(1,2), of ps p phase "w_nonces w"] by simp
  next
    case (reconcile p sampled bytes epoch)
    then show ?thesis using sec [of "{}"] reconcile_sec.run_sound [OF W(1,2)] by simp
  next
    case (stage p sampled units sq)
    then show ?thesis using sec [of "{}"] stage_sec.run_sound [OF W(1,2)] by simp
  next
    case (reap sampled stale)
    then show ?thesis using sec [of "{}"] reap_sec.run_sound [OF W(1,2)] by simp
  next
    case close
    then show ?thesis using sec [of "{}"] close_sec.run_sound [OF W(1,2)] by simp
  next
    case (continue sampled)
    then show ?thesis using sec [of "{}"] continue_sec.run_sound [OF W(1,2)] by simp
  qed
qed

lemma live_occupant:
  assumes "gov_inv n s" "fmlookup (gs_permits s) p = Some r"
  shows "p \<in> permit_ids s" and "q \<in> set (queues s cl) \<Longrightarrow> pr_permit_id q \<noteq> p"
proof -
  have core: "core n s" using assms(1) by (simp add: gov_inv_def)
  have "rec_permit_id r = p" using acct_okD(6) [OF coreD(1) [OF core] assms(2)] by (simp add: record_ok_def)
  then have o: "(Inl p, p) \<in> occupants pid_p pid_q (gs_permits s) (queues s)" using assms(2) by (simp add: pid_p_def)
  then show "p \<in> permit_ids s" by blast
  show "pr_permit_id q \<noteq> p" if "q \<in> set (queues s cl)"
  proof
    assume "pr_permit_id q = p"
    then have "(Inr (pr_ticket q), p) \<in> occupants pid_p pid_q (gs_permits s) (queues s)"
      using that by (auto simp: occupants_def pid_q_def)
    with o coreD(7) [OF core] show False unfolding exclusive_def by blast
  qed
qed

lemma evolves_live:
  assumes "gov_inv n s" "evolves s s'" "fmlookup (gs_permits s) p = Some r" "p \<in> permit_ids s'" "gov_inv n' s'"
  shows "fmlookup (gs_permits s') p \<noteq> None"
proof -
  from assms(4) consider (live) x r' where "fmlookup (gs_permits s') x = Some r'" "pid_p r' = Some p"
    | (waiting) cl q where "q \<in> set (queues s' cl)" "pid_q q = Some p" unfolding Range_occupants by blast
  then show ?thesis
  proof cases
    case live
    have "rec_permit_id r' = x"
      using acct_okD(6) [OF coreD(1) live(1), of n'] assms(5) by (simp add: gov_inv_def record_ok_def)
    with live show ?thesis by (simp add: pid_p_def)
  next
    case waiting
    then have "q \<in> set (queues s cl)" "pr_permit_id q = p" using assms(2) by (auto simp: evolves_def pid_q_def)
    with live_occupant(2) [OF assms(1,3)] show ?thesis by blast
  qed
qed

lemma spent_start:
  assumes "world_inv ps authority w" "fmlookup (gs_permits (w_state w)) p = Some r"
  shows "spent authority w p"
proof -
  note W = world_invD [OF assms(1)]
  have "p \<in> permit_ids (w_state w)" by (rule live_occupant(1) [OF W(1) assms(2)])
  with identities_okD(7) [OF W(5)] assms(2) show ?thesis by (auto simp: spent_def ids_below_def)
qed

lemma spent_step:
  assumes inv: "world_inv ps authority w" and st: "step ps authority w ev w'" and sp: "spent authority w p"
  shows "spent authority w' p" and "fmlookup (gs_permits (w_state w)) p = None \<Longrightarrow> fmlookup (gs_permits (w_state w')) p = None"
proof -
  have inv': "world_inv ps authority w'" using step_keeps [OF inv st] by blast
  note W = world_invD [OF inv] and W' = world_invD [OF inv']
  from inv st have both: "spent authority w' p \<and> (fmlookup (gs_permits (w_state w)) p = None \<longrightarrow> p \<notin> permit_ids (w_state w'))"
  proof (cases rule: step_kinds)
    case (reserve c ids)
    note F = fresh_ids_Some [OF reserve(1)]
    have "p \<noteq> ids_permit_id ids" using sp F(1) by (auto simp: spent_def)
    then show ?thesis using sp reserve F(4) by (auto simp: spent_def)
  next
    case (exhausted c)
    then show ?thesis using sp fresh_ids_None(1) [OF exhausted(1)] by (auto simp: spent_def)
  next
    case (admit ids)
    have "p \<noteq> ids_permit_id ids" using sp admit(1) by (auto simp: spent_def)
    moreover have "permit_ids (w_state w') \<subseteq> insert (ids_permit_id ids) (permit_ids (w_state w))"
      "fmdom (gs_permits (w_state w)) |\<subseteq>| fmdom (gs_permits (w_state w'))" using admit(2) by (simp_all add: admits_def)
    moreover have "fmlookup (gs_permits (w_state w')) p \<noteq> None" if "fmlookup (gs_permits (w_state w)) p \<noteq> None"
      using that calculation(3) by (metis fmdomE fmdomI fsubsetD not_None_eq)
    ultimately show ?thesis using sp admit(3,4) by (auto simp: spent_def)
  next
    case transition
    have "p \<in> permit_ids (w_state w') \<Longrightarrow> p \<in> permit_ids (w_state w)" using transition(1) by (auto simp: evolves_def)
    moreover have "fmlookup (gs_permits (w_state w')) p \<noteq> None"
      if "p \<in> permit_ids (w_state w')" "fmlookup (gs_permits (w_state w)) p = Some r" for r
      using evolves_live [OF W(1) transition(1) that(2,1) W'(1)] .
    ultimately show ?thesis using sp transition(2,3) by (auto simp: spent_def)
  qed
  show "spent authority w' p" using both by blast
  show "fmlookup (gs_permits (w_state w')) p = None" if "fmlookup (gs_permits (w_state w)) p = None"
    using both that absent_permit [OF W'(1)] by blast
qed

lemma settled_step:
  assumes inv: "world_inv ps authority w" and st: "step ps authority w ev w'" and sp: "spent authority w p" "settled (w_state w) p"
  shows "settled (w_state w') p"
proof (cases "fmlookup (gs_permits (w_state w)) p")
  case None
  then show ?thesis using spent_step(2) [OF inv st sp(1)] by (simp add: settled_def)
next
  case (Some r)
  then obtain m where m: "rec_lease_nonce r = Some m" using sp(2) by (auto simp: settled_def)
  note W = world_invD [OF inv]
  show ?thesis
  proof (cases "(p, m) \<in> spends ev")
    case False
    moreover have "keeps_leases (spends ev) (gs_permits (w_state w)) (gs_permits (w_state w'))" using step_keeps [OF inv st] by blast
    ultimately show ?thesis using Some m unfolding keeps_leases_def settled_def by fastforce
  next
    case True
    then obtain out where "ev = EvRelease p (Some m) out" by (cases ev rule: spends.cases) auto
    then obtain sampled s e where w': "release_section ps sampled p (Some m) (w_state w) = ((s, e), out)" "w' = w\<lparr>w_state := s\<rparr>"
      using st by (auto elim: step_releaseE)
    obtain s1 e1 where "release_section ps sampled p (Some m) (w_state w) = ((s1, e1), ReleasedOk)" "p \<notin> permit_ids s1" "gov_inv (entered w) s1"
      by (rule release_section_gone [OF W(1,2) Some m])
    then show ?thesis using w' absent_permit by (auto simp: settled_def)
  qed
qed

section \<open>A dropped lease\<close>

definition steps :: "PolicySet \<Rightarrow> nat \<Rightarrow> World \<Rightarrow> World \<Rightarrow> bool" where
  "steps ps authority = (\<lambda>w w'. \<exists>ev. step ps authority w ev w')\<^sup>*\<^sup>*"

lemma steps_step: "step ps authority w ev w' \<Longrightarrow> steps ps authority w' w'' \<Longrightarrow> steps ps authority w w''"
  unfolding steps_def by (rule converse_rtranclp_into_rtranclp) blast+

lemma steps_refl [simp]: "steps ps authority w w"
  by (simp add: steps_def)

lemma steps_keep:
  assumes "steps ps authority w w'" "reachable ps authority w" "spent authority w p"
  shows "reachable ps authority w' \<and> spent authority w' p \<and> (settled (w_state w) p \<longrightarrow> settled (w_state w') p)
    \<and> (fmlookup (gs_permits (w_state w)) p = None \<longrightarrow> fmlookup (gs_permits (w_state w')) p = None)"
  using assms(1) [unfolded steps_def] assms(2,3)
proof (induction rule: rtranclp_induct)
  case (step y z)
  then obtain ev where ev: "TM_World.step ps authority y ev z" by blast
  have r: "reachable ps authority y" "spent authority y p" using step by blast+
  note inv = reachable_inv [OF r(1)]
  show ?case
    using step.IH [OF step.prems] spent_step [OF inv ev r(2)] settled_step [OF inv ev r(2)] reachable.next_step [OF r(1) ev] by blast
qed simp

lemma drain_steps: "steps ps authority (w\<lparr>w_state := s\<rparr>) (w\<lparr>w_state := fst (drain ps sampled s e)\<rparr>)"
proof (induction ps sampled s e rule: drain.induct)
  case (1 ps sampled s e)
  show ?case
  proof (cases "eff_more_runnable e")
    case True
    obtain s1 now where c: "commit_time sampled s = (s1, now)" by force
    obtain s2 e2 where p: "promote ps now s1 = (s2, e2)" by force
    have "step ps authority (w\<lparr>w_state := s\<rparr>) EvContinue (w\<lparr>w_state := s2\<rparr>)"
      using step.continue [of ps authority "w\<lparr>w_state := s\<rparr>" sampled] by (simp add: continue_section_def c p)
    moreover have "fst (drain ps sampled s e) = fst (drain ps sampled s2 e2)"
      using True c p by (subst drain.simps) (simp add: split_beta Let_def)
    ultimately show ?thesis using 1 [OF True c [symmetric] refl p [symmetric] refl] steps_step by simp
  qed (subst drain.simps, simp)
qed

lemma drop_steps: "steps ps authority w (w\<lparr>w_state := fst (lease_drop ps sampled l (w_state w))\<rparr>)"
proof -
  have rel: "steps ps authority w (w\<lparr>w_state := fst (governor_release_with_proof ps sampled p pf (w_state w))\<rparr>)" for p pf
  proof -
    obtain s e out where r: "release_section ps sampled p pf (w_state w) = ((s, e), out)" by (metis prod.collapse)
    show ?thesis using steps_step [OF step.release [OF r] drain_steps [where w = w and s = s and e = e]]
      by (simp add: governor_release_with_proof_def r case_prod_beta)
  qed
  show ?thesis
    by (cases "lease_custody l") (use rel in \<open>simp_all add: lease_drop_def release_def release_leased_def map_prod_def case_prod_beta\<close>)
qed

text \<open>What a dropped lease leaves behind: nothing, if it held a token; otherwise at most a permit that somebody else has leased.\<close>

definition let_go :: "GovernedState \<Rightarrow> ExecutionLease \<Rightarrow> bool" where
  "let_go s l =
     (case lease_custody l of
        CustodyLeased _ \<Rightarrow> fmlookup (gs_permits s) (lease_permit_id l) = None
      | _ \<Rightarrow> settled s (lease_permit_id l))"

lemma drop_lets_go:
  assumes h: "hosted ps authority w l" and sp: "spent authority w (lease_permit_id l)"
    and gone: "lease_custody l = CustodyGone \<Longrightarrow> settled (w_state w) (lease_permit_id l)"
  shows "let_go (fst (lease_drop ps sampled l (w_state w))) l"
proof -
  note r = hosted_inv [OF h, THEN conjunct1]
  note W = world_invD [OF reachable_inv [OF r]] and K = steps_keep [OF drop_steps [of ps authority w sampled l] r sp]
  show ?thesis
  proof (cases "lease_custody l")
    case (CustodyLeased token)
    then show ?thesis using drop_leased [OF h CustodyLeased, of sampled] by (auto simp: let_go_def)
  next
    case CustodyGone
    then show ?thesis using gone by (simp add: let_go_def lease_drop_def)
  next
    case CustodyReserved
    show ?thesis
    proof (cases "settled (w_state w) (lease_permit_id l)")
      case True
      then show ?thesis using K CustodyReserved by (simp add: let_go_def)
    next
      case False
      then obtain x where x: "fmlookup (gs_permits (w_state w)) (lease_permit_id l) = Some x" "rec_lease_nonce x = None"
        by (auto simp: settled_def)
      obtain s' where "governor_release_with_proof ps sampled (lease_permit_id l) None (w_state w) = (s', ReleasedOk)"
        "lease_permit_id l \<notin> permit_ids s'" "gov_inv (entered w) s'" by (rule release_gone [OF W(1,2) x])
      then show ?thesis using CustodyReserved absent_permit
        by (fastforce simp: let_go_def lease_drop_def release_def settled_def)
    qed
  qed
qed

lemma advance_steps:
  assumes "lease_advance phase l (w_state w) (w_nonces w) = ((s, k), l', res)"
  shows "steps ps authority w (w\<lparr>w_state := s, w_nonces := k\<rparr>)"
proof (cases "lease_custody l = CustodyGone")
  case True
  then show ?thesis using assms by (auto simp: lease_advance_def Let_def)
next
  case False
  obtain out where "advance_phase (lease_permit_id l) phase (w_state w) (w_nonces w) = ((s, k), out)"
    using assms False by (auto simp: lease_advance_def Let_def split: prod.splits AdvanceOutcome.splits Custody.splits AdvanceRefusal.splits)
  from steps_step [OF step.advance [OF this]] show ?thesis by simp
qed

lemma advance_custody:
  assumes adv: "lease_advance phase l s k = ((s', k'), l', res)"
  shows "lease_backed s l \<Longrightarrow> lease_custody l = CustodyLeased token \<Longrightarrow> \<exists>token. lease_custody l' = CustodyLeased token"
    and "lease_custody l = CustodyReserved \<Longrightarrow> lease_custody l' = CustodyGone \<Longrightarrow> settled s' (lease_permit_id l')"
    and "res = Inr () \<Longrightarrow> \<exists>token. lease_custody l' = CustodyLeased token"
    and "lease_permit_id l' = lease_permit_id l"
proof -
  show pid: "lease_permit_id l' = lease_permit_id l"
    using adv by (auto simp: lease_advance_def Let_def split: prod.splits AdvanceOutcome.splits Custody.splits AdvanceRefusal.splits if_splits)
  show "res = Inr () \<Longrightarrow> \<exists>token. lease_custody l' = CustodyLeased token"
    using adv by (auto simp: lease_advance_def Let_def split: prod.splits AdvanceOutcome.splits Custody.splits AdvanceRefusal.splits if_splits)
  show "\<exists>token. lease_custody l' = CustodyLeased token" if c: "lease_backed s l" "lease_custody l = CustodyLeased token"
  proof (cases rule: advance_phase_cases [of s "lease_permit_id l" phase k])
    case unknown
    then show ?thesis using c by (auto simp: lease_backed_def)
  qed (use adv c in \<open>auto simp: lease_advance_def Let_def\<close>)
  show "settled s' (lease_permit_id l')" if "lease_custody l = CustodyReserved" "lease_custody l' = CustodyGone"
    unfolding pid
    by (cases rule: advance_phase_cases [of s "lease_permit_id l" phase k])
       (use adv that in \<open>auto simp: lease_advance_def Let_def settled_def\<close>)
qed

section \<open>No submission leaks capacity\<close>

definition charged :: "GovernedState \<Rightarrow> ExecutionLease \<Rightarrow> bool" where
  "charged s l \<longleftrightarrow> (\<exists>token r. lease_custody l = CustodyLeased token \<and> token_permit_id token = lease_permit_id l
     \<and> fmlookup (gs_permits s) (lease_permit_id l) = Some r \<and> rec_lease_nonce r = Some (token_nonce token))"

definition owner_ok :: "PolicySet \<Rightarrow> nat \<Rightarrow> World \<Rightarrow> ExecutionLease \<Rightarrow> bool" where
  "owner_ok ps authority w l \<longleftrightarrow> hosted ps authority w l \<and> spent authority w (lease_permit_id l)
     \<and> (\<exists>token. lease_custody l = CustodyLeased token)"

fun submission_ok :: "PolicySet \<Rightarrow> nat \<Rightarrow> World \<Rightarrow> ('v, 'e) Submission \<Rightarrow> bool" where
  "submission_ok ps authority w (Holding l) \<longleftrightarrow>
     hosted ps authority w l \<and> spent authority w (lease_permit_id l) \<and> lease_custody l = CustodyReserved"
| "submission_ok ps authority w (Finished l) \<longleftrightarrow>
     reachable ps authority w \<and> spent authority w (lease_permit_id l) \<and> let_go (w_state w) l"
| "submission_ok ps authority w sub \<longleftrightarrow> owner_ok ps authority w (submission_lease sub)"

lemma owner_charged: "owner_ok ps authority w l \<Longrightarrow> charged (w_state w) l"
  using hosted_inv by (fastforce simp: owner_ok_def charged_def lease_backed_def)

lemma dropped_ok:
  assumes "hosted ps authority w l" "spent authority w (lease_permit_id l)"
    "lease_custody l = CustodyGone \<Longrightarrow> settled (w_state w) (lease_permit_id l)"
  shows "submission_ok ps authority (w\<lparr>w_state := fst (lease_drop ps sampled l (w_state w))\<rparr>) (Finished l)"
  using steps_keep [OF drop_steps [of ps authority w sampled l] _ assms(2)] hosted_inv [OF assms(1)] drop_lets_go [OF assms, of sampled]
  by simp

lemma owner_dropped:
  "owner_ok ps authority w l \<Longrightarrow> submission_ok ps authority (w\<lparr>w_state := fst (lease_drop ps sampled l (w_state w))\<rparr>) (Finished l)"
  by (rule dropped_ok) (auto simp: owner_ok_def)

lemma advanced_ok:
  assumes h: "hosted ps authority w l" and sp: "spent authority w (lease_permit_id l)"
    and adv: "lease_advance phase l (w_state w) (w_nonces w) = ((s, k), l', res)"
  shows "hosted ps authority (w\<lparr>w_state := s, w_nonces := k\<rparr>) l'" "spent authority (w\<lparr>w_state := s, w_nonces := k\<rparr>) (lease_permit_id l')"
  using hosted.advanced [OF h adv] steps_keep [OF advance_steps [OF adv] _ sp] hosted_inv [OF h] advance_custody(4) [OF adv] by auto

lemma owner_advanced:
  assumes "owner_ok ps authority w l" "lease_advance phase l (w_state w) (w_nonces w) = ((s, k), l', res)"
  shows "owner_ok ps authority (w\<lparr>w_state := s, w_nonces := k\<rparr>) l'"
  using advanced_ok [OF _ _ assms(2)] advance_custody(1) [OF assms(2)] assms(1) hosted_inv unfolding owner_ok_def by blast

lemma advanced_dropped:
  assumes H: "hosted ps authority w l" "spent authority w (lease_permit_id l)" "lease_custody l = CustodyReserved"
    and adv: "lease_advance phase l (w_state w) (w_nonces w) = ((s, k), l', res)"
  shows "submission_ok ps authority (w\<lparr>w_state := fst (lease_drop ps sampled l' s), w_nonces := k\<rparr>) (Finished l')"
proof -
  let ?w = "w\<lparr>w_state := s, w_nonces := k\<rparr>"
  have e: "w\<lparr>w_state := fst (lease_drop ps sampled l' s), w_nonces := k\<rparr> = ?w\<lparr>w_state := fst (lease_drop ps sampled l' (w_state ?w))\<rparr>"
    by (cases w) simp
  show ?thesis unfolding e
    by (rule dropped_ok [OF advanced_ok [OF H(1,2) adv]]) (use advance_custody(2) [OF adv H(3)] in simp)
qed

lemma hand_over_ok:
  assumes hold: "submission_ok ps authority w (Holding l)"
    and eq: "hand_over ps sampled spawn l (w_state w) (w_nonces w) = ((s, k), h)"
  shows "submission_ok ps authority (w\<lparr>w_state := s, w_nonces := k\<rparr>) (after_handoff h)"
proof -
  have H: "hosted ps authority w l" "spent authority w (lease_permit_id l)" "lease_custody l = CustodyReserved" using hold by simp_all
  obtain s1 k1 l1 res where adv: "lease_advance Accepted l (w_state w) (w_nonces w) = ((s1, k1), l1, res)" by (metis prod.collapse)
  let ?w = "w\<lparr>w_state := s1, w_nonces := k1\<rparr>"
  note A = advanced_ok [OF H(1,2) adv]
  note drop = advanced_dropped [OF H adv, of sampled]
  show ?thesis
  proof (cases res)
    case (Inl err)
    then have "s = fst (lease_drop ps sampled l1 s1)" "k = k1" "h = NotHanded (GovernorRunError err) l1"
      using eq adv by (simp_all add: hand_over_def not_handed_def)
    then show ?thesis using drop by simp
  next
    case (Inr u)
    then have own: "owner_ok ps authority ?w l1" using A advance_custody(3) [OF adv] by (simp add: owner_ok_def)
    have adv': "lease_advance Accepted l (w_state w) (w_nonces w) = ((s1, k1), l1, Inr ())" using adv Inr by simp
    have "(case spawn of
         Spawned \<Rightarrow> ((s1, k1), HandedOver l1)
       | SpawnFailed err \<Rightarrow> not_handed ps sampled err l1 s1 k1
       | SpawnUnwound err kept \<Rightarrow>
           if kept then ((s1, k1), AnsweredWhileKept err l1) else not_handed ps sampled err l1 s1 k1) = ((s, k), h)"
      using eq unfolding hand_over_def adv' prod.case sum.case unit.case .
    then show ?thesis using drop own by (cases spawn) (auto simp: not_handed_def split: if_splits)
  qed
qed

lemma holding_dropped:
  "submission_ok ps authority w (Holding l) \<Longrightarrow>
     submission_ok ps authority (w\<lparr>w_state := fst (lease_drop ps sampled l (w_state w)), w_nonces := w_nonces w\<rparr>) (Finished l)"
  using dropped_ok [of ps authority w l sampled] by simp

lemma run_blocking_handoff_ok:
  assumes "submission_ok ps authority w (Holding l)"
    "run_blocking_handoff ps sampled now response_by os_error dplan l (w_state w) (w_nonces w) = ((s, k), h)"
  shows "submission_ok ps authority (w\<lparr>w_state := s, w_nonces := k\<rparr>) (after_handoff h)"
  using assms(2) holding_dropped [OF assms(1), of sampled] hand_over_ok [OF assms(1)]
  unfolding run_blocking_handoff_def run_blocking_on_dedicated_thread_def run_blocking_on_pool_def on_sized_thread_def not_handed_def
  by (fastforce split: if_splits option.splits)

lemma run_cpu_handoff_ok:
  assumes "submission_ok ps authority w (Holding l)"
    "run_cpu_handoff ps sampled now response_by unwound l (w_state w) (w_nonces w) = ((s, k), h)"
  shows "submission_ok ps authority (w\<lparr>w_state := s, w_nonces := k\<rparr>) (after_handoff h)"
  using assms(2) holding_dropped [OF assms(1), of sampled] hand_over_ok [OF assms(1)]
  unfolding run_cpu_handoff_def not_handed_def by (fastforce split: if_splits)

lemma run_async_with_requested_stack_v1_ok:
  assumes "submission_ok ps authority w (Holding l)"
    "run_async_with_requested_stack_v1 ps sampled os_error dplan l (w_state w) (w_nonces w) = ((s, k), h)"
  shows "submission_ok ps authority (w\<lparr>w_state := s, w_nonces := k\<rparr>) (after_stack_handoff h)"
proof (cases "dp_stack_size dplan")
  case None
  then show ?thesis using assms(2) holding_dropped [OF assms(1), of sampled]
    by (auto simp: run_async_with_requested_stack_v1_def on_sized_thread_def)
next
  case (Some n)
  have "submission_ok ps authority (w\<lparr>w_state := s, w_nonces := k\<rparr>) (after_handoff h)"
    using hand_over_ok [OF assms(1)] assms(2) Some by (simp add: run_async_with_requested_stack_v1_def on_sized_thread_def)
  then show ?thesis by (cases h) simp_all
qed

lemma run_io_begin_ok:
  assumes hold: "submission_ok ps authority w (Holding l)"
    and eq: "run_io_begin ps sampled instant_max now cancelled' now' dplan l (w_state w) (w_nonces w) = ((s, k), l', result)"
  shows "submission_ok ps authority (w\<lparr>w_state := s, w_nonces := k\<rparr>) (case result of Inr _ \<Rightarrow> Polling l' | Inl _ \<Rightarrow> Finished l')"
proof -
  have H: "hosted ps authority w l" "spent authority w (lease_permit_id l)" "lease_custody l = CustodyReserved" using hold by simp_all
  obtain s1 k1 l1 res where adv: "lease_advance Running l (w_state w) (w_nonces w) = ((s1, k1), l1, res)" by (metis prod.collapse)
  note drop = advanced_dropped [OF H adv, of sampled]
  show ?thesis
  proof (cases res)
    case (Inl err)
    then show ?thesis using eq adv drop by (auto simp: run_io_begin_def)
  next
    case (Inr u)
    then have own: "owner_ok ps authority (w\<lparr>w_state := s1, w_nonces := k1\<rparr>) l1"
      using advanced_ok [OF H(1,2) adv] advance_custody(3) [OF adv] by (simp add: owner_ok_def)
    have adv': "lease_advance Running l (w_state w) (w_nonces w) = ((s1, k1), l1, Inr ())" using adv Inr by simp
    have "(case completion_deadline instant_max now (dp_deadline dplan) of
         Inl err \<Rightarrow> ((fst (lease_drop ps sampled l1 s1), k1), l1,
            finalize_released_response cancelled' now' (Inl (GovernorRunError err)) (dp_cancel dplan) (absolute_deadline dplan))
       | Inr deadline \<Rightarrow> ((s1, k1), l1, Inr deadline)) = ((s, k), l', result)"
      using eq unfolding run_io_begin_def adv' prod.case sum.case unit.case .
    moreover have "finalize_released_response cancelled' now' (Inl e) c d \<noteq> Inr v" for e c d and v :: "Instant option"
      by (simp add: finalize_Inr)
    ultimately show ?thesis using drop own
      by (cases "completion_deadline instant_max now (dp_deadline dplan)"; cases result) (fastforce split: sum.splits)+
  qed
qed

lemma stack_begin_ok:
  assumes "owner_ok ps authority w l" "stack_worker_begin build_error l (w_state w) (w_nonces w) = ((s, k), l', result)"
  shows "owner_ok ps authority (w\<lparr>w_state := s, w_nonces := k\<rparr>) l'"
proof (cases build_error)
  case None
  obtain sn l1 res where adv: "lease_advance Running l (w_state w) (w_nonces w) = (sn, l1, res)" by (metis prod_cases3)
  then have "sn = (s, k)" "l1 = l'" using assms(2) None by (cases res; simp add: stack_worker_begin_def split: unit.splits)+
  then show ?thesis using owner_advanced [OF assms(1)] adv by simp
next
  case (Some detail)
  then have "w\<lparr>w_state := s, w_nonces := k\<rparr> = w" "l' = l" using assms(2) by (auto simp: stack_worker_begin_def)
  then show ?thesis using assms(1) by simp
qed

lemma stack_finish_ok:
  assumes "owner_ok ps authority w l" "stack_worker_finish context root l (w_state w) (w_nonces w) = ((s, k), reply, kept)"
    "stack_owner reply kept = Some l'"
  shows "owner_ok ps authority (w\<lparr>w_state := s, w_nonces := k\<rparr>) l'"
proof (cases root)
  case None
  then have "w\<lparr>w_state := s, w_nonces := k\<rparr> = w" "l' = l" using assms(2,3) by (auto simp: stack_worker_finish_def)
  then show ?thesis using assms(1) by simp
next
  case (Some result)
  obtain sn l1 res where adv: "lease_advance CleanupPending l (w_state w) (w_nonces w) = (sn, l1, res)" by (metis prod_cases3)
  then have "sn = (s, k)" "l1 = l'" using assms(2,3) Some
    by (cases res; cases "terminal_reply result"; auto simp: stack_worker_finish_def split: unit.splits)+
  then show ?thesis using owner_advanced [OF assms(1)] adv by simp
qed

lemma stack_owner_some:
  assumes "stack_worker_finish context root l s k = (sn, reply, kept)"
  shows "stack_owner reply kept \<noteq> None"
proof (cases root)
  case None
  then show ?thesis using assms by (auto simp: stack_worker_finish_def)
next
  case (Some result)
  obtain sn1 l1 res where "lease_advance CleanupPending l s k = (sn1, l1, res)" by (metis prod_cases3)
  then show ?thesis using assms Some
    by (cases res; cases "terminal_reply result"; auto simp: stack_worker_finish_def split: unit.splits)
qed

lemma owner_others:
  assumes "owner_ok ps authority w l" "step ps authority w ev w'" "lease_tokens l \<inter> spends ev = {}"
  shows "owner_ok ps authority w' l"
  using assms hosted.others [OF _ assms(2,3)] spent_step(1) [OF reachable_inv assms(2)] hosted_inv unfolding owner_ok_def by blast

lemma submission_inv: "submission ps authority w sub \<Longrightarrow> submission_ok ps authority w sub"
proof (induction rule: submission.induct)
  case (acquired w p r)
  then show ?case using hosted.acquired spent_start [OF reachable_inv acquired(2)] by (simp add: ExecutionLease_reserved_def)
next
  case (others w sub ev w')
  have other: "submission_ok ps authority w' sub" if "submission_ok ps authority w sub = owner_ok ps authority w (submission_lease sub)"
      "submission_ok ps authority w' sub = owner_ok ps authority w' (submission_lease sub)" "submission_tokens sub = lease_tokens (submission_lease sub)"
    using that others owner_others by metis
  show ?case
  proof (cases sub)
    case (Holding l)
    then show ?thesis using others hosted.others [OF _ others(2)] spent_step(1) [OF reachable_inv others(2)] hosted_inv by fastforce
  next
    case (Finished l)
    then have F: "reachable ps authority w" "spent authority w (lease_permit_id l)" "let_go (w_state w) l" using others.IH by simp_all
    note inv = reachable_inv [OF F(1)]
    have "let_go (w_state w') l"
      using F(3) settled_step [OF inv others(2) F(2)] spent_step(2) [OF inv others(2) F(2)] by (auto simp: let_go_def split: Custody.splits)
    then show ?thesis using Finished spent_step(1) [OF inv others(2) F(2)] reachable.next_step [OF F(1) others(2)] by simp
  qed (use other in simp_all)
next
  case (blocking w l sampled now response_by os_error dplan s k h)
  then show ?case by (intro run_blocking_handoff_ok)
next
  case (cpu w l sampled now response_by unwound s k h)
  then show ?case by (intro run_cpu_handoff_ok)
next
  case (begins w listening l response_by at s k l')
  then have "lease_advance Running l (w_state w) (w_nonces w) = ((s, k), l', Inr ())" by (simp add: detached_begin_def split: if_splits)
  then show ?case using owner_advanced begins.IH by simp
next
  case (refuses w listening l response_by at s k l' err at')
  show ?case
  proof (cases "expired response_by at")
    case True
    then have "w\<lparr>w_state := s, w_nonces := k\<rparr> = w" "l' = l" using refuses by (auto simp: detached_begin_def)
    then show ?thesis using refuses.IH by simp
  next
    case False
    then have "lease_advance Running l (w_state w) (w_nonces w) = ((s, k), l', Inl err)" using refuses by (simp add: detached_begin_def)
    then show ?thesis using owner_advanced refuses.IH by simp
  qed
next
  case (finishes w listening at l ctx job s k l' result at')
  obtain sn l1 res where "lease_advance CleanupPending l (w_state w) (w_nonces w) = (sn, l1, res)" by (metis prod_cases3)
  moreover from this have "sn = (s, k)" "l1 = l'" using finishes.hyps(2) by (cases res; simp add: detached_finish_def split: unit.splits)+
  ultimately show ?case using owner_advanced finishes.IH by simp
next
  case (sends w listening outcome sampled s received)
  then show ?case using owner_dropped [of ps authority w "do_lease outcome" sampled]
    by (cases listening) (auto simp: detached_deliver_def)
next
  case (never_run w listening l sampled)
  then show ?case using owner_dropped by simp
next
  case (settles w outcome sampled)
  then show ?case using owner_dropped by simp
next
  case (io w l sampled instant_max now cancelled' now' dplan s k l' result)
  then show ?case by (intro run_io_begin_ok)
next
  case (io_done w l sampled cancelled fired cancelled' now' dplan deadline work s answer)
  then show ?case using owner_dropped [of ps authority w l sampled]
    by (auto simp: run_io_acquired_def split: option.splits)
next
  case (io_dropped w l sampled)
  then show ?case using owner_dropped by simp
next
  case (stack w l sampled os_error dplan s k h)
  then show ?case by (intro run_async_with_requested_stack_v1_ok)
next
  case (stack_begins w l build_error s k l' result)
  then show ?case using stack_begin_ok by (auto split: sum.splits)
next
  case (stack_ends w l ctx root s k reply kept l')
  then show ?case using stack_finish_ok by simp
next
  case (closes w l sampled)
  then show ?case using owner_dropped by simp
qed simp_all

text \<open>C9: No submission leaks capacity, and none runs without it. Whatever the caller does (waits, is cancelled, times out or
  disappears), whatever the executor does with the closure (runs it, drops it, or panics while it takes it) and whatever
  steps other threads take in between: from the handoff until its lease is dropped, a submission is charged to a live permit that only its own token can end; and once the lease is dropped the permit is gone for good, unless the
  lease never held a token, in which case at most a party that leased the permit through the engine still holds it.\<close>

theorem submission_leaks_nothing:
  assumes "submission ps authority w sub"
  shows "case sub of
      Holding l \<Rightarrow> lease_custody l = CustodyReserved
    | Finished l \<Rightarrow>
        (case lease_custody l of
           CustodyLeased _ \<Rightarrow> fmlookup (gs_permits (w_state w)) (lease_permit_id l) = None
         | _ \<Rightarrow> (\<forall>r. fmlookup (gs_permits (w_state w)) (lease_permit_id l) = Some r \<longrightarrow> rec_lease_nonce r \<noteq> None))
    | _ \<Rightarrow> charged (w_state w) (submission_lease sub)"
  using submission_inv [OF assms] owner_charged
  by (cases sub) (auto simp: let_go_def settled_def split: Custody.splits)

text \<open>The stack size of a dedicated worker is always there: the \<open>expect\<close> of both sized-thread paths cannot fail.\<close>

lemma run_blocking_sized:
  assumes "run_blocking_plan rt spec opts response_by = Inr dplan" "dp_dispatch dplan = DedicatedStackThread"
  shows "dp_stack_size dplan \<noteq> None"
proof -
  obtain domain where p: "preflight spec opts (fmlookup (cfg_classes (rt_config rt)) (spec_class spec))
      [BlockingPool, LargeStackCapability, BackgroundOnly] OnBlockingPool (gov_policy (rt_governor rt)) domain = Inr dplan"
    using assms(1) by (auto simp: run_blocking_plan_def plan_def and_then_Inr_iff)
  note P = preflight_Inr [OF p]
  have "wants_dedicated_thread spec" using P(4) assms(2) by (simp add: effective_dispatch_def split: if_splits)
  then obtain n where "spec_stack_size_bytes spec = Some n" by (auto simp: wants_dedicated_thread_def)
  then show ?thesis using P(5) assms(2) by (auto simp: and_then_Inr_iff dest: sym)
qed

lemma run_async_with_requested_stack_sized:
  assumes "run_async_with_requested_stack_plan rt spec opts = Inr dplan"
  shows "dp_stack_size dplan \<noteq> None"
proof -
  obtain domain where p: "preflight spec opts (fmlookup (cfg_classes (rt_config rt)) (spec_class spec))
      [LargeStackCapability] DedicatedStackRuntime (gov_policy (rt_governor rt)) domain = Inr dplan"
    using assms(1) by (auto simp: run_async_with_requested_stack_plan_def plan_def and_then_Inr_iff)
  note P = preflight_Inr [OF p]
  have "dp_dispatch dplan = DedicatedStackRuntime" using P(4) by (simp add: effective_dispatch_def)
  then show ?thesis using P(5) by (cases "spec_stack_size_bytes spec") (auto simp: and_then_Inr_iff dest: sym)
qed

theorem submission_leaks_nothing_witness:
  "\<exists>s k l. run_cpu_handoff run_policies 30 100 None None (ExecutionLease_reserved (PermitId 7 1)) run_state2 1
       = ((s, k), (HandedOver l :: nat Handoff)) \<and> charged s l"
proof -
  let ?h = "run_cpu_handoff run_policies 30 100 None None (ExecutionLease_reserved (PermitId 7 1)) run_state2 1
    :: (GovernedState \<times> nat) \<times> nat Handoff"
  have "case snd ?h of HandedOver l \<Rightarrow> True | _ \<Rightarrow> False" by code_simp
  then obtain s k l where h: "?h = ((s, k), HandedOver l)" by (cases ?h) (auto split: Handoff.splits)
  have "case fmlookup (gs_permits run_state2) (PermitId 7 1) of Some r \<Rightarrow> True | None \<Rightarrow> False" by code_simp
  then obtain r where "fmlookup (gs_permits run_state2) (PermitId 7 1) = Some r" by (auto split: option.splits)
  then have "submission run_policies 7 (run_world run_state2 1) (Holding (ExecutionLease_reserved (PermitId 7 1)) :: (nat, nat) Submission)"
    using submission.acquired [OF reachable_run2] by (simp add: run_world_def)
  from submission.cpu [OF this, of 30 100 None None s k "HandedOver l"] h
  have "submission run_policies 7 ((run_world run_state2 1)\<lparr>w_state := s, w_nonces := k\<rparr>) (AtWorker True l :: (nat, nat) Submission)"
    by (simp add: run_world_def)
  from submission_leaks_nothing [OF this] h show ?thesis by auto
qed

end
