(* ===== verification/TM_Ingress.thy ===== *)
theory TM_Ingress
  imports TM_Builder
begin

text \<open>
  The strict boundary that promotes bytes into declarations: \<^verbatim>\<open>taskmesh/src/ingress.rs\<close>.

  The JSON reader and the derived decoders belong to \<^verbatim>\<open>serde\<close> and \<^verbatim>\<open>serde_json\<close>. The reader is the argument \<open>reader\<close>:
  it gives the tree of visitor calls the reader makes on the bytes, in which a syntax error is a node or the tail of a
  container where the reader would meet it, and what \<open>Deserializer::end\<close> answers afterwards. The decoders of the two
  documents are the argument \<open>decode\<close>. What the module itself decides, the shape, the limits and the promotion, is
  modelled in full.
\<close>

section \<open>Limits, errors and shapes\<close>

record StrictIngressLimits =
  max_bytes :: nat
  max_depth :: nat
  max_stages :: nat

definition StrictIngressLimits_default :: StrictIngressLimits where
  "StrictIngressLimits_default = \<lparr>max_bytes = 2 ^ 20, max_depth = 32, max_stages = 64\<rparr>"

datatype StrictIngressError =
    InvalidLimit str
  | ByteLimit nat nat
  | DepthLimit nat
  | StageLimit nat
  | DuplicateKey str
  | UnknownKey str str
  | InvalidShape str
  | Decode str
  | TaskPlanRefused TaskPlanError
  | BlockingDispatchRefused str

datatype Shape =
    ShTask | ShScope | ShChild | ShStages | ShStage | ShReduce | ShBlockingDispatch | ShRequestedStack | ShConfig
  | ShTopology | ShCpu | ShCpuMode | ShPhysicalDomains | ShPhysicalMode | ShResources | ShMemoryScale | ShClasses
  | ShClassPolicy | ShRetryAfter | ShPermitCost | ShFairness | ShWfq | ShDrr | ShDeadlineAware | ShOvercommit | ShDegrade
  | ShCheckpoint | ShSubstrates | ShSubstrate | ShCapabilityLimits | ShScalar

fun Shape_name :: "Shape \<Rightarrow> str" where
  "Shape_name ShTask = lit ''task''"
| "Shape_name ShScope = lit ''scope''"
| "Shape_name ShChild = lit ''child''"
| "Shape_name ShStages = lit ''stages''"
| "Shape_name ShStage = lit ''stage''"
| "Shape_name ShReduce = lit ''reduce_policy''"
| "Shape_name ShBlockingDispatch = lit ''blocking_dispatch''"
| "Shape_name ShRequestedStack = lit ''requested_stack''"
| "Shape_name ShConfig = lit ''runtime config''"
| "Shape_name ShTopology = lit ''topology''"
| "Shape_name ShCpu = lit ''cpu topology''"
| "Shape_name ShCpuMode = lit ''cpu mode''"
| "Shape_name ShPhysicalDomains = lit ''physical_domains''"
| "Shape_name ShPhysicalMode = lit ''physical domain mode''"
| "Shape_name ShResources = lit ''resources''"
| "Shape_name ShMemoryScale = lit ''memory_unit_scale''"
| "Shape_name ShClasses = lit ''classes''"
| "Shape_name ShClassPolicy = lit ''class policy''"
| "Shape_name ShRetryAfter = lit ''retry_after_policy''"
| "Shape_name ShPermitCost = lit ''permit_cost''"
| "Shape_name ShFairness = lit ''fairness''"
| "Shape_name ShWfq = lit ''WeightedFairQueue''"
| "Shape_name ShDrr = lit ''DeficitRoundRobin''"
| "Shape_name ShDeadlineAware = lit ''DeadlineAware''"
| "Shape_name ShOvercommit = lit ''memory_overcommit_policy''"
| "Shape_name ShDegrade = lit ''DegradeToLight''"
| "Shape_name ShCheckpoint = lit ''checkpoint_policy''"
| "Shape_name ShSubstrates = lit ''extra_substrates''"
| "Shape_name ShSubstrate = lit ''substrate''"
| "Shape_name ShCapabilityLimits = lit ''capability_limits''"
| "Shape_name ShScalar = lit ''scalar''"

text \<open>A match on the key of an object, arm by arm; a key no arm lists is unknown.\<close>

definition key_in :: "str \<Rightarrow> string list \<Rightarrow> bool" where
  "key_in key names \<longleftrightarrow> key \<in> set (map lit names)"

definition only_scalars :: "string list \<Rightarrow> str \<Rightarrow> Shape option" where
  "only_scalars names key = (if key_in key names then Some ShScalar else None)"

fun Shape_field :: "Shape \<Rightarrow> str \<Rightarrow> Shape option" where
  "Shape_field ShTask key =
     (if key_in key [''class'', ''operation'', ''root_operation_id'', ''source'', ''reason''] then Some ShScalar
      else if key = lit ''scope'' then Some ShScope
      else if key = lit ''blocking_dispatch'' then Some ShBlockingDispatch
      else if key = lit ''stages'' then Some ShStages
      else None)"
| "Shape_field ShScope key = (if key = lit ''Child'' then Some ShChild else None)"
| "Shape_field ShChild key = only_scalars [''parent_operation_id'', ''parent_stage'', ''parent_awaits''] key"
| "Shape_field ShStage key =
     (if key_in key [''class'', ''stage'', ''substrate_hint'', ''fan_out''] then Some ShScalar
      else if key = lit ''reduce_policy'' then Some ShReduce
      else None)"
| "Shape_field ShReduce key = only_scalars
     [''stable_sort_key'', ''duplicate_merge'', ''tie_break'', ''error_aggregation'', ''partial_result_ordering''] key"
| "Shape_field ShBlockingDispatch key = (if key = lit ''requested_stack'' then Some ShRequestedStack else None)"
| "Shape_field ShRequestedStack key = only_scalars [''stack_size_bytes''] key"
| "Shape_field ShConfig key =
     (if key = lit ''topology'' then Some ShTopology
      else if key = lit ''resources'' then Some ShResources
      else if key = lit ''classes'' then Some ShClasses
      else if key = lit ''extra_substrates'' then Some ShSubstrates
      else if key = lit ''capability_limits'' then Some ShCapabilityLimits
      else None)"
| "Shape_field ShTopology key =
     (if key = lit ''cpu'' then Some ShCpu
      else if key = lit ''physical_domains'' then Some ShPhysicalDomains
      else only_scalars [''blocking_threads'', ''large_stack_slots'', ''maintenance_workers'', ''local_runtime_slots''] key)"
| "Shape_field ShCpu key =
     (if key = lit ''mode'' then Some ShCpuMode else only_scalars [''reserve_cores'', ''min_workers'', ''max_workers''] key)"
| "Shape_field ShPhysicalDomains key = (if key_in key [''shared_blocking'', ''dedicated''] then Some ShPhysicalMode else None)"
| "Shape_field ShCpuMode key = only_scalars [''Fixed''] key"
| "Shape_field ShPhysicalMode key = only_scalars [''Fixed''] key"
| "Shape_field ShResources key =
     (if key_in key [''max_cpu_units'', ''max_memory_units'', ''per_request_max_cpu_units'', ''per_request_max_memory_units'']
      then Some ShScalar
      else if key = lit ''memory_unit_scale'' then Some ShMemoryScale
      else None)"
| "Shape_field ShMemoryScale key = only_scalars [''bytes_per_unit''] key"
| "Shape_field ShClasses key = Some ShClassPolicy"
| "Shape_field ShClassPolicy key =
     (if key_in key [''max_inflight'', ''max_queue_depth'', ''memory_permit_mode'', ''memory_release_policy'',
        ''overflow_policy'', ''cancellation_policy'', ''best_effort''] then Some ShScalar
      else if key = lit ''permit_cost'' then Some ShPermitCost
      else if key = lit ''fairness'' then Some ShFairness
      else if key = lit ''memory_overcommit_policy'' then Some ShOvercommit
      else if key = lit ''retry_after_policy'' then Some ShRetryAfter
      else if key = lit ''checkpoint_policy'' then Some ShCheckpoint
      else None)"
| "Shape_field ShRetryAfter key = only_scalars [''FixedMs''] key"
| "Shape_field ShPermitCost key = only_scalars [''cpu_units'', ''memory_units''] key"
| "Shape_field ShFairness key =
     (if key = lit ''WeightedFairQueue'' then Some ShWfq
      else if key = lit ''DeficitRoundRobin'' then Some ShDrr
      else if key = lit ''DeadlineAware'' then Some ShDeadlineAware
      else None)"
| "Shape_field ShWfq key = only_scalars [''weight'', ''burst''] key"
| "Shape_field ShDrr key = only_scalars [''quantum''] key"
| "Shape_field ShDeadlineAware key = only_scalars [''slack_ms''] key"
| "Shape_field ShOvercommit key = (if key = lit ''DegradeToLight'' then Some ShDegrade else None)"
| "Shape_field ShDegrade key = only_scalars [''fallback_class''] key"
| "Shape_field ShCheckpoint key = only_scalars
     [''every_n_work_items'', ''before_fan_out'', ''before_large_allocation'', ''before_stage_boundary'', ''before_reduce''] key"
| "Shape_field ShSubstrate key = only_scalars [''name'', ''kind'', ''capability_pool''] key"
| "Shape_field ShCapabilityLimits key = Some ShScalar"
| "Shape_field ShStages key = None"
| "Shape_field ShSubstrates key = None"
| "Shape_field ShScalar key = None"

section \<open>The scan\<close>

text \<open>The visitor calls of the reader. A container's last component is the error the reader reports instead of its end.\<close>

datatype Json =
    JScalar
  | JSyntax str
  | JMap "(str \<times> Json) list" "str option"
  | JSeq "Json list" "str option"

fun element_shape :: "Shape \<Rightarrow> Shape option" where
  "element_shape ShStages = Some ShStage"
| "element_shape ShSubstrates = Some ShSubstrate"
| "element_shape _ = None"

definition reader_end :: "str option \<Rightarrow> (StrictIngressError, unit) result" where
  "reader_end tail = (case tail of Some e \<Rightarrow> Inl (Decode e) | None \<Rightarrow> Inr ())"

fun scan_value :: "StrictIngressLimits \<Rightarrow> Shape \<Rightarrow> nat \<Rightarrow> Json \<Rightarrow> (StrictIngressError, unit) result"
and visit_map :: "StrictIngressLimits \<Rightarrow> Shape \<Rightarrow> nat \<Rightarrow> str list \<Rightarrow> (str \<times> Json) list \<Rightarrow> str option \<Rightarrow> (StrictIngressError, unit) result"
and visit_seq :: "StrictIngressLimits \<Rightarrow> Shape \<Rightarrow> Shape \<Rightarrow> nat \<Rightarrow> nat \<Rightarrow> Json list \<Rightarrow> str option \<Rightarrow> (StrictIngressError, unit) result"
where
  "scan_value limits shape depth JScalar = Inr ()"
| "scan_value limits shape depth (JSyntax e) = Inl (Decode e)"
| "scan_value limits shape depth (JMap entries tail) =
     (if max_depth limits < depth then Inl (DepthLimit (max_depth limits))
      else if shape \<in> {ShScalar, ShStages, ShSubstrates} then Inl (InvalidShape (Shape_name shape))
      else visit_map limits shape depth [] entries tail)"
| "scan_value limits shape depth (JSeq elements tail) =
     (if max_depth limits < depth then Inl (DepthLimit (max_depth limits))
      else case element_shape shape of
        None \<Rightarrow> Inl (InvalidShape (Shape_name shape))
      | Some element \<Rightarrow> visit_seq limits shape element depth 0 elements tail)"
| "visit_map limits shape depth seen [] tail = reader_end tail"
| "visit_map limits shape depth seen ((key, v) # entries) tail =
     (if key \<in> set seen then Inl (DuplicateKey key)
      else case Shape_field shape key of
        None \<Rightarrow> Inl (UnknownKey (Shape_name shape) key)
      | Some field \<Rightarrow> and_then (scan_value limits field (depth + 1) v)
          (\<lambda>_. visit_map limits shape depth (key # seen) entries tail))"
| "visit_seq limits shape element depth count [] tail = reader_end tail"
| "visit_seq limits shape element depth count (v # elements) tail =
     (if shape = ShStages \<and> count = max_stages limits then Inl (StageLimit (max_stages limits))
      else and_then (scan_value limits element (depth + 1) v)
        (\<lambda>_. visit_seq limits shape element depth (count + 1) elements tail))"

definition limit_named :: "str \<times> nat \<Rightarrow> (StrictIngressError, unit) result" where
  "limit_named = (\<lambda>(name, value). ensure (value \<noteq> 0) (InvalidLimit name))"

definition scan :: "(nat list \<Rightarrow> Json \<times> str option) \<Rightarrow> nat list \<Rightarrow> StrictIngressLimits \<Rightarrow> Shape \<Rightarrow> (StrictIngressError, unit) result" where
  "scan reader bytes limits shape =
     and_then (for_each limit_named [(lit ''max_bytes'', max_bytes limits), (lit ''max_depth'', max_depth limits),
        (lit ''max_stages'', max_stages limits)]) (\<lambda>_.
     and_then (ensure (length bytes \<le> max_bytes limits) (ByteLimit (length bytes) (max_bytes limits))) (\<lambda>_.
     and_then (scan_value limits shape 1 (fst (reader bytes))) (\<lambda>_. reader_end (snd (reader bytes)))))"

section \<open>Task declarations\<close>

datatype StrictScope = StrictRoot | StrictChild (strict_parent_operation_id: str) (strict_parent_stage: TaskStage) (strict_parent_awaits: bool)

datatype StrictBlockingDispatch = StrictSharedBlocking | StrictRequestedStack (stack_size_bytes: nat)

record StrictTaskInput =
  in_class :: TaskClass
  in_operation :: str
  in_root_operation_id :: str
  in_source :: str
  in_reason :: ClassificationRationale
  in_scope :: StrictScope
  in_blocking_dispatch :: "StrictBlockingDispatch option"
  in_stages :: "StageDescriptor list"

definition validate_requested_stack_size :: "nat \<Rightarrow> nat \<Rightarrow> (StrictIngressError, nat) result" where
  "validate_requested_stack_size requested umax =
     (if requested = 0 \<or> MAX_REQUESTED_STACK_BYTES < requested \<or> umax < requested
      then Inl (BlockingDispatchRefused (lit ''requested stack size is not representable and within the supported bound''))
      else Inr requested)"

definition blocking_family :: "StageDescriptor list \<Rightarrow> bool" where
  "blocking_family stages =
     (case stages of [] \<Rightarrow> False | d # _ \<Rightarrow> substrate_hint d \<in> {BlockingPool, LargeStackCapability, BackgroundOnly})"

fun dispatch_stack :: "bool \<Rightarrow> StrictBlockingDispatch option \<Rightarrow> (StrictIngressError, nat option) result" where
  "dispatch_stack True (Some StrictSharedBlocking) = Inr None"
| "dispatch_stack False None = Inr None"
| "dispatch_stack True (Some (StrictRequestedStack requested)) =
     and_then (validate_requested_stack_size requested usize_max_as_u64) (\<lambda>n. Inr (Some n))"
| "dispatch_stack True None =
     Inl (BlockingDispatchRefused (lit ''blocking-family task requires an explicit dispatch tag''))"
| "dispatch_stack False (Some _) =
     Inl (BlockingDispatchRefused (lit ''non-blocking task must not declare blocking dispatch''))"

fun promote_scope :: "StrictScope \<Rightarrow> TaskScope" where
  "promote_scope StrictRoot = Root"
| "promote_scope (StrictChild parent stage awaits) = Child parent stage awaits"

definition promoted_spec :: "StrictTaskInput \<Rightarrow> nat option \<Rightarrow> TaskSpec" where
  "promoted_spec input stack =
     \<lparr>spec_class = in_class input, spec_operation = in_operation input, spec_root_operation_id = in_root_operation_id input,
      spec_source = in_source input, spec_reason = in_reason input, spec_scope = promote_scope (in_scope input),
      spec_stack_size_bytes = stack, spec_stages = in_stages input\<rparr>"

definition parse_task_spec :: "(nat list \<Rightarrow> Json \<times> str option) \<Rightarrow> (nat list \<Rightarrow> (str, StrictTaskInput) result) \<Rightarrow> nat list
    \<Rightarrow> StrictIngressLimits \<Rightarrow> (StrictIngressError, TaskSpec) result" where
  "parse_task_spec reader decode bytes limits =
     and_then (scan reader bytes limits ShTask) (\<lambda>_.
     and_then (map_err Decode (decode bytes)) (\<lambda>input.
     and_then (dispatch_stack (blocking_family (in_stages input)) (in_blocking_dispatch input)) (\<lambda>stack.
     map_err TaskPlanRefused (ValidatedTaskPlan_try_from (promoted_spec input stack)))))"

section \<open>Runtime declarations\<close>

record StrictRuntimeInput =
  in_topology :: TopologyConfig
  in_resources :: ResourceBudget
  in_classes :: "(TaskClass, ClassPolicy) fmap"
  in_extra_substrates :: "SubstrateRecord list"
  in_capability_limits :: "(str, nat) fmap"

definition into_builder :: "StrictRuntimeInput \<Rightarrow> Builder" where
  "into_builder input =
     fold (\<lambda>(pool, slots). Builder_capability_limit pool slots) (bt_entries (in_capability_limits input))
       (fold Builder_substrate (in_extra_substrates input)
         (fold (\<lambda>(cl, policy). Builder_class_policy cl policy) (bt_entries (in_classes input))
           (Builder_resources (in_resources input) (Builder_topology (in_topology input) Builder_new))))"

definition parse_runtime_config :: "(nat list \<Rightarrow> Json \<times> str option) \<Rightarrow> (nat list \<Rightarrow> (str, StrictRuntimeInput) result) \<Rightarrow> nat list
    \<Rightarrow> StrictIngressLimits \<Rightarrow> (StrictIngressError, StrictRuntimeInput) result" where
  "parse_runtime_config reader decode bytes limits =
     and_then (scan reader bytes limits ShConfig) (\<lambda>_. map_err Decode (decode bytes))"

section \<open>What the scan accepts\<close>

text \<open>\<open>located s d j s' d' j'\<close>: reading \<open>j\<close> as shape \<open>s\<close> at depth \<open>d\<close>, the node \<open>j'\<close> is read as shape \<open>s'\<close> at depth \<open>d'\<close>.\<close>

inductive located :: "Shape \<Rightarrow> nat \<Rightarrow> Json \<Rightarrow> Shape \<Rightarrow> nat \<Rightarrow> Json \<Rightarrow> bool" where
  here: "located s d j s d j"
| field: "(k, v) \<in> set entries \<Longrightarrow> Shape_field s k = Some f \<Longrightarrow> located f (d + 1) v s' d' j'
    \<Longrightarrow> located s d (JMap entries tail) s' d' j'"
| element: "v \<in> set elements \<Longrightarrow> element_shape s = Some e \<Longrightarrow> located e (d + 1) v s' d' j'
    \<Longrightarrow> located s d (JSeq elements tail) s' d' j'"

inductive_simps located_scalar: "located s d JScalar s' d' j'"
inductive_simps located_syntax: "located s d (JSyntax e) s' d' j'"
inductive_simps located_map: "located s d (JMap entries tail) s' d' j'"
inductive_simps located_seq: "located s d (JSeq elements tail) s' d' j'"

lemmas located_simps = located_scalar located_syntax located_map located_seq

text \<open>The rules one node has to obey, and the violation each rejection names.\<close>

fun node_ok :: "StrictIngressLimits \<Rightarrow> Shape \<Rightarrow> nat \<Rightarrow> Json \<Rightarrow> bool" where
  "node_ok limits s d JScalar = True"
| "node_ok limits s d (JSyntax e) = False"
| "node_ok limits s d (JMap entries tail) \<longleftrightarrow> tail = None \<and> d \<le> max_depth limits \<and> s \<notin> {ShScalar, ShStages, ShSubstrates}
     \<and> distinct (map fst entries) \<and> (\<forall>k \<in> fst ` set entries. Shape_field s k \<noteq> None)"
| "node_ok limits s d (JSeq elements tail) \<longleftrightarrow> tail = None \<and> d \<le> max_depth limits \<and> s \<in> {ShStages, ShSubstrates}
     \<and> (s = ShStages \<longrightarrow> length elements \<le> max_stages limits)"

definition well_shaped :: "StrictIngressLimits \<Rightarrow> Shape \<Rightarrow> nat \<Rightarrow> Json \<Rightarrow> bool" where
  "well_shaped limits s d j \<longleftrightarrow> (\<forall>s' d' j'. located s d j s' d' j' \<longrightarrow> node_ok limits s' d' j')"

fun violates :: "StrictIngressLimits \<Rightarrow> Shape \<Rightarrow> nat \<Rightarrow> Json \<Rightarrow> StrictIngressError \<Rightarrow> bool" where
  "violates limits s d j (DepthLimit n) \<longleftrightarrow> n = max_depth limits \<and> n < d \<and> j \<notin> insert JScalar (range JSyntax)"
| "violates limits s d j (StageLimit n) \<longleftrightarrow> n = max_stages limits \<and> s = ShStages
     \<and> (\<exists>elements tail. j = JSeq elements tail \<and> n < length elements)"
| "violates limits s d j (DuplicateKey k) \<longleftrightarrow> (\<exists>entries tail. j = JMap entries tail \<and> 1 < count_list (map fst entries) k)"
| "violates limits s d j (UnknownKey object k) \<longleftrightarrow> object = Shape_name s \<and> Shape_field s k = None
     \<and> (\<exists>entries tail. j = JMap entries tail \<and> k \<in> fst ` set entries)"
| "violates limits s d j (InvalidShape object) \<longleftrightarrow> object = Shape_name s
     \<and> (\<exists>xs tail. j = JMap xs tail \<and> s \<in> {ShScalar, ShStages, ShSubstrates} \<or> (\<exists>ys. j = JSeq ys tail \<and> s \<notin> {ShStages, ShSubstrates}))"
| "violates limits s d j (Decode e) \<longleftrightarrow> j = JSyntax e \<or> (\<exists>xs. j = JMap xs (Some e)) \<or> (\<exists>ys. j = JSeq ys (Some e))"
| "violates limits s d j _ \<longleftrightarrow> False"

lemma reader_end_Inr: "reader_end tail = Inr u \<longleftrightarrow> tail = None"
  by (simp add: reader_end_def split: option.splits)

lemma reader_end_Inl: "reader_end tail = Inl e \<longleftrightarrow> (\<exists>x. tail = Some x \<and> e = Decode x)"
  by (auto simp: reader_end_def split: option.splits)

lemma visit_map_ok:
  "visit_map l s d seen es tail = Inr () \<longleftrightarrow> tail = None \<and> distinct (map fst es) \<and> fst ` set es \<inter> set seen = {}
     \<and> (\<forall>x \<in> set es. \<exists>f. Shape_field s (fst x) = Some f \<and> scan_value l f (d + 1) (snd x) = Inr ())"
proof (induction es arbitrary: seen)
  case (Cons x es)
  show ?case by (cases x) (auto simp: Cons.IH and_then_Inr_iff split: option.splits)
qed (simp add: reader_end_Inr)

lemma visit_seq_ok:
  "c \<le> max_stages l \<Longrightarrow> visit_seq l s e d c vs tail = Inr () \<longleftrightarrow> tail = None
     \<and> (s = ShStages \<longrightarrow> c + length vs \<le> max_stages l) \<and> (\<forall>v \<in> set vs. scan_value l e (d + 1) v = Inr ())"
  "s \<noteq> ShStages \<Longrightarrow> visit_seq l s e d c vs tail = Inr () \<longleftrightarrow> tail = None \<and> (\<forall>v \<in> set vs. scan_value l e (d + 1) v = Inr ())"
  by (induction vs arbitrary: c) (auto simp: reader_end_Inr and_then_Inr_iff)

lemma element_shape_iff: "element_shape s = None \<longleftrightarrow> s \<notin> {ShStages, ShSubstrates}"
  by (cases s) simp_all

lemma well_shaped_map:
  "well_shaped l s d (JMap es tail) \<longleftrightarrow> node_ok l s d (JMap es tail)
     \<and> (\<forall>x \<in> set es. \<forall>f. Shape_field s (fst x) = Some f \<longrightarrow> well_shaped l f (d + 1) (snd x))"
proof
  show "well_shaped l s d (JMap es tail)" if "node_ok l s d (JMap es tail)
     \<and> (\<forall>x \<in> set es. \<forall>f. Shape_field s (fst x) = Some f \<longrightarrow> well_shaped l f (d + 1) (snd x))"
    using that unfolding well_shaped_def located_map Suc_eq_plus1 by (metis fst_conv snd_conv)
qed (metis well_shaped_def located.here located.field prod.collapse)

lemma well_shaped_seq:
  "well_shaped l s d (JSeq vs tail) \<longleftrightarrow> node_ok l s d (JSeq vs tail)
     \<and> (\<forall>v \<in> set vs. \<forall>e. element_shape s = Some e \<longrightarrow> well_shaped l e (d + 1) v)"
proof
  show "well_shaped l s d (JSeq vs tail)" if "node_ok l s d (JSeq vs tail)
     \<and> (\<forall>v \<in> set vs. \<forall>e. element_shape s = Some e \<longrightarrow> well_shaped l e (d + 1) v)"
    using that unfolding well_shaped_def located_seq Suc_eq_plus1 by metis
qed (metis well_shaped_def located.here located.element)

lemma scan_value_ok: "scan_value l s d j = Inr () \<longleftrightarrow> well_shaped l s d j"
proof (induction j arbitrary: s d)
  case (JMap es tail)
  have IH: "scan_value l s' d' (snd x) = Inr () \<longleftrightarrow> well_shaped l s' d' (snd x)" if "x \<in> set es" for x s' d'
    using JMap.IH [OF that, of "snd x"] by (cases x) simp
  have "(\<exists>f. Shape_field s (fst x) = Some f \<and> scan_value l f (d + 1) (snd x) = Inr ()) \<longleftrightarrow>
      Shape_field s (fst x) \<noteq> None \<and> (\<forall>f. Shape_field s (fst x) = Some f \<longrightarrow> well_shaped l f (d + 1) (snd x))"
    if "x \<in> set es" for x using IH [OF that] by (cases "Shape_field s (fst x)") simp_all
  then show ?case by (auto simp: visit_map_ok well_shaped_map simp del: not_None_eq cong: ball_cong)
next
  case (JSeq vs tail)
  have IH: "scan_value l e (d + 1) v = Inr () \<longleftrightarrow> well_shaped l e (d + 1) v" if "v \<in> set vs" for e v
    using that by (rule JSeq.IH)
  consider "s = ShStages" | "s = ShSubstrates" | "element_shape s = None" "s \<notin> {ShStages, ShSubstrates}"
    using element_shape_iff [of s] by auto
  then show ?case
  proof cases
    case 1
    then show ?thesis using IH [of _ ShStage] by (auto simp: visit_seq_ok(1) well_shaped_seq)
  next
    case 2
    then show ?thesis using IH [of _ ShSubstrate] by (auto simp: visit_seq_ok(2) well_shaped_seq)
  qed (simp add: well_shaped_seq)
qed (simp_all add: well_shaped_def located_simps)

lemma visit_map_error:
  "visit_map l s d seen es tail = Inl e \<Longrightarrow>
     (\<exists>x \<in> set es. \<exists>f. Shape_field s (fst x) = Some f \<and> scan_value l f (d + 1) (snd x) = Inl e)
     \<or> (\<exists>k. e = DuplicateKey k \<and> 0 < count_list (map fst es) k \<and> 1 < count_list (map fst es) k + count_list seen k)
     \<or> (\<exists>k \<in> fst ` set es. e = UnknownKey (Shape_name s) k \<and> Shape_field s k = None) \<or> (\<exists>x. tail = Some x \<and> e = Decode x)"
proof (induction es arbitrary: seen)
  case (Cons x es)
  obtain k v where x: "x = (k, v)" by fastforce
  show ?case
  proof (cases "k \<in> set seen")
    case True
    then have "0 < count_list seen k" by (simp add: count_list_0_iff flip: neq0_conv)
    then show ?thesis using Cons.prems True x by auto
  next
    case fresh: False
    show ?thesis
    proof (cases "Shape_field s k")
      case None
      then show ?thesis using Cons.prems fresh x by auto
    next
      case (Some f)
      then consider "scan_value l f (d + 1) v = Inl e" | "visit_map l s d (k # seen) es tail = Inl e"
        using Cons.prems fresh x by (auto simp: and_then_Inl_iff)
      then show ?thesis
      proof cases
        case 2
        from Cons.IH [OF this] show ?thesis using x by (auto split: if_splits)
      qed (use Some x in auto)
    qed
  qed
qed (simp add: reader_end_Inl)

lemma visit_seq_error:
  "visit_seq l s e d c vs tail = Inl err \<Longrightarrow> (\<exists>v \<in> set vs. scan_value l e (d + 1) v = Inl err)
     \<or> err = StageLimit (max_stages l) \<and> s = ShStages \<and> max_stages l < c + length vs \<or> (\<exists>x. tail = Some x \<and> err = Decode x)"
  by (induction vs arbitrary: c) (fastforce simp: reader_end_Inl and_then_Inl_iff split: if_splits)+

lemma scan_value_error:
  "scan_value l s d j = Inl e \<Longrightarrow> \<exists>s' d' j'. located s d j s' d' j' \<and> violates l s' d' j' e"
proof (induction j arbitrary: s d)
  case (JMap es tail)
  have IH: "\<exists>s' d' j'. located f (d + 1) (snd x) s' d' j' \<and> violates l s' d' j' e"
    if "x \<in> set es" "scan_value l f (d + 1) (snd x) = Inl e" for x f
    using JMap.IH [OF that(1), of "snd x"] that(2) by (cases x) simp
  consider "max_depth l < d" | "d \<le> max_depth l" "s \<in> {ShScalar, ShStages, ShSubstrates}"
    | "visit_map l s d [] es tail = Inl e" using JMap.prems by (auto split: if_splits)
  then show ?case
  proof cases
    case 3
    note E = visit_map_error [OF this]
    from E consider
      x f where "x \<in> set es" "Shape_field s (fst x) = Some f" "scan_value l f (d + 1) (snd x) = Inl e"
      | "violates l s d (JMap es tail) e"
    proof (elim disjE bexE exE conjE)
      fix k assume "k \<in> fst ` set es" "e = UnknownKey (Shape_name s) k" "Shape_field s k = None"
      then show thesis using that(2) by simp
    qed (use that in simp_all)
    then show ?thesis
    proof cases
      case (1 x f)
      then show ?thesis using IH [OF 1(1,3)] located.field [of "fst x" "snd x" es s f d] by (metis prod.collapse)
    qed (use located.here in blast)
  qed (use JMap.prems in \<open>auto intro!: exI [of _ s] exI [of _ d] exI [of _ "JMap es tail"] located.here\<close>)
next
  case (JSeq vs tail)
  consider "max_depth l < d" | "d \<le> max_depth l" "element_shape s = None"
    | element where "element_shape s = Some element" "visit_seq l s element d 0 vs tail = Inl e"
    using JSeq.prems by (auto split: if_splits option.splits)
  then show ?case
  proof cases
    case 2
    then have "violates l s d (JSeq vs tail) e" using JSeq.prems element_shape_iff [of s] by auto
    then show ?thesis using located.here by blast
  next
    case (3 element)
    from visit_seq_error [OF 3(2)] consider
      v where "v \<in> set vs" "scan_value l element (d + 1) v = Inl e" | "violates l s d (JSeq vs tail) e" by fastforce
    then show ?thesis
    proof cases
      case (1 v)
      then show ?thesis using JSeq.IH [OF 1] located.element [OF 1(1) 3(1)] by blast
    qed (use located.here in blast)
  qed (use JSeq.prems in \<open>auto intro!: exI [of _ s] exI [of _ d] exI [of _ "JSeq vs tail"] located.here\<close>)
qed (use located.here in \<open>fastforce+\<close>)

text \<open>C37: The strict scan accepts exactly the well-shaped documents. It succeeds if and only if the three limits are nonzero, the
  bytes are within the byte limit, the reader finds no error, and every node it reaches obeys the rules of the shape it is
  read as: objects and arrays nest no deeper than the depth limit and stand only where the declaration has one, no object
  repeats a key or has a key the declaration does not know, and a stage list is no longer than the stage limit.\<close>

theorem scan_accepts_well_shaped:
  "scan reader bytes limits shape = Inr () \<longleftrightarrow>
     0 < max_bytes limits \<and> 0 < max_depth limits \<and> 0 < max_stages limits \<and> length bytes \<le> max_bytes limits
     \<and> snd (reader bytes) = None \<and> well_shaped limits shape 1 (fst (reader bytes))"
  by (auto simp: scan_def limit_named_def ensure_def and_then_Inr_iff for_each_ok_iff reader_end_Inr scan_value_ok)

text \<open>C38: A rejection of the strict scan names a violation that is in the document. An error is a limit that is zero, a byte
  count above the limit, an error of the reader, or a node of the document that breaks the very rule the error reports: the
  key it calls duplicate occurs twice, the key it calls unknown is one the declaration does not have.\<close>

theorem scan_error_located:
  assumes "scan reader bytes limits shape = Inl e"
  shows "(\<exists>name. e = InvalidLimit name \<and> (name, 0) \<in> {(lit ''max_bytes'', max_bytes limits),
         (lit ''max_depth'', max_depth limits), (lit ''max_stages'', max_stages limits)})
     \<or> (e = ByteLimit (length bytes) (max_bytes limits) \<and> max_bytes limits < length bytes)
     \<or> (\<exists>s d j. located shape 1 (fst (reader bytes)) s d j \<and> violates limits s d j e)
     \<or> (\<exists>x. snd (reader bytes) = Some x \<and> e = Decode x)"
  using assms scan_value_error
  by (fastforce simp: scan_def limit_named_def ensure_def and_then_Inl_iff reader_end_Inl not_le split: if_splits)

text \<open>A document that repeats the key \<open>class\<close>, and one that a decoder turns into a task with a requested stack.\<close>

definition repeated_class :: Json where
  "repeated_class = JMap [(lit ''class'', JScalar), (lit ''class'', JScalar)] None"

definition sample_document :: Json where
  "sample_document = JMap [(lit ''class'', JScalar), (lit ''operation'', JScalar), (lit ''scope'', JScalar),
     (lit ''blocking_dispatch'', JMap [(lit ''requested_stack'', JMap [(lit ''stack_size_bytes'', JScalar)] None)] None),
     (lit ''stages'', JSeq [JMap [(lit ''class'', JScalar), (lit ''substrate_hint'', JScalar)] None] None)] None"

definition sample_input :: StrictTaskInput where
  "sample_input = \<lparr>in_class = spec_class plan_spec, in_operation = spec_operation plan_spec,
     in_root_operation_id = spec_root_operation_id plan_spec, in_source = spec_source plan_spec, in_reason = spec_reason plan_spec,
     in_scope = StrictRoot, in_blocking_dispatch = Some (StrictRequestedStack 65536), in_stages = spec_stages plan_spec\<rparr>"

theorem scan_error_located_witness:
  "\<exists>s d j. located ShTask 1 repeated_class s d j \<and> violates StrictIngressLimits_default s d j (DuplicateKey (lit ''class''))"
proof -
  have "scan (\<lambda>_. (repeated_class, None)) [0] StrictIngressLimits_default ShTask = Inl (DuplicateKey (lit ''class''))" by code_simp
  from scan_error_located [OF this] show ?thesis by simp
qed

section \<open>From bytes to a submission\<close>

lemma dispatch_stack_Inr:
  assumes "dispatch_stack family dispatch = Inr stack"
  shows "case stack of None \<Rightarrow> True | Some n \<Rightarrow> family \<and> 0 < n \<and> n \<le> MAX_REQUESTED_STACK_BYTES"
  using assms by (cases "(family, dispatch)" rule: dispatch_stack.cases)
    (auto simp: and_then_Inr_iff validate_requested_stack_size_def split: if_splits)

lemma parse_task_spec_Inr:
  assumes "parse_task_spec reader decode bytes limits = Inr spec"
  shows "plan_ok spec"
    "case spec_stack_size_bytes spec of None \<Rightarrow> True
     | Some n \<Rightarrow> primary_substrate_hint spec \<in> {BlockingPool, LargeStackCapability, BackgroundOnly}
         \<and> 0 < n \<and> n \<le> MAX_REQUESTED_STACK_BYTES"
proof -
  from assms obtain input stack where p: "dispatch_stack (blocking_family (in_stages input)) (in_blocking_dispatch input) = Inr stack"
    and spec: "ValidatedTaskPlan_try_from (promoted_spec input stack) = Inr spec"
    by (auto simp: parse_task_spec_def and_then_Inr_iff)
  from spec show "plan_ok spec" by (auto simp: ValidatedTaskPlan_try_from_def and_then_Inr_iff simp flip: plan_ok_validates)
  have eq: "spec = promoted_spec input stack" using spec by (auto simp: ValidatedTaskPlan_try_from_def and_then_Inr_iff)
  have "primary_substrate_hint spec \<in> {BlockingPool, LargeStackCapability, BackgroundOnly}" if "blocking_family (in_stages input)"
    using that unfolding eq by (auto simp: blocking_family_def primary_substrate_hint_def promoted_spec_def split: list.splits)
  with dispatch_stack_Inr [OF p] show "case spec_stack_size_bytes spec of None \<Rightarrow> True
     | Some n \<Rightarrow> primary_substrate_hint spec \<in> {BlockingPool, LargeStackCapability, BackgroundOnly}
         \<and> 0 < n \<and> n \<le> MAX_REQUESTED_STACK_BYTES"
    by (simp add: eq promoted_spec_def split: option.splits)
qed

text \<open>C39: What the strict boundary lets through is refused by a planner for three reasons only. On every entry point of every
  runtime the builder returns, a task parsed from bytes is planned exactly when its first substrate is one the entry point
  runs, it brings a stack request if the entry point is the requested-stack runtime, and its class can enforce the
  deadline it is submitted with. Neither its identifiers, its stages nor the size of its stack request can be refused by
  the planner any more, and every pool it needs is registered.\<close>

theorem parsed_task_plannable:
  assumes "parse_task_spec reader decode bytes limits = Inr spec"
    "build default_executor a available counter b = (c', Returned (Inr rt))"
    "(allowed, dispatch) \<in> set entry_points"
  shows "(\<exists>p. plan rt spec opts allowed dispatch = Inr p) \<longleftrightarrow>
     primary_substrate_hint spec \<in> set allowed
     \<and> (dispatch = DedicatedStackRuntime \<longrightarrow> spec_stack_size_bytes spec \<noteq> None)
     \<and> deadline_acceptable (fmlookup (b_classes b) (spec_class spec)) opts"
proof -
  note P = parse_task_spec_Inr [OF assms(1)]
  have stack: "stack_acceptable dispatch (spec_stack_size_bytes spec) \<longleftrightarrow>
      (dispatch = DedicatedStackRuntime \<longrightarrow> spec_stack_size_bytes spec \<noteq> None)" if "primary_substrate_hint spec \<in> set allowed"
  proof (cases "spec_stack_size_bytes spec")
    case (Some n)
    then have "dispatch \<in> {OnBlockingPool, DedicatedStackRuntime}" "0 < n \<and> n \<le> MAX_REQUESTED_STACK_BYTES"
      using P(2) assms(3) that by (auto simp: entry_points_def)
    then show ?thesis using Some by (auto simp: stack_acceptable_def)
  qed (auto simp: stack_acceptable_def)
  show ?thesis unfolding built_plan_iff [OF assms(2,3)] using P(1) stack by blast
qed

theorem parsed_task_plannable_witness:
  "\<exists>spec rt. parse_task_spec (\<lambda>_. (sample_document, None)) (\<lambda>_. Inr sample_input) [0] StrictIngressLimits_default = Inr spec
     \<and> build default_cpu_executor 9 4 7 sample_builder = (8, Returned (Inr rt))
     \<and> (\<exists>p. plan rt spec SubmitOptions_unbounded [BlockingPool, LargeStackCapability, BackgroundOnly] OnBlockingPool = Inr p)"
proof -
  have "case build default_cpu_executor 9 4 7 sample_builder of (c, Returned (Inr rt)) \<Rightarrow> c = 8 | _ \<Rightarrow> False" by code_simp
  then obtain rt where rt: "build default_cpu_executor 9 4 7 sample_builder = (8, Returned (Inr rt))"
    by (auto split: prod.splits delivery.splits sum.splits)
  have "case parse_task_spec (\<lambda>_. (sample_document, None)) (\<lambda>_. Inr sample_input) [0] StrictIngressLimits_default of
      Inr spec \<Rightarrow> primary_substrate_hint spec = BackgroundOnly | Inl _ \<Rightarrow> False" by code_simp
  then obtain spec where spec: "parse_task_spec (\<lambda>_. (sample_document, None)) (\<lambda>_. Inr sample_input) [0] StrictIngressLimits_default = Inr spec"
    "primary_substrate_hint spec = BackgroundOnly" by (auto split: sum.splits)
  have "opt_deadline SubmitOptions_unbounded = None" by code_simp
  then have "\<exists>p. plan rt spec SubmitOptions_unbounded [BlockingPool, LargeStackCapability, BackgroundOnly] OnBlockingPool = Inr p"
    using parsed_task_plannable [OF spec(1) rt, of "[BlockingPool, LargeStackCapability, BackgroundOnly]" OnBlockingPool] spec(2)
    by (simp add: entry_points_def deadline_acceptable_def)
  with rt spec(1) show ?thesis by blast
qed

lemma fold_class_policy:
  assumes "distinct (map fst es)" "\<forall>k \<in> fst ` set es. fmlookup (b_classes b) k = None"
  shows "fold (\<lambda>(cl, policy). Builder_class_policy cl policy) es b = b\<lparr>b_classes := fold (\<lambda>(k, v). fmupd k v) es (b_classes b)\<rparr>"
  using assms by (induction es arbitrary: b) (auto simp: Builder_class_policy_def image_iff)

lemma fold_capability_limit:
  assumes "distinct (map fst es)" "\<forall>k \<in> fst ` set es. fmlookup (b_capability_limits b) k = None"
  shows "fold (\<lambda>(pool, slots). Builder_capability_limit pool slots) es b =
     b\<lparr>b_capability_limits := fold (\<lambda>(k, v). fmupd k v) es (b_capability_limits b)\<rparr>"
  using assms by (induction es arbitrary: b) (auto simp: Builder_capability_limit_def image_iff)

lemma fold_substrate: "fold Builder_substrate rs b = b\<lparr>b_substrates := b_substrates b @ rs\<rparr>"
  by (induction rs arbitrary: b) (simp_all add: Builder_substrate_def)

lemma fold_fmupd_lookup:
  "distinct (map fst es) \<Longrightarrow> fmlookup (fold (\<lambda>(k, v). fmupd k v) es m) k = (case map_of es k of Some v \<Rightarrow> Some v | None \<Rightarrow> fmlookup m k)"
proof (induction es arbitrary: m)
  case (Cons x es)
  obtain k' v where x: "x = (k', v)" by fastforce
  have "map_of es k = None" if "k = k'" using Cons.prems x that by (simp add: map_of_eq_None_iff)
  then show ?case using Cons x by (cases "k = k'") (simp_all split: option.splits)
qed simp

lemma map_of_bt_entries: "map_of (bt_entries m) k = fmlookup m k"
proof (cases "fmlookup m k")
  case None
  then show ?thesis by (simp add: map_of_eq_None_iff fmlookup_dom_iff flip: set_map)
next
  case (Some v)
  then show ?thesis by (simp add: map_of_is_SomeI set_bt_entries)
qed

lemma fold_bt_entries: "fold (\<lambda>(k, v). fmupd k v) (bt_entries m) fmempty = m"
  by (rule fmap_ext) (simp add: fold_fmupd_lookup map_of_bt_entries split: option.splits)

text \<open>A strict deployment document is registered as it was written. The builder made from it holds the document's
  topology, budget, class policies, substrates in order, and capability limits, with no registration error and no executor,
  and so differs from the default builder in what the document says alone.\<close>

theorem into_builder_faithful:
  "into_builder input =
     \<lparr>b_topology = in_topology input, b_resources = in_resources input, b_classes = in_classes input,
      b_substrates = in_extra_substrates input, b_capability_limits = in_capability_limits input,
      b_registration_error = None, b_cpu_executor = None\<rparr>"
  by (simp add: into_builder_def fold_class_policy fold_capability_limit fold_substrate fold_bt_entries
      Builder_resources_def Builder_topology_def Builder_new_def)

end
