(* ===== verification/Spec2Isabelle.thy ===== *)
theory Spec2Isabelle
  imports TM_Submit TM_Ingress
begin

text \<open>
  A verification development of taskmesh, an in-process admission governor for heterogeneous work: the contract crate
  (\<^verbatim>\<open>crates/taskmesh-contract\<close>), the engine (\<^verbatim>\<open>crates/taskmesh-engine\<close>), the Tokio host (\<^verbatim>\<open>crates/taskmesh\<close>) and the
  Rayon adapter (\<^verbatim>\<open>crates/taskmesh-rayon\<close>). File names below are relative to the \<^verbatim>\<open>src\<close> directory of the crate.

  \<^bold>\<open>The program.\<close> A host builds a runtime from a topology, a budget and one policy per task class. A submission is validated
  into a plan, which names the capabilities it charges; the governor admits it (a permit), queues it (a ticket) or refuses
  it. A promotion pass turns tickets into permits as capacity returns. The host advances a permit through its phases; the
  first advance mints a lease, and from then on only the holder of the lease token can release the permit. The engine is one
  mutex around one record; everything that runs host code (wakers) happens outside the lock, from an effect list that the
  critical section hands out. The host layer carries the permit: an execution lease whose destructor releases it moves from
  the caller's frame to a worker, to the channel and back to the caller.

  \<^bold>\<open>Conventions.\<close> A struct is a record, an enum a datatype with the same constructors, a method a function that returns the
  new state. An error is the left summand of \<open>result\<close>, and an \<open>expect\<close> that could fail is a value of its own, shown
  not to occur where the code relies on it. Unsigned integers are natural numbers with explicit maxima: saturating and checked operations are
  written out with their width, and where the source uses a plain addition the invariants give the bound that makes it
  exact. A \<open>BTreeMap\<close> is a finite map with ordered iteration. Strings are lists of Unicode scalar values.

  \<^bold>\<open>Contract.\<close>
  \<^item> \<open>TM_Prelude\<close>: strings, bounded arithmetic, ordered maps, sums over maps, the \<open>result\<close> monad and the lemma collections.
  \<^item> \<open>TM_Resource\<close> (\<^verbatim>\<open>resource.rs\<close>), \<open>TM_Policy\<close> (\<^verbatim>\<open>policy.rs\<close>), \<open>TM_Topology\<close> (\<^verbatim>\<open>topology.rs\<close>), \<open>TM_Verdict\<close>
    (\<^verbatim>\<open>verdict.rs\<close>), \<open>TM_Task\<close> (\<^verbatim>\<open>task.rs\<close>, \<^verbatim>\<open>validation.rs\<close>) and \<open>TM_Snapshot\<close> (\<^verbatim>\<open>snapshot.rs\<close>): the data and its
    validators. A task plan is accepted exactly when a declarative predicate holds of the specification.

  \<^bold>\<open>Engine.\<close>
  \<^item> \<open>TM_Shared\<close> (\<^verbatim>\<open>shared/mod.rs\<close>, \<^verbatim>\<open>features/inventory/mod.rs\<close>): identities, requirement sets, capability and substrate
    registries, the policy set.
  \<^item> \<open>TM_State\<close> (\<^verbatim>\<open>engine/state.rs\<close>): the record behind the mutex and the class queue with its arrival indexes; the locale
    \<open>arrival_queue\<close> is the contract of that queue, and the index agrees with a linear scan.
  \<^item> \<open>TM_Transition\<close> (\<^verbatim>\<open>engine/state/transition.rs\<close>): grant, unwind, release, phases, terminal outcomes, recursion guard.
  \<^item> \<open>TM_Pending\<close> (\<^verbatim>\<open>features/composite\<close>, \<^verbatim>\<open>features/admission/pending.rs\<close>) and \<open>TM_Admission\<close> (\<^verbatim>\<open>features/admission/mod.rs\<close>):
    blockers, wait cycles, the admission decision with its single degrade.
  \<^item> \<open>TM_Fairness\<close> (\<^verbatim>\<open>features/fairness\<close>) and \<open>TM_Selection\<close>: tags and the choice of the next class; the locale
    \<open>class_scheduler\<close> is what promotion relies on. Selection is work conserving, sound and least-key, and the arithmetic
    deficit round robin equals the ring walk it replaces.
  \<^item> \<open>TM_Memory\<close> (\<^verbatim>\<open>features/memory/mod.rs\<close>): reconciliation, stage release, leak sweep.
  \<^item> \<open>TM_Promotion\<close>, \<open>TM_Governor\<close>, \<open>TM_Entry\<close> (\<^verbatim>\<open>engine/governor.rs\<close>, \<^verbatim>\<open>engine/governor/memory_governance.rs\<close>): promotion
    passes, the public operations as compositions of their critical sections, the constructors and admission entry points.
  \<^item> \<open>TM_Validation\<close> (\<^verbatim>\<open>engine/governor/validation.rs\<close>): a policy is accepted exactly when it is coherent.
  \<^item> \<open>TM_Observation\<close> (\<^verbatim>\<open>engine/governor/observation.rs\<close>): snapshot, ticket and ledger views.

  \<^bold>\<open>The running engine.\<close> \<open>TM_Accounting\<close> (ledgers are sums over the live permits), \<open>TM_Invariant\<close> (structure),
  \<open>TM_Occupancy\<close> (exclusive keys) and \<open>TM_Tickets\<close> (life of a ticket) make up the invariant \<open>gov_inv\<close>. \<open>TM_Sections\<close> states what
  a critical section guarantees as the locale \<open>custody_section\<close>, interpreted on every section in \<open>TM_Custody\<close>. \<open>TM_Identity\<close>
  (locale \<open>id_space\<close>) accounts for identities taken outside the lock. \<open>TM_World\<close> is the step relation: one lock is one step,
  any thread may step between two locks of an operation, and \<open>reachable\<close> is what that relation reaches from the initial
  state. \<open>TM_Guarantees\<close>, \<open>TM_Outcomes\<close> and \<open>TM_Liveness\<close> hold the results: ledgers agree, limits hold, leases end by their
  token, tickets move forward, closing is final, release and advance refine an abstract custody machine, a grant and its
  release restore every ledger, wait cycles are real at intake and in the queue, promotion ends and leaves nothing runnable, and whoever leaves the queue is woken.

  \<^bold>\<open>Host.\<close>
  \<^item> \<open>TM_Plan\<close> (\<^verbatim>\<open>executor/cancel.rs\<close>, \<^verbatim>\<open>execution_plan.rs\<close>): options, the acquisition arbiter, the dispatch preflight. A plan
    charges the pools its execution occupies.
  \<^item> \<open>TM_Builder\<close> (\<^verbatim>\<open>builder.rs\<close>, \<^verbatim>\<open>executor/tokio_exec.rs\<close>, the contract's \<^verbatim>\<open>ports.rs\<close> and \<^verbatim>\<open>config.rs\<close>, and \<^verbatim>\<open>lib.rs\<close> of
    \<^verbatim>\<open>taskmesh-rayon\<close>): a built runtime has the resolved worker counts as its limits and plans every well-formed task whose
    substrate, stack and deadline it can honour.
  \<^item> \<open>TM_Lease\<close> (\<^verbatim>\<open>runtime.rs\<close>, \<^verbatim>\<open>runtime/detached.rs\<close>): lease, ticket guard, detached and requested-stack workers, the caller's
    races. \<open>hosted\<close> follows one lease through the steps of other threads. A value is delivered after its permit left the engine.
  \<^item> \<open>TM_Acquire\<close> (\<^verbatim>\<open>runtime/acquisition.rs\<close>, \<^verbatim>\<open>runtime/drain.rs\<close>): acquisition with its ticket guard, and draining. An
    acquisition ends with a live permit or with nothing, a permit already claimed included; a drained runtime stays drained; no wake-up of the drain is lost.
  \<^item> \<open>TM_Submit\<close> (\<^verbatim>\<open>runtime/synchronous.rs\<close> and the async entry points of \<^verbatim>\<open>runtime.rs\<close>): the handoff to a pool, a thread or
    an executor and every failure of it. \<open>submission\<close> is one submission among other threads, from its permit to the last
    owner of the lease; no submission leaks capacity and none runs without it.
  \<^item> \<open>TM_Ingress\<close> (\<^verbatim>\<open>ingress.rs\<close>): the strict scan accepts exactly the well-shaped documents, each rejection is in the
    document, and the planner of a built runtime refuses a parsed task for its entry point, a missing stack request or its
    deadline only.

  \<^bold>\<open>Bounds.\<close> An admission enters the step relation while fewer than \<open>2^32 - 1\<close> permits and queued requests are live: the
  source counts them in 32 bits and saturates, so beyond that its ledgers cannot be exact. Identities come from 64-bit
  counters that refuse when exhausted; nothing is assumed of them. A promotion pass grants at most \<open>PROMOTION_BUDGET\<close> (64)
  permits; the continuation loop is a function that ends because each pass that asks for another has shortened the queue.
  The reference ring walk of the deficit round robin has fuel of \<open>2^32\<close> rounds, and it is proved to return within them. The
  ancestor walk of the wait-cycle check ends because each round marks a live permit it has not seen.

  \<^bold>\<open>Parameters.\<close> Sampled clock readings, whether host wakers panic, the machine's parallelism, the process-wide counters, the set
  of cancelled tokens, the timers that have fired, what a one-shot receiver finds, what a closure returns (or that it panics), whether a thread
  can be created and whether an executor unwinds, the constructor of the Rayon pool, and the JSON reader with the derived
  decoders are arguments of the definitions that read them. The theorems hold for every value of these arguments unless they say otherwise.

  \<^bold>\<open>Granularity.\<close> Each action of \<open>submission\<close> is one engine operation, shown to be a sequence of engine steps (\<open>drop_steps\<close>,
  \<open>advance_steps\<close>); other threads step between the actions and not inside one. A handoff that fails is one action as well,
  although it may advance a phase before it drops the lease. A panic that the engine re-raises after its effects are drained only replaces the returned value, so the state is
  the one the operation would have returned.

  \<^bold>\<open>Not modelled.\<close> Display texts and serde derives (formatting); the traits of \<^verbatim>\<open>ports.rs\<close> and \<^verbatim>\<open>runtime.rs\<close> of the contract,
  which declare interfaces and hold no behaviour; \<^verbatim>\<open>sync.rs\<close> of the engine, which selects the mutex and atomics of the model
  checker; the work counters compiled for tests only; the elapsed times in drain reports; the scheduling of futures
  by Tokio and of jobs by Rayon, which is third-party code, so a future is modelled by what one poll of it answers; the
  benchmark crate, the release tools and the fuzz targets, which measure, run or drive the public interface from outside
  and hold no part of the governor.
\<close>

end
